(* ===== verification/Prelude.thy ===== *)
theory Prelude
  imports Main "HOL-Library.Word" "HOL-Library.Monad_Syntax"
begin

text \<open>
  Prelude of the development: the machine types of the C sources, the memory model the
  components share and the calculus in which memory safety and functional behaviour are stated.

  \<^item> \<^bold>\<open>Types.\<close> \<open>uint8_t\<close>, \<open>uint16_t\<close>, \<open>uint32_t\<close>, \<open>uint64_t\<close> are words of that width.
    A \<open>size_t\<close> that only counts bytes of a buffer is a \<open>nat\<close>; where the source subtracts two
    of them and the difference can be negative the wrap-around is written out (\<open>size_sub\<close>).
  \<^item> \<^bold>\<open>Memory.\<close> A buffer is the list of its bytes and a pointer into it an index. Every
    access is checked: an access outside the buffer is \<open>None\<close>, "the C program has undefined
    behaviour here". A function that touches memory therefore returns an \<open>option\<close>, and \<open>None\<close>
    is never used for an error the source reports itself: those are values.
  \<^item> \<^bold>\<open>Calculus.\<close> \<open>returns m P\<close> says that \<open>m\<close> has no undefined behaviour and that its result
    satisfies \<open>P\<close>; the rules in \<open>ret_simps\<close> compute it along a \<open>do\<close> block.
\<close>

unbundle bit_operations_syntax

named_theorems ret_simps \<open>rules that push \<open>returns\<close> through a program\<close>
named_theorems mem_simps \<open>facts on checked memory accesses\<close>

type_synonym byte = "8 word"
type_synonym u8 = "8 word"
type_synonym u16 = "16 word"
type_synonym u32 = "32 word"
type_synonym u64 = "64 word"

lemma unat_u8_less: "unat (v :: u8) < 256"
proof -
  have "unat v < 2 ^ LENGTH(8)" by (rule unsigned_less)
  then show ?thesis by simp
qed

lemma unat_u16_less: "unat (v :: u16) < 65536"
proof -
  have "unat v < 2 ^ LENGTH(16)" by (rule unsigned_less)
  then show ?thesis by simp
qed

lemma unat_u32_less: "unat (v :: u32) < 4294967296"
proof -
  have "unat v < 2 ^ LENGTH(32)" by (rule unsigned_less)
  then show ?thesis by simp
qed

lemma of_nat_mod_ring: "(of_nat n :: 'a::comm_ring_1) - of_nat (n div k) * of_nat k = of_nat (n mod k)"
proof -
  have "(of_nat n :: 'a) = of_nat (n div k * k + n mod k)" by simp
  then show ?thesis by (simp only: of_nat_add of_nat_mult) simp
qed

lemma u8_eqI: "unat v = n \<Longrightarrow> v = of_nat n" for v :: u8
  by (metis of_nat_unat ucast_id)

lemma unat_ucast_u8_u32: "unat (ucast val :: u32) = unat val" for val :: u8
  using unat_u8_less [of val] by (simp add: unsigned_ucast_eq take_bit_eq_mod)

lemma unat_drop_bit: "unat (drop_bit k w) = unat w div 2 ^ k" for w :: "'a::len word"
  by (subst unsigned_drop_bit_eq) (simp only: unsigned_take_bit_eq [symmetric] take_bit_length_eq drop_bit_eq_div)

lemma bit_u8_high [simp]: "8 \<le> n \<Longrightarrow> \<not> bit (b :: u8) n"
  by (auto dest: bit_imp_le_length)

text \<open>String literals of the source, as the bytes of their characters.\<close>

definition str :: "string \<Rightarrow> byte list" where
  "str s = map of_char s"

lemma length_str [simp]: "length (str s) = length s"
  by (simp add: str_def)

lemma str_Nil [simp]: "str [] = []"
  by (simp add: str_def)

lemma str_Cons: "str (c # s) = of_char c # str s"
  by (simp add: str_def)

section \<open>Programs that may have undefined behaviour\<close>

definition returns :: "'a option \<Rightarrow> ('a \<Rightarrow> bool) \<Rightarrow> bool" where
  "returns m P = (case m of None \<Rightarrow> False | Some x \<Rightarrow> P x)"

lemma returns_Some [ret_simps, simp]: "returns (Some x) P = P x"
  by (simp add: returns_def)

lemma returns_None [ret_simps, simp]: "returns None P = False"
  by (simp add: returns_def)

lemma returns_bind [ret_simps]: "returns (m \<bind> f) P = returns m (\<lambda>x. returns (f x) P)"
  by (cases m) (simp_all add: returns_def)

lemma returns_if [ret_simps]:
  "returns (if b then m else n) P = ((b \<longrightarrow> returns m P) \<and> (\<not> b \<longrightarrow> returns n P))"
  by simp

lemma returns_iff: "returns m P \<longleftrightarrow> (\<exists>x. m = Some x \<and> P x)"
  by (cases m) simp_all

lemma returnsE: assumes "returns m P" obtains x where "m = Some x" "P x"
  using assms by (auto simp: returns_iff)

lemma returns_mono: "returns m P \<Longrightarrow> (\<And>x. P x \<Longrightarrow> Q x) \<Longrightarrow> returns m Q"
  by (cases m) simp_all

lemma returns_bindI:
  assumes "returns m P" and "\<And>x. P x \<Longrightarrow> returns (f x) Q"
  shows "returns (m \<bind> f) Q"
  using assms by (cases m) simp_all

lemma returns_conj: "returns m (\<lambda>x. P x \<and> Q x) \<longleftrightarrow> returns m P \<and> returns m Q"
  by (cases m) simp_all

lemma returns_True: "returns m (\<lambda>_. True) \<longleftrightarrow> m \<noteq> None"
  by (cases m) simp_all

lemma returnsD: "returns m P \<Longrightarrow> m = Some x \<Longrightarrow> P x"
  by simp

section \<open>Checked memory accesses\<close>

text \<open>One byte, a range of bytes and a store of a range. Accesses of no bytes touch nothing.\<close>

definition mem_get :: "byte list \<Rightarrow> nat \<Rightarrow> byte option" where
  "mem_get m i = (if i < length m then Some (m ! i) else None)"

definition mem_read :: "byte list \<Rightarrow> nat \<Rightarrow> nat \<Rightarrow> byte list option" where
  "mem_read m i n =
     (if n = 0 then Some [] else if i + n \<le> length m then Some (take n (drop i m)) else None)"

definition mem_write :: "byte list \<Rightarrow> nat \<Rightarrow> byte list \<Rightarrow> byte list option" where
  "mem_write m i bs =
     (if bs = [] then Some m
      else if i + length bs \<le> length m then Some (take i m @ bs @ drop (i + length bs) m)
      else None)"

lemma returns_mem_get [mem_simps]: "returns (mem_get m i) P \<longleftrightarrow> i < length m \<and> P (m ! i)"
  by (simp add: mem_get_def)

lemma returns_mem_read [mem_simps]:
  "0 < n \<Longrightarrow> returns (mem_read m i n) P \<longleftrightarrow> i + n \<le> length m \<and> P (take n (drop i m))"
  by (simp add: mem_read_def)

lemma mem_read_0 [simp]: "mem_read m i 0 = Some []"
  by (simp add: mem_read_def)

lemma mem_read_SomeI: "i + n \<le> length m \<Longrightarrow> mem_read m i n = Some (take n (drop i m))"
  by (auto simp: mem_read_def)

lemma mem_read_length: "mem_read m i n = Some bs \<Longrightarrow> length bs = n"
  by (auto simp: mem_read_def split: if_splits)

lemma mem_write_Nil [simp]: "mem_write m i [] = Some m"
  by (simp add: mem_write_def)

lemma mem_write_SomeI:
  "i + length bs \<le> length m \<Longrightarrow> mem_write m i bs = Some (take i m @ bs @ drop (i + length bs) m)"
  by (auto simp: mem_write_def)

lemma mem_write_length [mem_simps]: "mem_write m i bs = Some m' \<Longrightarrow> length m' = length m"
  by (auto simp: mem_write_def split: if_splits)

lemma returns_mem_write [mem_simps]:
  "bs \<noteq> [] \<Longrightarrow> returns (mem_write m i bs) P \<longleftrightarrow>
     i + length bs \<le> length m \<and> P (take i m @ bs @ drop (i + length bs) m)"
  by (simp add: mem_write_def)

lemma mem_write_one [mem_simps]: "i < length m \<Longrightarrow> mem_write m i [b] = Some (m[i := b])"
  by (simp add: mem_write_SomeI upd_conv_take_nth_drop)

lemma returns_mem_writeI:
  assumes "i + length bs \<le> length m"
    and "\<And>m'. length m' = length m \<Longrightarrow> take i m' = take i m \<Longrightarrow> take (length bs) (drop i m') = bs \<Longrightarrow>
           drop (i + length bs) m' = drop (i + length bs) m \<Longrightarrow> P m'"
  shows "returns (mem_write m i bs) P"
  using assms by (simp add: mem_write_SomeI)

text \<open>What a store leaves in place, and what reads back.\<close>

lemma mem_write_take:
  "mem_write m i bs = Some m' \<Longrightarrow> k \<le> i \<Longrightarrow> take k m' = take k m"
  by (auto simp: mem_write_def min_def split: if_splits)

lemma mem_write_drop:
  "mem_write m i bs = Some m' \<Longrightarrow> i + length bs \<le> k \<Longrightarrow> drop k m' = drop k m"
  by (auto simp: mem_write_def split: if_splits)

lemma mem_write_read:
  "mem_write m i bs = Some m' \<Longrightarrow> mem_read m' i (length bs) = Some bs"
  by (auto simp: mem_write_def mem_read_def split: if_splits)

lemma mem_write_nth_other:
  assumes "mem_write m i bs = Some m'" and "k < i \<or> i + length bs \<le> k" and "k < length m"
  shows "m' ! k = m ! k"
  using assms by (auto simp: mem_write_def nth_append split: if_splits)

lemma mem_write_nth_in:
  assumes "mem_write m i bs = Some m'" and "k < length bs"
  shows "m' ! (i + k) = bs ! k"
  using assms by (auto simp: mem_write_def nth_append split: if_splits)

section \<open>C strings and \<open>snprintf\<close>\<close>

text \<open>
  \<open>cstr_of\<close> is the C string that starts at the head of a byte sequence, \<open>cstr_at\<close> the C string
  at an index of a buffer: reading on past the end of a buffer without a NUL is undefined.
\<close>

definition cstr_of :: "byte list \<Rightarrow> byte list" where
  "cstr_of bs = takeWhile (\<lambda>b. b \<noteq> 0) bs"

definition cstr_at :: "byte list \<Rightarrow> nat \<Rightarrow> byte list option" where
  "cstr_at m p = (if 0 \<in> set (drop p m) then Some (cstr_of (drop p m)) else None)"

lemma cstr_of_append_nul: "0 \<notin> set s \<Longrightarrow> cstr_of (s @ 0 # t) = s"
  by (auto simp: cstr_of_def takeWhile_append)

lemma cstr_of_no_nul [simp]: "0 \<notin> set (cstr_of s)"
  by (auto simp: cstr_of_def dest: set_takeWhileD)

lemma cstr_of_id: "0 \<notin> set s \<Longrightarrow> cstr_of s = s"
  unfolding cstr_of_def by (rule takeWhile_eq_all_conv [THEN iffD2]) auto

lemma length_cstr_of: "length (cstr_of s) \<le> length s"
  by (simp add: cstr_of_def length_takeWhile_le)

text \<open>
  \<open>snprintf(m + p, avail, ...)\<close> whose expansion is \<open>s\<close>: it stores at most \<open>avail - 1\<close> bytes of
  \<open>s\<close> and a NUL, nothing when \<open>avail\<close> is 0, and returns the length of the whole expansion.
\<close>

definition snprintf_at :: "byte list \<Rightarrow> nat \<Rightarrow> nat \<Rightarrow> byte list \<Rightarrow> (nat \<times> byte list) option" where
  "snprintf_at m p avail s =
     (if avail = 0 then Some (length s, m)
      else do { m' \<leftarrow> mem_write m p (take (avail - 1) s @ [0]); Some (length s, m') })"

lemma returns_snprintf_at:
  assumes "p + avail \<le> length m"
    and "\<And>m'. length m' = length m \<Longrightarrow> take p m' = take p m \<Longrightarrow> P (length s, m')"
  shows "returns (snprintf_at m p avail s) P"
proof (cases "avail = 0")
  case True
  then show ?thesis using assms(2) [of m] by (simp add: snprintf_at_def)
next
  case False
  then have "p + length (take (avail - 1) s @ [0]) \<le> length m"
    using assms(1) by (auto simp: min_def)
  then show ?thesis
    using assms(2) False by (auto simp: snprintf_at_def mem_write_SomeI)
qed

text \<open>\<open>a - b\<close> of two \<open>size_t\<close> (or of two pointers, used as a \<open>size_t\<close>): modulo \<open>2 ^ 64\<close>.\<close>

definition size_sub :: "nat \<Rightarrow> nat \<Rightarrow> nat" where
  "size_sub a b = (if b \<le> a then a - b else 2 ^ 64 - (b - a))"

lemma size_sub_le [simp]: "b \<le> a \<Longrightarrow> size_sub a b = a - b"
  by (simp add: size_sub_def)

text \<open>Decimal and hexadecimal expansions of \<open>printf\<close> (\<open>%u\<close>, \<open>%d\<close> of a value that is not negative, \<open>%04x\<close>).\<close>

fun dec_digits :: "nat \<Rightarrow> byte list" where
  "dec_digits n = (if n < 10 then [of_nat (48 + n)] else dec_digits (n div 10) @ [of_nat (48 + n mod 10)])"

declare dec_digits.simps [simp del]

definition hex_digit :: "nat \<Rightarrow> byte" where
  "hex_digit d = of_nat (if d < 10 then 48 + d else 87 + d)"

definition hex4 :: "u16 \<Rightarrow> byte list" where
  "hex4 v = [hex_digit (unat v div 4096), hex_digit (unat v div 256 mod 16),
             hex_digit (unat v div 16 mod 16), hex_digit (unat v mod 16)]"

lemma dec_digits_not_Nil [simp]: "dec_digits n \<noteq> []"
  by (subst dec_digits.simps) simp

section \<open>Lists\<close>

lemma take_drop_append_split: "i + n \<le> length m \<Longrightarrow> drop i m = take n (drop i m) @ drop (i + n) m"
  by (metis add.commute append_take_drop_id drop_drop)

lemma nth_take_drop: "k < n \<Longrightarrow> i + n \<le> length m \<Longrightarrow> take n (drop i m) ! k = m ! (i + k)"
  by simp

lemma take_drop_2: "i + 2 \<le> length m \<Longrightarrow> take 2 (drop i m) = [m ! i, m ! (i + 1)]"
  by (rule nth_equalityI) (auto simp: less_2_cases_iff)

lemma take_drop_4:
  "i + 4 \<le> length m \<Longrightarrow> take 4 (drop i m) = [m ! i, m ! (i + 1), m ! (i + 2), m ! (i + 3)]"
  by (rule nth_equalityI) (auto simp: less_Suc_eq numeral_eq_Suc)

end
