(* ===== verification/Str_Codec.thy ===== *)
theory Str_Codec
  imports Prelude
begin

text \<open>
  The codec section of \<open>src/src/str_util.h\<close> (fast decimal and hexadecimal printers, big-endian
  encoders and decoders) and the number printers of \<open>src/src/util.c\<close>.

  A function that stores through a write pointer and returns the advanced pointer is modelled
  by the list of bytes it appends (the pointer advances by their number), and, for \<open>enc_u16\<close> and
  \<open>enc_u32\<close> which the packet encoders call, also by the store itself. The printers are proved
  equal to the reference expansions \<open>dec_digits\<close> and \<open>hex_digits\<close>; the integer codecs satisfy
  the laws of the locale \<open>byte_codec\<close>, from which the round trips of headers and records follow.
\<close>

section \<open>Printers\<close>

definition uint8_toa :: "u8 \<Rightarrow> byte list" where
  "uint8_toa val =
     (if val < 10 then [val + 48]
      else if val < 100 then
        (let d1 = ucast (drop_bit 11 ((ucast val :: u32) * 205)) :: u8;
             d2 = val - d1 * 10
         in [d1 + 48, d2 + 48])
      else
        (let d1 = ucast (drop_bit 14 ((ucast val :: u32) * 164)) :: u8;
             rem = val - d1 * 100;
             d2 = ucast (drop_bit 11 ((ucast rem :: u32) * 205)) :: u8;
             d3 = rem - d2 * 10
         in [d1 + 48, d2 + 48, d3 + 48]))"

definition uint16_toa :: "u16 \<Rightarrow> byte list" where
  "uint16_toa val =
     (if val \<ge> 10000 then [ucast (val div 10000) + 48] else []) @
     (if val \<ge> 1000 then [ucast (val div 1000 mod 10) + 48] else []) @
     (if val \<ge> 100 then [ucast (val div 100 mod 10) + 48] else []) @
     (if val \<ge> 10 then [ucast (val div 10 mod 10) + 48] else []) @
     [ucast (val mod 10) + 48]"

definition hex_tab :: "byte list" where
  "hex_tab = str ''0123456789abcdef''"

definition uint16_toax :: "u16 \<Rightarrow> byte list" where
  "uint16_toax val =
     (if val \<ge> 0x1000 then [hex_tab ! unat (drop_bit 12 val AND 0xf)] else []) @
     (if val \<ge> 0x100 then [hex_tab ! unat (drop_bit 8 val AND 0xf)] else []) @
     (if val \<ge> 0x10 then [hex_tab ! unat (drop_bit 4 val AND 0xf)] else []) @
     [hex_tab ! unat (val AND 0xf)]"

text \<open>
  \<open>char\<close> is signed on the platforms the program is built for: the argument is promoted to
  \<open>int\<close> with its sign and \<open>>> 6\<close> is arithmetic.
\<close>

definition hex_to_nibble :: "byte \<Rightarrow> u8" where
  "hex_to_nibble ch =
     (let c = scast ch :: u32; h = signed_drop_bit 6 c
      in ucast ((c AND 0xf) + h + push_bit 3 h))"

text \<open>\<open>uint8_tostr\<close>: the memory after it; \<open>p\<close> is the offset of \<open>str\<close> in it.\<close>

definition uint8_tostr :: "u8 \<Rightarrow> byte list \<Rightarrow> nat \<Rightarrow> nat \<Rightarrow> byte list option" where
  "uint8_tostr val m p len = (if len < 3 then Some m else mem_write m p (uint8_toa val @ [0]))"

section \<open>Big-endian integers\<close>

definition be16 :: "u16 \<Rightarrow> byte list" where
  "be16 value = [ucast (drop_bit 8 value), ucast value]"

definition be32 :: "u32 \<Rightarrow> byte list" where
  "be32 value = [ucast (drop_bit 24 value), ucast (drop_bit 16 value), ucast (drop_bit 8 value), ucast value]"

definition enc_u32 :: "byte list \<Rightarrow> nat \<Rightarrow> u32 \<Rightarrow> (nat \<times> byte list) option" where
  "enc_u32 m wptr value = do { m' \<leftarrow> mem_write m wptr (be32 value); Some (wptr + 4, m') }"

definition enc_u16 :: "byte list \<Rightarrow> nat \<Rightarrow> u16 \<Rightarrow> (nat \<times> byte list) option" where
  "enc_u16 m wptr value = do { m' \<leftarrow> mem_write m wptr (be16 value); Some (wptr + 2, m') }"

definition enc_mem :: "byte list \<Rightarrow> nat \<Rightarrow> byte list \<Rightarrow> (nat \<times> byte list) option" where
  "enc_mem m wptr bs = do { m' \<leftarrow> mem_write m wptr bs; Some (wptr + length bs, m') }"

definition dec_u32 :: "byte list \<Rightarrow> nat \<Rightarrow> u32 option" where
  "dec_u32 buf p = do {
     b0 \<leftarrow> mem_get buf p; b1 \<leftarrow> mem_get buf (p + 1);
     b2 \<leftarrow> mem_get buf (p + 2); b3 \<leftarrow> mem_get buf (p + 3);
     Some (push_bit 24 (ucast b0) OR push_bit 16 (ucast b1) OR push_bit 8 (ucast b2) OR ucast b3) }"

definition dec_u16 :: "byte list \<Rightarrow> nat \<Rightarrow> u16 option" where
  "dec_u16 buf p = do {
     b0 \<leftarrow> mem_get buf p; b1 \<leftarrow> mem_get buf (p + 1);
     Some (push_bit 8 (ucast b0) OR ucast b1) }"

section \<open>Number printers of \<open>util.c\<close>\<close>

text \<open>
  \<open>itoa\<close> and \<open>u32toa\<close> fill the buffer from its end. \<open>p\<close> is the index \<open>str\<close>; \<open>*--str\<close> below
  index 0 of the memory is an access outside it.
\<close>

definition put_before :: "byte list \<Rightarrow> nat \<Rightarrow> byte \<Rightarrow> (nat \<times> byte list) option" where
  "put_before m p c = (if p = 0 then None else do { m' \<leftarrow> mem_write m (p - 1) [c]; Some (p - 1, m') })"

function u32toa_loop :: "u32 \<Rightarrow> byte list \<Rightarrow> nat \<Rightarrow> (nat \<times> byte list) option" where
  "u32toa_loop val m p =
     (if val = 0 then Some (p, m)
      else do { (p', m') \<leftarrow> put_before m p (ucast (val mod 10) + 48);
                u32toa_loop (val div 10) m' p' })"
  by pat_completeness auto
termination
proof (relation "measure (\<lambda>(val, m, p). unat val)")
  fix val :: u32 and m :: "byte list" and p :: nat and x :: "nat \<times> byte list" and p' m'
  assume "val \<noteq> 0"
  then have "unat val div 10 < unat val"
    by (simp add: unat_gt_0)
  then show "((val div 10, m', p'), (val, m, p)) \<in> measure (\<lambda>(val, m, p). unat val)"
    by (simp add: unat_div_distrib)
qed simp

declare u32toa_loop.simps [simp del]

definition u32toa :: "u32 \<Rightarrow> byte list \<Rightarrow> nat option \<Rightarrow> nat \<Rightarrow> (nat option \<times> byte list) option" where
  "u32toa val m buf len =
     (case buf of None \<Rightarrow> Some (None, m) | Some b \<Rightarrow>
        if len = 0 then Some (Some b, m)
        else do {
          m1 \<leftarrow> mem_write m (b + len - 1) [0];
          (p, m2) \<leftarrow> (if val = 0 then put_before m1 (b + len - 1) 48 else Some (b + len - 1, m1));
          (p', m3) \<leftarrow> u32toa_loop val m2 p;
          Some (Some p', m3) })"

text \<open>\<open>itoa\<close>: \<open>val % 10\<close> and \<open>val /= 10\<close> on \<open>int\<close> truncate towards zero.\<close>

definition c_div10 :: "int \<Rightarrow> int" where
  "c_div10 v = (if 0 \<le> v then v div 10 else - ((- v) div 10))"

definition c_mod10 :: "int \<Rightarrow> int" where
  "c_mod10 v = v - 10 * c_div10 v"

function itoa_loop :: "int \<Rightarrow> byte list \<Rightarrow> nat \<Rightarrow> (nat \<times> byte list) option" where
  "itoa_loop val m p =
     (if val = 0 then Some (p, m)
      else do { (p', m') \<leftarrow> put_before m p (of_int (c_mod10 val + 48));
                itoa_loop (c_div10 val) m' p' })"
  by pat_completeness auto
termination
  by (relation "measure (\<lambda>(val, m, p). nat \<bar>val\<bar>)") (auto simp: c_div10_def)

declare itoa_loop.simps [simp del]

definition itoa :: "int \<Rightarrow> byte list \<Rightarrow> nat option \<Rightarrow> nat \<Rightarrow> (nat option \<times> byte list) option" where
  "itoa val m buf len =
     (case buf of None \<Rightarrow> Some (None, m) | Some b \<Rightarrow>
        if len = 0 then Some (Some b, m)
        else do {
          m1 \<leftarrow> mem_write m (b + len - 1) [0];
          (p, m2) \<leftarrow> (if val = 0 then put_before m1 (b + len - 1) 48 else Some (b + len - 1, m1));
          (p', m3) \<leftarrow> itoa_loop val m2 p;
          Some (Some p', m3) })"

text \<open>
  The static ring of 16 rows of 10 bytes that \<open>int_tostr\<close> and \<open>u32_tostr\<close> each keep. The result
  is the string the returned pointer shows when the call returns. \<open>int_tostr\<close> passes the row size
  \<open>sizeof(bufs[0])\<close>, which is 10; \<open>u32_tostr\<close> passes \<open>sizeof(bufs[0][0])\<close>, which is 1.
\<close>

record tostr_bufs =
  tb_mem :: "byte list"
  tb_idx :: nat

definition tostr_init :: tostr_bufs where
  "tostr_init = \<lparr>tb_mem = replicate 160 0, tb_idx = 0\<rparr>"

definition int_tostr :: "int \<Rightarrow> tostr_bufs \<Rightarrow> (byte list \<times> tostr_bufs) option" where
  "int_tostr val t = do {
     (p, m) \<leftarrow> itoa val (tb_mem t) (Some (10 * tb_idx t)) 10;
     s \<leftarrow> cstr_at m (the p);
     Some (s, \<lparr>tb_mem = m, tb_idx = (tb_idx t + 1) mod 16\<rparr>) }"

definition u32_tostr :: "u32 \<Rightarrow> tostr_bufs \<Rightarrow> (byte list \<times> tostr_bufs) option" where
  "u32_tostr val t = do {
     (p, m) \<leftarrow> u32toa val (tb_mem t) (Some (10 * tb_idx t)) 1;
     s \<leftarrow> cstr_at m (the p);
     Some (s, \<lparr>tb_mem = m, tb_idx = (tb_idx t + 1) mod 16\<rparr>) }"

section \<open>The printers agree with the reference expansions\<close>

lemma dec_digits_less10: "n < 10 \<Longrightarrow> dec_digits n = [of_nat (48 + n)]"
  by (subst dec_digits.simps) simp

lemma dec_digits_step: "10 \<le> n \<Longrightarrow> dec_digits n = dec_digits (n div 10) @ [of_nat (48 + n mod 10)]"
  by (subst dec_digits.simps) simp

text \<open>
  The multiplications by 205 and 164 with a shift replace divisions by 10 and 100; they are exact
  on the ranges where the branches use them.
\<close>

lemma mul205: assumes "n < 100" shows "n * 205 div 2048 = n div (10::nat)"
proof (rule div_nat_eqI)
  define q r where "q = n div 10" and "r = n mod 10"
  then have n: "n = 10 * q + r" "r < 10" "q < 10" using assms by simp_all
  then show "2048 * (n div 10) \<le> n * 205" "n * 205 < 2048 * Suc (n div 10)"
    by (simp_all flip: q_def)
qed

lemma mul164: assumes "n < 256" shows "n * 164 div 16384 = n div (100::nat)"
proof (rule div_nat_eqI)
  define q r where "q = n div 100" and "r = n mod 100"
  then have n: "n = 100 * q + r" "r < 100" "q < 3" using assms by simp_all
  then show "16384 * (n div 100) \<le> n * 164" "n * 164 < 16384 * Suc (n div 100)"
    by (simp_all flip: q_def)
qed

lemma u8_mul_shift:
  fixes val :: u8
  assumes "c < 65536"
  shows "unat (ucast (drop_bit k ((ucast val :: u32) * of_nat c)) :: u8) = unat val * c div 2 ^ k mod 256"
proof -
  have "unat val * c \<le> 255 * 65535"
    using unat_u8_less [of val] assms(1) by (intro mult_le_mono) auto
  then have "unat ((ucast val :: u32) * of_nat c) = unat val * c"
    using assms(1) by (simp add: unat_word_ariths unat_ucast_u8_u32 unat_of_nat)
  then have "unat (drop_bit k ((ucast val :: u32) * of_nat c)) = unat val * c div 2 ^ k"
    by (simp only: unat_drop_bit)
  then show ?thesis
    by (simp only: unsigned_ucast_eq take_bit_eq_mod) simp
qed

text \<open>The quotient digit the shifts compute, and the remainder left by it.\<close>

lemma tens_digit: "unat v < 100 \<Longrightarrow> ucast (drop_bit 11 ((ucast v :: u32) * 205)) = (of_nat (unat v div 10) :: u8)" for v :: u8
  using u8_mul_shift [of 205 11 v] mul205 [of "unat v"] by (intro u8_eqI) simp

lemma hundreds_digit: "ucast (drop_bit 14 ((ucast v :: u32) * 164)) = (of_nat (unat v div 100) :: u8)" for v :: u8
  using u8_mul_shift [of 164 14 v] mul164 [of "unat v"] unat_u8_less [of v] by (intro u8_eqI) simp

lemma u8_rem: "(v :: u8) - of_nat (unat v div k) * of_nat k = of_nat (unat v mod k)"
  using of_nat_mod_ring [of "unat v" k, where 'a = u8] by (simp add: of_nat_unat)

lemma uint8_toa_dec_digits: "uint8_toa val = dec_digits (unat val)"
proof -
  let ?n = "unat val"
  have n: "?n < 256" by (rule unat_u8_less)
  have v: "val = of_nat ?n" by (rule u8_eqI) simp
  consider "?n < 10" | "10 \<le> ?n" "?n < 100" | "100 \<le> ?n" by linarith
  then show ?thesis
  proof cases
    case 1
    then have "val < 10" by (simp add: word_less_nat_alt)
    with 1 v show ?thesis by (simp add: uint8_toa_def dec_digits_less10 add.commute)
  next
    case 2
    then have "\<not> val < 10" "val < 100" by (simp_all add: word_less_nat_alt)
    with 2 show ?thesis
      using u8_rem [of val 10]
      by (simp add: uint8_toa_def Let_def tens_digit dec_digits_less10 dec_digits_step add.commute)
  next
    case 3
    define r :: u8 where "r = of_nat (?n mod 100)"
    have r: "unat r = ?n mod 100" by (simp add: r_def unat_of_nat)
    have "\<not> val < 10" "\<not> val < 100" using 3 by (simp_all add: word_less_nat_alt)
    moreover have "val - of_nat (?n div 100) * 100 = r" using u8_rem [of val 100] by (simp add: r_def)
    moreover have "r - of_nat (?n mod 100 div 10) * 10 = of_nat (?n mod 10)"
      using u8_rem [of r 10] r by (simp add: mod_mod_cancel)
    moreover have "?n mod 100 div 10 = ?n div 10 mod 10" using mod_mult2_eq [of ?n 10 10] by simp
    ultimately show ?thesis
      using 3 n r by (simp add: uint8_toa_def Let_def hundreds_digit tens_digit dec_digits_less10
          dec_digits_step add.commute div_mult2_eq [symmetric])
  qed
qed

lemma length_uint8_toa: "1 \<le> length (uint8_toa val)" "length (uint8_toa val) \<le> 3"
  by (simp_all add: uint8_toa_def Let_def)

lemma dec_digits_5:
  assumes "n < 100000"
  shows "dec_digits n =
    (if n \<ge> 10000 then [of_nat (48 + n div 10000)] else []) @
    (if n \<ge> 1000 then [of_nat (48 + n div 1000 mod 10)] else []) @
    (if n \<ge> 100 then [of_nat (48 + n div 100 mod 10)] else []) @
    (if n \<ge> 10 then [of_nat (48 + n div 10 mod 10)] else []) @
    [of_nat (48 + n mod 10)]"
proof -
  have d: "n div 10 div 10 = n div 100" "n div 100 div 10 = n div 1000"
    "n div 1000 div 10 = n div 10000" by (simp_all add: div_mult2_eq [symmetric])
  consider "n < 10" | "10 \<le> n" "n < 100" | "100 \<le> n" "n < 1000" | "1000 \<le> n" "n < 10000"
    | "10000 \<le> n" by linarith
  then show ?thesis
    by cases (use assms in \<open>simp_all add: dec_digits_less10 dec_digits_step d\<close>)
qed

lemma uint16_toa_dec_digits: "uint16_toa val = dec_digits (unat val)"
proof -
  have lt: "unat val < 100000" using unat_u16_less [of val] by simp
  have c: "(ucast w :: u8) + 48 = of_nat (48 + unat w)" for w :: u16
    by (simp add: of_nat_unat)
  show ?thesis
    unfolding uint16_toa_def c dec_digits_5 [OF lt]
    by (simp add: unat_div_distrib unat_mod_distrib word_le_nat_alt)
qed

fun hex_digits :: "nat \<Rightarrow> byte list" where
  "hex_digits n = (if n < 16 then [hex_digit n] else hex_digits (n div 16) @ [hex_digit (n mod 16)])"

declare hex_digits.simps [simp del]

lemma hex_digits_less16: "n < 16 \<Longrightarrow> hex_digits n = [hex_digit n]"
  by (subst hex_digits.simps) simp

lemma hex_digits_step: "16 \<le> n \<Longrightarrow> hex_digits n = hex_digits (n div 16) @ [hex_digit (n mod 16)]"
  by (subst hex_digits.simps) simp

lemma hex_tab_eq: "hex_tab = map hex_digit [0..<16]"
  by code_simp

lemma hex_tab_nth: "n < 16 \<Longrightarrow> hex_tab ! n = hex_digit n"
  by (simp add: hex_tab_eq)

lemma unat_and_15: "unat (w AND 15) = unat w mod 16" for w :: "'a::len word"
proof -
  have "w AND 15 = take_bit 4 w" by (simp add: take_bit_eq_mask mask_numeral)
  then have "unat (w AND 15) = take_bit 4 (unat w)" by (simp only: unsigned_take_bit_eq)
  then show ?thesis by (simp add: take_bit_eq_mod)
qed

lemma uint16_toax_hex_digits: "uint16_toax val = hex_digits (unat val)"
proof -
  let ?n = "unat val"
  have d: "?n div 16 div 16 = ?n div 256" "?n div 256 div 16 = ?n div 4096"
    by (simp_all add: div_mult2_eq [symmetric])
  have b: "?n < 65536" by (rule unat_u16_less)
  consider "?n < 16" | "16 \<le> ?n" "?n < 256" | "256 \<le> ?n" "?n < 4096" | "4096 \<le> ?n" by linarith
  then show ?thesis
    by cases (use b in \<open>simp_all add: uint16_toax_def word_le_nat_alt hex_tab_nth unat_and_15 unat_drop_bit
        hex_digits_less16 hex_digits_step d\<close>)
qed

lemma hex_to_nibble_digits:
  "map hex_to_nibble (str ''0123456789abcdefABCDEF'') =
     [0, 1, 2, 3, 4, 5, 6, 7, 8, 9, 10, 11, 12, 13, 14, 15, 10, 11, 12, 13, 14, 15]"
  by code_simp

section \<open>Fixed-width codecs\<close>

text \<open>
  The interface the packet and file formats rely on: a value has exactly one encoding, of fixed
  width, and the decoder reads exactly those bytes, failing only when they are not all there.
\<close>

locale byte_codec =
  fixes enc :: "'a \<Rightarrow> byte list"
    and dec :: "byte list \<Rightarrow> nat \<Rightarrow> 'a option"
    and width :: nat
  assumes width_pos: "0 < width"
    and enc_width: "length (enc x) = width"
    and dec_enc: "p + width \<le> length m \<Longrightarrow> take width (drop p m) = enc x \<Longrightarrow> dec m p = Some x"
    and dec_inv: "dec m p = Some x \<Longrightarrow> p + width \<le> length m \<and> take width (drop p m) = enc x"
    and dec_total: "p + width \<le> length m \<Longrightarrow> dec m p \<noteq> None"
begin

lemma dec_None_iff: "dec m p = None \<longleftrightarrow> length m < p + width"
  using dec_total [of p m] dec_inv [of m p] by (cases "dec m p") force+

lemma dec_append: "length pre = p \<Longrightarrow> dec (pre @ enc x @ post) p = Some x"
  by (rule dec_enc) (simp_all add: enc_width)

lemma dec_written: "mem_write m p (enc x) = Some m' \<Longrightarrow> dec m' p = Some x"
  using width_pos enc_width [of x]
  by (intro dec_enc) (auto simp: mem_write_def split: if_splits)

lemma dec_cong:
  assumes "length m' = length m" and "take width (drop q m') = take width (drop q m)"
  shows "dec m' q = dec m q"
proof (cases "dec m q")
  case None
  with assms(1) show ?thesis using dec_None_iff by metis
next
  case (Some x)
  with assms dec_inv [OF Some] show ?thesis by (simp add: dec_enc)
qed

lemma dec_frame:
  assumes w: "mem_write m p bs = Some m'" and d: "q + width \<le> p \<or> p + length bs \<le> q"
  shows "dec m' q = dec m q"
  using d
proof
  assume "q + width \<le> p"
  then have "take (q + width) m' = take (q + width) m" by (rule mem_write_take [OF w])
  then show ?thesis by (intro dec_cong mem_write_length [OF w]) (metis take_drop add.commute)
next
  assume "p + length bs \<le> q"
  then show ?thesis by (intro dec_cong mem_write_length [OF w]) (simp add: mem_write_drop [OF w])
qed

lemma enc_inj: "enc x = enc y \<Longrightarrow> x = y"
  using dec_append [of "[]" 0 x "[]"] dec_append [of "[]" 0 y "[]"] by simp

end

lemma be16_rebuild: "push_bit 8 (ucast (ucast (drop_bit 8 v) :: u8)) OR ucast (ucast v :: u8) = (v :: u16)"
  by (rule bit_word_eqI) (auto simp: bit_simps)

interpretation be16: byte_codec be16 dec_u16 2
proof
  show "length (be16 x) = 2" for x by (simp add: be16_def)
  show "0 < (2::nat)" by simp
next
  fix p m x assume a: "p + 2 \<le> length m" and b: "take 2 (drop p m) = be16 x"
  then have "m ! p = ucast (drop_bit 8 x)" "m ! (p + 1) = ucast x"
    by (simp_all add: take_drop_2 be16_def)
  then show "dec_u16 m p = Some x"
    using a by (simp add: dec_u16_def mem_get_def be16_rebuild)
next
  fix p m x assume "dec_u16 m p = Some x"
  then have l: "p + 2 \<le> length m" and x: "x = push_bit 8 (ucast (m ! p)) OR ucast (m ! (p + 1))"
    by (auto simp: dec_u16_def mem_get_def split: if_splits bind_splits)
  have "be16 x = [m ! p, m ! (p + 1)]"
    unfolding be16_def x by (auto intro!: bit_word_eqI simp: bit_simps)
  with l show "p + 2 \<le> length m \<and> take 2 (drop p m) = be16 x" by (simp add: take_drop_2)
qed (auto simp: dec_u16_def mem_get_def)

lemma be32_rebuild:
  "push_bit 24 (ucast (ucast (drop_bit 24 v) :: u8)) OR push_bit 16 (ucast (ucast (drop_bit 16 v) :: u8)) OR
   push_bit 8 (ucast (ucast (drop_bit 8 v) :: u8)) OR ucast (ucast v :: u8) = (v :: u32)"
proof (rule bit_word_eqI)
  fix n assume "n < LENGTH(32)"
  then consider "n < 8" | "8 \<le> n" "n < 16" | "16 \<le> n" "n < 24" | "24 \<le> n" "n < 32" by force
  then show "bit (push_bit 24 (ucast (ucast (drop_bit 24 v) :: u8)) OR push_bit 16 (ucast (ucast (drop_bit 16 v) :: u8)) OR
     push_bit 8 (ucast (ucast (drop_bit 8 v) :: u8)) OR ucast (ucast v :: u8) :: u32) n = bit v n"
    by cases (auto simp: bit_simps)
qed

interpretation be32: byte_codec be32 dec_u32 4
proof
  show "length (be32 x) = 4" for x by (simp add: be32_def)
  show "0 < (4::nat)" by simp
next
  fix p m x assume a: "p + 4 \<le> length m" and b: "take 4 (drop p m) = be32 x"
  then have "m ! p = ucast (drop_bit 24 x)" "m ! (p + 1) = ucast (drop_bit 16 x)"
    "m ! (p + 2) = ucast (drop_bit 8 x)" "m ! (p + 3) = ucast x"
    by (simp_all add: take_drop_4 be32_def)
  then show "dec_u32 m p = Some x"
    using a by (simp add: dec_u32_def mem_get_def be32_rebuild)
next
  fix p m x assume "dec_u32 m p = Some x"
  then have l: "p + 4 \<le> length m" and x: "x = push_bit 24 (ucast (m ! p)) OR push_bit 16 (ucast (m ! (p + 1)))
      OR push_bit 8 (ucast (m ! (p + 2))) OR ucast (m ! (p + 3))"
    by (auto simp: dec_u32_def mem_get_def split: if_splits bind_splits)
  have "be32 x = [m ! p, m ! (p + 1), m ! (p + 2), m ! (p + 3)]"
    unfolding be32_def x by (auto intro!: bit_word_eqI simp: bit_simps)
  with l show "p + 4 \<le> length m \<and> take 4 (drop p m) = be32 x" by (simp add: take_drop_4)
qed (auto simp: dec_u32_def mem_get_def)

section \<open>Numbers printed into a buffer\<close>

lemma put_before_Some:
  "0 < p \<Longrightarrow> p \<le> length m \<Longrightarrow> put_before m p c = Some (p - 1, take (p - 1) m @ c # drop p m)"
  by (auto simp: put_before_def mem_write_SomeI)

lemma length_dec_digits: "n < 10 ^ k \<Longrightarrow> 0 < k \<Longrightarrow> length (dec_digits n) \<le> k"
proof (induction k arbitrary: n)
  case 0
  then show ?case by simp
next
  case (Suc k)
  show ?case
  proof (cases "n < 10")
    case True
    then show ?thesis by (simp add: dec_digits_less10)
  next
    case False
    with Suc.prems have "n div 10 < 10 ^ k" "0 < k"
      by (auto intro: less_mult_imp_div_less simp: mult.commute intro!: Nat.gr0I)
    with Suc.IH False show ?thesis by (simp add: dec_digits_step)
  qed
qed

lemma dec_digits_range: "set (dec_digits n) \<subseteq> {48..57}"
proof (induction n rule: dec_digits.induct)
  case (1 n)
  have d: "(of_nat (48 + k) :: byte) \<in> {48..57}" if "k < 10" for k
    using that by (auto simp: word_le_nat_alt unat_of_nat unat_word_ariths)
  show ?case
  proof (cases "n < 10")
    case True
    then show ?thesis using d [of n] by (simp add: dec_digits_less10)
  next
    case False
    then show ?thesis using 1 d [of "n mod 10"] by (simp add: dec_digits_step)
  qed
qed

lemma dec_digits_no_nul [simp]: "0 \<notin> set (dec_digits n)"
  using dec_digits_range [of n] by auto

lemma ucast_u32_u8: "(ucast w :: u8) = of_nat (unat w)" for w :: u32
  by (metis of_nat_unat)

lemma u32toa_loop_digits:
  assumes "val \<noteq> 0 \<Longrightarrow> length (dec_digits (unat val)) \<le> p" and "p \<le> length m"
  defines "ds \<equiv> if val = 0 then [] else dec_digits (unat val)"
  shows "u32toa_loop val m p = Some (p - length ds, take (p - length ds) m @ ds @ drop p m)"
  using assms(1,2) unfolding ds_def
proof (induction val m p rule: u32toa_loop.induct)
  case (1 val m p)
  show ?case
  proof (cases "val = 0")
    case True
    then show ?thesis using 1 by (simp add: u32toa_loop.simps [of 0 m p])
  next
    case False
    define d :: byte where "d = ucast (val mod 10) + 48"
    define ds' where "ds' = (if val div 10 = 0 then [] else dec_digits (unat (val div 10)))"
    have d: "d = of_nat (48 + unat val mod 10)"
      by (simp add: d_def ucast_u32_u8 unat_mod_distrib)
    have dsv: "dec_digits (unat val) = ds' @ [d]"
    proof (cases "unat val < 10")
      case True
      then have "val div 10 = 0" by (simp add: unat_eq_zero [symmetric] unat_div_distrib)
      with True show ?thesis by (simp add: dec_digits_less10 d ds'_def)
    next
      case 2: False
      then have "val div 10 \<noteq> 0" by (simp add: unat_eq_zero [symmetric] unat_div_distrib div_eq_0_iff)
      with 2 show ?thesis by (simp add: dec_digits_step d ds'_def unat_div_distrib)
    qed
    have p: "0 < p" and p': "length ds' \<le> p - 1" using 1(2) False dsv by auto
    define m1 where "m1 = take (p - 1) m @ d # drop p m"
    have pb: "put_before m p (ucast (val mod 10) + 48) = Some (p - 1, m1)"
      using put_before_Some [OF p 1(3)] by (simp add: d_def m1_def)
    have lm1: "length m1 = length m" using p 1(3) by (simp add: m1_def)
    have "u32toa_loop (val div 10) m1 (p - 1) =
      Some (p - 1 - length ds', take (p - 1 - length ds') m1 @ ds' @ drop (p - 1) m1)"
      using 1(1) [OF False, of "(p - 1, m1)" "p - 1" m1] p' 1(3) p pb lm1
      unfolding ds'_def by (auto split: if_splits)
    also have "take (p - 1 - length ds') m1 = take (p - 1 - length ds') m"
      using p 1(3) by (simp add: m1_def min_def)
    also have "drop (p - 1) m1 = d # drop p m"
      using p 1(3) by (simp add: m1_def)
    finally show ?thesis
      using False pb dsv by (simp add: u32toa_loop.simps [of val m p])
  qed
qed

lemma u32toa_digits:
  assumes "length (dec_digits (unat val)) < b + len" "0 < len" "b + len \<le> length m"
  shows "returns (u32toa val m (Some b) len)
           (\<lambda>(p, m'). p = Some (b + len - 1 - length (dec_digits (unat val))) \<and>
              m' = take (the p) m @ dec_digits (unat val) @ 0 # drop (b + len) m)"
proof -
  let ?e = "b + len - 1" and ?ds = "dec_digits (unat val)"
  let ?m1 = "take ?e m @ 0 # drop (b + len) m"
  have w: "mem_write m ?e [0] = Some ?m1" using assms by (simp add: mem_write_SomeI)
  show ?thesis
  proof (cases "val = 0")
    case True
    have "put_before ?m1 ?e 48 = Some (?e - 1, take (?e - 1) m @ 48 # 0 # drop (b + len) m)"
      using assms True by (subst put_before_Some) (auto simp: dec_digits_less10 min_def)
    then show ?thesis
      using True assms w by (simp add: u32toa_def u32toa_loop.simps [of 0] dec_digits_less10)
  next
    case False
    have "u32toa_loop val ?m1 ?e = Some (?e - length ?ds, take (?e - length ?ds) ?m1 @ ?ds @ drop ?e ?m1)"
      using u32toa_loop_digits [of val ?e ?m1] False assms by simp
    also have "take (?e - length ?ds) ?m1 = take (?e - length ?ds) m" using assms by simp
    also have "drop ?e ?m1 = 0 # drop (b + len) m" using assms by simp
    finally show ?thesis
      using False assms w by (simp add: u32toa_def)
  qed
qed

lemma itoa_loop_u32: "n < 2 ^ 32 \<Longrightarrow> itoa_loop (int n) m p = u32toa_loop (of_nat n) m p"
proof (induction n arbitrary: m p rule: less_induct)
  case (less n)
  have u: "unat (of_nat n :: u32) = n" using less.prems by (simp add: unat_of_nat)
  have z: "(of_nat n :: u32) = 0 \<longleftrightarrow> n = 0" using u by (metis unat_eq_zero)
  have dv: "(of_nat n :: u32) div 10 = of_nat (n div 10)"
    using u less.prems by (simp add: word_unat_eq_iff unat_div_distrib unat_of_nat)
  have md: "(ucast ((of_nat n :: u32) mod 10) :: u8) + 48 = of_int (c_mod10 (int n) + 48)"
  proof -
    have "c_mod10 (int n) + 48 = int (48 + n mod 10)"
      by (simp add: c_mod10_def c_div10_def zmod_int minus_mult_div_eq_mod)
    then show ?thesis
      by (simp only: ucast_u32_u8 unat_mod_distrib u of_int_of_nat_eq) simp
  qed
  have cd: "c_div10 (int n) = int (n div 10)" by (simp add: c_div10_def zdiv_int)
  show ?case
  proof (cases "n = 0")
    case False
    then have IH: "itoa_loop (int (n div 10)) m' p' = u32toa_loop (of_nat (n div 10)) m' p'" for m' p'
      using less by simp
    show ?thesis
      unfolding itoa_loop.simps [of "int n"] u32toa_loop.simps [of "of_nat n"] dv md cd IH
      using False z by simp
  qed (simp add: itoa_loop.simps [of 0] u32toa_loop.simps [of 0])
qed

lemma itoa_u32toa: "n < 2 ^ 32 \<Longrightarrow> itoa (int n) m buf len = u32toa (of_nat n) m buf len"
proof -
  assume n: "n < 2 ^ 32"
  then have "unat (of_nat n :: u32) = n" by (simp add: unat_of_nat)
  then have "((of_nat n :: u32) = 0) = (n = 0)" by (metis unat_eq_zero)
  then have z: "((of_nat n :: u32) = 0) = (int n = 0)" by (simp only: of_nat_eq_0_iff)
  show ?thesis
    unfolding itoa_def u32toa_def itoa_loop_u32 [OF n] z ..
qed

lemma cstr_at_written:
  "p = length pre \<Longrightarrow> 0 \<notin> set s \<Longrightarrow> cstr_at (pre @ s @ 0 # post) p = Some s"
  by (simp add: cstr_at_def cstr_of_append_nul)

lemma tostr_row:
  assumes "length (dec_digits (unat val)) < 10 * i + len" "0 < len" "10 * i + len \<le> length m"
  shows "returns (u32toa val m (Some (10 * i)) len)
           (\<lambda>(p, m'). length m' = length m \<and> cstr_at m' (the p) = Some (dec_digits (unat val)))"
  by (rule returns_mono [OF u32toa_digits [OF assms]])
     (use assms in \<open>auto intro!: cstr_at_written\<close>)

lemma int_tostr_digits:
  assumes "n < 10 ^ 9" "tb_idx t < 16" "length (tb_mem t) = 160"
  shows "returns (int_tostr (int n) t) (\<lambda>(s, t'). s = dec_digits n \<and> length (tb_mem t') = 160 \<and> tb_idx t' < 16)"
proof -
  have u: "unat (of_nat n :: u32) = n" using assms(1) by (simp add: unat_of_nat)
  have "length (dec_digits n) \<le> 9" using assms(1) by (intro length_dec_digits) auto
  then have "returns (u32toa (of_nat n) (tb_mem t) (Some (10 * tb_idx t)) 10)
      (\<lambda>(p, m'). length m' = 160 \<and> cstr_at m' (the p) = Some (dec_digits n))"
    using tostr_row [of "of_nat n" "tb_idx t" 10 "tb_mem t"] assms u by simp
  then show ?thesis
    using assms(1) by (auto simp: int_tostr_def itoa_u32toa returns_iff)
qed

lemma u32_tostr_digits:
  assumes "0 < tb_idx t" "tb_idx t < 16" "length (tb_mem t) = 160"
  shows "returns (u32_tostr val t) (\<lambda>(s, t'). s = dec_digits (unat val) \<and> length (tb_mem t') = 160 \<and> tb_idx t' < 16)"
proof -
  have "length (dec_digits (unat val)) \<le> 10" using unat_u32_less [of val] by (intro length_dec_digits) auto
  then have "returns (u32toa val (tb_mem t) (Some (10 * tb_idx t)) 1)
      (\<lambda>(p, m'). length m' = 160 \<and> cstr_at m' (the p) = Some (dec_digits (unat val)))"
    using tostr_row [of val "tb_idx t" 1 "tb_mem t"] assms by simp
  then show ?thesis by (auto simp: u32_tostr_def returns_iff)
qed

lemma u32_tostr_row0: "tb_idx t = 0 \<Longrightarrow> u32_tostr val t = None"
  by (auto simp: u32_tostr_def u32toa_def put_before_def u32toa_loop.simps [of val] split: bind_splits)

text \<open>The check of \<open>uint8_tostr\<close> asks for three bytes, three digits and the terminator need four.\<close>

lemma uint8_tostr_fits: "p + 4 \<le> length m \<Longrightarrow> 4 \<le> len \<Longrightarrow> uint8_tostr val m p len \<noteq> None"
  by (simp add: uint8_tostr_def mem_write_def uint8_toa_def Let_def)

lemma uint8_tostr_overflow:
  assumes "100 \<le> val" and "length m = p + 3"
  shows "uint8_tostr val m p 3 = None"
proof -
  have "\<not> val < 100" using assms(1) by (simp add: not_less)
  moreover from this have "\<not> val < 10" using less_trans [of val 10 100] by auto
  ultimately show ?thesis using assms(2) by (simp add: uint8_tostr_def mem_write_def uint8_toa_def Let_def)
qed

section \<open>Properties\<close>

text \<open>C32. The branch-per-digit printers of one and two byte values store exactly the decimal
  expansion of their argument, without leading zeros; the multiplications and shifts of
  \<open>uint8_toa\<close> are exact divisions on the whole range.\<close>

theorem toa_decimal: "uint8_toa v = dec_digits (unat v) \<and> uint16_toa w = dec_digits (unat w)"
  by (simp add: uint8_toa_dec_digits uint16_toa_dec_digits)

end
