(* ===== verification/Sbuf.thy ===== *)
theory Sbuf
  imports Str_Codec
begin

text \<open>
  The bounded string buffer of \<open>src/src/str_util.h\<close> (\<open>struct sbuf\<close>).

  \<open>sb_mem\<close> holds the bytes between \<open>mem\<close> and \<open>end\<close>, \<open>sb_pos\<close> is \<open>ptr - mem\<close>. Every append first
  reserves its space with \<open>sbuf_mksp\<close>, the contract of which is the locale \<open>reserve\<close>; the packet
  encoder reserves space under the same contract. The abstract view of a buffer is the text
  written so far, \<open>sbuf_text\<close>: an append either adds exactly its bytes to it or leaves the
  buffer as it was.
\<close>

section \<open>The contract of space reservation\<close>

locale reserve =
  fixes cap :: "'s \<Rightarrow> nat" and used :: "'s \<Rightarrow> nat"
    and mksp :: "'s \<Rightarrow> nat \<Rightarrow> nat option \<times> 's"
  assumes mksp_fits:
      "used s \<le> cap s \<Longrightarrow> used s + n \<le> cap s \<Longrightarrow>
         fst (mksp s n) = Some (used s) \<and> used (snd (mksp s n)) = used s + n"
    and mksp_full: "used s \<le> cap s \<Longrightarrow> cap s < used s + n \<Longrightarrow> mksp s n = (None, s)"
    and mksp_cap: "cap (snd (mksp s n)) = cap s"
begin

lemma mksp_inv: "used s \<le> cap s \<Longrightarrow> used (snd (mksp s n)) \<le> cap (snd (mksp s n))"
  by (cases "used s + n \<le> cap s") (simp_all add: mksp_fits mksp_full mksp_cap)

lemma mksp_SomeD:
  assumes "used s \<le> cap s" and "mksp s n = (Some p, s')"
  shows "p = used s \<and> used s' = p + n \<and> p + n \<le> cap s \<and> cap s' = cap s"
proof -
  have "used s + n \<le> cap s" using assms mksp_full [of s n] by (cases "used s + n \<le> cap s") auto
  then show ?thesis using mksp_fits [of s n] mksp_cap [of s n] assms by simp
qed

lemma mksp_NoneD:
  assumes "used s \<le> cap s" and "mksp s n = (None, s')"
  shows "s' = s \<and> cap s < used s + n"
  using assms mksp_fits [of s n] mksp_full [of s n] by (cases "used s + n \<le> cap s") auto

text \<open>Two regions handed out one after the other do not overlap.\<close>

lemma mksp_disjoint:
  assumes "used s \<le> cap s" and "mksp s n = (Some p, s')" and "mksp s' k = (Some q, s'')"
  shows "p + n \<le> q \<and> q + k \<le> cap s"
  using mksp_SomeD [OF assms(1,2)] mksp_SomeD [of s' k q s''] assms(3) by simp

end

section \<open>The buffer and its operations\<close>

record sbuf =
  sb_mem :: "byte list"
  sb_pos :: nat

definition sbuf_init :: "byte list \<Rightarrow> sbuf" where
  "sbuf_init mem = \<lparr>sb_mem = mem, sb_pos = 0\<rparr>"

definition sbuf_reset :: "sbuf \<Rightarrow> sbuf" where
  "sbuf_reset buf = buf\<lparr>sb_pos := 0\<rparr>"

definition sbuf_len :: "sbuf \<Rightarrow> nat" where
  "sbuf_len buf = length (sb_mem buf)"

definition sbuf_rem :: "sbuf \<Rightarrow> nat" where
  "sbuf_rem buf = size_sub (length (sb_mem buf)) (sb_pos buf)"

definition sbuf_end :: "sbuf \<Rightarrow> bool" where
  "sbuf_end buf = (length (sb_mem buf) \<le> sb_pos buf)"

definition sbuf_mksp :: "sbuf \<Rightarrow> nat \<Rightarrow> nat option \<times> sbuf" where
  "sbuf_mksp buf len =
     (if len > sbuf_rem buf then (None, buf) else (Some (sb_pos buf), buf\<lparr>sb_pos := sb_pos buf + len\<rparr>))"

definition sbuf_endz :: "sbuf \<Rightarrow> sbuf option" where
  "sbuf_endz buf =
     (if sb_pos buf < length (sb_mem buf) then do {
        m \<leftarrow> mem_write (sb_mem buf) (sb_pos buf) [0];
        Some (buf\<lparr>sb_mem := m\<rparr>) }
      else Some buf)"

definition sbuf_putm :: "sbuf \<Rightarrow> byte list \<Rightarrow> (nat \<times> sbuf) option" where
  "sbuf_putm buf mem =
     (case sbuf_mksp buf (length mem) of
        (None, buf') \<Rightarrow> Some (0, buf')
      | (Some wptr, buf') \<Rightarrow> do {
          m \<leftarrow> mem_write (sb_mem buf') wptr mem;
          Some (length mem, buf'\<lparr>sb_mem := m\<rparr>) })"

definition sbuf_putmc :: "sbuf \<Rightarrow> byte list \<Rightarrow> byte \<Rightarrow> (nat \<times> sbuf) option" where
  "sbuf_putmc buf mem c =
     (case sbuf_mksp buf (length mem + 1) of
        (None, buf') \<Rightarrow> Some (0, buf')
      | (Some wptr, buf') \<Rightarrow> do {
          m \<leftarrow> mem_write (sb_mem buf') wptr mem;
          m \<leftarrow> mem_write m (wptr + length mem) [c];
          Some (length mem + 1, buf'\<lparr>sb_mem := m\<rparr>) })"

definition sbuf_putmz :: "sbuf \<Rightarrow> byte list \<Rightarrow> (nat \<times> sbuf) option" where
  "sbuf_putmz buf mem = sbuf_putmc buf mem 0"

definition sbuf_putcm :: "sbuf \<Rightarrow> byte \<Rightarrow> byte list \<Rightarrow> (nat \<times> sbuf) option" where
  "sbuf_putcm buf c mem =
     (case sbuf_mksp buf (length mem + 1) of
        (None, buf') \<Rightarrow> Some (0, buf')
      | (Some wptr, buf') \<Rightarrow> do {
          m \<leftarrow> mem_write (sb_mem buf') wptr [c];
          m \<leftarrow> mem_write m (wptr + 1) mem;
          Some (length mem + 1, buf'\<lparr>sb_mem := m\<rparr>) })"

definition sbuf_puticm :: "sbuf \<Rightarrow> byte \<Rightarrow> byte list \<Rightarrow> (nat \<times> sbuf) option" where
  "sbuf_puticm buf ch mem = (if sb_pos buf \<noteq> 0 then sbuf_putcm buf ch mem else sbuf_putm buf mem)"

text \<open>A string argument is \<open>None\<close> for NULL, otherwise the bytes before its NUL.\<close>

definition sbuf_puts :: "sbuf \<Rightarrow> byte list option \<Rightarrow> (nat \<times> sbuf) option" where
  "sbuf_puts buf s = (case s of None \<Rightarrow> Some (0, buf) | Some b \<Rightarrow> sbuf_putm buf b)"

definition sbuf_putcs :: "sbuf \<Rightarrow> byte \<Rightarrow> byte list option \<Rightarrow> (nat \<times> sbuf) option" where
  "sbuf_putcs buf ch s = (case s of None \<Rightarrow> Some (0, buf) | Some b \<Rightarrow> sbuf_putcm buf ch b)"

text \<open>The number printers go through the static ring of \<open>u32_tostr\<close>, which is threaded.\<close>

definition sbuf_putn :: "tostr_bufs \<Rightarrow> sbuf \<Rightarrow> u32 \<Rightarrow> (nat \<times> sbuf \<times> tostr_bufs) option" where
  "sbuf_putn t buf num = do {
     (s, t') \<leftarrow> u32_tostr num t;
     (n, buf') \<leftarrow> sbuf_puts buf (Some s);
     Some (n, buf', t') }"

definition sbuf_putcn :: "tostr_bufs \<Rightarrow> sbuf \<Rightarrow> byte \<Rightarrow> u32 \<Rightarrow> (nat \<times> sbuf \<times> tostr_bufs) option" where
  "sbuf_putcn t buf ch num =
     (case sbuf_mksp buf 1 of
        (None, buf') \<Rightarrow> Some (0, buf', t)
      | (Some wptr, buf') \<Rightarrow> do {
          m \<leftarrow> mem_write (sb_mem buf') wptr [ch];
          (n, buf'', t') \<leftarrow> sbuf_putn t (buf'\<lparr>sb_mem := m\<rparr>) num;
          Some (1 + n, buf'', t') })"

text \<open>Pointers into the buffer are offsets into its memory.\<close>

definition sbuf_start :: "sbuf \<Rightarrow> nat" where
  "sbuf_start buf = 0"

definition sbuf_ptr :: "sbuf \<Rightarrow> nat" where
  "sbuf_ptr buf = sb_pos buf"

definition sbuf_pos :: "sbuf \<Rightarrow> nat" where
  "sbuf_pos buf = sbuf_ptr buf - sbuf_start buf"

section \<open>Invariant and abstract view\<close>

definition sbuf_inv :: "sbuf \<Rightarrow> bool" where
  "sbuf_inv buf \<longleftrightarrow> sb_pos buf \<le> length (sb_mem buf)"

definition sbuf_text :: "sbuf \<Rightarrow> byte list" where
  "sbuf_text buf = take (sb_pos buf) (sb_mem buf)"

text \<open>The abstract append to a text of bounded capacity: all of the bytes or none of them.\<close>

definition text_append :: "nat \<Rightarrow> byte list \<Rightarrow> byte list \<Rightarrow> byte list" where
  "text_append capacity t bs = (if length t + length bs \<le> capacity then t @ bs else t)"

lemma sbuf_rem_inv [simp]: "sbuf_inv buf \<Longrightarrow> sbuf_rem buf = length (sb_mem buf) - sb_pos buf"
  by (simp add: sbuf_rem_def sbuf_inv_def)

lemma length_sbuf_text: "sbuf_inv buf \<Longrightarrow> length (sbuf_text buf) = sb_pos buf"
  by (simp add: sbuf_text_def sbuf_inv_def)

interpretation sbuf_space: reserve sbuf_len sb_pos sbuf_mksp
  by unfold_locales (auto simp: sbuf_mksp_def sbuf_rem_def sbuf_len_def)

text \<open>An append that reserves its bytes and stores them refines \<open>text_append\<close>.\<close>

definition appends :: "sbuf \<Rightarrow> byte list \<Rightarrow> (nat \<times> sbuf) option \<Rightarrow> bool" where
  "appends buf bs r \<longleftrightarrow> returns r (\<lambda>(n, buf').
     sbuf_inv buf' \<and> sbuf_len buf' = sbuf_len buf \<and>
     sbuf_text buf' = text_append (sbuf_len buf) (sbuf_text buf) bs \<and>
     n = length (sbuf_text buf') - length (sbuf_text buf))"

lemma putm_appends: "sbuf_inv buf \<Longrightarrow> appends buf mem (sbuf_putm buf mem)"
  by (auto simp: appends_def sbuf_putm_def sbuf_mksp_def sbuf_len_def sbuf_text_def text_append_def
      mem_write_SomeI sbuf_inv_def sbuf_rem_def)

lemma putcm_appends: "sbuf_inv buf \<Longrightarrow> appends buf (c # mem) (sbuf_putcm buf c mem)"
  by (auto simp: appends_def sbuf_putcm_def sbuf_mksp_def sbuf_len_def sbuf_text_def text_append_def
      mem_write_SomeI sbuf_inv_def sbuf_rem_def)

lemma putmc_appends: "sbuf_inv buf \<Longrightarrow> appends buf (mem @ [c]) (sbuf_putmc buf mem c)"
  by (auto simp: appends_def sbuf_putmc_def sbuf_mksp_def sbuf_len_def sbuf_text_def text_append_def
      mem_write_SomeI sbuf_inv_def sbuf_rem_def)

lemma appends_Nil: "sbuf_inv buf \<Longrightarrow> appends buf [] (Some (0, buf))"
  by (simp add: appends_def text_append_def)



end
