(* ===== verification/Str_Util.thy ===== *)
theory Str_Util
  imports Str_Codec
begin

text \<open>
  The string and slice sections of \<open>src/src/str_util.h\<close>.

  A string argument \<open>(ptr, len)\<close> of a function that only reads it is the list of its bytes; a C
  string is the list of the bytes before its NUL and \<open>None\<close> stands for NULL. A slice keeps its
  pointer (an index of the memory it points into, \<open>None\<close> for NULL) and its length, because the
  slice operations move the pointer and one of them reads outside the slice.
  \<open>char\<close> is signed: a character promoted to \<open>int\<close> is \<open>sint\<close> of the byte.
\<close>

section \<open>Strings\<close>

definition safe_strlen :: "byte list option \<Rightarrow> nat" where
  "safe_strlen s = (case s of None \<Rightarrow> 0 | Some b \<Rightarrow> length b)"

definition str_def :: "byte list option \<Rightarrow> byte list \<Rightarrow> byte list" where
  "str_def s d = (case s of None \<Rightarrow> d | Some b \<Rightarrow> if b \<noteq> [] then b else d)"

fun str_memcpy :: "byte list \<Rightarrow> nat \<Rightarrow> byte list \<Rightarrow> (nat \<times> byte list) option" where
  "str_memcpy m dptr [] = Some (dptr, m)"
| "str_memcpy m dptr (b # src) = do { m' \<leftarrow> mem_write m dptr [b]; str_memcpy m' (dptr + 1) src }"

definition is_white :: "byte \<Rightarrow> bool" where
  "is_white ch \<longleftrightarrow> ch = 32 \<or> ch = 9 \<or> ch = 11 \<or> ch = 13 \<or> ch = 10"

definition is_numeral :: "byte \<Rightarrow> bool" where
  "is_numeral ch \<longleftrightarrow> 48 \<le> sint ch \<and> sint ch \<le> 57"

text \<open>\<open>str_cat\<close> copies the characters of a C string, not its NUL, and returns the position after them.\<close>

fun str_cat :: "byte list \<Rightarrow> nat \<Rightarrow> byte list \<Rightarrow> (nat \<times> byte list) option" where
  "str_cat m dst [] = Some (dst, m)"
| "str_cat m dst (c # src) = do { m' \<leftarrow> mem_write m dst [c]; str_cat m' (dst + 1) src }"

definition ch_lower :: "byte \<Rightarrow> byte" where
  "ch_lower b = (if 65 \<le> sint b \<and> sint b \<le> 90 then b + 0x20 else b)"

definition ch_upper :: "byte \<Rightarrow> byte" where
  "ch_upper b = (if 97 \<le> sint b \<and> sint b \<le> 122 then b - 0x20 else b)"

fun str_tolower :: "byte list \<Rightarrow> byte list" where
  "str_tolower [] = []"
| "str_tolower (b # s) = ch_lower b # str_tolower s"

fun str_toupper :: "byte list \<Rightarrow> byte list" where
  "str_toupper [] = []"
| "str_toupper (b # s) = ch_upper b # str_toupper s"

fun str_countch :: "byte list \<Rightarrow> int \<Rightarrow> nat" where
  "str_countch [] ch = 0"
| "str_countch (b # s) ch = (if sint b = ch then 1 else 0) + str_countch s ch"

text \<open>
  \<open>memcmp\<close> promises the sign of its result only. A difference of two lengths is returned as an
  \<open>int\<close>: \<open>to_int\<close> is the conversion to 32 bits.
\<close>

fun memcmp_sgn :: "byte list \<Rightarrow> byte list \<Rightarrow> int" where
  "memcmp_sgn (a # s) (b # t) = (if a = b then memcmp_sgn s t else if a < b then -1 else 1)"
| "memcmp_sgn _ _ = 0"

definition to_int :: "int \<Rightarrow> int" where
  "to_int v = signed_take_bit 31 v"

definition str_cmp :: "byte list \<Rightarrow> byte list \<Rightarrow> int" where
  "str_cmp s1 s2 =
     (if length s1 \<noteq> length s2 then
        (let len = (if length s1 < length s2 then length s1 else length s2);
             rc = memcmp_sgn (take len s1) (take len s2)
         in if rc \<noteq> 0 then rc else to_int (int (length s1) - int (length s2)))
      else memcmp_sgn s1 s2)"

definition casefold :: "byte \<Rightarrow> int" where
  "casefold b = (if 65 \<le> sint b \<and> sint b \<le> 90 then sint b OR 0x20 else sint b)"

fun casecmp_loop :: "byte list \<Rightarrow> byte list \<Rightarrow> int" where
  "casecmp_loop (a # s) (b # t) =
     (if casefold a \<noteq> casefold b then casefold a - casefold b else casecmp_loop s t)"
| "casecmp_loop _ _ = 0"

definition str_casecmp :: "byte list \<Rightarrow> byte list \<Rightarrow> int" where
  "str_casecmp s1 s2 =
     (let rc = casecmp_loop s1 s2
      in if rc \<noteq> 0 then rc
         else if length s1 = length s2 then 0 else to_int (int (length s1) - int (length s2)))"

definition str_startswith :: "byte list \<Rightarrow> int \<Rightarrow> bool" where
  "str_startswith s ch \<longleftrightarrow> s \<noteq> [] \<and> sint (s ! 0) = ch"

definition str_endswith :: "byte list \<Rightarrow> int \<Rightarrow> bool" where
  "str_endswith s ch \<longleftrightarrow> s \<noteq> [] \<and> sint (s ! (length s - 1)) = ch"

definition str_isnumeric :: "byte list \<Rightarrow> bool" where
  "str_isnumeric s \<longleftrightarrow> s \<noteq> [] \<and> list_all is_numeral s"

fun tou32_loop :: "byte list \<Rightarrow> u32 \<Rightarrow> u32" where
  "tou32_loop [] val = val"
| "tou32_loop (b # s) val =
     (if is_numeral b then tou32_loop s (push_bit 3 val + push_bit 1 val + of_int (sint b - 48)) else val)"

definition str_tou32 :: "byte list \<Rightarrow> u32" where
  "str_tou32 s = tou32_loop s 0"

section \<open>Slices\<close>

record slice =
  sl_ptr :: "nat option"
  sl_len :: nat

definition slice_make :: "nat option \<Rightarrow> nat \<Rightarrow> slice" where
  "slice_make p len = \<lparr>sl_ptr = p, sl_len = len\<rparr>"

definition slice_make_cstr :: "byte list \<Rightarrow> nat option \<Rightarrow> slice option" where
  "slice_make_cstr m p =
     (case p of None \<Rightarrow> Some (slice_make None 0)
      | Some i \<Rightarrow> do { s \<leftarrow> cstr_at m i; Some (slice_make p (length s)) })"

text \<open>The bytes of a slice, read from the memory it points into.\<close>

definition slice_bytes :: "byte list \<Rightarrow> slice \<Rightarrow> byte list" where
  "slice_bytes m s = (case sl_ptr s of None \<Rightarrow> [] | Some p \<Rightarrow> take (sl_len s) (drop p m))"

definition slice_in :: "byte list \<Rightarrow> slice \<Rightarrow> bool" where
  "slice_in m s = (case sl_ptr s of None \<Rightarrow> sl_len s = 0 | Some p \<Rightarrow> p + sl_len s \<le> length m)"

definition slice_read :: "byte list \<Rightarrow> slice \<Rightarrow> byte list option" where
  "slice_read m s = (case sl_ptr s of None \<Rightarrow> if sl_len s = 0 then Some [] else None
                     | Some p \<Rightarrow> mem_read m p (sl_len s))"

definition slice_tocstr :: "byte list \<Rightarrow> slice \<Rightarrow> byte list \<Rightarrow> nat \<Rightarrow> nat \<Rightarrow> (bool \<times> byte list) option" where
  "slice_tocstr m val d dst len =
     (if sl_len val + 1 > len then Some (False, d)
      else do {
        s \<leftarrow> slice_read m val;
        d1 \<leftarrow> mem_write d dst s;
        d2 \<leftarrow> mem_write d1 (dst + sl_len val) [0];
        Some (True, d2) })"

definition slice_cmp :: "byte list \<Rightarrow> slice \<Rightarrow> slice \<Rightarrow> int option" where
  "slice_cmp m s1 s2 = do { b1 \<leftarrow> slice_read m s1; b2 \<leftarrow> slice_read m s2; Some (str_cmp b1 b2) }"

definition slice_cmpmem :: "byte list \<Rightarrow> slice \<Rightarrow> byte list \<Rightarrow> int option" where
  "slice_cmpmem m s mem = do { b \<leftarrow> slice_read m s; Some (str_cmp b mem) }"

definition slice_cmpstr :: "byte list \<Rightarrow> slice \<Rightarrow> byte list \<Rightarrow> int option" where
  "slice_cmpstr m s cs = do { b \<leftarrow> slice_read m s; Some (str_cmp b cs) }"

definition slice_casecmp :: "byte list \<Rightarrow> slice \<Rightarrow> slice \<Rightarrow> int option" where
  "slice_casecmp m s1 s2 = do { b1 \<leftarrow> slice_read m s1; b2 \<leftarrow> slice_read m s2; Some (str_casecmp b1 b2) }"

definition slice_casecmpstr :: "byte list \<Rightarrow> slice \<Rightarrow> byte list \<Rightarrow> int option" where
  "slice_casecmpstr m s cs = do { b \<leftarrow> slice_read m s; Some (str_casecmp b cs) }"

definition slice_casecmpmem :: "byte list \<Rightarrow> slice \<Rightarrow> byte list \<Rightarrow> int option" where
  "slice_casecmpmem m s mem = do { b \<leftarrow> slice_read m s; Some (str_casecmp b mem) }"

definition slice_startswith :: "byte list \<Rightarrow> slice \<Rightarrow> int \<Rightarrow> bool option" where
  "slice_startswith m s ch = do { b \<leftarrow> slice_read m s; Some (str_startswith b ch) }"

definition slice_endswith :: "byte list \<Rightarrow> slice \<Rightarrow> int \<Rightarrow> bool option" where
  "slice_endswith m s ch = do { b \<leftarrow> slice_read m s; Some (str_endswith b ch) }"

text \<open>The memory after a conversion in place, and a copy, which ends with NUL, if \<open>malloc\<close> gives memory.\<close>

definition slice_toupper :: "byte list \<Rightarrow> slice \<Rightarrow> byte list option" where
  "slice_toupper m s = do { b \<leftarrow> slice_read m s; case sl_ptr s of None \<Rightarrow> Some m | Some p \<Rightarrow> mem_write m p (str_toupper b) }"

definition slice_tolower :: "byte list \<Rightarrow> slice \<Rightarrow> byte list option" where
  "slice_tolower m s = do { b \<leftarrow> slice_read m s; case sl_ptr s of None \<Rightarrow> Some m | Some p \<Rightarrow> mem_write m p (str_tolower b) }"

definition slice_strdup :: "bool \<Rightarrow> byte list \<Rightarrow> slice \<Rightarrow> byte list option option" where
  "slice_strdup malloc_ok m s = (if \<not> malloc_ok then Some None else do { b \<leftarrow> slice_read m s; Some (Some (b @ [0])) })"

definition slice_isnumeric :: "byte list \<Rightarrow> slice \<Rightarrow> bool option" where
  "slice_isnumeric m s = do { b \<leftarrow> slice_read m s; Some (str_isnumeric b) }"

definition slice_tou32 :: "byte list \<Rightarrow> slice \<Rightarrow> u32 option" where
  "slice_tou32 m s = do { b \<leftarrow> slice_read m s; Some (str_tou32 b) }"

definition slice_countch :: "byte list \<Rightarrow> slice \<Rightarrow> int \<Rightarrow> nat option" where
  "slice_countch m s ch = do { b \<leftarrow> slice_read m s; Some (str_countch b ch) }"

text \<open>
  \<open>slice_unbracket\<close>: the pointer has moved on and the length has been reduced when
  \<open>str.ptr[str.len]\<close> is read.
\<close>

definition slice_unbracket :: "byte list \<Rightarrow> slice \<Rightarrow> int \<Rightarrow> int \<Rightarrow> slice option" where
  "slice_unbracket m s left right =
     (case sl_ptr s of
        None \<Rightarrow> if sl_len s = 0 then Some s else None
      | Some p \<Rightarrow>
          if sl_len s = 0 then Some s
          else do {
            b \<leftarrow> mem_get m p;
            if sint b = left then do {
              e \<leftarrow> mem_get m ((p + 1) + (sl_len s - 1));
              Some (slice_make (Some (p + 1))
                     (if sint e = right then size_sub (sl_len s - 1) 1 else sl_len s - 1)) }
            else Some s })"

text \<open>\<open>memchr\<close> and \<open>memrchr\<close> over a checked memory.\<close>

fun memchr :: "byte list \<Rightarrow> nat \<Rightarrow> byte \<Rightarrow> nat \<Rightarrow> nat option option" where
  "memchr m p c 0 = Some None"
| "memchr m p c (Suc n) = do { b \<leftarrow> mem_get m p; if b = c then Some (Some p) else memchr m (p + 1) c n }"

fun memrchr :: "byte list \<Rightarrow> nat \<Rightarrow> byte \<Rightarrow> nat \<Rightarrow> nat option option" where
  "memrchr m p c 0 = Some None"
| "memrchr m p c (Suc n) = do { b \<leftarrow> mem_get m (p + n); if b = c then Some (Some (p + n)) else memrchr m p c n }"

definition slice_chop :: "byte list \<Rightarrow> slice \<Rightarrow> byte \<Rightarrow> slice option" where
  "slice_chop m s ch =
     (case sl_ptr s of None \<Rightarrow> if sl_len s = 0 then Some s else None
      | Some p \<Rightarrow> do {
          r \<leftarrow> memchr m p ch (sl_len s);
          Some (case r of None \<Rightarrow> s | Some q \<Rightarrow> s\<lparr>sl_len := q - p\<rparr>) })"

definition slice_splitch :: "byte list \<Rightarrow> slice \<Rightarrow> byte \<Rightarrow> (slice \<times> slice) option" where
  "slice_splitch m src ch =
     (case sl_ptr src of
        None \<Rightarrow> Some (slice_make None 0, src)
      | Some p \<Rightarrow> do {
          r \<leftarrow> memchr m p ch (sl_len src);
          case r of
            Some q \<Rightarrow>
              (let tok = slice_make (Some p) (q - p)
               in Some (tok, slice_make (Some (q + 1)) (sl_len src - (sl_len tok + 1))))
          | None \<Rightarrow> Some (src, slice_make None 0) })"

definition slice_rsplit :: "byte list \<Rightarrow> slice \<Rightarrow> byte \<Rightarrow> (slice \<times> slice) option" where
  "slice_rsplit m src ch =
     (case sl_ptr src of
        None \<Rightarrow> Some (slice_make None 0, src)
      | Some p \<Rightarrow> do {
          r \<leftarrow> memrchr m p ch (sl_len src);
          case r of
            Some q \<Rightarrow>
              (let len = q - p
               in Some (slice_make (Some (q + 1)) (sl_len src - len - 1), src\<lparr>sl_len := len\<rparr>))
          | None \<Rightarrow> Some (slice_make None 0, src) })"

text \<open>
  \<open>slice_splitset\<close>: the two scans of the source, over the characters of the slice from index
  \<open>i\<close> on with \<open>n\<close> characters left.
\<close>

fun scan_while :: "byte list \<Rightarrow> nat \<Rightarrow> (byte \<Rightarrow> bool) \<Rightarrow> nat \<Rightarrow> nat \<Rightarrow> nat option" where
  "scan_while m p f i 0 = Some i"
| "scan_while m p f i (Suc n) = do { b \<leftarrow> mem_get m (p + i); if f b then scan_while m p f (i + 1) n else Some i }"

definition slice_splitset :: "byte list \<Rightarrow> slice \<Rightarrow> byte list \<Rightarrow> (slice \<times> slice) option" where
  "slice_splitset m src set_chars =
     (case sl_ptr src of
        None \<Rightarrow> if sl_len src = 0 then Some (slice_make None 0, src) else None
      | Some p \<Rightarrow> do {
          i \<leftarrow> scan_while m p (\<lambda>b. b \<notin> set set_chars) 0 (sl_len src);
          j \<leftarrow> scan_while m p (\<lambda>b. b \<in> set set_chars) i (sl_len src - i);
          Some (slice_make (Some p) i, slice_make (Some (p + j)) (sl_len src - j)) })"

fun ltrim_loop :: "byte list \<Rightarrow> nat \<Rightarrow> nat \<Rightarrow> (nat \<times> nat) option" where
  "ltrim_loop m p 0 = Some (p, 0)"
| "ltrim_loop m p (Suc n) = do { b \<leftarrow> mem_get m p; if is_white b then ltrim_loop m (p + 1) n else Some (p, Suc n) }"

fun rtrim_loop :: "byte list \<Rightarrow> nat \<Rightarrow> nat \<Rightarrow> nat option" where
  "rtrim_loop m p 0 = Some 0"
| "rtrim_loop m p (Suc n) = do { b \<leftarrow> mem_get m (p + n); if is_white b then rtrim_loop m p n else Some (Suc n) }"

definition slice_ltrim :: "byte list \<Rightarrow> slice \<Rightarrow> slice option" where
  "slice_ltrim m s =
     (case sl_ptr s of None \<Rightarrow> if sl_len s = 0 then Some s else None
      | Some p \<Rightarrow> do { (p', n) \<leftarrow> ltrim_loop m p (sl_len s); Some (slice_make (Some p') n) })"

definition slice_rtrim :: "byte list \<Rightarrow> slice \<Rightarrow> slice option" where
  "slice_rtrim m s =
     (case sl_ptr s of None \<Rightarrow> if sl_len s = 0 then Some s else None
      | Some p \<Rightarrow> do { n \<leftarrow> rtrim_loop m p (sl_len s); Some (s\<lparr>sl_len := n\<rparr>) })"

definition slice_trim :: "byte list \<Rightarrow> slice \<Rightarrow> slice option" where
  "slice_trim m s = do { s' \<leftarrow> slice_rtrim m s; slice_ltrim m s' }"

section \<open>Searching\<close>

lemma take_Suc_drop: "p < length m \<Longrightarrow> take (Suc n) (drop p m) = m ! p # take n (drop (Suc p) m)"
  by (metis Cons_nth_drop_Suc take_Suc_Cons)

lemma memchr_spec:
  "p + n \<le> length m \<Longrightarrow> memchr m p c n =
     Some (let s = take n (drop p m) in if c \<in> set s then Some (p + length (takeWhile (\<lambda>b. b \<noteq> c) s)) else None)"
  by (induction m p c n rule: memchr.induct) (auto simp: mem_get_def take_Suc_drop Let_def)

lemma memchr_Some:
  assumes "p + n \<le> length m" and "memchr m p c n = Some (Some q)"
  shows "p \<le> q \<and> q < p + n \<and> m ! q = c \<and> c \<notin> set (take (q - p) (drop p m))"
  using assms
proof (induction m p c n rule: memchr.induct)
  case (2 m p c n)
  then show ?case
    by (cases "m ! p = c")
      (auto simp: mem_get_def take_Suc_drop Suc_diff_Suc [symmetric] dest!: Suc_le_lessD split: if_splits)
qed simp

lemma memchr_None:
  "p + n \<le> length m \<Longrightarrow> memchr m p c n = Some None \<longleftrightarrow> c \<notin> set (take n (drop p m))"
  by (simp add: memchr_spec Let_def)

definition memrchr_result :: "byte list \<Rightarrow> nat \<Rightarrow> byte \<Rightarrow> nat \<Rightarrow> nat option \<Rightarrow> bool" where
  "memrchr_result m p c n r = (case r of
     None \<Rightarrow> c \<notin> set (take n (drop p m))
   | Some q \<Rightarrow> p \<le> q \<and> q < p + n \<and> m ! q = c \<and> c \<notin> set (take (p + n - (q + 1)) (drop (q + 1) m)))"

lemma memrchr_result_Suc:
  assumes "p + n < length m" and "m ! (p + n) \<noteq> c" and "memrchr_result m p c n r"
  shows "memrchr_result m p c (Suc n) r"
proof (cases r)
  case None
  then show ?thesis using assms by (simp add: memrchr_result_def take_Suc_conv_app_nth)
next
  case (Some q)
  then have "p + Suc n - (q + 1) = Suc (p + n - (q + 1))" "q + 1 + (p + n - (q + 1)) = p + n"
    using assms by (auto simp: memrchr_result_def)
  then show ?thesis using assms Some by (auto simp: memrchr_result_def take_Suc_conv_app_nth)
qed

lemma memrchr_spec: "p + n \<le> length m \<Longrightarrow> returns (memrchr m p c n) (memrchr_result m p c n)"
proof (induction m p c n rule: memrchr.induct)
  case (2 m p c n)
  then have len: "p + n < length m" by simp
  show ?case
  proof (cases "m ! (p + n) = c")
    case True
    then show ?thesis using len by (simp add: mem_get_def memrchr_result_def)
  next
    case False
    then show ?thesis using 2 len by (auto simp: mem_get_def elim: returns_mono memrchr_result_Suc)
  qed
qed (simp add: memrchr_result_def)

lemma slice_splitch_spec:
  assumes "slice_in m src"
  shows "returns (slice_splitch m src ch) (\<lambda>(tok, src').
     slice_in m tok \<and> slice_in m src' \<and> ch \<notin> set (slice_bytes m tok) \<and>
     slice_bytes m src = slice_bytes m tok @ (if sl_ptr src' = None then [] else ch # slice_bytes m src') \<and>
     (sl_ptr src \<noteq> None \<longrightarrow> sl_ptr src' = None \<or> sl_len src' < sl_len src))"
proof (cases "sl_ptr src")
  case None
  then show ?thesis using assms
    by (simp add: slice_splitch_def slice_make_def slice_in_def slice_bytes_def)
next
  case (Some p)
  then have len: "p + sl_len src \<le> length m" using assms by (simp add: slice_in_def)
  show ?thesis
  proof (cases "memchr m p ch (sl_len src)")
    case None
    then show ?thesis using memchr_spec [OF len, of ch] by simp
  next
    case r: (Some r)
    show ?thesis
    proof (cases r)
      case None
      then have "ch \<notin> set (take (sl_len src) (drop p m))" using r memchr_None [OF len] by simp
      then show ?thesis
        using r None Some len by (simp add: slice_splitch_def slice_make_def slice_in_def slice_bytes_def)
    next
      case q: (Some q)
      then have *: "p \<le> q" "q < p + sl_len src" "m ! q = ch" "ch \<notin> set (take (q - p) (drop p m))"
        using memchr_Some [OF len] r by auto
      define k where "k = sl_len src - (q - p + 1)"
      have "sl_len src = (q - p) + Suc k" using * by (simp add: k_def)
      moreover have "drop (q - p) (drop p m) = ch # drop (q + 1) m"
        using * len Cons_nth_drop_Suc [of q m] by simp
      ultimately have "take (sl_len src) (drop p m) = take (q - p) (drop p m) @ ch # take k (drop (q + 1) m)"
        by (simp only: take_add take_Suc_Cons)
      then show ?thesis
        using r q Some len * k_def
        by (simp add: slice_splitch_def slice_make_def slice_in_def slice_bytes_def Let_def)
    qed
  qed
qed

lemma ltrim_loop_spec:
  "p + n \<le> length m \<Longrightarrow> returns (ltrim_loop m p n) (\<lambda>(p', n').
     p' + n' = p + n \<and> take n' (drop p' m) = dropWhile is_white (take n (drop p m)))"
  by (induction m p n rule: ltrim_loop.induct) (auto simp: mem_get_def take_Suc_drop)

lemma rtrim_loop_spec:
  "p + n \<le> length m \<Longrightarrow> returns (rtrim_loop m p n) (\<lambda>n'.
     n' \<le> n \<and> take n' (drop p m) = rev (dropWhile is_white (rev (take n (drop p m)))))"
  by (induction m p n rule: rtrim_loop.induct) (auto simp: mem_get_def take_Suc_conv_app_nth elim!: returns_mono)

lemma slice_trim_spec:
  assumes "slice_in m s"
  shows "returns (slice_trim m s) (\<lambda>s'. slice_in m s' \<and>
     slice_bytes m s' = dropWhile is_white (rev (dropWhile is_white (rev (slice_bytes m s)))))"
proof (cases "sl_ptr s")
  case None
  then show ?thesis using assms
    by (simp add: slice_trim_def slice_rtrim_def slice_ltrim_def slice_in_def slice_bytes_def)
next
  case (Some p)
  then have len: "p + sl_len s \<le> length m" using assms by (simp add: slice_in_def)
  obtain n where n: "rtrim_loop m p (sl_len s) = Some n" "n \<le> sl_len s"
    "take n (drop p m) = rev (dropWhile is_white (rev (take (sl_len s) (drop p m))))"
    using rtrim_loop_spec [OF len] by (auto simp: returns_iff)
  then have "p + n \<le> length m" using len by simp
  from ltrim_loop_spec [OF this] n Some len show ?thesis
    by (auto simp: slice_trim_def slice_rtrim_def slice_ltrim_def slice_in_def slice_bytes_def
        slice_make_def returns_iff)
qed

section \<open>Numbers\<close>

lemma sint_digit: "d < 10 \<Longrightarrow> sint (of_nat (48 + d) :: byte) = int (48 + d)"
proof -
  assume "d < 10"
  then have "d \<in> {0,1,2,3,4,5,6,7,8,9}" by auto
  then show ?thesis by auto
qed

lemma tou32_digit:
  assumes "d < 10"
  shows "tou32_loop (of_nat (48 + d) # s) v = tou32_loop s (10 * v + of_nat d)"
proof -
  have "(of_int (sint (of_nat (48 + d) :: byte) - 48) :: u32) = of_nat d"
    using assms by (simp only: sint_digit) simp
  moreover have "push_bit 3 v + push_bit 1 v = 10 * v" by (simp add: push_bit_eq_mult)
  ultimately show ?thesis
    using assms sint_digit [OF assms] by (simp only: tou32_loop.simps is_numeral_def) simp
qed

lemma tou32_dec_digits: "tou32_loop (dec_digits n @ s) v =
     tou32_loop s (v * of_nat (10 ^ length (dec_digits n)) + of_nat n)"
proof (induction n arbitrary: s v rule: dec_digits.induct)
  case (1 n)
  show ?case
  proof (cases "n < 10")
    case True
    then show ?thesis
      using tou32_digit [OF True, of s v] by (simp add: dec_digits_less10 mult.commute del: of_nat_add tou32_loop.simps)
  next
    case False
    have *: "(of_nat n :: u32) = 10 * of_nat (n div 10) + of_nat (n mod 10)"
      using of_nat_mod_ring [of n 10, where 'a = u32] by (simp add: algebra_simps)
    have "dec_digits n = dec_digits (n div 10) @ [of_nat (48 + n mod 10)]"
      using False by (simp add: dec_digits_step del: of_nat_add)
    then show ?thesis
      using 1 [OF False] tou32_digit [of "n mod 10" s]
      by (simp add: * algebra_simps del: of_nat_add tou32_loop.simps)
  qed
qed

lemma str_tou32_dec_digits: "str_tou32 (dec_digits n) = of_nat n"
  using tou32_dec_digits [of n "[]" 0] by (simp add: str_tou32_def)

section \<open>Comparisons\<close>

lemma to_int_id: "\<bar>v\<bar> < 2 ^ 31 \<Longrightarrow> to_int v = v"
  by (simp add: to_int_def signed_take_bit_int_eq_self)

locale string_compare =
  fixes cmp :: "byte list \<Rightarrow> byte list \<Rightarrow> int" and norm :: "byte \<Rightarrow> int"
  assumes cmp_zero: "length s < 2 ^ 31 \<Longrightarrow> length t < 2 ^ 31 \<Longrightarrow> cmp s t = 0 \<longleftrightarrow> map norm s = map norm t"
begin

lemma cmp_refl: "length s < 2 ^ 31 \<Longrightarrow> cmp s s = 0"
  by (simp add: cmp_zero)

lemma cmp_length: "length s < 2 ^ 31 \<Longrightarrow> length t < 2 ^ 31 \<Longrightarrow> cmp s t = 0 \<Longrightarrow> length s = length t"
  by (metis cmp_zero length_map)

lemma cmp_zero_sym: "length s < 2 ^ 31 \<Longrightarrow> length t < 2 ^ 31 \<Longrightarrow> cmp s t = 0 \<Longrightarrow> cmp t s = 0"
  by (simp add: cmp_zero)

lemma cmp_zero_trans:
  "length s < 2 ^ 31 \<Longrightarrow> length t < 2 ^ 31 \<Longrightarrow> length u < 2 ^ 31 \<Longrightarrow>
     cmp s t = 0 \<Longrightarrow> cmp t u = 0 \<Longrightarrow> cmp s u = 0"
  by (simp add: cmp_zero)

end

lemma memcmp_sgn_zero: "length s = length t \<Longrightarrow> memcmp_sgn s t = 0 \<longleftrightarrow> s = t"
  by (induction s t rule: memcmp_sgn.induct) auto

lemma casecmp_loop_zero: "length s = length t \<Longrightarrow> casecmp_loop s t = 0 \<longleftrightarrow> map casefold s = map casefold t"
  by (induction s t rule: casecmp_loop.induct) auto

interpretation str_cmp: string_compare str_cmp sint
proof
  fix s t :: "byte list"
  assume len: "length s < 2 ^ 31" "length t < 2 ^ 31"
  show "str_cmp s t = 0 \<longleftrightarrow> map sint s = map sint t"
  proof (cases "length s = length t")
    case True
    have "inj (sint :: byte \<Rightarrow> int)" by (metis injI word_eq_iff_signed)
    then show ?thesis using True by (simp add: str_cmp_def memcmp_sgn_zero)
  next
    case False
    then have "to_int (int (length s) - int (length t)) \<noteq> 0" using len by (simp add: to_int_id)
    then show ?thesis using False by (auto simp: str_cmp_def Let_def dest: map_eq_imp_length_eq)
  qed
qed

interpretation str_casecmp: string_compare str_casecmp casefold
proof
  fix s t :: "byte list"
  assume len: "length s < 2 ^ 31" "length t < 2 ^ 31"
  show "str_casecmp s t = 0 \<longleftrightarrow> map casefold s = map casefold t"
  proof (cases "length s = length t")
    case True
    then show ?thesis by (simp add: str_casecmp_def casecmp_loop_zero)
  next
    case False
    then have "to_int (int (length s) - int (length t)) \<noteq> 0" using len by (simp add: to_int_id)
    then show ?thesis using False by (auto simp: str_casecmp_def Let_def dest: map_eq_imp_length_eq)
  qed
qed

text \<open>
  \<open>slice_unbracket\<close> looks one byte past the slice for the closing bracket: on a slice that ends
  its memory this is a read outside, and otherwise the bracket of the slice itself stays in it.
\<close>

lemma slice_unbracket_past_end:
  assumes "0 < sl_len s" and "sl_ptr s = Some p" and "p + sl_len s = length m" and "sint (m ! p) = left"
  shows "slice_unbracket m s left right = None"
  using assms by (auto simp: slice_unbracket_def mem_get_def)

section \<open>Properties\<close>

text \<open>C33. \<open>slice_splitch\<close> splits a slice at the first delimiter without reading outside it: the token
  has no delimiter, the token, the delimiter and the rest make up the slice, both lie inside the
  memory, and a loop over the tokens ends because the rest is shorter or NULL.\<close>

theorem slice_splitch_partition:
  assumes "slice_in m src"
  shows "returns (slice_splitch m src ch) (\<lambda>(tok, src').
     slice_in m tok \<and> slice_in m src' \<and> ch \<notin> set (slice_bytes m tok) \<and>
     slice_bytes m src = slice_bytes m tok @ (if sl_ptr src' = None then [] else ch # slice_bytes m src') \<and>
     (sl_ptr src \<noteq> None \<longrightarrow> sl_ptr src' = None \<or> sl_len src' < sl_len src))"
  using assms by (rule slice_splitch_spec)

theorem slice_splitch_partition_witness:
  "slice_in (str ''ab cd'') (slice_make (Some 0) 5) \<and>
   slice_splitch (str ''ab cd'') (slice_make (Some 0) 5) 32 \<noteq> None"
proof -
  have "slice_in (str ''ab cd'') (slice_make (Some 0) 5)" by (simp add: slice_in_def slice_make_def)
  then show ?thesis using slice_splitch_partition [of "str ''ab cd''" "slice_make (Some 0) 5" 32]
    by (auto simp: returns_iff)
qed

text \<open>Converting the decimal expansion of a number back with \<open>str_tou32\<close> gives the number modulo
  \<open>2 ^ 32\<close>: what \<open>uint16_toa\<close> prints is read back exactly, whatever non-digit follows.\<close>

theorem str_tou32_roundtrip:
  "str_tou32 (dec_digits n) = of_nat n \<and> str_tou32 (uint16_toa v @ 32 # s) = ucast v"
proof -
  have "str_tou32 (uint16_toa v @ 32 # s) = of_nat (unat v)"
    using tou32_dec_digits [of "unat v" "32 # s" 0]
    by (simp add: str_tou32_def uint16_toa_dec_digits is_numeral_def)
  then show ?thesis by (simp add: str_tou32_dec_digits of_nat_unat)
qed

end
