(* ===== verification/Inet.thy ===== *)
theory Inet
  imports Str_Util
begin

text \<open>
  The address codecs of \<open>src/src/str_util.c\<close>: \<open>ip4_str_decode\<close>, \<open>ip4_str_encode\<close>,
  \<open>ip6_str_decode\<close> and \<open>ip6_str_encode\<close>.

  The text to decode is the list of its \<open>len\<close> bytes; the destination is a checked memory. The
  decoders return a \<open>size_t\<close>: the \<open>-1\<close> of \<open>ip4_str_decode\<close> is \<open>2 ^ 64 - 1\<close>.
\<close>

definition SIZE_MAX :: int where
  "SIZE_MAX = 18446744073709551615"

section \<open>IPv4\<close>

text \<open>
  The loop of \<open>ip4_str_decode\<close>. \<open>n\<close> counts the characters read; \<open>Inl\<close> is a \<open>return\<close> inside the
  loop, \<open>Inr\<close> its end. \<open>acc\<close> stays below 2560, so the 32 bits of the source never overflow.
\<close>

type_synonym ip4_state = "nat \<times> nat \<times> nat \<times> nat \<times> byte list"

fun ip4_loop :: "byte list \<Rightarrow> nat \<Rightarrow> nat \<Rightarrow> nat \<Rightarrow> nat \<Rightarrow> byte list \<Rightarrow> nat
    \<Rightarrow> (int \<times> byte list + ip4_state) option" where
  "ip4_loop [] n acc num_digit num_dot dst d = Some (Inr (n, acc, num_digit, num_dot, dst))"
| "ip4_loop (ch # s) n acc num_digit num_dot dst d =
     (if is_numeral ch then
        (if num_digit + 1 > 3 then Some (Inl (SIZE_MAX, dst))
         else let acc' = 8 * acc + 2 * acc + nat (sint ch - 48)
              in if acc' > 255 then Some (Inl (0, dst))
                 else ip4_loop s (n + 1) acc' (num_digit + 1) num_dot dst d)
      else if ch = 46 then
        (if num_digit = 0 \<or> num_dot \<ge> 3 then Some (Inl (0, dst))
         else do {
           dst' \<leftarrow> mem_write dst (d + num_dot) [of_nat acc];
           ip4_loop s (n + 1) 0 0 (num_dot + 1) dst' d })
      else Some (Inr (n + 1, acc, num_digit, num_dot, dst)))"

definition ip4_str_decode :: "byte list \<Rightarrow> byte list \<Rightarrow> nat \<Rightarrow> (int \<times> byte list) option" where
  "ip4_str_decode s dst d = do {
     r \<leftarrow> ip4_loop s 0 0 0 0 dst d;
     case r of
       Inl ret \<Rightarrow> Some ret
     | Inr (n, acc, num_digit, num_dot, dst') \<Rightarrow>
         if num_dot \<noteq> 3 \<or> num_digit = 0 then Some (0, dst')
         else do {
           dst'' \<leftarrow> mem_write dst' (d + num_dot) [of_nat acc];
           Some (int n, dst'') } }"

definition ip4_text :: "byte list \<Rightarrow> byte list" where
  "ip4_text addr =
     uint8_toa (addr ! 0) @ [46] @ uint8_toa (addr ! 1) @ [46] @
     uint8_toa (addr ! 2) @ [46] @ uint8_toa (addr ! 3)"

definition ip4_str_encode :: "byte list \<Rightarrow> byte list \<Rightarrow> nat \<Rightarrow> nat \<Rightarrow> (nat \<times> byte list) option" where
  "ip4_str_encode addr m p len =
     (if len < 16 then Some (0, m)
      else do {
        m' \<leftarrow> mem_write m p (ip4_text addr @ [0]);
        Some (length (ip4_text addr), m') })"

section \<open>IPv6 text to address\<close>

record ip6_state =
  i6_str :: int
  i6_end :: int
  i6_seg :: int
  i6_dst :: "byte list"
  i6_ptr :: nat
  i6_zero :: "nat option"
  i6_hex :: nat
  i6_nseg :: nat
  i6_acc :: u32

definition is_hexch :: "byte \<Rightarrow> bool" where
  "is_hexch ch \<longleftrightarrow> is_numeral ch \<or> 65 \<le> sint ch \<and> sint ch \<le> 70 \<or> 97 \<le> sint ch \<and> sint ch \<le> 102"

text \<open>The character at a pointer that may have left the text.\<close>

definition ch_at :: "byte list \<Rightarrow> int \<Rightarrow> byte option" where
  "ch_at s i = (if i < 0 then None else mem_get s (nat i))"

text \<open>
  One turn of the loop. The destination starts at index 0 of its memory. \<open>Inl\<close> returns 0 (with
  what has been stored so far).
\<close>

definition ip6_colon :: "byte list \<Rightarrow> ip6_state \<Rightarrow> (byte list + ip6_state) option" where
  "ip6_colon s st =
     (if i6_hex st \<noteq> 0 \<and> i6_nseg st \<ge> 7 then Some (Inl (i6_dst st))
      else do {
        (p, dst) \<leftarrow> (if i6_hex st \<noteq> 0 then enc_u16 (i6_dst st) (i6_ptr st) (ucast (i6_acc st))
                     else Some (i6_ptr st, i6_dst st));
        dbl \<leftarrow> (if i6_str st < i6_end st then do { c \<leftarrow> ch_at s (i6_str st); Some (c = 58) } else Some False);
        if dbl \<and> i6_zero st \<noteq> None then Some (Inl dst)
        else let q = (if dbl then i6_str st + 1 else i6_str st)
             in Some (Inr (st\<lparr>i6_dst := dst, i6_ptr := p,
                              i6_zero := (if dbl then Some p else i6_zero st),
                              i6_str := q, i6_hex := 0, i6_acc := 0,
                              i6_seg := q + 1, i6_nseg := i6_nseg st + 1\<rparr>)) })"

definition ip6_dot :: "byte list \<Rightarrow> ip6_state \<Rightarrow> (byte list + ip6_state) option" where
  "ip6_dot s st =
     (if i6_nseg st > 6 then Some (Inl (i6_dst st))
      else do {
        (r, dst) \<leftarrow> ip4_str_decode (take (nat (i6_end st - i6_seg st)) (drop (nat (i6_seg st)) s))
                      (i6_dst st) (i6_ptr st);
        let q = (if r = SIZE_MAX then i6_seg st - 1 else i6_seg st + r)
        in if q = i6_seg st then Some (Inl dst)
           else Some (Inr (st\<lparr>i6_dst := dst, i6_ptr := i6_ptr st + 4, i6_hex := 0,
                              i6_str := q, i6_nseg := i6_nseg st + 2, i6_end := 0\<rparr>)) })"

definition ip6_step :: "byte list \<Rightarrow> ip6_state \<Rightarrow> (byte list + ip6_state) option" where
  "ip6_step s st0 = do {
     ch \<leftarrow> ch_at s (i6_str st0);
     let st = st0\<lparr>i6_str := i6_str st0 + 1\<rparr>
     in if is_hexch ch then
          (if i6_hex st + 1 > 4 then Some (Inl (i6_dst st))
           else Some (Inr (st\<lparr>i6_hex := i6_hex st + 1,
                              i6_acc := push_bit 4 (i6_acc st) OR ucast (hex_to_nibble ch)\<rparr>)))
        else if ch = 58 then ip6_colon s st
        else if ch = 46 then ip6_dot s st
        else Some (Inr (st\<lparr>i6_end := 0\<rparr>)) }"

text \<open>
  The loop. Each turn reads at least one character or stops the loop, so as many turns as the
  text has characters, and one to leave, are enough; a pointer below the text is the undefined
  read that \<open>ch_at\<close> refuses.
\<close>

fun ip6_loop :: "nat \<Rightarrow> byte list \<Rightarrow> ip6_state \<Rightarrow> (byte list + ip6_state) option" where
  "ip6_loop 0 s st = (if i6_str st < i6_end st then None else Some (Inr st))"
| "ip6_loop (Suc k) s st =
     (if i6_str st < i6_end st then do {
        r \<leftarrow> ip6_step s st;
        case r of Inl dst \<Rightarrow> Some (Inl dst) | Inr st' \<Rightarrow> ip6_loop k s st' }
      else Some (Inr st))"

definition ip6_last_seg :: "ip6_state \<Rightarrow> (nat \<times> byte list \<times> nat) option" where
  "ip6_last_seg st =
     (if i6_hex st \<noteq> 0 then do {
        (p, d) \<leftarrow> enc_u16 (i6_dst st) (i6_ptr st) (ucast (i6_acc st));
        Some (p, d, i6_nseg st + 1) }
      else Some (i6_ptr st, i6_dst st, i6_nseg st))"

definition ip6_zero_fill :: "nat option \<Rightarrow> nat \<Rightarrow> byte list \<Rightarrow> nat \<Rightarrow> (byte list \<times> nat) option" where
  "ip6_zero_fill zero_ptr dst_ptr dst num_seg =
     (case zero_ptr of
        None \<Rightarrow> Some (dst, num_seg)
      | Some z \<Rightarrow> do {
          let zero_move = dst_ptr - z;
          let zero_size = size_sub 16 dst_ptr;
          mv \<leftarrow> mem_read dst z zero_move;
          d2 \<leftarrow> mem_write dst (16 - zero_move) mv;
          d3 \<leftarrow> mem_write d2 z (replicate zero_size 0);
          Some (d3, 8) })"

definition ip6_str_decode :: "byte list \<Rightarrow> byte list \<Rightarrow> (nat \<times> byte list) option" where
  "ip6_str_decode s dst = do {
     r \<leftarrow> ip6_loop (length s + 1) s
            \<lparr>i6_str = 0, i6_end = int (length s), i6_seg = 0, i6_dst = dst, i6_ptr = 0,
             i6_zero = None, i6_hex = 0, i6_nseg = 0, i6_acc = 0\<rparr>;
     case r of
       Inl dst' \<Rightarrow> Some (0, dst')
     | Inr st \<Rightarrow> do {
         (p, d1, nseg) \<leftarrow> ip6_last_seg st;
         (d3, nseg') \<leftarrow> ip6_zero_fill (i6_zero st) p d1 nseg;
         if nseg' \<noteq> 8 then Some (0, d3) else Some (nat (i6_str st), d3) } }"

definition slice_ip4_decode :: "byte list \<Rightarrow> slice \<Rightarrow> byte list \<Rightarrow> (int \<times> byte list) option" where
  "slice_ip4_decode m s dst = do { t \<leftarrow> slice_read m s; ip4_str_decode t dst 0 }"

definition slice_ip6_decode :: "byte list \<Rightarrow> slice \<Rightarrow> byte list \<Rightarrow> (nat \<times> byte list) option" where
  "slice_ip6_decode m s dst = do { t \<leftarrow> slice_read m s; ip6_str_decode t dst }"

section \<open>IPv6 address to text\<close>

definition IP6_STR_ADDBRACK :: nat where "IP6_STR_ADDBRACK = 0"
definition IP6_STR_NOIPV4 :: nat where "IP6_STR_NOIPV4 = 1"
definition IP6_STR_STRIPV4 :: nat where "IP6_STR_STRIPV4 = 2"

definition ip6_val :: "byte list \<Rightarrow> nat \<Rightarrow> u16" where
  "ip6_val addr i = push_bit 8 (ucast (addr ! i)) OR ucast (addr ! (i + 1))"

text \<open>The scan for the longest run of zeros: (\<open>zero_pos\<close>, \<open>zero_len\<close>, \<open>cur_pos\<close>, \<open>cur_len\<close>).\<close>

fun zero_scan :: "byte list \<Rightarrow> nat list \<Rightarrow> int \<times> nat \<times> int \<times> nat \<Rightarrow> int \<times> nat \<times> int \<times> nat" where
  "zero_scan addr [] st = st"
| "zero_scan addr (i # is) (zero_pos, zero_len, cur_pos, cur_len) =
     (if ip6_val addr i = 0 then
        zero_scan addr is (zero_pos, zero_len, if cur_pos = -1 then int i else cur_pos, cur_len + 2)
      else if cur_len > zero_len then zero_scan addr is (cur_pos, cur_len, -1, 0)
      else zero_scan addr is (zero_pos, zero_len, -1, 0))"

definition ip6_zero_run :: "byte list \<Rightarrow> int \<times> nat" where
  "ip6_zero_run addr =
     (case zero_scan addr [0, 2, 4, 6, 8, 10, 12, 14] (-1, 0, -1, 0) of
        (zero_pos, zero_len, cur_pos, cur_len) \<Rightarrow>
          let (zp, zl) = (if cur_len > zero_len then (cur_pos, cur_len) else (zero_pos, zero_len))
          in (if zl \<le> 2 then -1 else zp, zl))"

function ip6_groups :: "byte list \<Rightarrow> nat \<Rightarrow> int \<Rightarrow> nat \<Rightarrow> nat \<Rightarrow> byte list" where
  "ip6_groups addr addr_len zero_pos zero_len i =
     (if i < addr_len then
        (if int i = zero_pos then
           (if i + zero_len \<ge> 16 then [58, 58]
            else [58, 58] @ uint16_toax (ip6_val addr (i + zero_len)) @
                 ip6_groups addr addr_len zero_pos zero_len (i + zero_len + 2))
         else (if i \<noteq> 0 then [58] else []) @ uint16_toax (ip6_val addr i) @
              ip6_groups addr addr_len zero_pos zero_len (i + 2))
      else [])"
  by pat_completeness auto
termination
  by (relation "measure (\<lambda>(addr, addr_len, zero_pos, zero_len, i). addr_len - i)") auto

declare ip6_groups.simps [simp del]

definition ip6_str_encode :: "byte list \<Rightarrow> int \<Rightarrow> byte list \<Rightarrow> nat \<Rightarrow> nat \<Rightarrow> (nat \<times> byte list) option" where
  "ip6_str_encode addr flags m p len =
     (let brack = bit flags IP6_STR_ADDBRACK;
          need_len = 46 + (if brack then 2 else 0)
      in if len < need_len then Some (0, m)
         else let (zero_pos, zero_len) = ip6_zero_run addr;
                  v4 = (\<not> bit flags IP6_STR_NOIPV4 \<and> zero_pos = 0 \<and>
                        (zero_len = 10 \<and> addr ! 10 = 0xff \<and> addr ! 11 = 0xff \<or> zero_len = 12))
              in if v4 \<and> bit flags IP6_STR_STRIPV4 then ip4_str_encode (drop 12 addr) m p len
                 else do {
                   let addr_len = (if v4 then 12 else 16);
                   let head = (if brack then [91] else []) @ ip6_groups addr addr_len zero_pos zero_len 0
                              @ (if v4 \<and> zero_len = 10 then [58] else []);
                   m1 \<leftarrow> mem_write m p head;
                   (n, m2) \<leftarrow> (if v4 then ip4_str_encode (drop 12 addr) m1 (p + length head) (len - length head)
                               else Some (0, m1));
                   let tail = (if brack then [93] else []);
                   m3 \<leftarrow> mem_write m2 (p + length head + n) (tail @ [0]);
                   Some (length head + n + length tail, m3) })"

section \<open>IPv4 round trip\<close>

lemma ip4_loop_digit:
  assumes "x < 10" and "nd < 3" and "10 * acc + x \<le> 255"
  shows "ip4_loop (of_nat (48 + x) # s) n acc nd dots dst d = ip4_loop s (n + 1) (10 * acc + x) (nd + 1) dots dst d"
proof -
  have "is_numeral (of_nat (48 + x))" using assms(1) by (simp add: is_numeral_def sint_digit del: of_nat_add)
  moreover have "nat (sint (of_nat (48 + x) :: byte) - 48) = x" using assms(1) by (simp add: sint_digit del: of_nat_add)
  ultimately show ?thesis using assms(2,3) by (simp add: Let_def del: of_nat_add)
qed

lemma ip4_loop_octet:
  "ip4_loop (uint8_toa b @ s) n 0 0 dots dst d =
     ip4_loop s (n + length (uint8_toa b)) (unat b) (length (uint8_toa b)) dots dst d"
proof -
  let ?n = "unat b"
  have n: "?n < 256" by (rule unat_u8_less)
  have m: "10 * (?n div 10) + ?n mod 10 = ?n" by simp
  have h: "10 * (?n div 10 div 10) + ?n div 10 mod 10 = ?n div 10" by simp
  consider "?n < 10" | "10 \<le> ?n" "?n < 100" | "100 \<le> ?n" by linarith
  then show ?thesis
  proof cases
    case 1
    then show ?thesis
      by (simp add: uint8_toa_dec_digits dec_digits_less10 ip4_loop_digit del: of_nat_add ip4_loop.simps)
  next
    case 2
    then show ?thesis using m
      by (simp add: uint8_toa_dec_digits dec_digits_less10 dec_digits_step ip4_loop_digit del: of_nat_add ip4_loop.simps)
  next
    case 3
    then have "?n div 10 div 10 < 10" "?n div 10 \<le> 25" "10 \<le> ?n div 10" using n by auto
    then show ?thesis using 3 m h n
      by (simp add: uint8_toa_dec_digits dec_digits_less10 dec_digits_step ip4_loop_digit del: of_nat_add ip4_loop.simps)
  qed
qed

lemma not_numeral_dot [simp]: "\<not> is_numeral 46"
  by (simp add: is_numeral_def)

lemma length_ip4_text: "length (ip4_text addr) \<le> 15"
  using length_uint8_toa(2) [of "addr ! 0"] length_uint8_toa(2) [of "addr ! 1"]
    length_uint8_toa(2) [of "addr ! 2"] length_uint8_toa(2) [of "addr ! 3"]
  by (simp add: ip4_text_def)

lemma ip4_decode_text:
  assumes "d + 4 \<le> length dst"
  shows "ip4_str_decode (ip4_text [a, b, c, e]) dst d =
    Some (int (length (ip4_text [a, b, c, e])), dst[d := a, d + 1 := b, d + 2 := c, d + 3 := e])"
proof -
  have nd: "uint8_toa x \<noteq> []" for x by (simp add: uint8_toa_dec_digits)
  show ?thesis
    using assms nd ip4_loop_octet [of e "[]"]
    by (simp add: ip4_str_decode_def ip4_text_def ip4_loop_octet mem_write_one numeral_eq_Suc of_nat_unat)
qed

lemma ip4_loop_safe:
  assumes "d + 4 \<le> length dst" and "dots \<le> 3"
  shows "returns (ip4_loop s n acc nd dots dst d) (\<lambda>r. case r of
     Inl (ret, dst') \<Rightarrow> (ret = 0 \<or> ret = SIZE_MAX) \<and> length dst' = length dst
         \<and> take d dst' = take d dst \<and> drop (d + 4) dst' = drop (d + 4) dst
   | Inr (n', acc', nd', dots', dst') \<Rightarrow> n \<le> n' \<and> n' \<le> n + length s \<and> dots' \<le> 3 \<and> length dst' = length dst
         \<and> take d dst' = take d dst \<and> drop (d + 4) dst' = drop (d + 4) dst)"
  using assms
proof (induction s n acc nd dots dst d rule: ip4_loop.induct)
  case (2 ch s n acc nd dots dst d)
  let ?acc = "8 * acc + 2 * acc + nat (sint ch - 48)"
  consider (dig) "is_numeral ch" "\<not> nd + 1 > 3" "\<not> ?acc > 255"
    | (dot) "\<not> is_numeral ch" "ch = 46" "\<not> (nd = 0 \<or> dots \<ge> 3)"
    | (stop) "is_numeral ch \<and> (nd + 1 > 3 \<or> ?acc > 255) \<or>
        \<not> is_numeral ch \<and> (ch = 46 \<longrightarrow> nd = 0 \<or> dots \<ge> 3)" by blast
  then show ?case
  proof cases
    case dig
    then show ?thesis
      using 2(1) [OF dig(1,2) refl dig(3) 2(3,4)]
      by (auto simp: Let_def elim!: returns_mono split: sum.splits)
  next
    case dot
    then have w: "mem_write dst (d + dots) [of_nat acc] = Some (dst[d + dots := of_nat acc])"
      using 2(3) by (simp add: mem_write_one)
    show ?thesis
      using 2(2) [OF dot(1,2,3) w] 2(3) dot w
      by (auto elim!: returns_mono split: sum.splits)
  next
    case stop
    then show ?thesis using 2(4) by (auto simp: Let_def)
  qed
qed simp

lemma ip4_decode_safe:
  assumes "d + 4 \<le> length dst"
  shows "returns (ip4_str_decode s dst d) (\<lambda>(n, dst').
     (0 \<le> n \<and> n \<le> int (length s) \<or> n = SIZE_MAX) \<and> length dst' = length dst \<and>
     take d dst' = take d dst \<and> drop (d + 4) dst' = drop (d + 4) dst)"
proof -
  obtain r where r: "ip4_loop s 0 0 0 0 dst d = Some r"
    "case r of
     Inl (ret, dst') \<Rightarrow> (ret = 0 \<or> ret = SIZE_MAX) \<and> length dst' = length dst
         \<and> take d dst' = take d dst \<and> drop (d + 4) dst' = drop (d + 4) dst
   | Inr (n', acc', nd', dots', dst') \<Rightarrow> 0 \<le> n' \<and> n' \<le> 0 + length s \<and> dots' \<le> 3 \<and> length dst' = length dst
         \<and> take d dst' = take d dst \<and> drop (d + 4) dst' = drop (d + 4) dst"
    using ip4_loop_safe [OF assms, of 0 s 0 0 0] by (auto simp: returns_iff)
  show ?thesis
    using r assms
    by (auto simp: ip4_str_decode_def mem_write_SomeI add.commute [of 4 d] split: sum.splits)
qed

section \<open>The IPv6 decoder stays inside its destination\<close>

definition ip6_inv :: "byte list \<Rightarrow> ip6_state \<Rightarrow> bool" where
  "ip6_inv s st \<longleftrightarrow> length (i6_dst st) = 16 \<and> i6_ptr st \<le> 14 \<and> i6_ptr st \<le> 2 * i6_nseg st \<and>
     (\<forall>z. i6_zero st = Some z \<longrightarrow> z \<le> i6_ptr st) \<and> 0 \<le> i6_str st \<and> i6_str st \<le> int (length s) \<and>
     (i6_end st = 0 \<or> i6_end st = int (length s))"

lemma enc_u16_Some: "p + 2 \<le> length m \<Longrightarrow> enc_u16 m p v = Some (p + 2, take p m @ be16 v @ drop (p + 2) m)"
  by (simp add: enc_u16_def mem_write_SomeI be16_def)

lemma ip6_colon_inv:
  assumes "ip6_inv s st"
  shows "returns (ip6_colon s st) (\<lambda>r. case r of Inl dst \<Rightarrow> length dst = 16
           | Inr st' \<Rightarrow> ip6_inv s st' \<and> i6_str st \<le> i6_str st')"
proof (cases "i6_hex st \<noteq> 0 \<and> i6_nseg st \<ge> 7")
  case True
  then show ?thesis using assms by (simp add: ip6_colon_def ip6_inv_def)
next
  case False
  define w where "w = (if i6_hex st \<noteq> 0 then enc_u16 (i6_dst st) (i6_ptr st) (ucast (i6_acc st))
                     else Some (i6_ptr st, i6_dst st))"
  obtain p dst where w: "w = Some (p, dst)" "length dst = 16" "i6_ptr st \<le> p" "p \<le> 14" "p \<le> 2 * i6_nseg st + 2"
    using assms False
    by (cases "i6_hex st = 0") (auto simp: w_def ip6_inv_def enc_u16_Some be16_def)
  have "i6_str st < i6_end st \<Longrightarrow> \<exists>c. ch_at s (i6_str st) = Some c"
    using assms by (auto simp: ip6_inv_def ch_at_def mem_get_def)
  moreover have "i6_str st < i6_end st \<Longrightarrow> i6_str st + 1 \<le> int (length s)"
    using assms by (auto simp: ip6_inv_def)
  ultimately show ?thesis
    using assms False w unfolding ip6_colon_def w_def [symmetric]
    by (cases "i6_str st < i6_end st") (auto simp: ip6_inv_def Let_def)
qed

lemma ip6_step_inv:
  assumes "ip6_inv s st" and "i6_str st < i6_end st" and "46 \<notin> set s"
  shows "returns (ip6_step s st) (\<lambda>r. case r of Inl dst \<Rightarrow> length dst = 16
           | Inr st' \<Rightarrow> ip6_inv s st' \<and> i6_str st < i6_str st')"
proof -
  have i: "0 \<le> i6_str st" "nat (i6_str st) < length s"
    using assms(1,2) by (auto simp: ip6_inv_def)
  then have ch: "ch_at s (i6_str st) = Some (s ! nat (i6_str st))" "s ! nat (i6_str st) \<noteq> 46"
    using assms(3) by (auto simp: ch_at_def mem_get_def dest: nth_mem)
  have inv: "ip6_inv s (st\<lparr>i6_str := i6_str st + 1\<rparr>)"
    using assms(1) i by (auto simp: ip6_inv_def)
  show ?thesis
    using ip6_colon_inv [OF inv] inv ch
    by (auto simp: ip6_step_def ip6_inv_def Let_def elim!: returns_mono split: sum.splits)
qed

lemma ip6_loop_inv:
  assumes "ip6_inv s st" and "int (length s) < i6_str st + int k" and "46 \<notin> set s"
  shows "returns (ip6_loop k s st) (\<lambda>r. case r of Inl dst \<Rightarrow> length dst = 16 | Inr st' \<Rightarrow> ip6_inv s st')"
  using assms
proof (induction k arbitrary: st)
  case 0
  then show ?case by (auto simp: ip6_inv_def)
next
  case (Suc k)
  show ?case
  proof (cases "i6_str st < i6_end st")
    case True
    obtain r where r: "ip6_step s st = Some r" "case r of Inl dst \<Rightarrow> length dst = 16
           | Inr st' \<Rightarrow> ip6_inv s st' \<and> i6_str st < i6_str st'"
      using ip6_step_inv [OF Suc.prems(1) True Suc.prems(3)] by (auto simp: returns_iff)
    then show ?thesis using True Suc by (cases r) auto
  next
    case False
    then show ?thesis using Suc.prems by simp
  qed
qed

lemma ip6_last_seg_inv:
  "ip6_inv s st \<Longrightarrow> returns (ip6_last_seg st) (\<lambda>(p, d, nseg). length d = 16 \<and> i6_ptr st \<le> p \<and> p \<le> 16)"
  by (auto simp: ip6_last_seg_def ip6_inv_def enc_u16_Some be16_def)

lemma ip6_zero_fill_safe:
  "length d = 16 \<Longrightarrow> p \<le> 16 \<Longrightarrow> (\<And>z. zp = Some z \<Longrightarrow> z \<le> p) \<Longrightarrow>
     returns (ip6_zero_fill zp p d nseg) (\<lambda>(d', nseg'). length d' = 16)"
  by (cases zp) (simp_all add: ip6_zero_fill_def mem_read_SomeI mem_write_SomeI)

lemma ip6_decode_safe:
  assumes "46 \<notin> set s" and "length dst = 16"
  shows "returns (ip6_str_decode s dst) (\<lambda>(n, dst'). n \<le> length s \<and> length dst' = 16)"
  unfolding ip6_str_decode_def
proof (rule returns_bindI [where P = "\<lambda>r. case r of Inl dst \<Rightarrow> length dst = 16 | Inr st' \<Rightarrow> ip6_inv s st'"],
    goal_cases)
  case 1
  show ?case using assms by (intro ip6_loop_inv) (simp_all add: ip6_inv_def)
next
  case (2 r)
  show ?case
  proof (cases r)
    case (Inr st)
    then have inv: "ip6_inv s st" using 2 by simp
    then have le: "nat (i6_str st) \<le> length s" by (auto simp: ip6_inv_def)
    obtain p d nseg where w: "ip6_last_seg st = Some (p, d, nseg)" "length d = 16" "i6_ptr st \<le> p" "p \<le> 16"
      using ip6_last_seg_inv [OF inv] by (auto simp: returns_iff)
    have "z \<le> p" if "i6_zero st = Some z" for z using that inv w(3) by (auto simp: ip6_inv_def)
    then have "returns (ip6_zero_fill (i6_zero st) p d nseg) (\<lambda>(d', nseg'). length d' = 16)"
      by (rule ip6_zero_fill_safe [OF w(2,4)])
    then show ?thesis using Inr w(1) le by (auto elim!: returnsE)
  qed (use 2 in simp)
qed

section \<open>Properties\<close>

text \<open>C30. The IPv4 text codec round-trips: \<open>ip4_str_encode\<close> stores the dotted text of the four bytes and
  a NUL when it is given the 16 bytes it asks for, and \<open>ip4_str_decode\<close> of that text returns its
  length and stores the same four bytes.\<close>

theorem ip4_roundtrip:
  assumes "length addr = 4" and "p + len \<le> length m" and "16 \<le> len" and "d + 4 \<le> length dst"
  shows "\<exists>n m' dst'. ip4_str_encode addr m p len = Some (n, m') \<and> n < 16 \<and>
    mem_read m' p (n + 1) = Some (ip4_text addr @ [0]) \<and>
    ip4_str_decode (take n (drop p m')) dst d = Some (int n, dst') \<and> mem_read dst' d 4 = Some addr"
proof -
  obtain a b c e where addr: "addr = [a, b, c, e]"
    using assms(1) by (auto simp: length_Suc_conv numeral_eq_Suc)
  let ?n = "length (ip4_text addr)"
  let ?m = "take p m @ (ip4_text addr @ [0]) @ drop (p + (?n + 1)) m"
  let ?d = "dst[d := a, d + 1 := b, d + 2 := c, d + 3 := e]"
  have n: "?n < 16" "p + (?n + 1) \<le> length m" using length_ip4_text [of addr] assms(2,3) by auto
  then have 1: "ip4_str_encode addr m p len = Some (?n, ?m)"
    using assms(3) by (simp add: ip4_str_encode_def mem_write_SomeI)
  have 2: "mem_read ?m p (?n + 1) = Some (ip4_text addr @ [0])" and 3: "take ?n (drop p ?m) = ip4_text addr"
    using n by (simp_all add: mem_read_SomeI)
  have 4: "mem_read ?d d 4 = Some addr"
    using assms(4) addr by (simp add: mem_read_SomeI take_drop_4)
  have "ip4_str_decode (take ?n (drop p ?m)) dst d = Some (int ?n, ?d)"
    unfolding 3 using ip4_decode_text [OF assms(4), of a b c e] by (simp only: addr)
  then show ?thesis using 1 2 4 n(1) by blast
qed

theorem ip4_roundtrip_witness:
  "\<exists>n m' dst'. ip4_str_encode [10, 0, 200, 7] (replicate 20 0) 2 16 = Some (n, m') \<and> n < 16 \<and>
    mem_read m' 2 (n + 1) = Some (ip4_text [10, 0, 200, 7] @ [0]) \<and>
    ip4_str_decode (take n (drop 2 m')) [0, 0, 0, 0] 0 = Some (int n, dst') \<and>
    mem_read dst' 0 4 = Some [10, 0, 200, 7]"
  by (rule ip4_roundtrip) simp_all



text \<open>The dotted part of an IPv6 text is decoded one character late and the IPv4-compatible form is
  printed with a group too many: \<open>::ffff:10.0.0.1\<close> is read as \<open>::ffff:0.0.0.1\<close>, and the address
  \<open>::1.2.3.4\<close> is printed as \<open>::1021.2.3.4\<close>.\<close>

theorem ip6_dotted_misread:
  "ip6_str_decode (str ''::ffff:10.0.0.1'') (replicate 16 0) =
     Some (15, [0, 0, 0, 0, 0, 0, 0, 0, 0, 0, 0xff, 0xff, 0, 0, 0, 1]) \<and>
   map_option (\<lambda>(n, m). take n m)
     (ip6_str_encode [0, 0, 0, 0, 0, 0, 0, 0, 0, 0, 0, 0, 1, 2, 3, 4] 0 (replicate 46 0) 0 46) =
     Some (str ''::1021.2.3.4'')"
  by code_simp

end
