(* ===== verification/Dns_Proto.thy ===== *)
theory Dns_Proto
  imports Sbuf Inet
begin

text \<open>
  The data of the DNS codec: the constants and structures of \<open>src/src/dns_proto.h\<close> and the code
  tables and their printers of \<open>src/src/dns_proto.c\<close>.

  Strings returned by the printers are represented by their bytes. For a number without a name
  the source returns the text made by \<open>int_tostr\<close> in one of its 16 static rows; that text is
  \<open>int_str\<close>, the decimal digits (\<open>int_tostr_digits\<close> shows that \<open>int_tostr\<close> returns them
  from every state of its rows).
\<close>

section \<open>Constants\<close>

definition DNS_NAME_MAXLEN :: nat where "DNS_NAME_MAXLEN = 255"
definition DNS_NAME_MAXSTR :: nat where "DNS_NAME_MAXSTR = 253"
definition DNS_LABEL_MAXSTR :: nat where "DNS_LABEL_MAXSTR = 63"
definition DNS_HDR_LEN :: nat where "DNS_HDR_LEN = 12"
definition DNS_MAX_UDP :: nat where "DNS_MAX_UDP = 512"
definition DNS_MAX_PDUSIZE :: nat where "DNS_MAX_PDUSIZE = 2048"
definition DNS_MAX_QD :: nat where "DNS_MAX_QD = 1"
definition DNS_MAX_RR :: nat where "DNS_MAX_RR = 32"
definition DNS_MAX_TXT :: nat where "DNS_MAX_TXT = 32"
definition DNS_MAX_JMP :: nat where "DNS_MAX_JMP = 16"
definition DNS_MAX_SUFFIX :: nat where "DNS_MAX_SUFFIX = 32"
definition DNS_MAX_EMSG :: nat where "DNS_MAX_EMSG = 10"
definition DNS_MSG_SIZE :: nat where "DNS_MSG_SIZE = 4 * 256 + 100"
definition DNS_EC_ISROW :: int where "DNS_EC_ISROW = 10000"

lemmas dns_limits =
  DNS_NAME_MAXLEN_def DNS_NAME_MAXSTR_def DNS_LABEL_MAXSTR_def DNS_HDR_LEN_def DNS_MAX_UDP_def
  DNS_MAX_PDUSIZE_def DNS_MAX_QD_def DNS_MAX_RR_def DNS_MAX_TXT_def DNS_MAX_JMP_def
  DNS_MAX_SUFFIX_def DNS_MAX_EMSG_def DNS_MSG_SIZE_def DNS_EC_ISROW_def

definition DNS_FLAGS_QR :: u16 where "DNS_FLAGS_QR = 0x8000"
definition DNS_FLAGS_OPCODE :: u16 where "DNS_FLAGS_OPCODE = 0x7800"
definition DNS_FLAGS_CD :: u16 where "DNS_FLAGS_CD = 0x0800"
definition DNS_FLAGS_AA :: u16 where "DNS_FLAGS_AA = 0x0400"
definition DNS_FLAGS_TC :: u16 where "DNS_FLAGS_TC = 0x0200"
definition DNS_FLAGS_AD :: u16 where "DNS_FLAGS_AD = 0x0020"
definition DNS_FLAGS_RD :: u16 where "DNS_FLAGS_RD = 0x0100"
definition DNS_FLAGS_RA :: u16 where "DNS_FLAGS_RA = 0x0080"
definition DNS_FLAGS_RCODE :: u16 where "DNS_FLAGS_RCODE = 0x000F"

definition DNS_TYPE_A :: u16 where "DNS_TYPE_A = 1"
definition DNS_TYPE_NS :: u16 where "DNS_TYPE_NS = 2"
definition DNS_TYPE_CNAME :: u16 where "DNS_TYPE_CNAME = 5"
definition DNS_TYPE_SOA :: u16 where "DNS_TYPE_SOA = 6"
definition DNS_TYPE_PTR :: u16 where "DNS_TYPE_PTR = 12"
definition DNS_TYPE_HINFO :: u16 where "DNS_TYPE_HINFO = 13"
definition DNS_TYPE_MX :: u16 where "DNS_TYPE_MX = 15"
definition DNS_TYPE_TXT :: u16 where "DNS_TYPE_TXT = 16"
definition DNS_TYPE_AAAA :: u16 where "DNS_TYPE_AAAA = 28"
definition DNS_TYPE_SRV :: u16 where "DNS_TYPE_SRV = 33"
definition DNS_TYPE_OPT :: u16 where "DNS_TYPE_OPT = 41"
definition DNS_TYPE_ANY :: u16 where "DNS_TYPE_ANY = 255"

lemmas dns_types =
  DNS_TYPE_A_def DNS_TYPE_NS_def DNS_TYPE_CNAME_def DNS_TYPE_SOA_def DNS_TYPE_PTR_def
  DNS_TYPE_HINFO_def DNS_TYPE_MX_def DNS_TYPE_TXT_def DNS_TYPE_AAAA_def DNS_TYPE_SRV_def
  DNS_TYPE_OPT_def DNS_TYPE_ANY_def

text \<open>Error codes (\<open>enum dns_dec_error\<close>) and error locations (\<open>enum dns_location\<close>).\<close>

definition DNS_EHDRLEN :: int where "DNS_EHDRLEN = 1"
definition DNS_EBADJMP :: int where "DNS_EBADJMP = 2"
definition DNS_EMAXJMP :: int where "DNS_EMAXJMP = 3"
definition DNS_ENAMELEN :: int where "DNS_ENAMELEN = 4"
definition DNS_EOUTLEN :: int where "DNS_EOUTLEN = 5"
definition DNS_ENONULL :: int where "DNS_ENONULL = 6"
definition DNS_ETRUNC :: int where "DNS_ETRUNC = 7"
definition DNS_ERDATALEN :: int where "DNS_ERDATALEN = 8"
definition DNS_EMSGFMT :: int where "DNS_EMSGFMT = 9"
definition DNS_EOPCODE :: int where "DNS_EOPCODE = 11"
definition DNS_ERCODE :: int where "DNS_ERCODE = 12"

lemmas dns_errors =
  DNS_EHDRLEN_def DNS_EBADJMP_def DNS_EMAXJMP_def DNS_ENAMELEN_def DNS_EOUTLEN_def
  DNS_ENONULL_def DNS_ETRUNC_def DNS_ERDATALEN_def DNS_EMSGFMT_def DNS_EOPCODE_def DNS_ERCODE_def

definition DNS_PDU :: int where "DNS_PDU = 1"
definition DNS_HDR :: int where "DNS_HDR = 2"
definition DNS_QD :: int where "DNS_QD = 3"
definition DNS_AN :: int where "DNS_AN = 4"
definition DNS_NS :: int where "DNS_NS = 5"
definition DNS_AR :: int where "DNS_AR = 6"
definition DNS_RR :: int where "DNS_RR = 7"
definition DNS_RDATA :: int where "DNS_RDATA = 8"
definition DNS_NAME :: int where "DNS_NAME = 9"
definition DNS_A :: int where "DNS_A = 10"
definition DNS_TNS :: int where "DNS_TNS = 11"
definition DNS_CNAME :: int where "DNS_CNAME = 12"
definition DNS_SOA :: int where "DNS_SOA = 13"
definition DNS_HINFO :: int where "DNS_HINFO = 15"
definition DNS_MX :: int where "DNS_MX = 16"
definition DNS_TXT :: int where "DNS_TXT = 17"
definition DNS_AAAA :: int where "DNS_AAAA = 18"
definition DNS_SRV :: int where "DNS_SRV = 19"
definition DNS_OPT :: int where "DNS_OPT = 20"

section \<open>Code tables\<close>

definition int_str :: "int \<Rightarrow> byte list" where
  "int_str v = dec_digits (nat v)"

definition ec_tostr :: "byte list option list \<Rightarrow> int \<Rightarrow> byte list option" where
  "ec_tostr estr ec = (if 0 \<le> ec \<and> ec < int (length estr) then estr ! nat ec else None)"

definition dns_ec_strs :: "byte list option list" where
  "dns_ec_strs = map (Some \<circ> str)
     [''Okay'', ''header len'', ''Invalid compression pointer (outside range)'',
      ''Invalid compression pointer (loop detected)'', ''Name length bigger than pkt size'',
      ''Name bigger than buf size'', ''Name missing null char'', ''Truncated packet'',
      ''RDATA len mismatch'', ''field not allowed'', ''No space in buffer'',
      ''Invalid opcode'', ''Invalid rcode'']"

definition dns_ec_tostr :: "int \<Rightarrow> byte list" where
  "dns_ec_tostr ec0 =
     (let ec = (if ec0 < 0 then - ec0 else ec0)
      in case ec_tostr dns_ec_strs ec of
           Some s \<Rightarrow> s
         | None \<Rightarrow> int_str (if ec \<ge> DNS_EC_ISROW then ec - DNS_EC_ISROW + 1 else ec))"

definition dec_code_strs :: "byte list option list" where
  "dec_code_strs = map (Some \<circ> str)
     [''NONE'', ''PDU'', ''HDR'', ''Question'', ''Answer'', ''Authority'', ''Additional'', ''Record'',
      ''RDATA'', ''Name'', ''A'', ''NS'', ''CNAME'', ''SOA'', ''PTR'', ''HINFO'', ''MX'', ''TXT'', ''AAAA'',
      ''SRV'', ''OPT'', ''ANY'']"

definition dec_code_tostr :: "int \<Rightarrow> byte list" where
  "dec_code_tostr code = (case ec_tostr dec_code_strs code of Some s \<Rightarrow> s | None \<Rightarrow> int_str code)"

definition dns_class_tostr :: "int \<Rightarrow> byte list" where
  "dns_class_tostr code =
     (if code = 1 then str ''IN'' else if code = 3 then str ''CH'' else if code = 4 then str ''HS''
      else if code = 254 then str ''NONE'' else if code = 255 then str ''*'' else int_str code)"

definition dns_type_tostr :: "int \<Rightarrow> byte list" where
  "dns_type_tostr code =
     (if code = 1 then str ''A'' else if code = 2 then str ''NS'' else if code = 5 then str ''CNAME''
      else if code = 6 then str ''SOA'' else if code = 12 then str ''PTR'' else if code = 15 then str ''MX''
      else if code = 16 then str ''TXT'' else if code = 28 then str ''AAAA'' else if code = 33 then str ''SRV''
      else if code = 41 then str ''OPT'' else if code = 252 then str ''AXFR'' else if code = 255 then str ''ANY''
      else int_str code)"

definition opcode_strs :: "byte list option list" where
  "opcode_strs = [Some (str ''QUERY''), Some (str ''IQUERY''), Some (str ''STATUS''), None,
     Some (str ''NOTIFY''), Some (str ''UPDATE'')]"

definition rcode_strs :: "byte list option list" where
  "rcode_strs = map (Some \<circ> str)
     [''NoError'', ''FormErr'', ''ServFail'', ''NXDomain'', ''NotImp'', ''Refused'', ''YXDomain'',
      ''YXRRSet'', ''NXRRSet'', ''NotAuth'', ''NotZone''] @ replicate 5 None @
     map (Some \<circ> str) [''BADSIG'', ''BADKEYA'', ''BADTIME'', ''BADMODE'', ''BADNAMEA'', ''BADALGA'', ''BADTRUC'']"

definition rcode_tostr :: "int \<Rightarrow> byte list" where
  "rcode_tostr rcode = (case ec_tostr rcode_strs rcode of Some s \<Rightarrow> s | None \<Rightarrow> int_str rcode)"

definition opcode_tostr :: "int \<Rightarrow> byte list" where
  "opcode_tostr opcode = (case ec_tostr opcode_strs opcode of Some s \<Rightarrow> s | None \<Rightarrow> int_str opcode)"

text \<open>\<open>strcasecmp(a, b) == 0\<close> on two C strings (the C locale folds ASCII letters only).\<close>

definition strcaseeq :: "byte list \<Rightarrow> byte list \<Rightarrow> bool" where
  "strcaseeq a b \<longleftrightarrow> map ch_lower a = map ch_lower b"

definition dns_get_type :: "byte list \<Rightarrow> int" where
  "dns_get_type s =
     (if strcaseeq s (str ''A'') then 1 else if strcaseeq s (str ''NS'') then 2
      else if strcaseeq s (str ''CNAME'') then 5 else if strcaseeq s (str ''SOA'') then 6
      else if strcaseeq s (str ''PTR'') then 12 else if strcaseeq s (str ''HINFO'') then 13
      else if strcaseeq s (str ''MX'') then 15 else if strcaseeq s (str ''TXT'') then 16
      else if strcaseeq s (str ''AAAA'') then 28 else if strcaseeq s (str ''SRV'') then 33
      else 0)"

definition dns_get_class :: "byte list \<Rightarrow> int" where
  "dns_get_class s =
     (if strcaseeq s (str ''IN'') then 1 else if strcaseeq s (str ''CS'') then 2
      else if strcaseeq s (str ''CH'') then 3 else if strcaseeq s (str ''HS'') then 4
      else if strcaseeq s (str ''ANY'') then 255 else 0)"

definition dns_get_flag :: "byte list \<Rightarrow> int" where
  "dns_get_flag s =
     (if strcaseeq s (str ''CD'') then uint DNS_FLAGS_CD else if strcaseeq s (str ''RD'') then uint DNS_FLAGS_RD
      else if strcaseeq s (str ''AD'') then uint DNS_FLAGS_AD else 0)"

definition dns_sc_tostr :: "int \<Rightarrow> byte list" where
  "dns_sc_tostr sc =
     (if sc = 1 then str ''Answer'' else if sc = 2 then str ''Authority''
      else if sc = 3 then str ''Additional'' else int_str sc)"

section \<open>Messages\<close>

record dns_hdr =
  hd_id :: u16
  hd_flags :: u16
  qd_count :: u16
  an_count :: u16
  ns_count :: u16
  ar_count :: u16

definition dns_hdr_reset :: dns_hdr where
  "dns_hdr_reset = \<lparr>hd_id = 0, hd_flags = 0, qd_count = 0, an_count = 0, ns_count = 0, ar_count = 0\<rparr>"

definition dns_hdr_init :: "dns_hdr \<Rightarrow> u16 \<Rightarrow> u16 \<Rightarrow> dns_hdr" where
  "dns_hdr_init h i flags = h\<lparr>hd_id := i, hd_flags := flags\<rparr>"

text \<open>
  The union \<open>rdata\<close>, by the member last written; \<open>'p\<close> is the type of its strings. In a message
  they are pointers into its name store: \<open>None\<close> for NULL, \<open>Some k\<close> for \<open>names + k\<close>. In a record
  that a caller hands to \<open>dns_add_rr\<close> they are C strings. \<open>RD_Zero\<close> is a zeroed union.
\<close>

datatype 'p rdata =
    RD_Zero
  | RD_A "byte list"
  | RD_NS "'p option"
  | RD_CNAME "'p option"
  | RD_SOA "'p option" "'p option" u32 u32 u32 u32 u32
  | RD_PTR "'p option"
  | RD_HINFO "'p option" "'p option"
  | RD_MX u16 "'p option"
  | RD_TXT nat "'p option list"
  | RD_AAAA "byte list"
  | RD_SRV u16 u16 u16 "'p option"
  | RD_OPT u16 u8 u8 bool u16

record 'p dns_rr =
  rr_name :: "'p option"
  rr_type :: u16
  rr_class :: u16
  rr_ttl :: u32
  rr_rdlen :: u16
  rr_rdata :: "'p rdata"

record dns_qd =
  qd_name :: "nat option"
  qd_type :: u16
  qd_class :: u16

type_synonym msg_rr = "nat dns_rr"

text \<open>
  \<open>struct dns_msg\<close>. \<open>m_addr\<close> is not a field of it but the address of its \<open>names\<close>: it decides what the
  bytes of a stored pointer are when a stale union is read through its member \<open>num_str\<close>.
\<close>

record dns_msg =
  m_addr :: nat
  m_hdr :: dns_hdr
  m_names :: "byte list"
  m_names_len :: nat
  m_qd_len :: nat
  m_an_len :: nat
  m_ns_len :: nat
  m_ar_len :: nat
  m_qd :: "dns_qd list"
  m_an :: "msg_rr list"
  m_ns :: "msg_rr list"
  m_ar :: "msg_rr list"

definition zero_rr :: msg_rr where
  "zero_rr = \<lparr>rr_name = None, rr_type = 0, rr_class = 0, rr_ttl = 0, rr_rdlen = 0, rr_rdata = RD_Zero\<rparr>"

definition zero_qd :: dns_qd where
  "zero_qd = \<lparr>qd_name = None, qd_type = 0, qd_class = 0\<rparr>"

text \<open>\<open>struct dns_msg msg = { 0 }\<close> (at an address that is a multiple of \<open>2 ^ 16\<close>; nothing depends on it)\<close>

definition zero_msg :: dns_msg where
  "zero_msg = \<lparr>m_addr = 0, m_hdr = dns_hdr_reset, m_names = replicate DNS_MAX_PDUSIZE 0, m_names_len = 0,
     m_qd_len = 0, m_an_len = 0, m_ns_len = 0, m_ar_len = 0,
     m_qd = replicate DNS_MAX_QD zero_qd, m_an = replicate DNS_MAX_RR zero_rr,
     m_ns = replicate DNS_MAX_RR zero_rr, m_ar = replicate DNS_MAX_RR zero_rr\<rparr>"

definition dns_msg_reset :: "dns_msg \<Rightarrow> dns_msg" where
  "dns_msg_reset msg = msg\<lparr>m_hdr := dns_hdr_reset, m_names_len := 0, m_qd_len := 0, m_an_len := 0,
     m_ns_len := 0, m_ar_len := 0\<rparr>"

definition dns_msg_init :: "dns_msg \<Rightarrow> u16 \<Rightarrow> u16 \<Rightarrow> dns_msg" where
  "dns_msg_init msg i flags = msg\<lparr>m_hdr := (m_hdr msg)\<lparr>hd_id := i, hd_flags := flags\<rparr>\<rparr>"

text \<open>
  \<open>struct dns_sect\<close> points at one of the three record arrays and its counter: it is the name of
  the section with the two accessors.
\<close>

datatype sect = SectAN | SectNS | SectAR

fun sect_base :: "sect \<Rightarrow> dns_msg \<Rightarrow> msg_rr list" where
  "sect_base SectAN msg = m_an msg"
| "sect_base SectNS msg = m_ns msg"
| "sect_base SectAR msg = m_ar msg"

fun sect_count :: "sect \<Rightarrow> dns_msg \<Rightarrow> nat" where
  "sect_count SectAN msg = m_an_len msg"
| "sect_count SectNS msg = m_ns_len msg"
| "sect_count SectAR msg = m_ar_len msg"

fun set_base :: "sect \<Rightarrow> msg_rr list \<Rightarrow> dns_msg \<Rightarrow> dns_msg" where
  "set_base SectAN rs msg = msg\<lparr>m_an := rs\<rparr>"
| "set_base SectNS rs msg = msg\<lparr>m_ns := rs\<rparr>"
| "set_base SectAR rs msg = msg\<lparr>m_ar := rs\<rparr>"

fun set_count :: "sect \<Rightarrow> nat \<Rightarrow> dns_msg \<Rightarrow> dns_msg" where
  "set_count SectAN n msg = msg\<lparr>m_an_len := n\<rparr>"
| "set_count SectNS n msg = msg\<lparr>m_ns_len := n\<rparr>"
| "set_count SectAR n msg = msg\<lparr>m_ar_len := n\<rparr>"

fun sect_code :: "sect \<Rightarrow> int" where
  "sect_code SectAN = DNS_AN"
| "sect_code SectNS = DNS_NS"
| "sect_code SectAR = DNS_AR"

text \<open>The record slot \<open>base[*count]\<close> that the operations fill before they count it.\<close>

definition upd_slot :: "sect \<Rightarrow> (msg_rr \<Rightarrow> msg_rr) \<Rightarrow> dns_msg \<Rightarrow> dns_msg" where
  "upd_slot s f msg = set_base s ((sect_base s msg)[sect_count s msg := f (sect_base s msg ! sect_count s msg)]) msg"

definition dns_cnt_rr :: "dns_msg \<Rightarrow> u32" where
  "dns_cnt_rr msg = of_nat (m_an_len msg) + of_nat (m_ns_len msg) + of_nat (m_ar_len msg)"

definition dns_get_rr :: "dns_msg \<Rightarrow> (sect \<times> nat) option" where
  "dns_get_rr msg =
     (if m_an_len msg \<noteq> 0 then Some (SectAN, 0) else if m_ns_len msg \<noteq> 0 then Some (SectNS, 0)
      else if m_ar_len msg \<noteq> 0 then Some (SectAR, 0) else None)"

end
