(* ===== verification/Dns_Name.thy ===== *)
theory Dns_Name
  imports Dns_Proto
begin

text \<open>
  Domain names on the wire: \<open>decode_name\<close> of \<open>src/src/dns_proto.c\<close> against an inductive
  definition of the wire format of RFC 1035, section 4.1.4.

  \<open>wire_name pkt p e k t\<close> says that at offset \<open>p\<close> of the packet stands a name whose text is \<open>t\<close>,
  that reading it follows \<open>k\<close> compression pointers and that its own bytes end at \<open>e\<close>. The decoder
  is total, stays inside its buffers for every packet, accepts exactly the names of that relation
  with at most 17 pointers that fit the output, and returns their text.
\<close>

section \<open>The decoder\<close>

record dns_err =
  er_group :: int
  er_field :: int
  er_ec :: int

text \<open>
  \<open>struct dns_dec\<close>. The packet is a list of at least \<open>d_pkt_len\<close> bytes; the bytes after that are
  the memory behind the packet, which the program may not use. \<open>d_msg\<close> is the scratch buffer of
  1124 bytes the names and descriptions are built in.
\<close>

record dns_dec =
  d_pkt :: "byte list"
  d_pkt_len :: nat
  d_offset :: nat
  d_errs :: "dns_err list"
  d_need_emsg :: bool
  d_load_msg :: bool
  d_got_edns :: bool
  d_dnssec_ok :: bool
  d_udp_size :: nat
  d_ext_rcode :: u8
  d_edns_ver :: u8
  d_emsg :: sbuf
  d_hdr :: dns_hdr
  d_msg :: "byte list"

text \<open>The initial state that \<open>dns_validate\<close> and \<open>dns_msg_decode\<close> build: all other fields are zero.\<close>

definition dec_init :: "byte list \<Rightarrow> nat \<Rightarrow> bool \<Rightarrow> bool \<Rightarrow> byte list \<Rightarrow> dns_dec" where
  "dec_init pkt len need_emsg load_msg emsg =
     \<lparr>d_pkt = pkt, d_pkt_len = len, d_offset = 0, d_errs = [], d_need_emsg = need_emsg,
      d_load_msg = load_msg, d_got_edns = False, d_dnssec_ok = False, d_udp_size = DNS_MAX_UDP,
      d_ext_rcode = 0, d_edns_ver = 0, d_emsg = sbuf_init emsg, d_hdr = dns_hdr_reset,
      d_msg = replicate DNS_MSG_SIZE 0\<rparr>"

text \<open>
  The loop of \<open>decode_name\<close> and the code after it. The arguments are the packet, its length,
  \<open>pkt_idx\<close>, \<open>out_len\<close>, \<open>njmp\<close>, \<open>len\<close>, \<open>dec->offset\<close>, the buffer the name is written to and the
  write pointer into it (\<open>None\<close> for a NULL \<open>name\<close>). The result is the \<open>out_len\<close> left or the negative
  error code, with the offset and the buffer at that moment. A jump strictly lowers the number of
  jumps left and a label strictly lowers the number of bytes left, which is why the loop ends.
\<close>

definition put_name :: "byte list \<Rightarrow> nat option \<Rightarrow> byte list \<Rightarrow> (byte list \<times> nat option) option" where
  "put_name buf name bs =
     (case name of None \<Rightarrow> Some (buf, None)
      | Some p \<Rightarrow> do { buf' \<leftarrow> mem_write buf p bs; Some (buf', Some (p + length bs)) })"

function name_loop :: "byte list \<Rightarrow> nat \<Rightarrow> nat \<Rightarrow> nat \<Rightarrow> nat \<Rightarrow> int \<Rightarrow> nat \<Rightarrow> byte list \<Rightarrow> nat option
    \<Rightarrow> ((int + nat) \<times> nat \<times> byte list) option" where
  "name_loop pkt pkt_len pkt_idx out_len njmp len offset buf name =
     (if pkt_idx < pkt_len then do {
        b \<leftarrow> mem_get pkt pkt_idx;
        let idx = pkt_idx + 1;
        if b AND 0xC0 = 0xC0 then
          (if idx = pkt_len then Some (Inl (- DNS_EBADJMP), offset, buf)
           else if njmp > DNS_MAX_JMP then Some (Inl (- DNS_EMAXJMP), offset, buf)
           else do {
             let offset' = (if njmp + 1 = 1 then offset + 2 else offset);
             b2 \<leftarrow> mem_get pkt idx;
             let jmp = unat (b AND 0x3F) * 256 + unat b2;
             if jmp < 12 then Some (Inl (- DNS_EBADJMP), offset', buf)
             else if jmp > pkt_len then Some (Inl (- DNS_EBADJMP), offset', buf)
             else name_loop pkt pkt_len jmp out_len (njmp + 1) (int jmp) offset' buf name })
        else
          (let l = unat b
           in if l > pkt_len - idx then Some (Inl (- DNS_ENAMELEN), offset, buf)
              else if l > out_len then Some (Inl (- DNS_EOUTLEN), offset, buf)
              else
                (let offset' = (if njmp = 0 then offset + (1 + l) else offset)
                 in if l = 0 then
                      (if out_len = 0 then Some (Inl (- DNS_EOUTLEN), offset', buf)
                       else do {
                         (buf', name') \<leftarrow> put_name buf name [0];
                         Some (Inr (if name = None then out_len else out_len - 1), offset', buf') })
                    else do {
                      bs \<leftarrow> mem_read pkt idx l;
                      (buf1, name1) \<leftarrow> put_name buf name bs;
                      let out1 = out_len - l;
                      let idx1 = idx + l;
                      if out1 = 0 then Some (Inl (- DNS_EOUTLEN), offset', buf1)
                      else do {
                        dot \<leftarrow> (if idx1 < pkt_len then do { c \<leftarrow> mem_get pkt idx1; Some (c \<noteq> 0) } else Some False);
                        (buf2, name2) \<leftarrow> (if dot then put_name buf1 name1 [46] else Some (buf1, name1));
                        name_loop pkt pkt_len idx1 (if dot then out1 - 1 else out1) njmp (int l) offset' buf2 name2 } }))
        }
      else if len \<noteq> 0 then Some (Inl (- DNS_ENONULL), offset, buf)
      else if out_len = 0 then Some (Inl (- DNS_EOUTLEN), offset, buf)
      else do {
        (buf', name') \<leftarrow> put_name buf name [0];
        Some (Inr (if name = None then out_len else out_len - 1), offset, buf') })"
  by pat_completeness auto
termination
  by (relation "measures [\<lambda>(pkt, pkt_len, pkt_idx, out_len, njmp, len, offset, buf, name). DNS_MAX_JMP + 1 - njmp,
                          \<lambda>(pkt, pkt_len, pkt_idx, out_len, njmp, len, offset, buf, name). pkt_len - pkt_idx]")
    (auto simp: word_neq_0_conv)

declare name_loop.simps [simp del]

definition decode_name :: "dns_dec \<Rightarrow> nat option \<Rightarrow> nat \<Rightarrow> (int \<times> dns_dec) option" where
  "decode_name dec name nlen = do {
     (r, offset, buf) \<leftarrow> name_loop (d_pkt dec) (d_pkt_len dec) (d_offset dec) nlen 0 (-1) (d_offset dec) (d_msg dec) name;
     Some (case r of Inl e \<Rightarrow> e | Inr out_len \<Rightarrow> int nlen - int out_len,
           dec\<lparr>d_offset := offset, d_msg := buf\<rparr>) }"

section \<open>The wire format\<close>

definition is_ptr :: "byte \<Rightarrow> bool" where
  "is_ptr b \<longleftrightarrow> b AND 0xC0 = 0xC0"

definition ptr_target :: "byte \<Rightarrow> byte \<Rightarrow> nat" where
  "ptr_target b b2 = unat (b AND 0x3F) * 256 + unat b2"

inductive wire_name :: "byte list \<Rightarrow> nat \<Rightarrow> nat \<Rightarrow> nat \<Rightarrow> nat \<Rightarrow> byte list \<Rightarrow> bool"
  for pkt :: "byte list" and pkt_len :: nat where
  root: "p < pkt_len \<Longrightarrow> pkt ! p = 0 \<Longrightarrow> wire_name pkt pkt_len p (p + 1) 0 []"
| label: "p < pkt_len \<Longrightarrow> \<not> is_ptr (pkt ! p) \<Longrightarrow> l = unat (pkt ! p) \<Longrightarrow> 0 < l \<Longrightarrow>
    wire_name pkt pkt_len (p + 1 + l) e k t \<Longrightarrow>
    wire_name pkt pkt_len p e k
      (take l (drop (p + 1) pkt) @ (if pkt ! (p + 1 + l) = 0 then t else 46 # t))"
| jump: "p + 1 < pkt_len \<Longrightarrow> is_ptr (pkt ! p) \<Longrightarrow> jmp = ptr_target (pkt ! p) (pkt ! (p + 1)) \<Longrightarrow>
    12 \<le> jmp \<Longrightarrow> wire_name pkt pkt_len jmp e k t \<Longrightarrow>
    wire_name pkt pkt_len p (p + 2) (k + 1) t"

lemma wire_name_bound: "wire_name pkt L p e k t \<Longrightarrow> p < e \<and> p < L \<and> e \<le> L"
  by (induction rule: wire_name.induct) auto

section \<open>Steps of the loop\<close>

lemma name_loop_end:
  "\<not> idx < L \<Longrightarrow> len \<noteq> 0 \<Longrightarrow> name_loop pkt L idx out nj len off buf name = Some (Inl (- DNS_ENONULL), off, buf)"
  by (subst name_loop.simps) simp

lemma name_loop_root:
  assumes "idx < L" and "L \<le> length pkt" and "pkt ! idx = 0" and "q + out \<le> length buf"
  shows "name_loop pkt L idx out nj len off buf (Some q) =
    Some (if out = 0 then (Inl (- DNS_EOUTLEN), if nj = 0 then off + 1 else off, buf)
          else (Inr (out - 1), if nj = 0 then off + 1 else off, buf[q := 0]))"
  using assms by (subst name_loop.simps) (simp add: mem_get_def put_name_def mem_write_one)

lemma name_loop_jump:
  assumes "idx < L" and "L \<le> length pkt" and "is_ptr (pkt ! idx)"
  shows "name_loop pkt L idx out nj len off buf name =
    (if idx + 1 = L then Some (Inl (- DNS_EBADJMP), off, buf)
     else if nj > 16 then Some (Inl (- DNS_EMAXJMP), off, buf)
     else let off' = (if nj = 0 then off + 2 else off);
              jmp = ptr_target (pkt ! idx) (pkt ! (idx + 1))
          in if jmp < 12 \<or> jmp > L then Some (Inl (- DNS_EBADJMP), off', buf)
             else name_loop pkt L jmp out (nj + 1) (int jmp) off' buf name)"
  using assms
  by (subst name_loop.simps) (auto simp: mem_get_def is_ptr_def ptr_target_def Let_def DNS_MAX_JMP_def)

text \<open>The bytes a label adds to the text: the label and, unless a zero byte follows, a dot.\<close>

definition label_text :: "byte list \<Rightarrow> nat \<Rightarrow> nat \<Rightarrow> byte list" where
  "label_text pkt L idx =
     (let l = unat (pkt ! idx)
      in take l (drop (idx + 1) pkt) @ (if idx + 1 + l < L \<and> pkt ! (idx + 1 + l) \<noteq> 0 then [46] else []))"

lemma mem_write_twice:
  assumes "p + length a + length b \<le> length m"
  shows "do { m' \<leftarrow> mem_write m p a; mem_write m' (p + length a) b } =
    Some (take p m @ (a @ b) @ drop (p + length (a @ b)) m)"
  using assms by (simp add: mem_write_SomeI add.commute add.left_commute)

lemma name_loop_label:
  assumes "idx < L" and "L \<le> length pkt" and "\<not> is_ptr (pkt ! idx)" and l: "l = unat (pkt ! idx)" "0 < l"
    and q: "q + out \<le> length buf"
  shows "\<exists>buf' off'. length buf' = length buf \<and> take q buf' = take q buf \<and> drop (q + out) buf' = drop (q + out) buf \<and>
    name_loop pkt L idx out nj len off buf (Some q) =
    (if idx + 1 + l > L then Some (Inl (- DNS_ENAMELEN), off, buf)
     else if l \<ge> out then Some (Inl (- DNS_EOUTLEN), off', buf')
     else let bs = label_text pkt L idx
          in name_loop pkt L (idx + 1 + l) (out - length bs) nj (int l) (if nj = 0 then off + (1 + l) else off)
               (take q buf @ bs @ drop (q + length bs) buf) (Some (q + length bs)))"
proof -
  have b: "mem_get pkt idx = Some (pkt ! idx)" "pkt ! idx AND 0xC0 \<noteq> 0xC0" "unat (pkt ! idx) = l" "l \<noteq> 0"
    using assms by (simp_all add: mem_get_def is_ptr_def)
  have sub: "l > L - (idx + 1) \<longleftrightarrow> idx + 1 + l > L" using assms(1) by linarith
  consider (trunc) "idx + 1 + l > L" | (long) "idx + 1 + l \<le> L" "l > out"
    | (full) "idx + 1 + l \<le> L" "l = out" | (fits) "idx + 1 + l \<le> L" "l < out" by linarith
  then show ?thesis
  proof cases
    case trunc
    then show ?thesis using b sub by (intro exI [of _ buf] exI [of _ off], subst name_loop.simps)
      (simp add: assms(1))
  next
    case long
    then show ?thesis using b sub by (intro exI [of _ buf] exI [of _ off], subst name_loop.simps)
      (simp add: assms(1))
  next
    case full
    let ?bs = "take l (drop (idx + 1) pkt)"
    have r: "mem_read pkt (idx + 1) l = Some ?bs" "length ?bs = l"
      using full assms(2) by (simp_all add: mem_read_SomeI)
    then have w: "put_name buf (Some q) ?bs = Some (take q buf @ ?bs @ drop (q + l) buf, Some (q + l))"
      using full q by (simp add: put_name_def mem_write_SomeI)
    show ?thesis
      using b sub full r w q
      by (intro exI [of _ "take q buf @ ?bs @ drop (q + l) buf"] exI [of _ "if nj = 0 then off + (1 + l) else off"],
          subst name_loop.simps)
        (simp add: assms(1))
  next
    case fits
    let ?bs = "take l (drop (idx + 1) pkt)"
    have r: "mem_read pkt (idx + 1) l = Some ?bs" "length ?bs = l"
      using fits assms(2) by (simp_all add: mem_read_SomeI)
    then have w: "put_name buf (Some q) ?bs = Some (take q buf @ ?bs @ drop (q + l) buf, Some (q + l))"
      using fits q by (simp add: put_name_def mem_write_SomeI)
    have c: "idx + 1 + l < L \<Longrightarrow> mem_get pkt (idx + 1 + l) = Some (pkt ! (idx + 1 + l))"
      using assms(2) by (simp add: mem_get_def)
    have d: "put_name (take q buf @ ?bs @ drop (q + l) buf) (Some (q + l)) [46] =
        Some (take q buf @ (?bs @ [46]) @ drop (q + (l + 1)) buf, Some (q + (l + 1)))"
      using fits q r by (simp add: put_name_def mem_write_SomeI)
    show ?thesis
      using b sub fits r w c d q
      by (intro exI [of _ buf] exI [of _ off], subst name_loop.simps)
        (auto simp: assms(1) label_text_def Let_def)
  qed
qed

section \<open>Soundness\<close>

text \<open>What the loop does to the buffer and what it says about the packet when it succeeds.\<close>

definition name_result :: "byte list \<Rightarrow> nat \<Rightarrow> nat \<Rightarrow> nat \<Rightarrow> nat \<Rightarrow> nat \<Rightarrow> byte list \<Rightarrow> nat
    \<Rightarrow> (int + nat) \<times> nat \<times> byte list \<Rightarrow> bool" where
  "name_result pkt L idx out nj off buf q res =
     (case res of (r, off', buf') \<Rightarrow>
        length buf' = length buf \<and> take q buf' = take q buf \<and> drop (q + out) buf' = drop (q + out) buf \<and>
        (case r of
           Inl e \<Rightarrow> e \<in> {- DNS_EBADJMP, - DNS_EMAXJMP, - DNS_ENAMELEN, - DNS_EOUTLEN, - DNS_ENONULL}
         | Inr out' \<Rightarrow> \<exists>e k t. wire_name pkt L idx e k t \<and> nj + k \<le> 17 \<and> out' + length t + 1 = out \<and>
             take (length t + 1) (drop q buf') = t @ [0] \<and> off' = (if nj = 0 then off + (e - idx) else off)))"

lemma name_result_okI:
  assumes "wire_name pkt L idx e k t" and "nj + k \<le> 17" and "out' + length t + 1 = out"
    and "take (length t + 1) (drop q buf') = t @ [0]" and "off' = (if nj = 0 then off + (e - idx) else off)"
    and "length buf' = length buf" and "take q buf' = take q buf" and "drop (q + out) buf' = drop (q + out) buf"
  shows "name_result pkt L idx out nj off buf q (Inr out', off', buf')"
  using assms unfolding name_result_def by (simp only: prod.case sum.case) blast

lemma name_result_jump:
  assumes "idx + 1 < L" and "is_ptr (pkt ! idx)" and "jmp = ptr_target (pkt ! idx) (pkt ! (idx + 1))" and "12 \<le> jmp"
    and "name_result pkt L jmp out (nj + 1) (if nj = 0 then off + 2 else off) buf q res"
  shows "name_result pkt L idx out nj off buf q res"
proof -
  obtain r off' buf' where res: "res = (r, off', buf')" by (cases res)
  show ?thesis
  proof (cases r)
    case (Inl e)
    then show ?thesis using assms(5) res by (simp add: name_result_def)
  next
    case (Inr out')
    then obtain e k t where *: "wire_name pkt L jmp e k t" "nj + 1 + k \<le> 17" "out' + length t + 1 = out"
      "take (length t + 1) (drop q buf') = t @ [0]" "off' = (if nj = 0 then off + 2 else off)"
      "length buf' = length buf" "take q buf' = take q buf" "drop (q + out) buf' = drop (q + out) buf"
      using assms(5) res by (auto simp: name_result_def)
    then have "wire_name pkt L idx (idx + 2) (k + 1) t" using assms by (intro wire_name.jump)
    moreover have "off' = (if nj = 0 then off + (idx + 2 - idx) else off)" using *(5) by simp
    moreover have "nj + (k + 1) \<le> 17" using *(2) by linarith
    ultimately show ?thesis
      unfolding res Inr by (intro name_result_okI [OF _ _ *(3,4) _ *(6-8)])
  qed
qed

lemma name_result_label:
  assumes "idx < L" and "L \<le> length pkt" and "\<not> is_ptr (pkt ! idx)" and l: "l = unat (pkt ! idx)" "0 < l"
    and "idx + 1 + l \<le> L" "l < out" and q: "q + out \<le> length buf"
    and bs: "bs = label_text pkt L idx"
    and ih: "name_result pkt L (idx + 1 + l) (out - length bs) nj (if nj = 0 then off + (1 + l) else off)
      (take q buf @ bs @ drop (q + length bs) buf) (q + length bs) res"
  shows "name_result pkt L idx out nj off buf q res"
proof -
  obtain r off' buf' where res: "res = (r, off', buf')" by (cases res)
  have bsl: "length bs = l \<or> length bs = l + 1" "length bs \<le> out"
    using assms by (auto simp: label_text_def Let_def)
  let ?b1 = "take q buf @ bs @ drop (q + length bs) buf"
  have b1: "length ?b1 = length buf" using q bsl by simp
  have frame: "length buf' = length ?b1" "take (q + length bs) buf' = take (q + length bs) ?b1"
    "drop (q + length bs + (out - length bs)) buf' = drop (q + length bs + (out - length bs)) ?b1"
    using ih res by (simp_all add: name_result_def)
  have t1: "take (q + length bs) buf' = take q buf @ bs" using frame(2) q bsl by simp
  have f1: "length buf' = length buf" using frame(1) b1 by simp
  have f2: "take q buf' = take q buf"
    using arg_cong [OF t1, of "take q"] q bsl by (simp add: min_def)
  have f3: "drop (q + out) buf' = drop (q + out) buf"
    using frame(3) q bsl by (simp add: add.commute)
  have dq: "drop q buf' = bs @ drop (q + length bs) buf'"
  proof -
    have "drop q (take (q + length bs) buf') = bs" using t1 q bsl by simp
    then have "take (length bs) (drop q buf') = bs" by (simp add: drop_take)
    then show ?thesis by (metis add.commute append_take_drop_id drop_drop)
  qed
  show ?thesis
  proof (cases r)
    case (Inl e)
    then show ?thesis using ih res f1 f2 f3 by (simp add: name_result_def)
  next
    case (Inr out')
    then obtain e k t where *: "wire_name pkt L (idx + 1 + l) e k t" "nj + k \<le> 17"
      "out' + length t + 1 = out - length bs"
      "take (length t + 1) (drop (q + length bs) buf') = t @ [0]"
      "off' = (if nj = 0 then off + (1 + l) + (e - (idx + 1 + l)) else off)"
      using ih res by (auto simp: name_result_def)
    have ltL: "idx + 1 + l < L" "idx + 1 + l < e" using wire_name_bound [OF *(1)] by auto
    have "bs @ t = take l (drop (idx + 1) pkt) @ (if pkt ! (idx + 1 + l) = 0 then t else 46 # t)"
      using l bs ltL by (auto simp: label_text_def Let_def)
    then have "wire_name pkt L idx e k (bs @ t)"
      using wire_name.label [OF assms(1,3) l *(1)] by simp
    moreover have "take (length (bs @ t) + 1) (drop q buf') = (bs @ t) @ [0]"
      using dq *(4) by simp
    moreover have "out' + length (bs @ t) + 1 = out" using *(3) by simp
    moreover have "off' = (if nj = 0 then off + (e - idx) else off)" using *(5) ltL by auto
    ultimately show ?thesis
      unfolding res Inr by (intro name_result_okI [OF _ *(2)] f1 f2 f3)
  qed
qed

lemma name_result_errI:
  assumes "e \<in> {- DNS_EBADJMP, - DNS_EMAXJMP, - DNS_ENAMELEN, - DNS_EOUTLEN, - DNS_ENONULL}"
    and "length buf' = length buf" and "take q buf' = take q buf" and "drop (q + out) buf' = drop (q + out) buf"
  shows "name_result pkt L idx out nj off buf q (Inl e, off', buf')"
  using assms by (simp add: name_result_def)

text \<open>One turn of the loop at a compression pointer and at a label, given what the next turns do.\<close>

lemma name_jump_sound:
  fixes idx nj off out :: nat and pkt :: "byte list"
  defines "jmp \<equiv> ptr_target (pkt ! idx) (pkt ! (idx + 1))" and "off' \<equiv> (if nj = 0 then off + 2 else off)"
  assumes "L \<le> length pkt" and "idx < L" and "is_ptr (pkt ! idx)"
    and next_turn: "idx + 1 < L \<Longrightarrow> nj \<le> 16 \<Longrightarrow> 12 \<le> jmp \<Longrightarrow> jmp \<le> L \<Longrightarrow>
      returns (name_loop pkt L jmp out (nj + 1) (int jmp) off' buf (Some q)) (name_result pkt L jmp out (nj + 1) off' buf q)"
  shows "returns (name_loop pkt L idx out nj len off buf (Some q)) (name_result pkt L idx out nj off buf q)"
proof (cases "idx + 1 = L \<or> nj > 16 \<or> jmp < 12 \<or> jmp > L")
  case True
  then show ?thesis using assms(3-5) name_result_errI by (auto simp: name_loop_jump Let_def jmp_def)
next
  case False
  then have ok: "idx + 1 < L" "nj \<le> 16" "12 \<le> jmp" "jmp \<le> L" using \<open>idx < L\<close> by auto
  have "returns (name_loop pkt L jmp out (nj + 1) (int jmp) off' buf (Some q)) (name_result pkt L idx out nj off buf q)"
    using next_turn [OF ok] unfolding jmp_def off'_def
    by (rule returns_mono) (rule name_result_jump [OF ok(1) assms(5) refl ok(3) [unfolded jmp_def]])
  then show ?thesis using False assms(3-5) by (simp add: name_loop_jump Let_def jmp_def off'_def)
qed

lemma name_label_sound:
  fixes idx nj off out q L :: nat and pkt buf :: "byte list"
  defines "l \<equiv> unat (pkt ! idx)" and "bs \<equiv> label_text pkt L idx"
  defines "off1 \<equiv> (if nj = 0 then off + (1 + l) else off)"
  assumes "L \<le> length pkt" and "idx < L" and "\<not> is_ptr (pkt ! idx)" and "0 < l" and "q + out \<le> length buf"
    and next_turn: "idx + 1 + l \<le> L \<Longrightarrow> l < out \<Longrightarrow> length bs \<le> out \<Longrightarrow>
      returns (name_loop pkt L (idx + 1 + l) (out - length bs) nj (int l) off1 (take q buf @ bs @ drop (q + length bs) buf) (Some (q + length bs)))
        (name_result pkt L (idx + 1 + l) (out - length bs) nj off1 (take q buf @ bs @ drop (q + length bs) buf) (q + length bs))"
  shows "returns (name_loop pkt L idx out nj len off buf (Some q)) (name_result pkt L idx out nj off buf q)"
proof -
  obtain buf' off' where st: "length buf' = length buf" "take q buf' = take q buf" "drop (q + out) buf' = drop (q + out) buf"
    "name_loop pkt L idx out nj len off buf (Some q) =
     (if idx + 1 + l > L then Some (Inl (- DNS_ENAMELEN), off, buf)
      else if l \<ge> out then Some (Inl (- DNS_EOUTLEN), off', buf')
      else name_loop pkt L (idx + 1 + l) (out - length bs) nj (int l) off1 (take q buf @ bs @ drop (q + length bs) buf) (Some (q + length bs)))"
    using name_loop_label [OF assms(5,4,6) l_def [THEN meta_eq_to_obj_eq] assms(7,8), of nj len off]
    unfolding Let_def bs_def [symmetric] off1_def by blast
  show ?thesis
  proof (cases "idx + 1 + l > L \<or> l \<ge> out")
    case True
    then show ?thesis using st name_result_errI by auto
  next
    case False
    have "length bs \<le> out" using False assms(4) by (auto simp: bs_def label_text_def Let_def l_def)
    then have "returns (name_loop pkt L (idx + 1 + l) (out - length bs) nj (int l) off1 (take q buf @ bs @ drop (q + length bs) buf) (Some (q + length bs)))
        (name_result pkt L (idx + 1 + l) (out - length bs) nj off1 (take q buf @ bs @ drop (q + length bs) buf) (q + length bs))"
      using False by (intro next_turn) simp_all
    then have "returns (name_loop pkt L (idx + 1 + l) (out - length bs) nj (int l) off1 (take q buf @ bs @ drop (q + length bs) buf) (Some (q + length bs)))
        (name_result pkt L idx out nj off buf q)"
      by (rule returns_mono)
        (use name_result_label [OF assms(5,4,6) l_def [THEN meta_eq_to_obj_eq] _ _ _ assms(8) bs_def [THEN meta_eq_to_obj_eq], of nj off] assms(7) False
          in \<open>simp add: off1_def\<close>)
    then show ?thesis using st(4) False by simp
  qed
qed

lemma name_loop_sound:
  assumes "L \<le> length pkt" and "q + out \<le> length buf" and "len \<noteq> 0" and "nj \<le> 17"
  shows "returns (name_loop pkt L idx out nj len off buf (Some q)) (name_result pkt L idx out nj off buf q)"
  using assms(2-)
proof (induction "(17 - nj) * (L + 1) + (L - idx)" arbitrary: idx out nj len off buf q rule: less_induct)
  case less
  show ?case
  proof (cases "idx < L")
    case False
    then show ?thesis using less.prems by (simp add: name_loop_end name_result_errI)
  next
    case True
    consider (jump) "is_ptr (pkt ! idx)" | (root) "pkt ! idx = 0" | (label) "\<not> is_ptr (pkt ! idx)" "0 < unat (pkt ! idx)"
      by (auto simp: unat_gt_0)
    then show ?thesis
    proof cases
      case jump
      have m: "(17 - (nj + 1)) * (L + 1) + (L - j) < (17 - nj) * (L + 1) + (L - idx)" if "nj \<le> 16" for j
      proof -
        have "(17 - nj) * (L + 1) = (17 - (nj + 1)) * (L + 1) + (L + 1)"
          using that by (metis Suc_diff_le Suc_eq_plus1 add.commute diff_Suc_Suc eval_nat_numeral(3) mult_Suc)
        then show ?thesis by simp
      qed
      show ?thesis by (rule name_jump_sound [OF assms(1) True jump]) (rule less.hyps [OF m]; use less.prems in simp)
    next
      case root
      have "wire_name pkt L idx (idx + 1) 0 []" using True root by (rule wire_name.root)
      moreover have "take 1 (drop q (buf[q := 0])) = [0]" if "out \<noteq> 0"
        using less.prems that by (simp add: take_Suc_conv_app_nth)
      ultimately show ?thesis
        using name_loop_root [OF True assms(1) root less.prems(1)] less.prems
        by (cases "out = 0") (auto intro!: name_result_okI name_result_errI)
    next
      case label
      have "pkt ! idx \<noteq> 0" using label(2) by (simp add: unat_gt_0)
      then show ?thesis
        using less.prems label(2) True by (intro name_label_sound [OF assms(1) True label less.prems(1)] less.hyps) (simp_all add: uint_0_iff)
    qed
  qed
qed

section \<open>Completeness\<close>

lemma name_loop_complete:
  assumes "wire_name pkt L idx e k t" and "L \<le> length pkt"
    and "q + out \<le> length buf" and "nj + k \<le> 17" and "length t < out"
  shows "name_loop pkt L idx out nj len off buf (Some q) =
    Some (Inr (out - length t - 1), if nj = 0 then off + (e - idx) else off,
          take q buf @ (t @ [0]) @ drop (q + length t + 1) buf)"
  using assms(1,3-)
proof (induction arbitrary: q out buf nj len off rule: wire_name.induct)
  case (root p)
  then show ?case
    by (simp add: name_loop_root [OF root(1) assms(2) root(2)] upd_conv_take_nth_drop)
next
  case (label p l e k t)
  define bs where "bs = label_text pkt L p"
  have lt: "p + 1 + l < L" "p + 1 + l < e" using wire_name_bound [OF label.hyps(5)] by auto
  have tx: "take l (drop (p + 1) pkt) @ (if pkt ! (p + 1 + l) = 0 then t else 46 # t) = bs @ t"
    using lt label.hyps(3) by (auto simp: bs_def label_text_def Let_def)
  have bsl: "l \<le> length bs" "length bs + length t < out"
    using label.prems(3) lt assms(2) label.hyps(3) unfolding tx by (auto simp: bs_def label_text_def Let_def)
  have q: "q + length bs + (out - length bs) \<le> length (take q buf @ bs @ drop (q + length bs) buf)"
    using label.prems(1) bsl by simp
  have "name_loop pkt L p out nj len off buf (Some q) =
    name_loop pkt L (p + 1 + l) (out - length bs) nj (int l) (if nj = 0 then off + (1 + l) else off)
               (take q buf @ bs @ drop (q + length bs) buf) (Some (q + length bs))"
    using name_loop_label [OF label.hyps(1) assms(2) label.hyps(2-4) label.prems(1), of nj len off] lt bsl
    by (auto simp: bs_def Let_def)
  also have "\<dots> = Some (Inr (out - length bs - length t - 1), if nj = 0 then off + (1 + l) + (e - (p + 1 + l)) else off,
     take q buf @ ((bs @ t) @ [0]) @ drop (q + length (bs @ t) + 1) buf)"
    using label.IH [OF q label.prems(2), of "int l" "if nj = 0 then off + (1 + l) else off"] bsl label.prems(1)
    by (simp add: min_def ac_simps)
  finally show ?case
    using lt bsl unfolding tx by auto
next
  case (jump p jmp e k t)
  have "jmp < L" using wire_name_bound [OF jump.hyps(5)] by simp
  then show ?case
    using jump assms(2) by (simp add: name_loop_jump Let_def)
qed

lemma wire_name_det:
  assumes "wire_name pkt L idx e k t" and "wire_name pkt L idx e' k' t'" and "L \<le> length pkt" and "k \<le> 17" "k' \<le> 17"
  shows "e = e' \<and> t = t'"
proof -
  define n where "n = length t + length t' + 1"
  obtain b :: "byte list" where b: "length b = n" using Ex_list_of_length by blast
  have n: "0 + n \<le> length b" "length t < n" "length t' < n" using b by (simp_all add: n_def)
  have "0 + k \<le> 17" "0 + k' \<le> 17" using assms(4,5) by simp_all
  then have "Some (Inr (n - length t - 1), e - idx, (t @ [0]) @ drop (length t + 1) b) =
    (Some (Inr (n - length t' - 1), e' - idx, (t' @ [0]) @ drop (length t' + 1) b) :: ((int + nat) \<times> nat \<times> byte list) option)"
    using name_loop_complete [OF assms(1,3) n(1) _ n(2), of 0 1 0] name_loop_complete [OF assms(2,3) n(1) _ n(3), of 0 1 0]
    by simp
  then have *: "n - length t - 1 = n - length t' - 1" "e - idx = e' - idx"
    "(t @ [0]) @ drop (length t + 1) b = (t' @ [0]) @ drop (length t' + 1) b" by blast+
  then have "length t = length t'" using n by linarith
  then show ?thesis using * wire_name_bound [OF assms(1)] wire_name_bound [OF assms(2)] by auto
qed

lemma decode_name_spec:
  assumes "d_pkt_len dec \<le> length (d_pkt dec)" and "q + nlen \<le> length (d_msg dec)"
  obtains rc off buf where "decode_name dec (Some q) nlen = Some (rc, dec\<lparr>d_offset := off, d_msg := buf\<rparr>)"
    "length buf = length (d_msg dec)" "take q buf = take q (d_msg dec)"
    "drop (q + nlen) buf = drop (q + nlen) (d_msg dec)"
    "(\<exists>e k t. wire_name (d_pkt dec) (d_pkt_len dec) (d_offset dec) e k t \<and> k \<le> 17 \<and> length t < nlen \<and>
        rc = int (length t) + 1 \<and> off = e \<and> mem_read buf q (length t + 1) = Some (t @ [0])) \<or>
     (\<nexists>e k t. wire_name (d_pkt dec) (d_pkt_len dec) (d_offset dec) e k t \<and> k \<le> 17 \<and> length t < nlen) \<and>
       rc \<in> {- DNS_EBADJMP, - DNS_EMAXJMP, - DNS_ENAMELEN, - DNS_EOUTLEN, - DNS_ENONULL}"
proof -
  let ?w = "wire_name (d_pkt dec) (d_pkt_len dec) (d_offset dec)"
  obtain r off buf where run: "name_loop (d_pkt dec) (d_pkt_len dec) (d_offset dec) nlen 0 (-1) (d_offset dec) (d_msg dec) (Some q)
      = Some (r, off, buf)" and
    res: "name_result (d_pkt dec) (d_pkt_len dec) (d_offset dec) nlen 0 (d_offset dec) (d_msg dec) q (r, off, buf)"
    using name_loop_sound [OF assms, of "-1" 0 "d_offset dec" "d_offset dec"] by (auto simp: returns_iff)
  have frame: "length buf = length (d_msg dec)" "take q buf = take q (d_msg dec)"
    "drop (q + nlen) buf = drop (q + nlen) (d_msg dec)"
    using res by (simp_all add: name_result_def)
  let ?rc = "case r of Inl e \<Rightarrow> e | Inr out_len \<Rightarrow> int nlen - int out_len"
  have out: "decode_name dec (Some q) nlen = Some (?rc, dec\<lparr>d_offset := off, d_msg := buf\<rparr>)"
    using run by (simp add: decode_name_def)
  show thesis
  proof (cases r)
    case (Inr out')
    then obtain e k t where *: "?w e k t" "k \<le> 17" "out' + length t + 1 = nlen"
      "take (length t + 1) (drop q buf) = t @ [0]" "off = d_offset dec + (e - d_offset dec)"
      using res by (auto simp: name_result_def)
    then have "?rc = int (length t) + 1" "off = e" "length t < nlen"
      using wire_name_bound [OF *(1)] Inr by auto
    moreover have "mem_read buf q (length t + 1) = Some (t @ [0])"
      using * assms(2) frame(1) by (simp add: mem_read_SomeI)
    ultimately show ?thesis using *(1,2) by (intro that [OF out frame] disjI1) blast
  next
    case (Inl ec)
    have "\<nexists>e k t. ?w e k t \<and> k \<le> 17 \<and> length t < nlen"
    proof
      assume "\<exists>e k t. ?w e k t \<and> k \<le> 17 \<and> length t < nlen"
      then obtain e k t where "?w e k t" "k \<le> 17" "length t < nlen" by auto
      with run Inl name_loop_complete [OF this(1) assms, of 0 "-1" "d_offset dec"] show False by simp
    qed
    moreover have "?rc \<in> {- DNS_EBADJMP, - DNS_EMAXJMP, - DNS_ENAMELEN, - DNS_EOUTLEN, - DNS_ENONULL}"
      using res Inl by (simp add: name_result_def)
    ultimately show ?thesis by (intro that [OF out frame] disjI2 conjI)
  qed
qed



end
