(* ===== verification/Dns_Store.thy ===== *)
theory Dns_Store
  imports Dns_Proto
begin

text \<open>
  Building a message: the name store of \<open>struct dns_msg\<close> (\<open>msg_store_str\<close>, \<open>msg_store_name\<close>) and the
  operations that add questions and records (\<open>dns_add_qdn\<close>, \<open>dns_sect_add_rr\<close>, \<open>dns_add_rr\<close>) of
  \<open>src/src/dns_proto.c\<close>.

  The contract of the store is the locale \<open>name_store\<close>: storing a string either fails and changes
  nothing or gives a pointer at which the string is found, and every string stored before is
  still found where it was.
\<close>

section \<open>The contract of a name store\<close>

locale name_store =
  fixes inv :: "'s \<Rightarrow> bool"
    and store :: "'s \<Rightarrow> byte list \<Rightarrow> (nat option \<times> 's) option"
    and lookup :: "'s \<Rightarrow> nat \<Rightarrow> byte list option"
  assumes store_returns: "inv s \<Longrightarrow> returns (store s b) (\<lambda>(p, s'). inv s' \<and>
      (p = None \<longrightarrow> s' = s) \<and>
      (\<forall>k. p = Some k \<longrightarrow> lookup s' k = Some (cstr_of b)) \<and>
      (\<forall>k t. lookup s k = Some t \<longrightarrow> lookup s' k = Some t))"
begin

lemma store_cases:
  assumes "inv s"
  obtains (full) "store s b = Some (None, s)"
    | (stored) k s' where "store s b = Some (Some k, s')" "inv s'" "lookup s' k = Some (cstr_of b)"
        "\<And>j t. lookup s j = Some t \<Longrightarrow> lookup s' j = Some t"
proof -
  obtain r where r: "store s b = Some r" "case r of (p, s') \<Rightarrow> inv s' \<and> (p = None \<longrightarrow> s' = s) \<and>
      (\<forall>k. p = Some k \<longrightarrow> lookup s' k = Some (cstr_of b)) \<and>
      (\<forall>k t. lookup s k = Some t \<longrightarrow> lookup s' k = Some t)"
    using store_returns [OF assms, of b] by (rule returnsE)
  obtain p s' where p: "r = (p, s')" by (cases r)
  show thesis
  proof (cases p)
    case None
    then show ?thesis using r p by (intro full) simp
  next
    case (Some k)
    then show ?thesis using r p by (intro stored [of k s']) simp_all
  qed
qed

text \<open>Storing a sequence of strings, stopping at the first that does not fit.\<close>

fun store_all :: "'s \<Rightarrow> byte list list \<Rightarrow> (nat list option \<times> 's) option" where
  "store_all s [] = Some (Some [], s)"
| "store_all s (b # bs) = do {
     (p, s') \<leftarrow> store s b;
     case p of None \<Rightarrow> Some (None, s')
     | Some k \<Rightarrow> do {
         (r, s'') \<leftarrow> store_all s' bs;
         Some (map_option ((#) k) r, s'') } }"

lemma store_all_lookup:
  "inv s \<Longrightarrow> returns (store_all s bs) (\<lambda>(r, s'). inv s' \<and>
     (\<forall>ks. r = Some ks \<longrightarrow> map (lookup s') ks = map (\<lambda>b. Some (cstr_of b)) bs) \<and>
     (\<forall>k t. lookup s k = Some t \<longrightarrow> lookup s' k = Some t))"
proof (induction bs arbitrary: s)
  case (Cons b bs)
  from Cons.prems show ?case
  proof (cases rule: store_cases [where b = b])
    case (stored k s')
    from Cons.IH [OF stored(2)] obtain r s'' where "store_all s' bs = Some (r, s'')" "inv s''"
      "\<forall>ks. r = Some ks \<longrightarrow> map (lookup s'') ks = map (\<lambda>b. Some (cstr_of b)) bs"
      "\<forall>k t. lookup s' k = Some t \<longrightarrow> lookup s'' k = Some t"
      by (auto simp: returns_iff)
    then show ?thesis using stored by (cases r) auto
  qed (use Cons.prems in simp)
qed simp

end

section \<open>The store of a message\<close>

definition msg_store_str :: "dns_msg \<Rightarrow> byte list \<Rightarrow> (nat option \<times> dns_msg) option" where
  "msg_store_str msg s =
     (if length s > DNS_NAME_MAXSTR then Some (None, msg)
      else if m_names_len msg + length s + 1 > DNS_MAX_PDUSIZE then Some (None, msg)
      else do {
        let p = m_names_len msg;
        n1 \<leftarrow> mem_write (m_names msg) p s;
        n2 \<leftarrow> mem_write n1 (p + length s) [0];
        Some (Some p, msg\<lparr>m_names := n2, m_names_len := m_names_len msg + (length s + 1)\<rparr>) })"

text \<open>\<open>safe_strlen\<close> of NULL is 0: a NULL name is stored as the empty string.\<close>

definition msg_store_name :: "dns_msg \<Rightarrow> byte list option \<Rightarrow> (nat option \<times> dns_msg) option" where
  "msg_store_name msg name = msg_store_str msg (case name of None \<Rightarrow> [] | Some s \<Rightarrow> s)"

text \<open>The string at a pointer into the part of the store in use.\<close>

definition msg_str :: "dns_msg \<Rightarrow> nat \<Rightarrow> byte list option" where
  "msg_str msg k = cstr_at (take (m_names_len msg) (m_names msg)) k"

definition store_inv :: "dns_msg \<Rightarrow> bool" where
  "store_inv msg \<longleftrightarrow> length (m_names msg) = DNS_MAX_PDUSIZE \<and> m_names_len msg \<le> DNS_MAX_PDUSIZE"

section \<open>Reading the union of a record\<close>

text \<open>
  A read of a member of \<open>rdata\<close> that was not the one written last: a zeroed union reads as zeros
  and NULLs through every member; any other mix has a value the model does not determine
  (\<open>None\<close>).
\<close>

fun rd_a :: "'p rdata \<Rightarrow> byte list option" where
  "rd_a (RD_A b) = Some b"
| "rd_a RD_Zero = Some (replicate 4 0)"
| "rd_a _ = None"

fun rd_aaaa :: "'p rdata \<Rightarrow> byte list option" where
  "rd_aaaa (RD_AAAA b) = Some b"
| "rd_aaaa RD_Zero = Some (replicate 16 0)"
| "rd_aaaa _ = None"

fun rd_name :: "'p rdata \<Rightarrow> 'p option option" where
  "rd_name (RD_NS p) = Some p"
| "rd_name (RD_CNAME p) = Some p"
| "rd_name (RD_PTR p) = Some p"
| "rd_name RD_Zero = Some None"
| "rd_name _ = None"

fun rd_soa :: "'p rdata \<Rightarrow> ('p option \<times> 'p option \<times> u32 \<times> u32 \<times> u32 \<times> u32 \<times> u32) option" where
  "rd_soa (RD_SOA m r a b c d e) = Some (m, r, a, b, c, d, e)"
| "rd_soa RD_Zero = Some (None, None, 0, 0, 0, 0, 0)"
| "rd_soa _ = None"

fun rd_hinfo :: "'p rdata \<Rightarrow> ('p option \<times> 'p option) option" where
  "rd_hinfo (RD_HINFO c x) = Some (c, x)"
| "rd_hinfo RD_Zero = Some (None, None)"
| "rd_hinfo _ = None"

fun rd_mx :: "'p rdata \<Rightarrow> (u16 \<times> 'p option) option" where
  "rd_mx (RD_MX v p) = Some (v, p)"
| "rd_mx RD_Zero = Some (0, None)"
| "rd_mx _ = None"

fun rd_txt :: "'p rdata \<Rightarrow> (nat \<times> 'p option list) option" where
  "rd_txt (RD_TXT n ss) = Some (n, ss)"
| "rd_txt RD_Zero = Some (0, replicate DNS_MAX_TXT None)"
| "rd_txt _ = None"

text \<open>
  \<open>rr->rdata.txt\<close> of a slot of a message, whose \<open>num_str\<close> the TXT loops read before they write it.
  It lies over the first two bytes of the union: of an address, of the first pointer (its low
  16 bits) or of the first 16-bit field. The pointers of the array are then leftovers of other
  members, here pointers behind the store (\<open>wild\<close>), at which no string is found.
\<close>

definition wild :: "nat option" where
  "wild = Some DNS_MAX_PDUSIZE"

definition ptr_low16 :: "dns_msg \<Rightarrow> nat option \<Rightarrow> nat" where
  "ptr_low16 msg p = (case p of None \<Rightarrow> 0 | Some k \<Rightarrow> (m_addr msg + k) mod 65536)"

definition bytes_low16 :: "byte list \<Rightarrow> nat" where
  "bytes_low16 b = unat (b ! 0) + 256 * unat (b ! 1)"

fun txt_slot :: "dns_msg \<Rightarrow> nat rdata \<Rightarrow> nat \<times> nat option list" where
  "txt_slot msg (RD_TXT n ss) = (n, ss)"
| "txt_slot msg RD_Zero = (0, replicate DNS_MAX_TXT None)"
| "txt_slot msg (RD_A b) = (bytes_low16 b, replicate DNS_MAX_TXT wild)"
| "txt_slot msg (RD_AAAA b) = (bytes_low16 b, replicate DNS_MAX_TXT wild)"
| "txt_slot msg (RD_NS p) = (ptr_low16 msg p, replicate DNS_MAX_TXT wild)"
| "txt_slot msg (RD_CNAME p) = (ptr_low16 msg p, replicate DNS_MAX_TXT wild)"
| "txt_slot msg (RD_PTR p) = (ptr_low16 msg p, replicate DNS_MAX_TXT wild)"
| "txt_slot msg (RD_SOA p _ _ _ _ _ _) = (ptr_low16 msg p, replicate DNS_MAX_TXT wild)"
| "txt_slot msg (RD_HINFO p _) = (ptr_low16 msg p, replicate DNS_MAX_TXT wild)"
| "txt_slot msg (RD_MX v _) = (unat v, replicate DNS_MAX_TXT wild)"
| "txt_slot msg (RD_SRV v _ _ _) = (unat v, replicate DNS_MAX_TXT wild)"
| "txt_slot msg (RD_OPT v _ _ _ _) = (unat v, replicate DNS_MAX_TXT wild)"

lemma txt_slot_rd_txt: "rd_txt rd = Some x \<Longrightarrow> txt_slot msg rd = x"
  by (cases rd) auto

fun rd_srv :: "'p rdata \<Rightarrow> (u16 \<times> u16 \<times> u16 \<times> 'p option) option" where
  "rd_srv (RD_SRV a b c p) = Some (a, b, c, p)"
| "rd_srv RD_Zero = Some (0, 0, 0, None)"
| "rd_srv _ = None"

fun rd_opt :: "'p rdata \<Rightarrow> (u16 \<times> u8 \<times> u8 \<times> bool \<times> u16) option" where
  "rd_opt (RD_OPT a b c d e) = Some (a, b, c, d, e)"
| "rd_opt RD_Zero = Some (0, 0, 0, False, 0)"
| "rd_opt _ = None"

section \<open>Adding questions and records\<close>

definition dns_add_qdn :: "dns_msg \<Rightarrow> byte list \<Rightarrow> u16 \<Rightarrow> u16 \<Rightarrow> (int \<times> dns_msg) option" where
  "dns_add_qdn msg qname qtype qclass =
     (if m_qd_len msg \<ge> DNS_MAX_QD then Some (-1, msg)
      else do {
        (p, msg1) \<leftarrow> msg_store_str msg qname;
        let i = m_qd_len msg;
        let msg2 = msg1\<lparr>m_qd := (m_qd msg1)[i := (m_qd msg1 ! i)\<lparr>qd_name := p\<rparr>]\<rparr>;
        if p = None then Some (-1, msg2)
        else Some (0, msg2\<lparr>m_qd := (m_qd msg2)[i := (m_qd msg2 ! i)\<lparr>qd_type := qtype, qd_class := qclass\<rparr>],
                           m_qd_len := m_qd_len msg + 1\<rparr>) })"

definition dns_add_qd :: "dns_msg \<Rightarrow> byte list option \<Rightarrow> u16 \<Rightarrow> u16 \<Rightarrow> (int \<times> dns_msg) option" where
  "dns_add_qd msg qname qtype qclass =
     dns_add_qdn msg (case qname of None \<Rightarrow> [] | Some s \<Rightarrow> s) qtype qclass"

abbreviation put_rdata :: "sect \<Rightarrow> nat rdata \<Rightarrow> dns_msg \<Rightarrow> dns_msg" where
  "put_rdata s rd \<equiv> upd_slot s (\<lambda>rr. rr\<lparr>rr_rdata := rd\<rparr>)"

abbreviation slot :: "sect \<Rightarrow> dns_msg \<Rightarrow> msg_rr" where
  "slot s msg \<equiv> sect_base s msg ! sect_count s msg"

text \<open>
  The assignment \<open>rr->rdata.<member> = msg_store_name(msg, ...); if (!...) return -1;\<close>: the flag says
  whether to go on.
\<close>

definition add_name :: "sect \<Rightarrow> (nat option \<Rightarrow> nat rdata) \<Rightarrow> byte list option \<Rightarrow> dns_msg \<Rightarrow> (bool \<times> dns_msg) option" where
  "add_name s f name msg = do {
     (p, msg') \<leftarrow> msg_store_name msg name;
     Some (p \<noteq> None, put_rdata s (f p) msg') }"

text \<open>The loop over the TXT strings: \<open>num_str\<close> of the slot is the one it was left with.\<close>

fun add_txt :: "sect \<Rightarrow> byte list option list \<Rightarrow> dns_msg \<Rightarrow> (bool \<times> dns_msg) option" where
  "add_txt s [] msg = Some (True, msg)"
| "add_txt s (src # srcs) msg = do {
     let (n, strs) = txt_slot msg (rr_rdata (slot s msg));
     if n \<ge> DNS_MAX_TXT then Some (False, msg)
     else do {
       (p, msg1) \<leftarrow> msg_store_name msg src;
       if p = None then Some (False, put_rdata s (RD_TXT n (strs[n := p])) msg1)
       else add_txt s srcs (put_rdata s (RD_TXT (n + 1) (strs[n := p])) msg1) } }"

definition add_rdata :: "sect \<Rightarrow> byte list dns_rr \<Rightarrow> dns_msg \<Rightarrow> (bool \<times> dns_msg) option" where
  "add_rdata s src msg =
     (let t = rr_type src; rd = rr_rdata src
      in if t = DNS_TYPE_A then do { a \<leftarrow> rd_a rd; Some (True, put_rdata s (RD_A a) msg) }
         else if t = DNS_TYPE_NS then do { p \<leftarrow> rd_name rd; add_name s RD_NS p msg }
         else if t = DNS_TYPE_CNAME then do { p \<leftarrow> rd_name rd; add_name s RD_CNAME p msg }
         else if t = DNS_TYPE_SOA then do {
           (mn, rn, v1, v2, v3, v4, v5) \<leftarrow> rd_soa rd;
           (mp, msg1) \<leftarrow> msg_store_name msg mn;
           if mp = None then Some (False, put_rdata s (RD_NS None) msg1)
           else do {
             (rp, msg2) \<leftarrow> msg_store_name msg1 rn;
             Some (True, put_rdata s (RD_SOA mp rp v1 v2 v3 v4 v5) msg2) } }
         else if t = DNS_TYPE_PTR then do { p \<leftarrow> rd_name rd; add_name s RD_PTR p msg }
         else if t = DNS_TYPE_HINFO then do {
           (c, x) \<leftarrow> rd_hinfo rd;
           (cp, msg1) \<leftarrow> msg_store_name msg c;
           (xp, msg2) \<leftarrow> msg_store_name msg1 x;
           Some (True, put_rdata s (RD_HINFO cp xp) msg2) }
         else if t = DNS_TYPE_MX then do { (v, p) \<leftarrow> rd_mx rd; add_name s (RD_MX v) p msg }
         else if t = DNS_TYPE_TXT then do { (n, strs) \<leftarrow> rd_txt rd; add_txt s (take n strs) msg }
         else if t = DNS_TYPE_AAAA then do { a \<leftarrow> rd_aaaa rd; Some (True, put_rdata s (RD_AAAA a) msg) }
         else if t = DNS_TYPE_SRV then do { (a, b, c, p) \<leftarrow> rd_srv rd; add_name s (RD_SRV a b c) p msg }
         else if t = DNS_TYPE_OPT then do {
           (u, e, v, d, z) \<leftarrow> rd_opt rd;
           (u0, e0, v0, d0, z0) \<leftarrow> rd_opt (rr_rdata (slot s msg));
           Some (True, put_rdata s (RD_OPT u e v d z0) msg) }
         else Some (True, msg))"

definition dns_sect_add_rr :: "dns_msg \<Rightarrow> sect \<Rightarrow> byte list dns_rr option \<Rightarrow> (int \<times> dns_msg) option" where
  "dns_sect_add_rr msg s src_rr =
     (case src_rr of None \<Rightarrow> Some (0, msg)
      | Some src \<Rightarrow>
          if sect_count s msg \<ge> DNS_MAX_RR then Some (-1, msg)
          else do {
            (p, msg1) \<leftarrow> msg_store_name msg (rr_name src);
            let msg2 = upd_slot s (\<lambda>rr. rr\<lparr>rr_name := p\<rparr>) msg1;
            if p = None then Some (-1, msg2)
            else do {
              let msg3 = upd_slot s (\<lambda>rr. rr\<lparr>rr_type := rr_type src, rr_class := rr_class src,
                                             rr_ttl := rr_ttl src\<rparr>) msg2;
              (ok, msg4) \<leftarrow> add_rdata s src msg3;
              if ok then Some (0, set_count s (sect_count s msg4 + 1) msg4)
              else Some (-1, msg4) } })"

definition dns_add_rr :: "dns_msg \<Rightarrow> int \<Rightarrow> byte list dns_rr option \<Rightarrow> (int \<times> dns_msg) option" where
  "dns_add_rr msg sc rr =
     (if sc = 1 then dns_sect_add_rr msg SectAN rr
      else if sc = 2 then dns_sect_add_rr msg SectNS rr
      else if sc = 3 then dns_sect_add_rr msg SectAR rr
      else Some (-1, msg))"

section \<open>The message store fulfils the contract\<close>

lemma msg_store_str_cases:
  assumes "store_inv msg"
  obtains (full) "msg_store_str msg s = Some (None, msg)" "length s > 253 \<or> m_names_len msg + length s + 1 > 2048"
    | (stored) names where "msg_store_str msg s = Some (Some (m_names_len msg),
          msg\<lparr>m_names := names, m_names_len := m_names_len msg + (length s + 1)\<rparr>)"
        "length names = 2048" "m_names_len msg + (length s + 1) \<le> 2048" "length s \<le> 253"
        "take (m_names_len msg + (length s + 1)) names = take (m_names_len msg) (m_names msg) @ s @ [0]"
proof (cases "length s > 253 \<or> m_names_len msg + length s + 1 > 2048")
  case True
  then show ?thesis using full by (auto simp: msg_store_str_def dns_limits)
next
  case False
  let ?p = "m_names_len msg"
  let ?names = "take ?p (m_names msg) @ (s @ [0]) @ drop (?p + (length s + 1)) (m_names msg)"
  have len: "length (m_names msg) = 2048" using assms by (simp add: store_inv_def dns_limits)
  then have "msg_store_str msg s = Some (Some ?p, msg\<lparr>m_names := ?names, m_names_len := ?p + (length s + 1)\<rparr>)"
    using False by (simp add: msg_store_str_def dns_limits mem_write_SomeI Let_def)
  then show ?thesis using False len by (intro stored [of ?names]) simp_all
qed

lemma cstr_at_append_left:
  "cstr_at m k = Some t \<Longrightarrow> cstr_at (m @ x) k = Some t"
  by (cases "k \<le> length m") (auto simp: cstr_at_def cstr_of_def split: if_splits)

lemma cstr_at_end: "cstr_at (m @ s @ [0]) (length m) = Some (cstr_of s)"
proof -
  have "cstr_of (s @ [0]) = cstr_of s" by (induction s) (auto simp: cstr_of_def)
  then show ?thesis by (simp add: cstr_at_def)
qed

interpretation msg_names: name_store store_inv msg_store_str msg_str
proof
  fix msg s
  assume inv: "store_inv msg"
  then show "returns (msg_store_str msg s) (\<lambda>(p, msg'). store_inv msg' \<and> (p = None \<longrightarrow> msg' = msg) \<and>
      (\<forall>k. p = Some k \<longrightarrow> msg_str msg' k = Some (cstr_of s)) \<and>
      (\<forall>k t. msg_str msg k = Some t \<longrightarrow> msg_str msg' k = Some t))"
  proof (cases rule: msg_store_str_cases [where s = s])
    case full
    then show ?thesis using inv by simp
  next
    case (stored names)
    have "length (take (m_names_len msg) (m_names msg)) = m_names_len msg"
      using inv by (simp add: store_inv_def)
    with stored cstr_at_end [of "take (m_names_len msg) (m_names msg)" s] show ?thesis
      by (auto simp: store_inv_def dns_limits msg_str_def cstr_at_append_left)
  qed
qed

section \<open>Well-formed messages\<close>

lemma sect_simps [simp]:
  "sect_base s (set_count t n msg) = sect_base s msg"
  "sect_count s (set_base t b msg) = sect_count s msg"
  "sect_base s (set_base t b msg) = (if s = t then b else sect_base s msg)"
  "sect_count s (set_count t n msg) = (if s = t then n else sect_count s msg)"
  "m_qd (set_base t b msg) = m_qd msg" "m_qd (set_count t n msg) = m_qd msg"
  "m_qd_len (set_base t b msg) = m_qd_len msg" "m_qd_len (set_count t n msg) = m_qd_len msg"
  "m_names (set_base t b msg) = m_names msg" "m_names (set_count t n msg) = m_names msg"
  "m_names_len (set_base t b msg) = m_names_len msg" "m_names_len (set_count t n msg) = m_names_len msg"
  "m_hdr (set_base t b msg) = m_hdr msg" "m_hdr (set_count t n msg) = m_hdr msg"
  by (cases s; cases t; simp)+

definition rr_ptrs :: "msg_rr \<Rightarrow> nat set" where
  "rr_ptrs rr = set_option (rr_name rr) \<union> set_rdata (rr_rdata rr)"

text \<open>The fixed size of the TXT array.\<close>

definition txt_ok :: "'p dns_rr \<Rightarrow> bool" where
  "txt_ok rr = (case rr_rdata rr of RD_TXT n ss \<Rightarrow> n \<le> DNS_MAX_TXT \<and> length ss = DNS_MAX_TXT | _ \<Rightarrow> True)"

text \<open>
  All records of a section, the slots behind the counter included, hold pointers to strings of the
  store; the counted ones have a name.
\<close>

definition sect_wf :: "dns_msg \<Rightarrow> sect \<Rightarrow> bool" where
  "sect_wf msg s \<longleftrightarrow> length (sect_base s msg) = DNS_MAX_RR \<and> sect_count s msg \<le> DNS_MAX_RR \<and>
     (\<forall>rr\<in>set (sect_base s msg). txt_ok rr \<and> (\<forall>k\<in>rr_ptrs rr. msg_str msg k \<noteq> None)) \<and>
     (\<forall>rr\<in>set (take (sect_count s msg) (sect_base s msg)). rr_name rr \<noteq> None)"

definition qd_wf :: "dns_msg \<Rightarrow> bool" where
  "qd_wf msg \<longleftrightarrow> length (m_qd msg) = DNS_MAX_QD \<and> m_qd_len msg \<le> DNS_MAX_QD \<and>
     (\<forall>q\<in>set (take (m_qd_len msg) (m_qd msg)). \<exists>k. qd_name q = Some k \<and> msg_str msg k \<noteq> None)"

definition msg_wf :: "dns_msg \<Rightarrow> bool" where
  "msg_wf msg \<longleftrightarrow> store_inv msg \<and> qd_wf msg \<and> (\<forall>s. sect_wf msg s)"

lemma zero_msg_wf: "msg_wf zero_msg"
proof -
  have "sect_wf zero_msg s" for s
    by (cases s) (auto simp: sect_wf_def zero_msg_def zero_rr_def rr_ptrs_def txt_ok_def)
  then show ?thesis by (auto simp: msg_wf_def store_inv_def qd_wf_def zero_msg_def)
qed

lemma msg_str_cong: "m_names msg = m_names msg' \<Longrightarrow> m_names_len msg = m_names_len msg' \<Longrightarrow> msg_str msg = msg_str msg'"
  by (simp add: msg_str_def fun_eq_iff)

lemma msg_str_upd [simp]:
  "msg_str (set_base s b msg) = msg_str msg" "msg_str (set_count s n msg) = msg_str msg"
  "msg_str (upd_slot s f msg) = msg_str msg" "msg_str (msg\<lparr>m_qd := q\<rparr>) = msg_str msg"
  "msg_str (msg\<lparr>m_qd_len := l\<rparr>) = msg_str msg" "msg_str (msg\<lparr>m_hdr := h\<rparr>) = msg_str msg"
  by (rule msg_str_cong; simp add: upd_slot_def)+

lemma upd_slot_simps [simp]:
  "sect_count t (upd_slot s f msg) = sect_count t msg"
  "t \<noteq> s \<Longrightarrow> sect_base t (upd_slot s f msg) = sect_base t msg"
  "length (sect_base t (upd_slot s f msg)) = length (sect_base t msg)"
  "sect_count s msg < length (sect_base s msg) \<Longrightarrow>
     sect_base s (upd_slot s f msg) ! sect_count s msg = f (slot s msg)"
  "take (sect_count s msg) (sect_base s (upd_slot s f msg)) = take (sect_count s msg) (sect_base s msg)"
  "m_qd (upd_slot s f msg) = m_qd msg" "m_qd_len (upd_slot s f msg) = m_qd_len msg"
  "m_names (upd_slot s f msg) = m_names msg" "m_names_len (upd_slot s f msg) = m_names_len msg"
  "m_hdr (upd_slot s f msg) = m_hdr msg"
  by (simp_all add: upd_slot_def)

lemma wf_upd_slot:
  assumes "msg_wf msg" and "\<forall>k\<in>rr_ptrs (f (slot s msg)). msg_str msg k \<noteq> None" and "txt_ok (f (slot s msg))"
  shows "msg_wf (upd_slot s f msg)"
proof -
  have "sect_wf (upd_slot s f msg) t" for t
  proof (cases "t = s")
    case False
    then show ?thesis using assms(1) by (simp add: msg_wf_def sect_wf_def)
  next
    case True
    have "set (sect_base s (upd_slot s f msg)) \<subseteq> insert (f (slot s msg)) (set (sect_base s msg))"
      unfolding upd_slot_def by (simp add: set_update_subset_insert)
    then show ?thesis using True assms by (auto simp: msg_wf_def sect_wf_def)
  qed
  then show ?thesis using assms(1) by (simp add: msg_wf_def qd_wf_def store_inv_def)
qed

lemma wf_set_count:
  assumes "msg_wf msg" and "sect_count s msg < DNS_MAX_RR" and "rr_name (slot s msg) \<noteq> None"
  shows "msg_wf (set_count s (sect_count s msg + 1) msg)"
proof -
  have "sect_wf (set_count s (sect_count s msg + 1) msg) t" for t
    using assms by (cases "t = s") (auto simp: msg_wf_def sect_wf_def take_Suc_conv_app_nth)
  then show ?thesis using assms(1) by (simp add: msg_wf_def qd_wf_def store_inv_def)
qed

lemma msg_store_name_cases:
  assumes "store_inv msg"
  obtains (full) "msg_store_name msg name = Some (None, msg)"
    | (stored) k msg' where "msg_store_name msg name = Some (Some k, msg')" "store_inv msg'"
       "msg_str msg' k = Some (cstr_of (case name of None \<Rightarrow> [] | Some s \<Rightarrow> s))"
       "\<And>j t. msg_str msg j = Some t \<Longrightarrow> msg_str msg' j = Some t"
       "m_qd msg' = m_qd msg" "m_qd_len msg' = m_qd_len msg" "m_hdr msg' = m_hdr msg"
       "\<And>s. sect_base s msg' = sect_base s msg" "\<And>s. sect_count s msg' = sect_count s msg"
proof -
  let ?s = "case name of None \<Rightarrow> [] | Some s \<Rightarrow> s"
  from assms show thesis
  proof (cases rule: msg_store_str_cases [where s = ?s])
    case f: full
    then show ?thesis using full by (simp add: msg_store_name_def)
  next
    case st: (stored names)
    let ?k = "m_names_len msg"
    let ?m = "msg\<lparr>m_names := names, m_names_len := ?k + (length ?s + 1)\<rparr>"
    from assms have "store_inv ?m" "msg_str ?m ?k = Some (cstr_of ?s)"
      "\<And>j t. msg_str msg j = Some t \<Longrightarrow> msg_str ?m j = Some t"
      using msg_names.store_returns [OF assms, of ?s] st(1) by auto
    moreover have "sect_base s ?m = sect_base s msg" "sect_count s ?m = sect_count s msg" for s
      by (cases s; simp)+
    ultimately show ?thesis using st(1) by (intro stored [of ?k ?m]) (simp_all add: msg_store_name_def)
  qed
qed

lemma wf_store:
  assumes "msg_wf msg" and "store_inv msg'"
    and "\<And>j t. msg_str msg j = Some t \<Longrightarrow> msg_str msg' j = Some t"
    and "m_qd msg' = m_qd msg" and "m_qd_len msg' = m_qd_len msg"
    and "\<And>s. sect_base s msg' = sect_base s msg" and "\<And>s. sect_count s msg' = sect_count s msg"
  shows "msg_wf msg'"
proof -
  have *: "msg_str msg' j \<noteq> None" if "msg_str msg j \<noteq> None" for j using that assms(3) by blast
  have "sect_wf msg' s" for s
    using assms(1) * unfolding msg_wf_def sect_wf_def assms(6,7) by blast
  moreover have "qd_wf msg'"
    using assms(1) * unfolding msg_wf_def qd_wf_def assms(4,5) by blast
  ultimately show ?thesis using assms(2) by (simp add: msg_wf_def)
qed

section \<open>What the operations keep\<close>

text \<open>
  \<open>grows s msg msg'\<close>: from \<open>msg\<close> to \<open>msg'\<close> only strings were added to the store and only the
  \<open>rdata\<close> of the slot of section \<open>s\<close> was written.
\<close>

definition grows :: "sect \<Rightarrow> dns_msg \<Rightarrow> dns_msg \<Rightarrow> bool" where
  "grows s msg msg' \<longleftrightarrow> msg_wf msg' \<and>
     (\<forall>j t. msg_str msg j = Some t \<longrightarrow> msg_str msg' j = Some t) \<and>
     (\<forall>t. sect_count t msg' = sect_count t msg) \<and> (\<forall>t. t \<noteq> s \<longrightarrow> sect_base t msg' = sect_base t msg) \<and>
     (\<exists>rd. sect_base s msg' = (sect_base s msg)[sect_count s msg := (slot s msg)\<lparr>rr_rdata := rd\<rparr>]) \<and>
     m_qd msg' = m_qd msg \<and> m_qd_len msg' = m_qd_len msg \<and> m_hdr msg' = m_hdr msg"

lemma grows_wf: "grows s msg msg' \<Longrightarrow> msg_wf msg'"
  by (simp add: grows_def)

lemma grows_str: "grows s msg msg' \<Longrightarrow> msg_str msg j = Some t \<Longrightarrow> msg_str msg' j = Some t"
  by (simp add: grows_def)

lemma grows_refl: "msg_wf msg \<Longrightarrow> grows s msg msg"
  by (auto simp: grows_def intro: exI [of _ "rr_rdata (slot s msg)"])

lemma grows_trans:
  assumes "grows s a b" and "grows s b c"
  shows "grows s a c"
proof -
  obtain rd where ab: "sect_base s b = (sect_base s a)[sect_count s a := (slot s a)\<lparr>rr_rdata := rd\<rparr>]"
    using assms(1) by (auto simp: grows_def)
  obtain rd' where bc: "sect_base s c = (sect_base s b)[sect_count s b := (slot s b)\<lparr>rr_rdata := rd'\<rparr>]"
    using assms(2) by (auto simp: grows_def)
  have cnt: "sect_count s b = sect_count s a" using assms(1) by (simp add: grows_def)
  have "sect_base s c = (sect_base s a)[sect_count s a := (slot s a)\<lparr>rr_rdata := rd'\<rparr>]"
    using ab bc cnt by (cases "sect_count s a < length (sect_base s a)") (simp_all add: list_update_beyond)
  then show ?thesis using assms by (auto simp: grows_def)
qed

lemma slot_wf:
  assumes "msg_wf msg" and "sect_count s msg < DNS_MAX_RR"
  shows "sect_count s msg < length (sect_base s msg)" "txt_ok (slot s msg)"
    "\<forall>k\<in>rr_ptrs (slot s msg). msg_str msg k \<noteq> None"
proof -
  have w: "sect_wf msg s" using assms(1) by (simp add: msg_wf_def)
  then show len: "sect_count s msg < length (sect_base s msg)" using assms(2) by (simp add: sect_wf_def)
  then have "slot s msg \<in> set (sect_base s msg)" by simp
  then show "txt_ok (slot s msg)" "\<forall>k\<in>rr_ptrs (slot s msg). msg_str msg k \<noteq> None"
    using w unfolding sect_wf_def by blast+
qed

lemma grows_put_rdata:
  assumes "msg_wf msg" and "\<forall>k\<in>set_rdata rd. msg_str msg k \<noteq> None"
    and "\<And>n ss. rd = RD_TXT n ss \<Longrightarrow> n \<le> DNS_MAX_TXT \<and> length ss = DNS_MAX_TXT"
    and "sect_count s msg < DNS_MAX_RR"
  shows "grows s msg (put_rdata s rd msg)"
proof -
  have "\<forall>k\<in>set_option (rr_name (slot s msg)). msg_str msg k \<noteq> None"
    using slot_wf(3) [OF assms(1,4)] by (simp add: rr_ptrs_def)
  then have "msg_wf (put_rdata s rd msg)"
    using assms(2,3) by (intro wf_upd_slot [OF assms(1)]) (auto simp: rr_ptrs_def txt_ok_def split: rdata.split)
  then show ?thesis
    by (auto simp: grows_def) (auto simp: upd_slot_def)
qed

lemma grows_count [simp]: "grows s msg msg' \<Longrightarrow> sect_count t msg' = sect_count t msg"
  by (simp add: grows_def)

lemma msg_store_name_grows:
  assumes "msg_wf msg"
  obtains (full) "msg_store_name msg name = Some (None, msg)"
    | (stored) k msg' where "msg_store_name msg name = Some (Some k, msg')" "grows s msg msg'"
       "msg_str msg' k = Some (cstr_of (case name of None \<Rightarrow> [] | Some s \<Rightarrow> s))"
       "sect_base s msg' = sect_base s msg"
proof -
  have "store_inv msg" using assms by (simp add: msg_wf_def)
  then show thesis
  proof (cases rule: msg_store_name_cases [where name = name])
    case f: full
    then show ?thesis by (rule full)
  next
    case st: (stored k msg')
    have "msg_wf msg'" by (rule wf_store [OF assms st(2,4,5,6,8,9)])
    then have "grows s msg msg'"
      unfolding grows_def using st(4-9) by (simp add: exI [of _ "rr_rdata (slot s msg)"])
    then show ?thesis using st(1,3,8) by (intro stored)
  qed
qed

text \<open>The strings of a union, in place of the pointers to them.\<close>

definition rd_strs :: "dns_msg \<Rightarrow> nat rdata \<Rightarrow> byte list rdata" where
  "rd_strs msg = map_rdata (\<lambda>k. case msg_str msg k of Some t \<Rightarrow> t | None \<Rightarrow> [])"

lemma rd_strs_cong:
  "(\<And>k. k \<in> set_rdata rd \<Longrightarrow> msg_str msg k = msg_str msg' k) \<Longrightarrow> rd_strs msg rd = rd_strs msg' rd"
  unfolding rd_strs_def by (rule rdata.map_cong0) simp

lemma grows_slot:
  assumes "grows s msg msg'" and "sect_count s msg < DNS_MAX_RR" and "msg_wf msg"
  shows "\<exists>rd. slot s msg' = (slot s msg)\<lparr>rr_rdata := rd\<rparr>"
proof -
  obtain rd where "sect_base s msg' = (sect_base s msg)[sect_count s msg := (slot s msg)\<lparr>rr_rdata := rd\<rparr>]"
    using assms(1) unfolding grows_def by blast
  then show ?thesis using assms(1) slot_wf(1) [OF assms(3,2)] by (intro exI [of _ rd]) simp
qed

lemma slot_put_rdata:
  "msg_wf msg \<Longrightarrow> sect_count s msg < DNS_MAX_RR \<Longrightarrow> slot s (put_rdata s rd msg) = (slot s msg)\<lparr>rr_rdata := rd\<rparr>"
  using slot_wf(1) by simp

lemma add_name_grows:
  assumes wf: "msg_wf msg" and cnt: "sect_count s msg < DNS_MAX_RR"
    and f: "\<And>p. set_rdata (f p) = set_option p" "\<And>p n ss. f p \<noteq> RD_TXT n ss"
  shows "returns (add_name s f name msg) (\<lambda>(ok, msg'). grows s msg msg' \<and>
     (ok \<longrightarrow> (\<exists>k. rr_rdata (slot s msg') = f (Some k) \<and>
        msg_str msg' k = Some (cstr_of (case name of None \<Rightarrow> [] | Some t \<Rightarrow> t)))))"
  using wf
proof (cases rule: msg_store_name_grows [where name = name and s = s])
  case full
  have "grows s msg (put_rdata s (f None) msg)" using wf cnt f by (intro grows_put_rdata) auto
  then show ?thesis using full by (simp add: add_name_def)
next
  case (stored k msg')
  have c: "sect_count s msg' < DNS_MAX_RR" using stored(2) cnt by simp
  have "grows s msg' (put_rdata s (f (Some k)) msg')"
    using stored(2,3) c f by (intro grows_put_rdata) (auto dest: grows_wf)
  then have "grows s msg (put_rdata s (f (Some k)) msg')" by (rule grows_trans [OF stored(2)])
  moreover have "rr_rdata (slot s (put_rdata s (f (Some k)) msg')) = f (Some k)"
    using slot_put_rdata [OF grows_wf [OF stored(2)] c, of "f (Some k)"] by simp
  ultimately show ?thesis using stored(1,3) by (simp add: add_name_def) blast
qed

lemma add_txt_grows:
  assumes "msg_wf msg" and "sect_count s msg < DNS_MAX_RR" and "rd_txt (rr_rdata (slot s msg)) \<noteq> None"
  shows "returns (add_txt s srcs msg) (\<lambda>(ok, msg'). grows s msg msg')"
  using assms
proof (induction srcs arbitrary: msg)
  case Nil
  then show ?case by (simp add: grows_refl)
next
  case (Cons src srcs)
  note slot_wf(2,3) [OF Cons.prems(1,2)]
  moreover obtain n strs where t': "rd_txt (rr_rdata (slot s msg)) = Some (n, strs)" using Cons.prems(3) by auto
  note t = txt_slot_rd_txt [OF t']
  from calculation t' have n: "n \<le> DNS_MAX_TXT" "length strs = DNS_MAX_TXT"
    "\<forall>k. Some k \<in> set strs \<longrightarrow> msg_str msg k \<noteq> None"
    by (cases "rr_rdata (slot s msg)"; auto simp: txt_ok_def rr_ptrs_def DNS_MAX_TXT_def)+
  show ?case
  proof (cases "n \<ge> DNS_MAX_TXT")
    case True
    then show ?thesis using t Cons.prems by (simp add: grows_refl)
  next
    case False
    have upd: "set (strs[n := p]) \<subseteq> insert p (set strs)" for p by (rule set_update_subset_insert)
    from Cons.prems(1) show ?thesis
    proof (cases rule: msg_store_name_grows [where name = src and s = s])
      case full
      have "grows s msg (put_rdata s (RD_TXT n (strs[n := None])) msg)"
        using Cons.prems n upd [of None] by (intro grows_put_rdata) auto
      then show ?thesis using full t False by simp
    next
      case (stored k msg')
      let ?m = "put_rdata s (RD_TXT (n + 1) (strs[n := Some k])) msg'"
      have old: "\<forall>j. Some j \<in> set strs \<longrightarrow> msg_str msg' j \<noteq> None"
        using n(3) grows_str [OF stored(2)] by blast
      have c: "sect_count s msg' < DNS_MAX_RR" using stored(2) Cons.prems by simp
      have g: "grows s msg' ?m"
        using stored(2,3) c n(2) old False upd [of "Some k"] by (intro grows_put_rdata) (auto dest: grows_wf)
      then have "returns (add_txt s srcs ?m) (\<lambda>(ok, msg''). grows s ?m msg'')"
        using c slot_put_rdata [OF grows_wf [OF stored(2)] c] by (intro Cons.IH) (auto dest: grows_wf)
      then have "returns (add_txt s srcs ?m) (\<lambda>(ok, msg''). grows s msg msg'')"
        by (rule returns_mono) (use grows_trans [OF stored(2) grows_trans [OF g]] in auto)
      then show ?thesis using stored t False by simp
    qed
  qed
qed

text \<open>The member of the union that the type of a record selects is readable.\<close>

definition rd_matches :: "u16 \<Rightarrow> 'p rdata \<Rightarrow> bool" where
  "rd_matches t rd \<longleftrightarrow>
     (t = DNS_TYPE_A \<longrightarrow> rd_a rd \<noteq> None) \<and> (t = DNS_TYPE_AAAA \<longrightarrow> rd_aaaa rd \<noteq> None) \<and>
     (t = DNS_TYPE_NS \<or> t = DNS_TYPE_CNAME \<or> t = DNS_TYPE_PTR \<longrightarrow> rd_name rd \<noteq> None) \<and>
     (t = DNS_TYPE_SOA \<longrightarrow> rd_soa rd \<noteq> None) \<and> (t = DNS_TYPE_HINFO \<longrightarrow> rd_hinfo rd \<noteq> None) \<and>
     (t = DNS_TYPE_MX \<longrightarrow> rd_mx rd \<noteq> None) \<and> (t = DNS_TYPE_TXT \<longrightarrow> rd_txt rd \<noteq> None) \<and>
     (t = DNS_TYPE_SRV \<longrightarrow> rd_srv rd \<noteq> None) \<and> (t = DNS_TYPE_OPT \<longrightarrow> rd_opt rd \<noteq> None)"

lemma add_soa_grows:
  assumes wf: "msg_wf msg" and cnt: "sect_count s msg < DNS_MAX_RR"
  shows "returns (do {
           (mp, msg1) \<leftarrow> msg_store_name msg mn;
           if mp = None then Some (False, put_rdata s (RD_NS None) msg1)
           else do {
             (rp, msg2) \<leftarrow> msg_store_name msg1 rn;
             Some (True, put_rdata s (RD_SOA mp rp v1 v2 v3 v4 v5) msg2) } })
    (\<lambda>(ok, msg'). grows s msg msg')"
  using wf
proof (cases rule: msg_store_name_grows [where name = mn and s = s])
  case full
  have "grows s msg (put_rdata s (RD_NS None) msg)" using wf cnt by (intro grows_put_rdata) auto
  then show ?thesis using full by simp
next
  case (stored k msg1)
  have c1: "sect_count s msg1 < DNS_MAX_RR" using stored(2) cnt by simp
  from grows_wf [OF stored(2)] show ?thesis
  proof (cases rule: msg_store_name_grows [where name = rn and s = s])
    case full
    have "grows s msg1 (put_rdata s (RD_SOA (Some k) None v1 v2 v3 v4 v5) msg1)"
      using stored c1 by (intro grows_put_rdata) (auto dest: grows_wf)
    then show ?thesis using stored full grows_trans [OF stored(2)] by simp
  next
    case st: (stored j msg2)
    have c2: "sect_count s msg2 < DNS_MAX_RR" using st(2) c1 by simp
    have "msg_str msg2 k \<noteq> None" using grows_str [OF st(2)] stored(3) by simp
    then have "grows s msg2 (put_rdata s (RD_SOA (Some k) (Some j) v1 v2 v3 v4 v5) msg2)"
      using st c2 by (intro grows_put_rdata) (auto dest: grows_wf)
    then show ?thesis using stored(1) st(1) grows_trans [OF stored(2) grows_trans [OF st(2)]] by simp
  qed
qed

lemma add_hinfo_grows:
  assumes wf: "msg_wf msg" and cnt: "sect_count s msg < DNS_MAX_RR"
  shows "returns (do {
           (cp, msg1) \<leftarrow> msg_store_name msg c;
           (xp, msg2) \<leftarrow> msg_store_name msg1 x;
           Some (True, put_rdata s (RD_HINFO cp xp) msg2) })
    (\<lambda>(ok, msg'). grows s msg msg')"
proof -
  obtain cp msg1 where 1: "msg_store_name msg c = Some (cp, msg1)" "grows s msg msg1"
    "\<And>k. cp = Some k \<Longrightarrow> msg_str msg1 k \<noteq> None"
    using wf by (cases rule: msg_store_name_grows [where name = c and s = s]) (auto intro: grows_refl wf)
  obtain xp msg2 where 2: "msg_store_name msg1 x = Some (xp, msg2)" "grows s msg1 msg2"
    "\<And>k. xp = Some k \<Longrightarrow> msg_str msg2 k \<noteq> None"
    using grows_wf [OF 1(2)]
    by (cases rule: msg_store_name_grows [where name = x and s = s]) (auto intro: grows_refl grows_wf [OF 1(2)])
  have c2: "sect_count s msg2 < DNS_MAX_RR" using 1(2) 2(2) cnt by simp
  have "msg_str msg2 k \<noteq> None" if "cp = Some k" for k
    using 1(3) [OF that] grows_str [OF 2(2)] by blast
  then have "grows s msg2 (put_rdata s (RD_HINFO cp xp) msg2)"
    using 2 c2 by (intro grows_put_rdata) (auto dest: grows_wf)
  then show ?thesis using 1(1) 2(1) grows_trans [OF 1(2) grows_trans [OF 2(2)]] by simp
qed

text \<open>
  The record that adding a source record should leave, with its strings: for the types whose
  \<open>rdata\<close> is an address, or a name with at most some numbers, exactly the source's (a NULL name
  becomes the empty string).
\<close>

definition nstr :: "byte list option \<Rightarrow> byte list" where
  "nstr p = cstr_of (case p of None \<Rightarrow> [] | Some t \<Rightarrow> t)"

definition norm_rd :: "u16 \<Rightarrow> byte list rdata \<Rightarrow> byte list rdata option" where
  "norm_rd t rd =
     (if t = DNS_TYPE_A then map_option RD_A (rd_a rd)
      else if t = DNS_TYPE_AAAA then map_option RD_AAAA (rd_aaaa rd)
      else if t = DNS_TYPE_NS then map_option (\<lambda>p. RD_NS (Some (nstr p))) (rd_name rd)
      else if t = DNS_TYPE_CNAME then map_option (\<lambda>p. RD_CNAME (Some (nstr p))) (rd_name rd)
      else if t = DNS_TYPE_PTR then map_option (\<lambda>p. RD_PTR (Some (nstr p))) (rd_name rd)
      else if t = DNS_TYPE_MX then map_option (\<lambda>(v, p). RD_MX v (Some (nstr p))) (rd_mx rd)
      else if t = DNS_TYPE_SRV then map_option (\<lambda>(a, b, c, p). RD_SRV a b c (Some (nstr p))) (rd_srv rd)
      else None)"

definition rdata_added :: "sect \<Rightarrow> byte list dns_rr \<Rightarrow> dns_msg \<Rightarrow> bool \<times> dns_msg \<Rightarrow> bool" where
  "rdata_added s src msg res = (case res of (ok, msg') \<Rightarrow> grows s msg msg' \<and>
     (ok \<longrightarrow> (\<forall>x. norm_rd (rr_type src) (rr_rdata src) = Some x \<longrightarrow> rd_strs msg' (rr_rdata (slot s msg')) = x)))"

lemma add_rdata_ok:
  assumes wf: "msg_wf msg" and cnt: "sect_count s msg < DNS_MAX_RR"
    and "rd_matches (rr_type src) (rr_rdata src)" and "rr_rdata (slot s msg) = RD_Zero"
  shows "returns (add_rdata s src msg) (rdata_added s src msg)"
proof -
  have nm: "returns (add_name s f name msg) (rdata_added s src msg)"
    if "\<And>p. set_rdata (f p) = set_option p" "\<And>p n ss. f p \<noteq> RD_TXT n ss"
      "\<And>x msg' k. norm_rd (rr_type src) (rr_rdata src) = Some x \<Longrightarrow> msg_str msg' k = Some (nstr name) \<Longrightarrow>
         rd_strs msg' (f (Some k)) = x" for f name
    by (rule returns_mono [OF add_name_grows [OF wf cnt that(1,2)]])
      (use that(3) in \<open>auto simp: rdata_added_def nstr_def\<close>)
  have put: "rdata_added s src msg (True, put_rdata s rd msg)"
    if "set_rdata rd = {}" "\<And>n ss. rd \<noteq> RD_TXT n ss"
      "\<And>x msg'. norm_rd (rr_type src) (rr_rdata src) = Some x \<Longrightarrow> rd_strs msg' rd = x" for rd
  proof -
    have "grows s msg (put_rdata s rd msg)" using that wf cnt by (intro grows_put_rdata) auto
    then show ?thesis using that(3) slot_put_rdata [OF wf cnt, of rd] by (simp add: rdata_added_def)
  qed
  let ?t = "rr_type src"
  have m: "rd_matches ?t (rr_rdata src)" by fact
  have other: "returns r (rdata_added s src msg)"
    if "returns r (\<lambda>(ok, msg'). grows s msg msg')" "norm_rd ?t (rr_rdata src) = None" for r
    by (rule returns_mono [OF that(1)]) (use that(2) in \<open>auto simp: rdata_added_def\<close>)
  note defs = add_rdata_def rd_matches_def norm_rd_def rd_strs_def dns_types
  consider "?t = DNS_TYPE_A" | "?t = DNS_TYPE_NS" | "?t = DNS_TYPE_CNAME" | "?t = DNS_TYPE_SOA" | "?t = DNS_TYPE_PTR"
    | "?t = DNS_TYPE_HINFO" | "?t = DNS_TYPE_MX" | "?t = DNS_TYPE_TXT" | "?t = DNS_TYPE_AAAA" | "?t = DNS_TYPE_SRV"
    | "?t = DNS_TYPE_OPT"
    | "?t \<notin> {DNS_TYPE_A, DNS_TYPE_NS, DNS_TYPE_CNAME, DNS_TYPE_SOA, DNS_TYPE_PTR, DNS_TYPE_HINFO, DNS_TYPE_MX,
        DNS_TYPE_TXT, DNS_TYPE_AAAA, DNS_TYPE_SRV, DNS_TYPE_OPT}" by blast
  then show ?thesis
  proof cases
    case 1
    then show ?thesis using m by (auto simp: defs intro!: put)
  next
    case 2
    then show ?thesis using m by (auto simp: defs intro!: nm)
  next
    case 3
    then show ?thesis using m by (auto simp: defs intro!: nm)
  next
    case 4
    then show ?thesis using m by (auto simp: defs intro!: other add_soa_grows [OF wf cnt])
  next
    case 5
    then show ?thesis using m by (auto simp: defs intro!: nm)
  next
    case 6
    then show ?thesis using m by (auto simp: defs intro!: other add_hinfo_grows [OF wf cnt])
  next
    case 7
    then show ?thesis using m by (auto simp: defs intro!: nm)
  next
    case 8
    then show ?thesis using m assms(4) by (auto simp: defs intro!: other add_txt_grows [OF wf cnt])
  next
    case 9
    then show ?thesis using m by (auto simp: defs intro!: put)
  next
    case 10
    then show ?thesis using m by (auto simp: defs intro!: nm)
  next
    case 11
    then show ?thesis using m assms(4) by (auto simp: defs intro!: put)
  next
    case 12
    then show ?thesis using grows_refl [OF wf] by (auto simp: add_rdata_def norm_rd_def rdata_added_def)
  qed
qed

section \<open>Adding a record refines appending to a list\<close>

definition rr_view :: "dns_msg \<Rightarrow> msg_rr \<Rightarrow> byte list dns_rr" where
  "rr_view msg rr = \<lparr>rr_name = map_option (\<lambda>k. case msg_str msg k of Some t \<Rightarrow> t | None \<Rightarrow> []) (rr_name rr),
     rr_type = rr_type rr, rr_class = rr_class rr, rr_ttl = rr_ttl rr, rr_rdlen = rr_rdlen rr,
     rr_rdata = rd_strs msg (rr_rdata rr)\<rparr>"

definition sect_view :: "sect \<Rightarrow> dns_msg \<Rightarrow> byte list dns_rr list" where
  "sect_view s msg = map (rr_view msg) (take (sect_count s msg) (sect_base s msg))"

lemma rr_view_keep:
  assumes "\<forall>k\<in>rr_ptrs rr. msg_str msg k \<noteq> None" and "\<And>j t. msg_str msg j = Some t \<Longrightarrow> msg_str msg' j = Some t"
  shows "rr_view msg' rr = rr_view msg rr"
proof -
  have *: "msg_str msg k = msg_str msg' k" if "k \<in> rr_ptrs rr" for k
    using assms(1,2) that by (cases "msg_str msg k") auto
  have "rd_strs msg (rr_rdata rr) = rd_strs msg' (rr_rdata rr)"
    by (rule rd_strs_cong) (rule *, simp add: rr_ptrs_def)
  moreover have "map_option (\<lambda>k. case msg_str msg k of Some t \<Rightarrow> t | None \<Rightarrow> []) (rr_name rr) =
      map_option (\<lambda>k. case msg_str msg' k of Some t \<Rightarrow> t | None \<Rightarrow> []) (rr_name rr)"
    by (rule option.map_cong0) (use * in \<open>simp add: rr_ptrs_def\<close>)
  ultimately show ?thesis by (simp add: rr_view_def)
qed

lemma sect_view_keep:
  assumes "msg_wf msg" and "\<And>j t. msg_str msg j = Some t \<Longrightarrow> msg_str msg' j = Some t"
    and "sect_count s msg' = sect_count s msg"
    and "take (sect_count s msg) (sect_base s msg') = take (sect_count s msg) (sect_base s msg)"
  shows "sect_view s msg' = sect_view s msg"
proof -
  have "\<forall>rr\<in>set (take (sect_count s msg) (sect_base s msg)). rr_view msg' rr = rr_view msg rr"
    using assms(1,2) by (auto simp: msg_wf_def sect_wf_def dest!: in_set_takeD intro!: rr_view_keep)
  then show ?thesis using assms(3,4) by (simp add: sect_view_def)
qed

definition record_added :: "sect \<Rightarrow> byte list dns_rr \<Rightarrow> dns_msg \<Rightarrow> int \<times> dns_msg \<Rightarrow> bool" where
  "record_added s src msg res = (case res of (rc, msg') \<Rightarrow>
     msg_wf msg' \<and> m_hdr msg' = m_hdr msg \<and> m_qd msg' = m_qd msg \<and> m_qd_len msg' = m_qd_len msg \<and>
     (\<forall>j t. msg_str msg j = Some t \<longrightarrow> msg_str msg' j = Some t) \<and>
     (\<forall>t. t \<noteq> s \<longrightarrow> sect_view t msg' = sect_view t msg) \<and>
     (rc = -1 \<and> sect_view s msg' = sect_view s msg \<or>
      rc = 0 \<and> (\<exists>x. sect_view s msg' = sect_view s msg @ [x] \<and>
        rr_name x = Some (nstr (rr_name src)) \<and> rr_type x = rr_type src \<and> rr_class x = rr_class src \<and>
        rr_ttl x = rr_ttl src \<and> (\<forall>rd. norm_rd (rr_type src) (rr_rdata src) = Some rd \<longrightarrow> rr_rdata x = rd))))"

lemma record_added_failI:
  assumes "msg_wf msg" "msg_wf msg'" "m_hdr msg' = m_hdr msg" "m_qd msg' = m_qd msg" "m_qd_len msg' = m_qd_len msg"
    "\<And>j t. msg_str msg j = Some t \<Longrightarrow> msg_str msg' j = Some t"
    "\<And>t. sect_count t msg' = sect_count t msg"
    "\<And>t. take (sect_count t msg) (sect_base t msg') = take (sect_count t msg) (sect_base t msg)"
  shows "record_added s src msg (-1, msg')"
  using assms sect_view_keep [OF assms(1,6,7,8)] by (simp add: record_added_def)

lemma take_base_upd_slot [simp]:
  "take (sect_count t msg) (sect_base t (upd_slot s f msg)) = take (sect_count t msg) (sect_base t msg)"
  by (cases "t = s") simp_all

lemma nth_base_upd_slot [simp]:
  "i = sect_count s msg \<Longrightarrow> i < length (sect_base s msg) \<Longrightarrow>
     sect_base s (upd_slot s f msg) ! i = f (sect_base s msg ! i)"
  by simp

lemma take_base_grows:
  "grows s msg msg' \<Longrightarrow> take (sect_count t msg) (sect_base t msg') = take (sect_count t msg) (sect_base t msg)"
proof (cases "t = s")
  case True
  assume "grows s msg msg'"
  then obtain rd where "sect_base s msg' = (sect_base s msg)[sect_count s msg := (slot s msg)\<lparr>rr_rdata := rd\<rparr>]"
    unfolding grows_def by blast
  then show ?thesis using True by simp
next
  case False
  assume "grows s msg msg'"
  then have "sect_base t msg' = sect_base t msg" using False unfolding grows_def by blast
  then show ?thesis by simp
qed

lemma grows_others:
  "grows s msg msg' \<Longrightarrow> m_hdr msg' = m_hdr msg \<and> m_qd msg' = m_qd msg \<and> m_qd_len msg' = m_qd_len msg"
  unfolding grows_def by blast

lemma record_added_okI:
  assumes wf: "msg_wf msg" and wf4: "msg_wf msg4" and cnt: "sect_count s msg < DNS_MAX_RR"
    and same: "m_hdr msg4 = m_hdr msg" "m_qd msg4 = m_qd msg" "m_qd_len msg4 = m_qd_len msg"
    and strs: "\<And>j t. msg_str msg j = Some t \<Longrightarrow> msg_str msg4 j = Some t"
    and c4: "\<And>t. sect_count t msg4 = sect_count t msg"
    and t4: "\<And>t. take (sect_count t msg) (sect_base t msg4) = take (sect_count t msg) (sect_base t msg)"
    and slot4: "slot s msg4 = r" "rr_name r = Some k" "msg_str msg4 k = Some (nstr (rr_name src))"
      "rr_type r = rr_type src" "rr_class r = rr_class src" "rr_ttl r = rr_ttl src"
    and rd: "\<And>x. norm_rd (rr_type src) (rr_rdata src) = Some x \<Longrightarrow> rd_strs msg4 (rr_rdata r) = x"
  shows "record_added s src msg (0, set_count s (sect_count s msg4 + 1) msg4)"
proof -
  let ?m = "set_count s (sect_count s msg4 + 1) msg4"
  have "msg_wf ?m" using slot4(1,2) c4 cnt by (intro wf_set_count [OF wf4]) simp_all
  moreover have "sect_count s msg4 < length (sect_base s msg4)" using slot_wf(1) [OF wf4] c4 cnt by simp
  then have "sect_view s ?m = map (rr_view msg4) (take (sect_count s msg) (sect_base s msg)) @ [rr_view msg4 r]"
    using t4 c4 slot4(1) by (simp add: sect_view_def take_Suc_conv_app_nth rr_view_def rd_strs_def)
  moreover have "map (rr_view msg4) (take (sect_count s msg) (sect_base s msg)) = sect_view s msg"
    using sect_view_keep [OF wf strs, of s] c4 t4 by (simp add: sect_view_def)
  moreover have "sect_view t ?m = sect_view t msg" if "t \<noteq> s" for t
    using that wf strs c4 t4 by (intro sect_view_keep) simp_all
  ultimately show ?thesis using same strs slot4(2-) rd by (simp add: record_added_def) (simp add: rr_view_def)
qed

text \<open>The slot behind the records of a section after its name and fixed fields are set.\<close>

abbreviation fixed_fields :: "byte list dns_rr \<Rightarrow> msg_rr \<Rightarrow> msg_rr" where
  "fixed_fields src rr \<equiv> rr\<lparr>rr_type := rr_type src, rr_class := rr_class src, rr_ttl := rr_ttl src\<rparr>"

lemma slot_prepared:
  fixes src :: "byte list dns_rr" and msg1 :: dns_msg and s :: sect and k :: nat
  defines "msg3 \<equiv> upd_slot s (fixed_fields src) (upd_slot s (\<lambda>rr. rr\<lparr>rr_name := Some k\<rparr>) msg1)"
  assumes g: "grows s msg msg1" and k: "msg_str msg1 k = Some x" and base: "sect_base s msg1 = sect_base s msg" and cnt: "sect_count s msg < DNS_MAX_RR"
  shows "msg_wf msg3" and "slot s msg3 = fixed_fields src ((slot s msg)\<lparr>rr_name := Some k\<rparr>)"
    and "sect_count t msg3 = sect_count t msg" and "take (sect_count t msg) (sect_base t msg3) = take (sect_count t msg) (sect_base t msg)"
    and "msg_str msg3 = msg_str msg1" and "m_hdr msg3 = m_hdr msg" and "m_qd msg3 = m_qd msg" and "m_qd_len msg3 = m_qd_len msg"
proof -
  have c1: "sect_count s msg1 < DNS_MAX_RR" using g cnt by simp
  note wf1 = grows_wf [OF g]
  have wf2: "msg_wf (upd_slot s (\<lambda>rr. rr\<lparr>rr_name := Some k\<rparr>) msg1)"
    using slot_wf [OF wf1 c1] k by (intro wf_upd_slot [OF wf1]) (auto simp: rr_ptrs_def txt_ok_def)
  show "msg_wf msg3"
    unfolding msg3_def using slot_wf [OF wf2, where s = s] c1 by (intro wf_upd_slot [OF wf2]) (simp_all add: rr_ptrs_def txt_ok_def)
  show "slot s msg3 = fixed_fields src ((slot s msg)\<lparr>rr_name := Some k\<rparr>)" using slot_wf(1) [OF wf1 c1] base g by (simp add: msg3_def)
  show "take (sect_count t msg) (sect_base t msg3) = take (sect_count t msg) (sect_base t msg)"
    using take_base_upd_slot [of t "upd_slot s (\<lambda>rr. rr\<lparr>rr_name := Some k\<rparr>) msg1" s "fixed_fields src"]
      take_base_upd_slot [of t msg1] take_base_grows [OF g, of t] g by (simp add: msg3_def)
qed (use g grows_others [OF g] in \<open>simp_all add: msg3_def\<close>)

lemma sect_add_rr_refines:
  assumes wf: "msg_wf msg" and m: "rd_matches (rr_type src) (rr_rdata src)"
    and z: "sect_count s msg < DNS_MAX_RR \<Longrightarrow> rr_rdata (slot s msg) = RD_Zero"
  shows "returns (dns_sect_add_rr msg s (Some src)) (record_added s src msg)"
proof (cases "sect_count s msg < DNS_MAX_RR")
  case False
  then show ?thesis using wf by (simp add: dns_sect_add_rr_def) (rule record_added_failI; simp)
next
  case cnt: True
  from wf show ?thesis
  proof (cases rule: msg_store_name_grows [where name = "rr_name src" and s = s])
    case full
    have "msg_wf (upd_slot s (\<lambda>rr. rr\<lparr>rr_name := None\<rparr>) msg)"
      using slot_wf [OF wf cnt] by (intro wf_upd_slot [OF wf]) (auto simp: rr_ptrs_def txt_ok_def)
    then have "record_added s src msg (-1, upd_slot s (\<lambda>rr. rr\<lparr>rr_name := None\<rparr>) msg)"
      using wf by (intro record_added_failI) simp_all
    then show ?thesis using full cnt by (simp add: dns_sect_add_rr_def)
  next
    case (stored k msg1)
    define msg3 where "msg3 = upd_slot s (fixed_fields src) (upd_slot s (\<lambda>rr. rr\<lparr>rr_name := Some k\<rparr>) msg1)"
    note p3 = slot_prepared [where src = src, OF stored(2-4) cnt, folded msg3_def]
    obtain ok msg4 where r: "add_rdata s src msg3 = Some (ok, msg4)" and added: "rdata_added s src msg3 (ok, msg4)"
      using add_rdata_ok [OF p3(1) _ m, where s = s] cnt p3(2,3) z by (auto simp: returns_iff)
    have g: "grows s msg3 msg4" using added by (simp add: rdata_added_def)
    have strs: "msg_str msg4 j = Some t" if "msg_str msg j = Some t" for j t
      using grows_str [OF g] grows_str [OF stored(2) that] p3(5) by simp
    have c4: "sect_count t msg4 = sect_count t msg" for t using g p3(3) by simp
    have t4: "take (sect_count t msg) (sect_base t msg4) = take (sect_count t msg) (sect_base t msg)" for t
      using take_base_grows [OF g, of t] p3(3,4) by simp
    note wf4 = grows_wf [OF g]
    have o4: "m_hdr msg4 = m_hdr msg" "m_qd msg4 = m_qd msg" "m_qd_len msg4 = m_qd_len msg" using grows_others [OF g] p3(6-8) by simp_all
    have run: "dns_sect_add_rr msg s (Some src) = Some (if ok then (0, set_count s (sect_count s msg4 + 1) msg4) else (-1, msg4))"
      using stored(1) cnt r by (simp add: dns_sect_add_rr_def msg3_def Let_def)
    show ?thesis
    proof (cases ok)
      case False
      then show ?thesis unfolding run by simp (intro record_added_failI [OF wf wf4 o4] strs c4 t4)
    next
      case True
      obtain rd where slot4: "slot s msg4 = (slot s msg3)\<lparr>rr_rdata := rd\<rparr>" using grows_slot [OF g _ p3(1)] p3(3) cnt by auto
      have "msg_str msg4 k = Some (nstr (rr_name src))" using grows_str [OF g] p3(5) stored(3) by (simp add: nstr_def)
      then have "record_added s src msg (0, set_count s (sect_count s msg4 + 1) msg4)"
        using added True p3(2) slot4 by (intro record_added_okI [OF wf wf4 cnt o4 strs c4 t4 slot4]) (simp_all add: rdata_added_def)
      then show ?thesis unfolding run using True by simp
    qed
  qed
qed



lemma add_qdn_wf:
  assumes wf: "msg_wf msg"
  shows "returns (dns_add_qdn msg qname qtype qclass) (\<lambda>(rc, msg'). msg_wf msg' \<and>
     (\<forall>s. sect_view s msg' = sect_view s msg) \<and>
     (if rc = 0 then m_qd_len msg = 0 \<and> m_qd_len msg' = 1 \<and>
        (\<exists>k. m_qd msg' = [\<lparr>qd_name = Some k, qd_type = qtype, qd_class = qclass\<rparr>] \<and> msg_str msg' k = Some (cstr_of qname))
      else rc = -1 \<and> m_qd_len msg' = m_qd_len msg))"
proof (cases "m_qd_len msg \<ge> DNS_MAX_QD")
  case True
  then show ?thesis using wf by (simp add: dns_add_qdn_def)
next
  case False
  then have q0: "m_qd_len msg = 0" by (simp add: DNS_MAX_QD_def)
  have "length (m_qd msg) = 1" using wf by (simp add: msg_wf_def qd_wf_def DNS_MAX_QD_def)
  then obtain q where q: "m_qd msg = [q]" by (auto simp: length_Suc_conv)
  have wf': "msg_wf (msg'\<lparr>m_qd := qs, m_qd_len := n\<rparr>)"
    if "msg_wf msg'" "length qs = 1" "n \<le> 1" "n = 1 \<Longrightarrow> \<exists>k. qd_name (qs ! 0) = Some k \<and> msg_str msg' k \<noteq> None"
    for msg' qs n
  proof -
    have str: "msg_str (msg'\<lparr>m_qd := qs, m_qd_len := n\<rparr>) = msg_str msg'" by (rule msg_str_cong) simp_all
    have sc: "sect_count s (msg'\<lparr>m_qd := qs, m_qd_len := n\<rparr>) = sect_count s msg'"
      "sect_base s (msg'\<lparr>m_qd := qs, m_qd_len := n\<rparr>) = sect_base s msg'" for s by (cases s; simp)+
    have "qd_wf (msg'\<lparr>m_qd := qs, m_qd_len := n\<rparr>)"
      using that(2-4) by (cases "n = 0") (auto simp: qd_wf_def str DNS_MAX_QD_def length_Suc_conv)
    then show ?thesis using that(1) by (simp add: msg_wf_def sect_wf_def store_inv_def str sc)
  qed
  have view: "sect_view s (msg'\<lparr>m_qd := qs, m_qd_len := n\<rparr>) = sect_view s msg'" for s msg' qs n
  proof -
    have "msg_str (msg'\<lparr>m_qd := qs, m_qd_len := n\<rparr>) = msg_str msg'" by (rule msg_str_cong) simp_all
    then show ?thesis by (cases s) (simp_all add: sect_view_def rr_view_def rd_strs_def)
  qed
  from wf show ?thesis
  proof (cases rule: msg_store_name_grows [where name = "Some qname" and s = SectAN])
    case full
    have "msg\<lparr>m_qd := [q\<lparr>qd_name := None\<rparr>]\<rparr> = msg\<lparr>m_qd := [q\<lparr>qd_name := None\<rparr>], m_qd_len := 0\<rparr>" using q0 by simp
    then have "msg_wf (msg\<lparr>m_qd := [q\<lparr>qd_name := None\<rparr>]\<rparr>) \<and>
        (\<forall>s. sect_view s (msg\<lparr>m_qd := [q\<lparr>qd_name := None\<rparr>]\<rparr>) = sect_view s msg)"
      using wf' [OF wf, where qs = "[q\<lparr>qd_name := None\<rparr>]" and n = 0] view [where msg' = msg and qs = "[q\<lparr>qd_name := None\<rparr>]" and n = 0]
      by simp
    then show ?thesis using full False q q0 by (simp add: dns_add_qdn_def msg_store_name_def Let_def)
  next
    case (stored k msg1)
    let ?q = "\<lparr>qd_name = Some k, qd_type = qtype, qd_class = qclass\<rparr>"
    let ?m = "msg1\<lparr>m_qd := [?q], m_qd_len := 1\<rparr>"
    have run: "dns_add_qdn msg qname qtype qclass = Some (0, ?m)"
      using stored(1) False q q0 grows_others [OF stored(2)] by (simp add: dns_add_qdn_def msg_store_name_def Let_def)
    have "msg_wf ?m" using stored(3) by (intro wf' grows_wf [OF stored(2)]) simp_all
    moreover have "sect_view s ?m = sect_view s msg" for s
      using view [where s = s and msg' = msg1 and qs = "[?q]" and n = 1] sect_view_keep [OF wf, of msg1 s] grows_str [OF stored(2)] stored(2)
        take_base_grows [OF stored(2), of s] by simp
    moreover have "msg_str ?m k = Some (cstr_of qname)"
      using stored(3) msg_str_cong [of ?m msg1] by simp
    ultimately show ?thesis unfolding run using q0 by simp
  qed
qed

end
