(* ===== verification/Dns_Decode.thy ===== *)
theory Dns_Decode
  imports Dns_Name Dns_Store
begin

text \<open>
  The decoder of \<open>src/src/dns_proto.c\<close>: header, questions, resource records, sections, and the two
  entry points \<open>dns_msg_decode\<close> (fills a message) and \<open>dns_validate\<close> (describes the packet in a
  text buffer).

  A function of the source that updates the decoder and the message returns its result code with
  both. Inside \<open>dns_rr_decode\<close> every \<open>return\<close> in the middle of the body is an \<open>Inl\<close> that the
  combinator \<open>andthen\<close> passes on. Its \<open>switch\<close> is one definition per record type.
\<close>

section \<open>Messages and errors of the decoder\<close>

definition dns_wmsg :: "dns_dec \<Rightarrow> byte list \<Rightarrow> (int \<times> dns_dec) option" where
  "dns_wmsg dec s = do {
     let buf = d_emsg dec;
     let avail = sbuf_rem buf;
     (nw, m) \<leftarrow> snprintf_at (sb_mem buf) (sb_pos buf) avail s;
     if nw \<ge> avail then Some (-1, dec\<lparr>d_emsg := buf\<lparr>sb_mem := m\<rparr>\<rparr>)
     else Some (0, dec\<lparr>d_emsg := buf\<lparr>sb_mem := m, sb_pos := sb_pos buf + nw\<rparr>\<rparr>) }"

definition dns_dec_err :: "dns_dec \<Rightarrow> int \<Rightarrow> int \<Rightarrow> int \<Rightarrow> int \<times> dns_dec" where
  "dns_dec_err dec grp field ec =
     (if length (d_errs dec) \<ge> DNS_MAX_EMSG then (-1, dec)
      else (0, dec\<lparr>d_errs := d_errs dec @ [\<lparr>er_group = grp, er_field = field, er_ec = ec\<rparr>]\<rparr>))"

text \<open>\<open>dns_err_tostr\<close>: the text is built in the scratch buffer, which always has room for it.\<close>

definition err_text :: "dns_err \<Rightarrow> byte list" where
  "err_text err = dec_code_tostr (er_group err) @ [32] @ dec_code_tostr (er_field err) @ [32] @ dns_ec_tostr (er_ec err)"

definition dns_err_tostr :: "dns_dec \<Rightarrow> dns_err \<Rightarrow> (byte list option \<times> dns_dec) option" where
  "dns_err_tostr dec err = do {
     (nw, m) \<leftarrow> snprintf_at (d_msg dec) 0 DNS_MSG_SIZE (err_text err);
     if nw \<ge> DNS_MSG_SIZE then Some (None, dec\<lparr>d_msg := m\<rparr>)
     else do { s \<leftarrow> cstr_at m 0; Some (Some s, dec\<lparr>d_msg := m\<rparr>) } }"

text \<open>The loop of \<open>dns_dec_genmsg\<close>, over the errors from the last to the first.\<close>

fun genmsg_loop :: "dns_err list \<Rightarrow> dns_dec \<Rightarrow> dns_dec option" where
  "genmsg_loop [] dec = Some dec"
| "genmsg_loop (e # es) dec = do {
     (estr, dec1) \<leftarrow> dns_err_tostr dec e;
     s \<leftarrow> estr;
     (rc, dec2) \<leftarrow> dns_wmsg dec1 (str ''/ '' @ s);
     genmsg_loop es dec2 }"

definition dns_dec_genmsg :: "dns_dec \<Rightarrow> (int \<times> dns_dec) option" where
  "dns_dec_genmsg dec =
     (if d_errs dec = [] then
        (if sbuf_rem (d_emsg dec) = 0 then do {
           (rc, dec') \<leftarrow> dns_wmsg dec (str ''[ERROR] Missing PDU desc'');
           Some (0, dec') }
         else Some (0, dec))
      else do {
        (rc1, dec1) \<leftarrow> dns_wmsg dec (str ''[ERROR] '');
        (rc2, dec2) \<leftarrow> (if d_pkt_len dec1 \<ge> DNS_HDR_LEN
                        then dns_wmsg dec1 (str ''ID 0x'' @ hex4 (hd_id (d_hdr dec1)) @ [32])
                        else Some (0, dec1));
        dec3 \<leftarrow> genmsg_loop (rev (d_errs dec2)) dec2;
        (rc4, dec4) \<leftarrow> dns_wmsg dec3 [10];
        Some (-1, dec4) })"

section \<open>Header\<close>

definition dns_hdr_decode :: "dns_hdr \<Rightarrow> byte list \<Rightarrow> nat \<Rightarrow> (int \<times> dns_hdr) option" where
  "dns_hdr_decode hdr buf len =
     (if len < DNS_HDR_LEN then Some (DNS_EHDRLEN, hdr)
      else do {
        v0 \<leftarrow> dec_u16 buf 0; v1 \<leftarrow> dec_u16 buf 2; v2 \<leftarrow> dec_u16 buf 4;
        v3 \<leftarrow> dec_u16 buf 6; v4 \<leftarrow> dec_u16 buf 8; v5 \<leftarrow> dec_u16 buf 10;
        Some (0, \<lparr>hd_id = v0, hd_flags = v1, qd_count = v2, an_count = v3, ns_count = v4, ar_count = v5\<rparr>) })"

text \<open>
  The description of the flags in the local buffer \<open>tmp\<close> of 100 bytes, and whether the header is
  reported as an error.
\<close>

definition put_flag :: "bool \<Rightarrow> string \<Rightarrow> sbuf \<Rightarrow> sbuf option" where
  "put_flag b s buf = (if b then do { (n, buf') \<leftarrow> sbuf_puticm buf 32 (str s); Some buf' } else Some buf)"

definition flag_set :: "u16 \<Rightarrow> u16 \<Rightarrow> bool" where
  "flag_set flags m \<longleftrightarrow> flags AND m \<noteq> 0"

definition hdr_opcode :: "u16 \<Rightarrow> int" where
  "hdr_opcode flags = uint (drop_bit 11 (flags AND DNS_FLAGS_OPCODE))"

definition desc_response :: "u16 \<Rightarrow> sbuf \<Rightarrow> sbuf option" where
  "desc_response flags buf = do {
     let rcode = uint (flags AND DNS_FLAGS_RCODE);
     let opcode = hdr_opcode flags;
     buf \<leftarrow> put_flag (flag_set flags DNS_FLAGS_AA) ''AS:1'' buf;
     buf \<leftarrow> put_flag (flag_set flags DNS_FLAGS_TC) ''TC:1'' buf;
     buf \<leftarrow> put_flag (flag_set flags DNS_FLAGS_RD) ''RD:1'' buf;
     buf \<leftarrow> put_flag (flag_set flags DNS_FLAGS_RA) ''RA:1'' buf;
     buf \<leftarrow> put_flag True ''RCODE:'' buf;
     (n, buf) \<leftarrow> sbuf_puts buf (Some (rcode_tostr rcode));
     buf \<leftarrow> put_flag (opcode = 3 \<or> opcode > 5) ''bad-opcode'' buf;
     put_flag (rcode > 10) ''bad-rcode'' buf }"

definition desc_query :: "u16 \<Rightarrow> sbuf \<Rightarrow> sbuf option" where
  "desc_query flags buf = do {
     let opcode = hdr_opcode flags;
     buf \<leftarrow> put_flag (flag_set flags DNS_FLAGS_TC) ''TC:1'' buf;
     buf \<leftarrow> put_flag (flag_set flags DNS_FLAGS_RD) ''RD:1'' buf;
     buf \<leftarrow> put_flag (flag_set flags DNS_FLAGS_CD) ''CD:1'' buf;
     buf \<leftarrow> put_flag (flag_set flags DNS_FLAGS_AD) ''AD:1'' buf;
     put_flag (opcode = 3 \<or> opcode > 5) ''bad-opcode'' buf }"

definition desc_hdr :: "dns_dec \<Rightarrow> dns_hdr \<Rightarrow> (int \<times> dns_dec) option" where
  "desc_hdr dec0 hdr = do {
     let dec = dec0\<lparr>d_hdr := hdr\<rparr>;
     let flags = hd_flags hdr;
     let qr = flag_set flags DNS_FLAGS_QR;
     let opcode = hdr_opcode flags;
     let tmp = sbuf_init (replicate 100 0);
     buf \<leftarrow> (if qr then desc_response flags tmp else desc_query flags tmp);
     let dec' = (if qr then (if uint (flags AND DNS_FLAGS_RCODE) > 10
                             then snd (dns_dec_err dec DNS_PDU DNS_HDR DNS_ERCODE) else dec)
                 else (if opcode = 3 \<or> opcode > 5
                       then snd (dns_dec_err dec DNS_PDU DNS_HDR DNS_EOPCODE) else dec));
     dns_wmsg dec' (str ''['' @ (if qr then str ''RESPONSE'' else str ''QUERY'') @ str ''] ID 0x'' @ hex4 (hd_id hdr) @
       str '' QR:'' @ (if qr then str ''1'' else str ''0'') @ str '' OPCODE:'' @ opcode_tostr opcode @ [32] @
       cstr_of (sbuf_text buf) @ [10]) }"

definition decode_hdr :: "dns_dec \<Rightarrow> dns_msg \<Rightarrow> (int \<times> dns_dec \<times> dns_msg) option" where
  "decode_hdr dec msg = do {
     (rc, hdr) \<leftarrow> dns_hdr_decode (m_hdr msg) (d_pkt dec) (d_pkt_len dec);
     let msg' = msg\<lparr>m_hdr := hdr\<rparr>;
     if rc \<noteq> 0 then (case dns_dec_err dec DNS_PDU DNS_HDR rc of (e, dec') \<Rightarrow> Some (e, dec', msg'))
     else do {
       let dec1 = dec\<lparr>d_offset := d_offset dec + DNS_HDR_LEN\<rparr>;
       if \<not> d_need_emsg dec1 then Some (0, dec1, msg')
       else do { (rc', dec2) \<leftarrow> desc_hdr dec1 hdr; Some (rc', dec2, msg') } } }"

section \<open>Names inside records\<close>

definition dns_add_str :: "byte list \<Rightarrow> nat \<Rightarrow> nat \<Rightarrow> byte list \<Rightarrow> (int \<times> byte list) option" where
  "dns_add_str m p len s =
     (if length s + 1 > len then Some (-1, m)
      else do {
        m1 \<leftarrow> mem_write m p s;
        m2 \<leftarrow> mem_write m1 (p + length s) [0];
        Some (int (length s), m2) })"

definition fix_label :: "int \<Rightarrow> byte list \<Rightarrow> nat \<Rightarrow> (int \<times> byte list) option" where
  "fix_label rc m wptr =
     (if rc \<noteq> 1 then Some (if rc > 0 then rc - 1 else rc, m)
      else dns_add_str m wptr (size_sub DNS_MSG_SIZE wptr) (str ''.''))"

text \<open>
  The locals of \<open>dns_rr_decode\<close>: decoder, message, \<open>wptr\<close> (an index of the scratch buffer), \<open>rc\<close>,
  and the strings \<open>name\<close> and \<open>rdata_desc\<close>, each a literal or the index where it starts.
\<close>

record rrs =
  rs_dec :: dns_dec
  rs_msg :: dns_msg
  rs_wptr :: nat
  rs_rc :: int
  rs_name :: "byte list + nat"
  rs_desc :: "byte list + nat"

type_synonym ret = "int \<times> dns_dec \<times> dns_msg"
type_synonym 'a flow = "(ret + 'a) option"

definition andthen :: "'a flow \<Rightarrow> ('a \<Rightarrow> 'b flow) \<Rightarrow> 'b flow" where
  "andthen m f = do { r \<leftarrow> m; case r of Inl x \<Rightarrow> Some (Inl x) | Inr a \<Rightarrow> f a }"

definition ret_rc :: "int \<Rightarrow> rrs \<Rightarrow> 'a flow" where
  "ret_rc rc s = Some (Inl (rc, rs_dec s, rs_msg s))"

definition ret_err :: "int \<Rightarrow> int \<Rightarrow> int \<Rightarrow> rrs \<Rightarrow> 'a flow" where
  "ret_err grp field ec s =
     (case dns_dec_err (rs_dec s) grp field ec of (rc, dec) \<Rightarrow> Some (Inl (rc, dec, rs_msg s)))"

abbreviation rs_avail :: "rrs \<Rightarrow> nat" where
  "rs_avail s \<equiv> size_sub DNS_MSG_SIZE (rs_wptr s)"

abbreviation rs_offset :: "rrs \<Rightarrow> nat" where
  "rs_offset s \<equiv> d_offset (rs_dec s)"

abbreviation rs_pkt :: "rrs \<Rightarrow> byte list" where
  "rs_pkt s \<equiv> d_pkt (rs_dec s)"

definition set_offset :: "nat \<Rightarrow> rrs \<Rightarrow> rrs" where
  "set_offset n s = s\<lparr>rs_dec := (rs_dec s)\<lparr>d_offset := n\<rparr>\<rparr>"

definition advance :: "rrs \<Rightarrow> rrs" where
  "advance s = s\<lparr>rs_wptr := rs_wptr s + nat (rs_rc s)\<rparr>"

text \<open>\<open>rc = decode_name(...); if (rc < 0) return dns_dec_err(...); rc = fix_label(...); if (rc < 0) return rc;\<close>\<close>

definition get_name :: "int \<Rightarrow> rrs \<Rightarrow> rrs flow" where
  "get_name loc s = do {
     (rc, dec) \<leftarrow> decode_name (rs_dec s) (Some (rs_wptr s)) (rs_avail s);
     let s1 = s\<lparr>rs_dec := dec, rs_rc := rc\<rparr>;
     if rc < 0 then ret_err DNS_RR loc (- rc) s1
     else do {
       (rc', buf) \<leftarrow> fix_label rc (d_msg dec) (rs_wptr s);
       let s2 = s1\<lparr>rs_dec := dec\<lparr>d_msg := buf\<rparr>, rs_rc := rc'\<rparr>;
       if rc' < 0 then ret_rc rc' s2 else Some (Inr s2) } }"

text \<open>\<open>if (rr) { rr-><member> = msg_store_name(msg, wptr); if (!rr-><member>) return -1; }\<close>\<close>

definition store_name :: "nat \<Rightarrow> (nat option \<Rightarrow> dns_msg \<Rightarrow> dns_msg) \<Rightarrow> rrs \<Rightarrow> rrs flow" where
  "store_name q put s =
     (if d_load_msg (rs_dec s) then do {
        name \<leftarrow> cstr_at (d_msg (rs_dec s)) q;
        (p, msg) \<leftarrow> msg_store_name (rs_msg s) (Some name);
        let s' = s\<lparr>rs_msg := put p msg\<rparr>;
        if p = None then ret_rc (-1) s' else Some (Inr s') }
      else Some (Inr s))"

definition store_str :: "byte list \<Rightarrow> (nat option \<Rightarrow> dns_msg \<Rightarrow> dns_msg) \<Rightarrow> rrs \<Rightarrow> rrs flow" where
  "store_str bs put s =
     (if d_load_msg (rs_dec s) then do {
        (p, msg) \<leftarrow> msg_store_str (rs_msg s) bs;
        let s' = s\<lparr>rs_msg := put p msg\<rparr>;
        if p = None then ret_rc (-1) s' else Some (Inr s') }
      else Some (Inr s))"

text \<open>\<open>if (dec->need_emsg) { rc = snprintf(wptr, wend - wptr, ...); ...; wptr += rc; }\<close>\<close>

definition sprint :: "byte list \<Rightarrow> rrs \<Rightarrow> rrs option" where
  "sprint text s = do {
     (n, buf) \<leftarrow> snprintf_at (d_msg (rs_dec s)) (rs_wptr s) (rs_avail s) text;
     Some (s\<lparr>rs_dec := (rs_dec s)\<lparr>d_msg := buf\<rparr>, rs_wptr := rs_wptr s + n, rs_rc := int n\<rparr>) }"

definition desc :: "byte list \<Rightarrow> rrs \<Rightarrow> rrs flow" where
  "desc text s = (if d_need_emsg (rs_dec s) then do { s' \<leftarrow> sprint text s; Some (Inr s') } else Some (Inr s))"

section \<open>The record types\<close>

text \<open>\<open>rd_end\<close> is a \<open>uint16_t\<close>; \<open>put_rdata s\<close> writes the union of the record being filled.\<close>

definition rrd_a :: "sect \<Rightarrow> nat \<Rightarrow> rrs \<Rightarrow> rrs flow" where
  "rrd_a sc rdlen s =
     (if rdlen \<noteq> 4 then ret_err DNS_RR DNS_A DNS_ERDATALEN s
      else do {
        let rdata = rs_offset s;
        s1 \<leftarrow> (if d_load_msg (rs_dec s) then do {
                 a \<leftarrow> mem_read (rs_pkt s) rdata 4;
                 Some (s\<lparr>rs_msg := put_rdata sc (RD_A a) (rs_msg s)\<rparr>) }
               else Some s);
        let s2 = set_offset (rs_offset s1 + 4) s1;
        if d_need_emsg (rs_dec s2) then do {
          a \<leftarrow> mem_read (rs_pkt s2) rdata 4;
          (n, buf) \<leftarrow> ip4_str_encode a (d_msg (rs_dec s2)) (rs_wptr s2) (rs_avail s2);
          let s3 = s2\<lparr>rs_dec := (rs_dec s2)\<lparr>d_msg := buf\<rparr>\<rparr>;
          if n = 0 then Some (Inr (s3\<lparr>rs_wptr := rs_wptr s3 + 3, rs_desc := Inl (str ''???'')\<rparr>))
          else do {
            t \<leftarrow> cstr_at buf (rs_wptr s3);
            Some (Inr (s3\<lparr>rs_wptr := rs_wptr s3 + length t, rs_desc := Inr (rs_wptr s3)\<rparr>)) } }
        else Some (Inr s2) })"

text \<open>NS, CNAME and PTR: one name. The PTR case reports its errors as \<open>DNS_CNAME\<close>.\<close>

definition rrd_name :: "int \<Rightarrow> (nat option \<Rightarrow> nat rdata) \<Rightarrow> sect \<Rightarrow> rrs \<Rightarrow> rrs flow" where
  "rrd_name loc f sc s =
     andthen (get_name loc s) (\<lambda>s1.
     andthen (store_name (rs_wptr s1) (\<lambda>p. put_rdata sc (f p)) s1) (\<lambda>s2.
     Some (Inr ((advance s2)\<lparr>rs_desc := Inr (rs_wptr s)\<rparr>))))"

text \<open>
  SOA: two names and five 32-bit integers; a NULL \<open>rname\<close> is not noticed, the check looks at \<open>mname\<close>.
  While only \<open>mname\<close> is stored the union starts with that pointer, which is what \<open>RD_NS\<close> says.
\<close>

fun soa_desc :: "(string \<times> u32) list \<Rightarrow> rrs \<Rightarrow> rrs flow" where
  "soa_desc [] s = Some (Inr s)"
| "soa_desc ((nm, v) # vs) s =
     andthen (desc ([32] @ str nm @ [61] @ dec_digits (unat v)) s) (soa_desc vs)"

definition store_local :: "nat \<Rightarrow> rrs \<Rightarrow> (nat option \<times> rrs) option" where
  "store_local q s =
     (if d_load_msg (rs_dec s) then do {
        name \<leftarrow> cstr_at (d_msg (rs_dec s)) q;
        (p, msg) \<leftarrow> msg_store_name (rs_msg s) (Some name);
        Some (p, s\<lparr>rs_msg := msg\<rparr>) }
      else Some (None, s))"

definition soa_ints :: "sect \<Rightarrow> nat \<Rightarrow> nat \<Rightarrow> nat option \<Rightarrow> nat option \<Rightarrow> rrs \<Rightarrow> rrs flow" where
  "soa_ints sc rd_end start mp rp s =
     (if rs_offset s + 20 > rd_end then ret_err DNS_RR DNS_SOA DNS_ERDATALEN s
      else do {
        v0 \<leftarrow> dec_u32 (rs_pkt s) (rs_offset s);
        v1 \<leftarrow> dec_u32 (rs_pkt s) (rs_offset s + 4);
        v2 \<leftarrow> dec_u32 (rs_pkt s) (rs_offset s + 8);
        v3 \<leftarrow> dec_u32 (rs_pkt s) (rs_offset s + 12);
        v4 \<leftarrow> dec_u32 (rs_pkt s) (rs_offset s + 16);
        andthen (soa_desc [(''serial'', v0), (''refresh'', v1), (''retry'', v2), (''expire'', v3), (''min_ttl'', v4)]
                   (set_offset (rs_offset s + 20) s)) (\<lambda>s1.
        Some (Inr ((if d_load_msg (rs_dec s1)
                    then s1\<lparr>rs_msg := put_rdata sc (RD_SOA mp rp v0 v1 v2 v3 v4) (rs_msg s1)\<rparr>
                    else s1)\<lparr>rs_desc := Inr start\<rparr>))) })"

definition soa_rname :: "sect \<Rightarrow> nat \<Rightarrow> nat \<Rightarrow> nat option \<Rightarrow> rrs \<Rightarrow> rrs flow" where
  "soa_rname sc rd_end start mp s =
     andthen (desc (str '' RNAME='') s) (\<lambda>s1.
     andthen (get_name DNS_SOA s1) (\<lambda>s2. do {
       (rp, s3) \<leftarrow> store_local (rs_wptr s2) s2;
       soa_ints sc rd_end start mp rp (advance s3) }))"

definition rrd_soa :: "sect \<Rightarrow> nat \<Rightarrow> rrs \<Rightarrow> rrs flow" where
  "rrd_soa sc rd_end s =
     andthen (desc (str ''MNAME='') s) (\<lambda>s1.
     andthen (get_name DNS_SOA s1) (\<lambda>s2.
     andthen (store_name (rs_wptr s2) (\<lambda>p. put_rdata sc (RD_NS p)) s2) (\<lambda>s3.
       soa_rname sc rd_end (rs_wptr s) (case rr_rdata (slot sc (rs_msg s3)) of RD_NS mp \<Rightarrow> mp | _ \<Rightarrow> None) (advance s3))))"

text \<open>
  HINFO: two length-prefixed strings. \<open>hinfo_str\<close> reads one of them and stores it; between the two
  the slot, which does not count yet, holds the first.
\<close>

definition hinfo_str :: "string \<Rightarrow> (nat option \<Rightarrow> dns_msg \<Rightarrow> dns_msg) \<Rightarrow> nat \<Rightarrow> rrs \<Rightarrow> rrs flow" where
  "hinfo_str tag put rd_end s = do {
     b \<leftarrow> mem_get (rs_pkt s) (rs_offset s);
     let len = unat b;
     let s1 = set_offset (rs_offset s + 1) s;
     if rs_offset s1 + len > rd_end then ret_err DNS_RR DNS_HINFO DNS_ERDATALEN s1
     else do {
       bs \<leftarrow> mem_read (rs_pkt s1) (rs_offset s1) len;
       andthen (desc (str tag @ cstr_of bs) s1) (\<lambda>s2.
       andthen (store_str bs put s2) (\<lambda>s3.
       Some (Inr (set_offset (rs_offset s3 + len) s3)))) } }"

definition put_cpu :: "sect \<Rightarrow> nat option \<Rightarrow> dns_msg \<Rightarrow> dns_msg" where
  "put_cpu sc p = put_rdata sc (RD_HINFO p None)"

definition put_os :: "sect \<Rightarrow> nat option \<Rightarrow> dns_msg \<Rightarrow> dns_msg" where
  "put_os sc p msg =
     put_rdata sc (case rr_rdata (slot sc msg) of RD_HINFO c _ \<Rightarrow> RD_HINFO c p | _ \<Rightarrow> RD_HINFO None p) msg"

definition rrd_hinfo :: "sect \<Rightarrow> nat \<Rightarrow> nat \<Rightarrow> rrs \<Rightarrow> rrs flow" where
  "rrd_hinfo sc rdlen rd_end s =
     (if rdlen < 2 then ret_err DNS_RR DNS_HINFO DNS_ERDATALEN s
      else andthen (hinfo_str '' cpu='' (put_cpu sc) rd_end s) (\<lambda>s1.
        if rs_offset s1 \<ge> rd_end then ret_err DNS_RR DNS_HINFO DNS_ERDATALEN s1
        else andthen (hinfo_str '' os-str='' (put_os sc) rd_end s1) (\<lambda>s2.
          Some (Inr (s2\<lparr>rs_desc := Inr (rs_wptr s)\<rparr>)))))"

definition rrd_mx :: "sect \<Rightarrow> nat \<Rightarrow> rrs \<Rightarrow> rrs flow" where
  "rrd_mx sc rdlen s =
     (if rdlen < 3 then ret_err DNS_RR DNS_MX DNS_ERDATALEN s
      else do {
        pref \<leftarrow> dec_u16 (rs_pkt s) (rs_offset s);
        andthen (desc (str ''pref '' @ dec_digits (unat pref) @ [32]) (set_offset (rs_offset s + 2) s)) (\<lambda>s1.
        andthen (get_name DNS_MX s1) (\<lambda>s2.
        andthen (store_name (rs_wptr s2) (\<lambda>p. put_rdata sc (RD_MX pref p)) s2) (\<lambda>s3.
        Some (Inr ((advance s3)\<lparr>rs_desc := Inr (rs_wptr s)\<rparr>))))) })"

text \<open>
  TXT: length-prefixed strings up to \<open>rd_end\<close>. Each turn reads at least its length byte, so the
  loop ends within \<open>rd_end\<close> turns; running out of turns would be \<open>None\<close>.
\<close>

definition txt_store :: "sect \<Rightarrow> byte list \<Rightarrow> rrs \<Rightarrow> rrs flow" where
  "txt_store sc bs s =
     (if d_load_msg (rs_dec s) then do {
        let (n, strs) = txt_slot (rs_msg s) (rr_rdata (slot sc (rs_msg s)));
        if n \<ge> DNS_MAX_TXT then ret_rc (-1) s
        else do {
          (p, msg) \<leftarrow> msg_store_str (rs_msg s) bs;
          if p = None then ret_rc (-1) (s\<lparr>rs_msg := put_rdata sc (RD_TXT n (strs[n := p])) msg\<rparr>)
          else Some (Inr (s\<lparr>rs_msg := put_rdata sc (RD_TXT (n + 1) (strs[n := p])) msg\<rparr>)) } }
      else Some (Inr s))"

definition txt_step :: "sect \<Rightarrow> nat \<Rightarrow> rrs \<Rightarrow> rrs flow" where
  "txt_step sc rd_end s = do {
     b \<leftarrow> mem_get (rs_pkt s) (rs_offset s);
     let len = unat b;
     let s1 = set_offset (rs_offset s + 1) s;
     if rs_offset s1 + len > rd_end then ret_err DNS_RR DNS_TXT DNS_ERDATALEN s1
     else do {
       bs \<leftarrow> mem_read (rs_pkt s1) (rs_offset s1) len;
       andthen (desc (str '' txt='' @ cstr_of bs) s1) (\<lambda>s2.
       andthen (txt_store sc bs s2) (\<lambda>s3.
       Some (Inr (set_offset (rs_offset s3 + len) s3)))) } }"

fun txt_loop :: "nat \<Rightarrow> sect \<Rightarrow> nat \<Rightarrow> rrs \<Rightarrow> rrs flow" where
  "txt_loop 0 sc rd_end s = (if rs_offset s < rd_end then None else Some (Inr s))"
| "txt_loop (Suc k) sc rd_end s =
     (if rs_offset s < rd_end then andthen (txt_step sc rd_end s) (txt_loop k sc rd_end) else Some (Inr s))"

definition rrd_txt :: "sect \<Rightarrow> nat \<Rightarrow> rrs \<Rightarrow> rrs flow" where
  "rrd_txt sc rd_end s =
     andthen (txt_loop rd_end sc rd_end s) (\<lambda>s1. Some (Inr (s1\<lparr>rs_desc := Inr (rs_wptr s)\<rparr>)))"

text \<open>AAAA: the description prints the first four bytes of the address as an IPv4 address.\<close>

definition rrd_aaaa :: "sect \<Rightarrow> nat \<Rightarrow> rrs \<Rightarrow> rrs flow" where
  "rrd_aaaa sc rdlen s =
     (if rdlen \<noteq> 16 then ret_err DNS_RR DNS_AAAA DNS_ERDATALEN s
      else do {
        let rdata = rs_offset s;
        let s0 = set_offset (rs_offset s + 16) s;
        s1 \<leftarrow> (if d_load_msg (rs_dec s0) then do {
                 a \<leftarrow> mem_read (rs_pkt s0) rdata 16;
                 Some (s0\<lparr>rs_msg := put_rdata sc (RD_AAAA a) (rs_msg s0)\<rparr>) }
               else Some s0);
        if d_need_emsg (rs_dec s1) then do {
          a \<leftarrow> mem_read (rs_pkt s1) rdata 4;
          (n, buf) \<leftarrow> ip4_str_encode a (d_msg (rs_dec s1)) (rs_wptr s1) (rs_avail s1);
          let s3 = s1\<lparr>rs_dec := (rs_dec s1)\<lparr>d_msg := buf\<rparr>\<rparr>;
          if n = 0 then Some (Inr (s3\<lparr>rs_wptr := rs_wptr s3 + 3, rs_desc := Inl (str ''???'')\<rparr>))
          else do {
            t \<leftarrow> cstr_at buf (rs_wptr s3);
            Some (Inr (s3\<lparr>rs_wptr := rs_wptr s3 + length t, rs_desc := Inr (rs_wptr s3)\<rparr>)) } }
        else Some (Inr s1) })"

definition rrd_srv :: "sect \<Rightarrow> nat \<Rightarrow> rrs \<Rightarrow> rrs flow" where
  "rrd_srv sc rdlen s =
     (if rdlen < 7 then ret_err DNS_RR DNS_SRV DNS_ERDATALEN s
      else do {
        prior \<leftarrow> dec_u16 (rs_pkt s) (rs_offset s);
        weight \<leftarrow> dec_u16 (rs_pkt s) (rs_offset s + 2);
        port \<leftarrow> dec_u16 (rs_pkt s) (rs_offset s + 4);
        andthen (desc (str ''Priority '' @ dec_digits (unat prior) @ str '' Weight '' @ dec_digits (unat weight) @
                       str '' port '' @ dec_digits (unat port) @ [32]) (set_offset (rs_offset s + 6) s)) (\<lambda>s1.
        andthen (get_name DNS_SRV s1) (\<lambda>s2.
        andthen (store_name (rs_wptr s2) (\<lambda>p. put_rdata sc (RD_SRV prior weight port p)) s2) (\<lambda>s3.
        Some (Inr ((advance s3)\<lparr>rs_desc := Inr (rs_wptr s)\<rparr>))))) })"

text \<open>
  OPT: class and TTL carry the EDNS fields. The record name is stored a second time; the
  description is printed whether or not it was asked for; the remaining options are skipped by
  setting the offset to \<open>rd_end\<close>.
\<close>

definition opt_fields :: "u16 \<Rightarrow> u32 \<Rightarrow> u16 \<times> u8 \<times> u8 \<times> bool \<times> u16" where
  "opt_fields cls ttl =
     (cls, ucast (drop_bit 24 ttl AND 0xff), ucast (drop_bit 16 ttl AND 0xff),
      ttl AND 0x8000 \<noteq> 0, ucast (ttl AND 0x7fff))"

definition rrd_opt :: "sect \<Rightarrow> u16 \<Rightarrow> u32 \<Rightarrow> nat \<Rightarrow> rrs \<Rightarrow> rrs flow" where
  "rrd_opt sc cls ttl rd_end s =
     (if sect_code sc \<noteq> DNS_AR then ret_err DNS_RR DNS_OPT DNS_EMSGFMT s
      else case opt_fields cls ttl of (udp_size, ext_rcode, version, do_bit, z_bits) \<Rightarrow>
        andthen
          (if d_load_msg (rs_dec s) then
             store_name 0 (\<lambda>p. upd_slot sc (\<lambda>rr. rr\<lparr>rr_rdata := RD_OPT udp_size ext_rcode version do_bit z_bits,
                                                   rr_class := 0, rr_name := p\<rparr>)) s
           else Some (Inr s)) (\<lambda>s1. do {
        c \<leftarrow> mem_get (d_msg (rs_dec s1)) 0;
        let s2 = (if c = 46 then s1\<lparr>rs_name := Inl (str ''<Root>'')\<rparr> else s1);
        s3 \<leftarrow> sprint (str ''UDP-size:'' @ dec_digits (unat udp_size) @ str '' Ext-RCODE:'' @ dec_digits (unat ext_rcode) @
                      str '' EDNS0:'' @ dec_digits (unat version) @ str '' DNSEC-OK:'' @
                      (if do_bit then str ''1'' else str ''0'')) s2;
        Some (Inr (s3\<lparr>rs_dec := (rs_dec s3)\<lparr>d_got_edns := True, d_udp_size := unat udp_size,
                        d_ext_rcode := ext_rcode, d_edns_ver := version, d_dnssec_ok := do_bit,
                        d_offset := rd_end\<rparr>,
                      rs_desc := Inr (rs_wptr s2)\<rparr>)) }))"

section \<open>Resource records\<close>

text \<open>The part of \<open>dns_rr_decode\<close> before the \<open>switch\<close>: name, fixed fields and the end of the data.\<close>

definition rr_fixed :: "sect \<Rightarrow> rrs \<Rightarrow> (u16 \<times> u16 \<times> u32 \<times> u16 \<times> rrs) flow" where
  "rr_fixed sc s =
     (if rs_offset s + 10 > d_pkt_len (rs_dec s) then ret_err DNS_RR DNS_HDR DNS_ETRUNC s
      else do {
        t \<leftarrow> dec_u16 (rs_pkt s) (rs_offset s);
        c \<leftarrow> dec_u16 (rs_pkt s) (rs_offset s + 2);
        ttl \<leftarrow> dec_u32 (rs_pkt s) (rs_offset s + 4);
        rdlen \<leftarrow> dec_u16 (rs_pkt s) (rs_offset s + 8);
        let s1 = set_offset (rs_offset s + 10) s;
        let s2 = (if d_load_msg (rs_dec s1)
                  then s1\<lparr>rs_msg := upd_slot sc (\<lambda>rr. rr\<lparr>rr_type := t, rr_class := c, rr_ttl := ttl, rr_rdlen := rdlen\<rparr>)
                                     (rs_msg s1)\<rparr>
                  else s1);
        Some (Inr (t, c, ttl, rdlen, s2)) })"

definition rr_switch :: "sect \<Rightarrow> u16 \<Rightarrow> u16 \<Rightarrow> u32 \<Rightarrow> u16 \<Rightarrow> nat \<Rightarrow> rrs \<Rightarrow> rrs flow" where
  "rr_switch sc t c ttl rdlen rd_end s =
     (if t = DNS_TYPE_A then rrd_a sc (unat rdlen) s
      else if t = DNS_TYPE_NS then rrd_name DNS_TNS RD_NS sc s
      else if t = DNS_TYPE_CNAME then rrd_name DNS_CNAME RD_CNAME sc s
      else if t = DNS_TYPE_SOA then rrd_soa sc rd_end s
      else if t = DNS_TYPE_PTR then rrd_name DNS_CNAME RD_PTR sc s
      else if t = DNS_TYPE_HINFO then rrd_hinfo sc (unat rdlen) rd_end s
      else if t = DNS_TYPE_MX then rrd_mx sc (unat rdlen) s
      else if t = DNS_TYPE_TXT then rrd_txt sc rd_end s
      else if t = DNS_TYPE_AAAA then rrd_aaaa sc (unat rdlen) s
      else if t = DNS_TYPE_SRV then rrd_srv sc (unat rdlen) s
      else if t = DNS_TYPE_OPT then rrd_opt sc c ttl rd_end s
      else Some (Inr (set_offset (rs_offset s + unat rdlen) s)))"

definition rs_string :: "byte list + nat \<Rightarrow> rrs \<Rightarrow> byte list option" where
  "rs_string p s = (case p of Inl lit \<Rightarrow> Some lit | Inr q \<Rightarrow> cstr_at (d_msg (rs_dec s)) q)"

definition rr_finish :: "sect \<Rightarrow> u16 \<Rightarrow> u16 \<Rightarrow> u32 \<Rightarrow> nat \<Rightarrow> rrs \<Rightarrow> ret flow" where
  "rr_finish sc t c ttl rd_end s =
     (if rs_offset s \<noteq> rd_end then ret_err DNS_RR DNS_RDATA DNS_ERDATALEN s
      else do {
        let msg = (if d_load_msg (rs_dec s) then set_count sc (sect_count sc (rs_msg s) + 1) (rs_msg s) else rs_msg s);
        if d_need_emsg (rs_dec s) then do {
          nm \<leftarrow> rs_string (rs_name s) s;
          de \<leftarrow> rs_string (rs_desc s) s;
          let head = str ''  '' @ dec_code_tostr (sect_code sc) @ str '': '' @ Str_Util.str_def (Some nm) (str ''<null>'') @ [32];
          (rc, dec) \<leftarrow> dns_wmsg (rs_dec s)
             (if t = DNS_TYPE_OPT then head @ dns_type_tostr (uint t) @ [32] @ de @ [10]
              else head @ dec_digits (unat ttl) @ [32] @ dns_class_tostr (uint c) @ [32] @
                   dns_type_tostr (uint t) @ [32] @ de @ [10]);
          Some (Inr (rc, dec, msg)) }
        else Some (Inr (rs_rc s, rs_dec s, msg)) })"

definition dns_rr_decode :: "dns_dec \<Rightarrow> dns_msg \<Rightarrow> sect \<Rightarrow> ret option" where
  "dns_rr_decode dec msg sc =
     (if d_load_msg dec \<and> sect_count sc msg \<ge> DNS_MAX_RR then Some (-1, dec, msg)
      else do {
        let s0 = \<lparr>rs_dec = dec, rs_msg = msg, rs_wptr = 0, rs_rc = 0, rs_name = Inr 0, rs_desc = Inl []\<rparr>;
        r \<leftarrow> andthen (get_name DNS_NAME s0) (\<lambda>s1.
              andthen (store_name 0 (\<lambda>p. upd_slot sc (\<lambda>rr. rr\<lparr>rr_name := p\<rparr>)) (s1\<lparr>rs_wptr := nat (rs_rc s1) + 1\<rparr>)) (\<lambda>s2.
              andthen (rr_fixed sc s2) (\<lambda>(t, c, ttl, rdlen, s3).
                let rd_end = (rs_offset s3 + unat rdlen) mod 65536
                in if rd_end > d_pkt_len (rs_dec s3) then ret_err DNS_RR DNS_RDATA DNS_ETRUNC s3
                   else andthen (rr_switch sc t c ttl rdlen rd_end s3) (\<lambda>s4.
                        rr_finish sc t c ttl rd_end s4))));
        Some (case r of Inl x \<Rightarrow> x | Inr x \<Rightarrow> x) })"

section \<open>Questions, sections, messages\<close>

definition dns_qd_decode :: "dns_dec \<Rightarrow> dns_msg \<Rightarrow> ret option" where
  "dns_qd_decode dec msg =
     (if d_load_msg dec \<and> m_qd_len msg \<ge> DNS_MAX_QD then Some (-1, dec, msg)
      else do {
        (ec, dec1) \<leftarrow> decode_name dec (Some 0) DNS_MSG_SIZE;
        if ec < 0 then (case dns_dec_err dec1 DNS_QD DNS_NAME ec of (rc, dec2) \<Rightarrow> Some (rc, dec2, msg))
        else if d_offset dec1 + 4 > d_pkt_len dec1
        then (case dns_dec_err dec1 DNS_QD DNS_HDR DNS_ETRUNC of (rc, dec2) \<Rightarrow> Some (rc, dec2, msg))
        else do {
          qtype \<leftarrow> dec_u16 (d_pkt dec1) (d_offset dec1);
          qclass \<leftarrow> dec_u16 (d_pkt dec1) (d_offset dec1 + 2);
          let dec2 = dec1\<lparr>d_offset := d_offset dec1 + 4\<rparr>;
          name \<leftarrow> cstr_at (d_msg dec2) 0;
          (ok, msg') \<leftarrow> (if d_load_msg dec2 then do {
              (p, msg1) \<leftarrow> msg_store_name msg (Some name);
              let i = m_qd_len msg;
              let msg2 = msg1\<lparr>m_qd := (m_qd msg1)[i := (m_qd msg1 ! i)\<lparr>qd_name := p\<rparr>]\<rparr>;
              if p = None then Some (False, msg2)
              else Some (True, msg2\<lparr>m_qd := (m_qd msg2)[i := (m_qd msg2 ! i)\<lparr>qd_type := qtype, qd_class := qclass\<rparr>],
                                    m_qd_len := m_qd_len msg + 1\<rparr>) }
            else Some (True, msg));
          if \<not> ok then Some (-1, dec2, msg')
          else if d_need_emsg dec2 then do {
            (rc, dec3) \<leftarrow> dns_wmsg dec2 (str ''  Question: '' @ Str_Util.str_def (Some name) (str ''<null>'') @ [32] @
                            dns_class_tostr (uint qclass) @ [32] @ dns_type_tostr (uint qtype) @ [10]);
            Some (rc, dec3, msg') }
          else Some (ec, dec2, msg') } })"

text \<open>
  The loops over the records of a section and over the questions: a result that is not 0 ends the
  loop, is recorded as an error of its row and the loop's own result is that of \<open>dns_dec_err\<close>.
\<close>

fun sect_loop :: "nat \<Rightarrow> nat \<Rightarrow> dns_dec \<Rightarrow> dns_msg \<Rightarrow> sect \<Rightarrow> ret option" where
  "sect_loop 0 i dec msg sc = Some (0, dec, msg)"
| "sect_loop (Suc n) i dec msg sc = do {
     (rc, dec1, msg1) \<leftarrow> dns_rr_decode dec msg sc;
     if rc \<noteq> 0 then
       (case dns_dec_err dec1 DNS_PDU (sect_code sc) (int i + DNS_EC_ISROW) of (e, dec2) \<Rightarrow> Some (e, dec2, msg1))
     else sect_loop n (i + 1) dec1 msg1 sc }"

definition dns_sect_decode :: "dns_dec \<Rightarrow> dns_msg \<Rightarrow> nat \<Rightarrow> sect \<Rightarrow> ret option" where
  "dns_sect_decode dec msg nrec sc = sect_loop nrec 0 dec msg sc"

definition decode_an :: "dns_dec \<Rightarrow> dns_msg \<Rightarrow> ret option" where
  "decode_an dec msg = dns_sect_decode dec msg (unat (an_count (m_hdr msg))) SectAN"

definition decode_ns :: "dns_dec \<Rightarrow> dns_msg \<Rightarrow> ret option" where
  "decode_ns dec msg = dns_sect_decode dec msg (unat (ns_count (m_hdr msg))) SectNS"

definition decode_ar :: "dns_dec \<Rightarrow> dns_msg \<Rightarrow> ret option" where
  "decode_ar dec msg = dns_sect_decode dec msg (unat (ar_count (m_hdr msg))) SectAR"

fun qd_loop :: "nat \<Rightarrow> nat \<Rightarrow> dns_dec \<Rightarrow> dns_msg \<Rightarrow> ret option" where
  "qd_loop 0 i dec msg = Some (0, dec, msg)"
| "qd_loop (Suc n) i dec msg = do {
     (rc, dec1, msg1) \<leftarrow> dns_qd_decode dec msg;
     if rc \<noteq> 0 then
       (case dns_dec_err dec1 DNS_PDU DNS_QD (int i + DNS_EC_ISROW) of (e, dec2) \<Rightarrow> Some (e, dec2, msg1))
     else qd_loop n (i + 1) dec1 msg1 }"

definition decode_qd :: "dns_dec \<Rightarrow> dns_msg \<Rightarrow> ret option" where
  "decode_qd dec msg = qd_loop (unat (qd_count (m_hdr msg))) 0 dec msg"

text \<open>\<open>if ((rc = f(dec, msg))) return rc;\<close> in sequence\<close>

definition seq_rc :: "ret option \<Rightarrow> (dns_dec \<Rightarrow> dns_msg \<Rightarrow> ret option) \<Rightarrow> ret option" where
  "seq_rc m f = do { (rc, dec, msg) \<leftarrow> m; if rc \<noteq> 0 then Some (rc, dec, msg) else f dec msg }"

definition size_check :: "dns_dec \<Rightarrow> dns_msg \<Rightarrow> ret option" where
  "size_check dec msg =
     (if d_need_emsg dec \<and> d_pkt_len dec > d_udp_size dec then do {
        (rc, dec') \<leftarrow> dns_wmsg dec (str ''UDP message: packet-length '' @ dec_digits (d_pkt_len dec) @
                        str '' > max size '' @ dec_digits (d_udp_size dec) @ [10]);
        Some (rc, dec', msg) }
      else Some (0, dec, msg))"

definition decode_msg :: "dns_dec \<Rightarrow> dns_msg \<Rightarrow> ret option" where
  "decode_msg dec msg0 =
     seq_rc (seq_rc (seq_rc (seq_rc (seq_rc (decode_hdr dec (dns_msg_reset msg0)) decode_qd) decode_an)
       decode_ns) decode_ar) size_check"

text \<open>The packet is the first \<open>len\<close> bytes of \<open>buf\<close>; the result of \<open>dns_validate\<close> has the text written to \<open>emsg\<close>.\<close>

definition dns_validate :: "byte list \<Rightarrow> nat \<Rightarrow> byte list \<Rightarrow> (int \<times> sbuf) option" where
  "dns_validate buf len emsg = do {
     emsg1 \<leftarrow> mem_write emsg 0 [0];
     (rc, dec, msg) \<leftarrow> decode_msg (dec_init buf len True False emsg1) zero_msg;
     (ec, dec') \<leftarrow> dns_dec_genmsg dec;
     Some (if ec \<noteq> 0 \<and> rc = 0 then ec else rc, d_emsg dec') }"

definition dns_msg_decode :: "dns_msg \<Rightarrow> byte list \<Rightarrow> nat \<Rightarrow> (int \<times> dns_msg) option" where
  "dns_msg_decode msg buf len = do {
     (rc, dec, msg') \<leftarrow> decode_msg (dec_init buf len False True []) msg;
     Some (rc, msg') }"

end
