(* ===== verification/Dns_Load.thy ===== *)
theory Dns_Load
  imports Dns_Decode
begin

text \<open>
  What \<open>dns_msg_decode\<close> does with any packet. The main fact is memory safety: when at least 16
  bytes behind the packet are readable, no read and no write of the decoder leaves its object, for
  every packet and every well-shaped message. The proof follows the code: \<open>flow_ok\<close> is a small
  calculus for the early returns of \<open>dns_rr_decode\<close>, one lemma per record type, then records,
  sections and the message. The same proof shows how little is loaded: one question and at most one
  record per section, because the loops take a positive name length for an error.
\<close>

section \<open>Loading a message is memory-safe\<close>

text \<open>The shape of a message: its arrays have their sizes and its counters are those given.\<close>

definition msg_shape :: "(sect \<Rightarrow> nat) \<Rightarrow> nat \<Rightarrow> dns_msg \<Rightarrow> bool" where
  "msg_shape c q msg \<longleftrightarrow> store_inv msg \<and> length (m_qd msg) = DNS_MAX_QD \<and>
     (\<forall>s. length (sect_base s msg) = DNS_MAX_RR \<and> sect_count s msg = c s) \<and> m_qd_len msg = q"

lemma shape_upd_slot [simp]: "msg_shape c q (upd_slot s f msg) = msg_shape c q msg"
  by (simp add: msg_shape_def store_inv_def)

lemma shape_count:
  "msg_shape c q msg \<Longrightarrow> msg_shape (c(s := n)) q (set_count s n msg)"
  by (simp add: msg_shape_def store_inv_def)

lemma shape_store_str:
  assumes "msg_shape c q msg"
  shows "returns (msg_store_str msg b) (\<lambda>(p, msg'). msg_shape c q msg')"
proof -
  have inv: "store_inv msg" using assms by (simp add: msg_shape_def)
  then show ?thesis
  proof (cases rule: msg_store_str_cases [where s = b])
    case full
    then show ?thesis using assms by simp
  next
    case (stored names)
    have "sect_base s (msg\<lparr>m_names := names, m_names_len := n\<rparr>) = sect_base s msg"
      "sect_count s (msg\<lparr>m_names := names, m_names_len := n\<rparr>) = sect_count s msg" for s n
      by (cases s; simp)+
    then show ?thesis using stored assms by (simp add: msg_shape_def store_inv_def DNS_MAX_PDUSIZE_def)
  qed
qed

lemma shape_store_name:
  "msg_shape c q msg \<Longrightarrow> returns (msg_store_name msg name) (\<lambda>(p, msg'). msg_shape c q msg')"
  by (simp add: msg_store_name_def shape_store_str)

text \<open>
  The decoder while it loads: the packet lies in a memory that has at least 16 readable bytes
  behind it.
\<close>

definition load_dec :: "byte list \<Rightarrow> nat \<Rightarrow> dns_dec \<Rightarrow> bool" where
  "load_dec P L dec \<longleftrightarrow> d_pkt dec = P \<and> d_pkt_len dec = L \<and> L + 16 \<le> length P \<and>
     length (d_msg dec) = DNS_MSG_SIZE \<and> d_load_msg dec \<and> \<not> d_need_emsg dec"

definition load_ret :: "byte list \<Rightarrow> nat \<Rightarrow> (sect \<Rightarrow> nat) \<Rightarrow> nat \<Rightarrow> ret \<Rightarrow> bool" where
  "load_ret P L c q r = (case r of (rc, dec, msg) \<Rightarrow> (rc = 0 \<or> rc = -1) \<and> load_dec P L dec \<and> msg_shape c q msg)"

definition load_core :: "byte list \<Rightarrow> nat \<Rightarrow> (sect \<Rightarrow> nat) \<Rightarrow> nat \<Rightarrow> rrs \<Rightarrow> bool" where
  "load_core P L c q s \<longleftrightarrow> load_dec P L (rs_dec s) \<and> msg_shape c q (rs_msg s)"

text \<open>\<open>flow_ok R Q m\<close>: \<open>m\<close> is free of undefined behaviour, returns early only with \<open>R\<close>, else goes on with \<open>Q\<close>.\<close>

definition flow_ok :: "(ret \<Rightarrow> bool) \<Rightarrow> ('a \<Rightarrow> bool) \<Rightarrow> 'a flow \<Rightarrow> bool" where
  "flow_ok R Q m \<longleftrightarrow> returns m (\<lambda>r. case r of Inl x \<Rightarrow> R x | Inr a \<Rightarrow> Q a)"

lemma flow_ok_Inr [simp]: "flow_ok R Q (Some (Inr a)) = Q a"
  by (simp add: flow_ok_def)

lemma flow_ok_andthen:
  assumes "flow_ok R Q m" and "\<And>a. Q a \<Longrightarrow> flow_ok R Q' (f a)"
  shows "flow_ok R Q' (andthen m f)"
proof -
  obtain r where r: "m = Some r" "case r of Inl x \<Rightarrow> R x | Inr a \<Rightarrow> Q a"
    using assms(1) unfolding flow_ok_def by (rule returnsE)
  then show ?thesis using assms(2) by (cases r) (auto simp: andthen_def flow_ok_def)
qed

lemma flow_ok_bind:
  assumes "returns m P" and "\<And>x. P x \<Longrightarrow> flow_ok R Q (f x)"
  shows "flow_ok R Q (m \<bind> f)"
  using assms by (auto elim!: returnsE)

lemma flow_ok_mono: "flow_ok R Q m \<Longrightarrow> (\<And>a. Q a \<Longrightarrow> Q' a) \<Longrightarrow> flow_ok R Q' m"
  unfolding flow_ok_def by (erule returns_mono) (auto split: sum.splits)

lemma load_dec_err:
  "load_dec P L dec \<Longrightarrow> case dns_dec_err dec g f e of (rc, dec') \<Rightarrow> (rc = 0 \<or> rc = -1) \<and> load_dec P L dec'"
  by (simp add: dns_dec_err_def load_dec_def)

lemma flow_ok_ret_err: "load_core P L c q s \<Longrightarrow> flow_ok (load_ret P L c q) Q (ret_err g f e s)"
  using load_dec_err [of P L "rs_dec s" g f e]
  by (auto simp: ret_err_def flow_ok_def load_ret_def load_core_def split: prod.splits)

lemma flow_ok_ret_fail: "load_core P L c q s \<Longrightarrow> flow_ok (load_ret P L c q) Q (ret_rc (-1) s)"
  by (simp add: ret_rc_def flow_ok_def load_ret_def load_core_def)

lemma desc_load: "load_core P L c q s \<Longrightarrow> desc t s = Some (Inr s)"
  by (simp add: desc_def load_core_def load_dec_def)

text \<open>
  A name in the scratch buffer: after \<open>get_name\<close> a C string stands at \<open>wptr\<close> and moving \<open>wptr\<close> by \<open>rc\<close>
  stays inside the buffer.
\<close>

definition named :: "byte list \<Rightarrow> nat \<Rightarrow> (sect \<Rightarrow> nat) \<Rightarrow> nat \<Rightarrow> rrs \<Rightarrow> bool" where
  "named P L c q s \<longleftrightarrow> load_core P L c q s \<and> 0 < rs_rc s \<and> rs_wptr s + nat (rs_rc s) < DNS_MSG_SIZE \<and>
     (\<exists>t. cstr_at (d_msg (rs_dec s)) (rs_wptr s) = Some t)"

lemma nul_at: "m ! k = 0 \<Longrightarrow> p \<le> k \<Longrightarrow> k < length m \<Longrightarrow> \<exists>t. cstr_at m p = Some t" for m :: "byte list"
proof -
  assume a: "m ! k = 0" "p \<le> k" "k < length m"
  have "drop p m ! (k - p) = 0" "k - p < length (drop p m)" using a by simp_all
  then have "0 \<in> set (drop p m)" by (metis nth_mem)
  then show ?thesis by (simp add: cstr_at_def)
qed

lemma read_nul:
  assumes "mem_read buf w (length t + 1) = Some (t @ [0])"
  shows "w + length t < length buf" "buf ! (w + length t) = 0"
proof -
  show l: "w + length t < length buf" using assms by (auto simp: mem_read_def split: if_splits)
  have "take (length t + 1) (drop w buf) = t @ [0]" using assms by (auto simp: mem_read_def split: if_splits)
  then have "take (length t + 1) (drop w buf) ! length t = 0" by simp
  then show "buf ! (w + length t) = 0" using l by simp
qed

lemma add_root_ok:
  assumes "length m = DNS_MSG_SIZE" and "w \<le> DNS_MSG_SIZE"
  obtains "dns_add_str m w (size_sub DNS_MSG_SIZE w) (str ''.'') = Some (-1, m)"
  | m' where "dns_add_str m w (size_sub DNS_MSG_SIZE w) (str ''.'') = Some (1, m')" "length m' = DNS_MSG_SIZE" "take w m' = take w m"
      "w + 1 < DNS_MSG_SIZE" "m' ! (w + 1) = 0"
proof (cases "w + 2 \<le> DNS_MSG_SIZE")
  case True
  then show ?thesis using assms by (intro that(2) [of "m[w := 46, w + 1 := 0]"]) (simp_all add: dns_add_str_def mem_write_one str_Cons)
next
  case False
  then have "DNS_MSG_SIZE - w < 2" using assms(2) by linarith
  then show ?thesis using assms by (intro that(1)) (simp add: dns_add_str_def)
qed

text \<open>\<open>get_name\<close> ends with an error, or leaves a C string at \<open>wptr\<close> that ends at \<open>wptr + rc\<close>.\<close>

lemma get_name_cases:
  assumes "d_pkt_len (rs_dec s) \<le> length (rs_pkt s)" and "length (d_msg (rs_dec s)) = DNS_MSG_SIZE" and "rs_wptr s \<le> DNS_MSG_SIZE"
  obtains (err) rc off buf where
      "get_name loc s = ret_err DNS_RR loc (- rc) (s\<lparr>rs_dec := (rs_dec s)\<lparr>d_offset := off, d_msg := buf\<rparr>, rs_rc := rc\<rparr>)"
      "length buf = DNS_MSG_SIZE" "\<bar>rc\<bar> < 100"
  | (full) off buf where
      "get_name loc s = ret_rc (-1) (s\<lparr>rs_dec := (rs_dec s)\<lparr>d_offset := off, d_msg := buf\<rparr>, rs_rc := -1\<rparr>)" "length buf = DNS_MSG_SIZE"
  | (name) off buf rc e k t where
      "get_name loc s = Some (Inr (s\<lparr>rs_dec := (rs_dec s)\<lparr>d_offset := off, d_msg := buf\<rparr>, rs_rc := rc\<rparr>))"
      "length buf = DNS_MSG_SIZE" "take (rs_wptr s) buf = take (rs_wptr s) (d_msg (rs_dec s))" "0 < rc"
      "rs_wptr s + nat rc < DNS_MSG_SIZE" "buf ! (rs_wptr s + nat rc) = 0"
      "wire_name (rs_pkt s) (d_pkt_len (rs_dec s)) (rs_offset s) e k t" "rc = 1 \<or> rc = int (length t)"
proof -
  let ?d = "rs_dec s" and ?w = "rs_wptr s"
  have "d_pkt_len ?d \<le> length (d_pkt ?d)" "?w + rs_avail s \<le> length (d_msg ?d)" using assms by simp_all
  then obtain rc off buf where run: "decode_name ?d (Some ?w) (rs_avail s) = Some (rc, ?d\<lparr>d_offset := off, d_msg := buf\<rparr>)"
    and len: "length buf = length (d_msg ?d)" and tk: "take ?w buf = take ?w (d_msg ?d)"
    and res: "(\<exists>e k t. wire_name (d_pkt ?d) (d_pkt_len ?d) (d_offset ?d) e k t \<and> k \<le> 17 \<and> length t < rs_avail s \<and>
        rc = int (length t) + 1 \<and> off = e \<and> mem_read buf ?w (length t + 1) = Some (t @ [0])) \<or>
     (\<nexists>e k t. wire_name (d_pkt ?d) (d_pkt_len ?d) (d_offset ?d) e k t \<and> k \<le> 17 \<and> length t < rs_avail s) \<and>
       rc \<in> {- DNS_EBADJMP, - DNS_EMAXJMP, - DNS_ENAMELEN, - DNS_EOUTLEN, - DNS_ENONULL}"
    by (rule decode_name_spec)
  have bl: "length buf = DNS_MSG_SIZE" using len assms(2) by simp
  show ?thesis
  proof (cases "rc < 0")
    case True
    then have "\<bar>rc\<bar> < 100" using res by (auto simp: dns_errors)
    then show ?thesis using run True bl by (intro err [where rc = rc and off = off and buf = buf]) (simp_all add: get_name_def)
  next
    case False
    then obtain e k t where t: "wire_name (rs_pkt s) (d_pkt_len ?d) (rs_offset s) e k t" "rc = int (length t) + 1"
        "mem_read buf ?w (length t + 1) = Some (t @ [0])"
      using res by (auto simp: dns_errors)
    note n = read_nul [OF t(3)]
    show ?thesis
    proof (cases "t = []")
      case True
      show ?thesis
      proof (cases rule: add_root_ok [OF bl assms(3)])
        case 1
        then show ?thesis using run t(2) True bl by (intro full) (simp_all add: get_name_def fix_label_def)
      next
        case (2 m')
        then show ?thesis using run t True tk by (intro name [where off = off and buf = m' and rc = 1 and t = t]) (simp_all add: get_name_def fix_label_def)
      qed
    next
      case ne: False
      then have "rc \<noteq> 1" "0 < rc" "0 < length t" using t(2) by simp_all
      then show ?thesis using run t tk bl n by (intro name [where off = off and buf = buf and rc = "rc - 1" and t = t]) (simp_all add: get_name_def fix_label_def)
    qed
  qed
qed

lemma get_name_ok:
  assumes "load_core P L c q s" and "rs_wptr s \<le> DNS_MSG_SIZE"
  shows "flow_ok (load_ret P L c q) (\<lambda>s'. named P L c q s' \<and> rs_wptr s' = rs_wptr s) (get_name loc s)"
proof -
  have d: "d_pkt_len (rs_dec s) \<le> length (rs_pkt s)" "length (d_msg (rs_dec s)) = DNS_MSG_SIZE"
    using assms(1) by (simp_all add: load_core_def load_dec_def)
  have v: "load_core P L c q (s\<lparr>rs_dec := (rs_dec s)\<lparr>d_offset := off, d_msg := b\<rparr>, rs_rc := r\<rparr>)" if "length b = DNS_MSG_SIZE" for off b r
    using assms(1) that by (simp add: load_core_def load_dec_def)
  show ?thesis
  proof (cases rule: get_name_cases [OF d assms(2), of loc])
    case (1 rc off buf)
    then show ?thesis using flow_ok_ret_err [OF v] by simp
  next
    case (2 off buf)
    then show ?thesis using flow_ok_ret_fail [OF v] by simp
  next
    case (3 off buf rc e k t)
    then show ?thesis using v [where b = buf and off = off and r = rc] nul_at [of buf "rs_wptr s + nat rc" "rs_wptr s"] by (auto simp: named_def)
  qed
qed

text \<open>What the pieces of \<open>dns_rr_decode\<close> need: \<open>ready\<close> before the switch, \<open>done_ok\<close> after it.\<close>

definition ready :: "byte list \<Rightarrow> nat \<Rightarrow> (sect \<Rightarrow> nat) \<Rightarrow> nat \<Rightarrow> rrs \<Rightarrow> bool" where
  "ready P L c q s \<longleftrightarrow> load_core P L c q s \<and> 0 < rs_rc s \<and> rs_wptr s \<le> DNS_MSG_SIZE \<and>
     (\<exists>t. cstr_at (d_msg (rs_dec s)) 0 = Some t)"

definition done_ok :: "byte list \<Rightarrow> nat \<Rightarrow> (sect \<Rightarrow> nat) \<Rightarrow> nat \<Rightarrow> rrs \<Rightarrow> bool" where
  "done_ok P L c q s \<longleftrightarrow> load_core P L c q s \<and> 0 < rs_rc s"

lemma ready_core: "ready P L c q s \<Longrightarrow> load_core P L c q s"
  by (simp add: ready_def)

lemma core_set_offset [simp]: "load_core P L c q (set_offset n s) = load_core P L c q s"
  by (simp add: load_core_def load_dec_def set_offset_def)

lemma set_offset_simps [simp]:
  "rs_rc (set_offset n s) = rs_rc s" "rs_wptr (set_offset n s) = rs_wptr s" "rs_msg (set_offset n s) = rs_msg s"
  "rs_offset (set_offset n s) = n" "d_msg (rs_dec (set_offset n s)) = d_msg (rs_dec s)"
  "d_need_emsg (rs_dec (set_offset n s)) = d_need_emsg (rs_dec s)"
  "rs_pkt (set_offset n s) = rs_pkt s" "d_load_msg (rs_dec (set_offset n s)) = d_load_msg (rs_dec s)"
  by (simp_all add: set_offset_def)

lemma core_put_rdata: "load_core P L c q s \<Longrightarrow> load_core P L c q (s\<lparr>rs_msg := put_rdata sc rd (rs_msg s)\<rparr>)"
  by (simp add: load_core_def)

lemma core_flags: "load_core P L c q s \<Longrightarrow> d_load_msg (rs_dec s) \<and> \<not> d_need_emsg (rs_dec s) \<and>
    rs_pkt s = P \<and> d_pkt_len (rs_dec s) = L \<and> L + 16 \<le> length P"
  by (simp add: load_core_def load_dec_def)

lemma store_str_ok:
  assumes "load_core P L c q s" and "\<And>p msg. msg_shape c q msg \<Longrightarrow> msg_shape c q (put p msg)"
  shows "flow_ok (load_ret P L c q) (\<lambda>s'. \<exists>msg. s' = s\<lparr>rs_msg := msg\<rparr> \<and> load_core P L c q s') (store_str bs put s)"
proof -
  have "msg_shape c q (rs_msg s)" using assms(1) by (simp add: load_core_def)
  from shape_store_str [OF this, of bs] obtain p msg where *: "msg_store_str (rs_msg s) bs = Some (p, msg)" "msg_shape c q msg"
    by (auto elim: returnsE)
  have "load_core P L c q (s\<lparr>rs_msg := put p msg\<rparr>)" using assms * by (simp add: load_core_def)
  then show ?thesis using * core_flags [OF assms(1)] by (auto simp: store_str_def Let_def intro!: flow_ok_ret_fail)
qed

lemma store_name_ok:
  assumes "load_core P L c q s" and "cstr_at (d_msg (rs_dec s)) k = Some t"
    and "\<And>p msg. msg_shape c q msg \<Longrightarrow> msg_shape c q (put p msg)"
  shows "flow_ok (load_ret P L c q) (\<lambda>s'. \<exists>msg. s' = s\<lparr>rs_msg := msg\<rparr> \<and> load_core P L c q s') (store_name k put s)"
proof -
  have "store_name k put s = store_str t put s"
    using assms(2) by (simp add: store_name_def store_str_def msg_store_name_def)
  then show ?thesis using store_str_ok [OF assms(1,3)] by simp
qed

lemma named_stored:
  assumes "named P L c q s"
  shows "flow_ok (load_ret P L c q) (\<lambda>s'. load_core P L c q s' \<and> 0 < rs_rc s' \<and> rs_wptr s' = rs_wptr s \<and>
      rs_wptr s' + nat (rs_rc s') < DNS_MSG_SIZE) (store_name (rs_wptr s) (\<lambda>p. put_rdata sc (f p)) s)"
proof -
  obtain t where t: "cstr_at (d_msg (rs_dec s)) (rs_wptr s) = Some t" and core: "load_core P L c q s"
    using assms by (auto simp: named_def)
  show ?thesis
    by (rule flow_ok_mono [OF store_name_ok [OF core t]]) (use assms in \<open>auto simp: named_def\<close>)
qed

lemma core_upd [simp]: "load_core P L c q (s\<lparr>rs_desc := d\<rparr>) = load_core P L c q s"
  "load_core P L c q (advance s) = load_core P L c q s" "load_core P L c q (s\<lparr>rs_name := nm\<rparr>) = load_core P L c q s"
  "load_core P L c q (s\<lparr>rs_wptr := w\<rparr>) = load_core P L c q s"
  by (simp_all add: load_core_def advance_def)

lemma advance_simps [simp]: "rs_rc (advance s) = rs_rc s" "rs_dec (advance s) = rs_dec s"
  "rs_wptr (advance s) = rs_wptr s + nat (rs_rc s)"
  by (simp_all add: advance_def)

lemma rrd_name_ok: "ready P L c q s \<Longrightarrow> flow_ok (load_ret P L c q) (done_ok P L c q) (rrd_name loc f sc s)"
  unfolding rrd_name_def
  by (rule flow_ok_andthen, rule get_name_ok, simp add: ready_def, simp add: ready_def,
      rule flow_ok_andthen, rule named_stored, simp, simp add: done_ok_def)

lemma addr_read_ok:
  assumes "load_core P L c q s" and "rs_offset s \<le> L" and "n \<le> 16"
  shows "\<exists>a. mem_read P (rs_offset s) n = Some a"
  using assms by (auto simp: load_core_def load_dec_def mem_read_SomeI)

lemma rrd_a_ok:
  assumes "ready P L c q s" and "rs_offset s \<le> L"
  shows "flow_ok (load_ret P L c q) (done_ok P L c q) (rrd_a sc n s)"
proof -
  have core: "load_core P L c q s" using assms(1) by (rule ready_core)
  obtain a where "mem_read P (rs_offset s) 4 = Some a" using addr_read_ok [OF core assms(2), of 4] by auto
  then show ?thesis
    using assms core_flags [OF core] core_put_rdata [OF core]
    by (auto simp: rrd_a_def done_ok_def ready_def Let_def intro!: flow_ok_ret_err)
qed

lemma rrd_aaaa_ok:
  assumes "ready P L c q s" and "rs_offset s \<le> L"
  shows "flow_ok (load_ret P L c q) (done_ok P L c q) (rrd_aaaa sc n s)"
proof -
  have core: "load_core P L c q s" using assms(1) by (rule ready_core)
  obtain a where "mem_read P (rs_offset s) 16 = Some a" using addr_read_ok [OF core assms(2), of 16] by auto
  moreover have "load_core P L c q (set_offset n s\<lparr>rs_msg := put_rdata sc (RD_AAAA a) (rs_msg s)\<rparr>)" for n a
    using core_put_rdata [of P L c q "set_offset n s" sc "RD_AAAA a"] core by simp
  ultimately show ?thesis
    using assms core_flags [OF core]
    by (auto simp: rrd_aaaa_def done_ok_def ready_def Let_def intro!: flow_ok_ret_err)
qed

lemma dec_u16_ok: "i + 2 \<le> length m \<Longrightarrow> \<exists>v. dec_u16 m i = Some v"
  by (simp add: dec_u16_def mem_get_def)

lemma dec_u32_ok: "i + 4 \<le> length m \<Longrightarrow> \<exists>v. dec_u32 m i = Some v"
  by (simp add: dec_u32_def mem_get_def)

lemma ready_set_offset: "ready P L c q s \<Longrightarrow> ready P L c q (set_offset n s)"
  by (simp add: ready_def)

lemma numbered_name_ok:
  assumes "ready P L c q s"
  shows "flow_ok (load_ret P L c q) (done_ok P L c q)
    (andthen (desc tx (set_offset n s)) (\<lambda>s1.
     andthen (get_name loc s1) (\<lambda>s2.
     andthen (store_name (rs_wptr s2) (\<lambda>p. put_rdata sc (f p)) s2) (\<lambda>s3.
     Some (Inr ((advance s3)\<lparr>rs_desc := d\<rparr>))))))"
proof -
  have r: "ready P L c q (set_offset n s)" using assms by (rule ready_set_offset)
  have "desc tx (set_offset n s) = Some (Inr (set_offset n s))" by (rule desc_load [OF ready_core [OF r]])
  then have "flow_ok (load_ret P L c q) (ready P L c q) (desc tx (set_offset n s))" using r by simp
  then show ?thesis
    by (rule flow_ok_andthen)
      (rule flow_ok_andthen, rule get_name_ok, simp add: ready_def, simp add: ready_def,
       rule flow_ok_andthen, rule named_stored, simp, simp add: done_ok_def)
qed

lemma rrd_mx_ok:
  assumes "ready P L c q s" and "rs_offset s \<le> L"
  shows "flow_ok (load_ret P L c q) (done_ok P L c q) (rrd_mx sc n s)"
proof -
  have core: "load_core P L c q s" using assms(1) by (rule ready_core)
  obtain v where "dec_u16 P (rs_offset s) = Some v"
    using dec_u16_ok [of "rs_offset s" P] assms core_flags [OF core] by auto
  then show ?thesis
    using core core_flags [OF core] numbered_name_ok [OF assms(1)]
    by (auto simp: rrd_mx_def intro!: flow_ok_ret_err)
qed

lemma rrd_srv_ok:
  assumes "ready P L c q s" and "rs_offset s \<le> L"
  shows "flow_ok (load_ret P L c q) (done_ok P L c q) (rrd_srv sc n s)"
proof -
  have core: "load_core P L c q s" using assms(1) by (rule ready_core)
  obtain u v w where "dec_u16 P (rs_offset s) = Some u" "dec_u16 P (rs_offset s + 2) = Some v"
    "dec_u16 P (rs_offset s + 4) = Some w"
    using dec_u16_ok [of "rs_offset s" P] dec_u16_ok [of "rs_offset s + 2" P] dec_u16_ok [of "rs_offset s + 4" P]
      assms core_flags [OF core] by auto
  then show ?thesis
    using core core_flags [OF core] numbered_name_ok [OF assms(1)]
    by (auto simp: rrd_srv_def intro!: flow_ok_ret_err)
qed

lemma store_local_ok:
  assumes "named P L c q s"
  shows "returns (store_local (rs_wptr s) s) (\<lambda>(p, s'). \<exists>msg. s' = s\<lparr>rs_msg := msg\<rparr> \<and> load_core P L c q s')"
proof -
  obtain t where t: "cstr_at (d_msg (rs_dec s)) (rs_wptr s) = Some t" and core: "load_core P L c q s"
    using assms by (auto simp: named_def)
  have "msg_shape c q (rs_msg s)" using core by (simp add: load_core_def)
  from shape_store_name [OF this, of "Some t"] show ?thesis
    using t core core_flags [OF core] by (auto simp: store_local_def load_core_def elim!: returnsE)
qed

lemma soa_desc_load: "load_core P L c q s \<Longrightarrow> soa_desc vs s = Some (Inr s)"
  by (induction vs) (auto simp: desc_load andthen_def)

lemma soa_ints_ok:
  assumes "done_ok P L c q s" and "rd_end \<le> L"
  shows "flow_ok (load_ret P L c q) (done_ok P L c q) (soa_ints sc rd_end w mp rp s)"
proof -
  have core: "load_core P L c q s" "0 < rs_rc s" using assms(1) by (simp_all add: done_ok_def)
  show ?thesis
  proof (cases "rs_offset s + 20 > rd_end")
    case True
    then show ?thesis using flow_ok_ret_err [OF core(1)] by (simp add: soa_ints_def)
  next
    case False
    have "rs_offset s + 20 \<le> length P" using False assms(2) core_flags [OF core(1)] by simp
    then obtain v0 v1 v2 v3 v4 where "dec_u32 P (rs_offset s) = Some v0" "dec_u32 P (rs_offset s + 4) = Some v1"
      "dec_u32 P (rs_offset s + 8) = Some v2" "dec_u32 P (rs_offset s + 12) = Some v3"
      "dec_u32 P (rs_offset s + 16) = Some v4"
      using dec_u32_ok [of "rs_offset s" P] dec_u32_ok [of "rs_offset s + 4" P] dec_u32_ok [of "rs_offset s + 8" P]
        dec_u32_ok [of "rs_offset s + 12" P] dec_u32_ok [of "rs_offset s + 16" P] by auto
    moreover have "load_core P L c q (set_offset (rs_offset s + 20) s)" using core by simp
    moreover have "done_ok P L c q ((set_offset n s)\<lparr>rs_msg := put_rdata sc rd (rs_msg s), rs_desc := d\<rparr>)" for n rd d
      using core core_put_rdata [of P L c q "set_offset n s" sc rd] by (simp add: done_ok_def)
    ultimately show ?thesis
      using False core_flags [OF core(1)] soa_desc_load [of P L c q "set_offset (rs_offset s + 20) s"]
      by (simp add: soa_ints_def andthen_def)
  qed
qed

lemma desc_ready: "ready P L c q s \<Longrightarrow> flow_ok R (ready P L c q) (desc t s)"
  by (simp add: desc_load [OF ready_core])

lemma named_done: "named P L c q s \<Longrightarrow> done_ok P L c q s"
  by (simp add: named_def done_ok_def)

lemma ready_wptr: "named P L c q s \<Longrightarrow> rs_wptr s \<le> DNS_MSG_SIZE"
  by (simp add: named_def)

lemma wready_name:
  assumes "done_ok P L c q s" and "rs_wptr s \<le> DNS_MSG_SIZE"
  shows "flow_ok (load_ret P L c q) (named P L c q) (get_name loc s)"
  by (rule flow_ok_mono [OF get_name_ok]) (use assms in \<open>simp_all add: done_ok_def\<close>)

lemma soa_rname_ok:
  assumes "done_ok P L c q s" and "rs_wptr s \<le> DNS_MSG_SIZE" and "rd_end \<le> L"
  shows "flow_ok (load_ret P L c q) (done_ok P L c q) (soa_rname sc rd_end w mp s)"
proof -
  have "desc (str '' RNAME='') s = Some (Inr s)" using assms(1) by (auto simp: done_ok_def intro: desc_load)
  then have eq: "soa_rname sc rd_end w mp s = andthen (get_name DNS_SOA s) (\<lambda>s2. do {
       (rp, s3) \<leftarrow> store_local (rs_wptr s2) s2;
       soa_ints sc rd_end w mp rp (advance s3) })"
    by (simp add: soa_rname_def andthen_def)
  have tail: "flow_ok (load_ret P L c q) (done_ok P L c q) (do {
       (rp, s3) \<leftarrow> store_local (rs_wptr s2) s2;
       soa_ints sc rd_end w mp rp (advance s3) })" if "named P L c q s2" for s2
  proof (rule flow_ok_bind [OF store_local_ok [OF that]], goal_cases)
    case (1 x)
    obtain rp s3 where x: "x = (rp, s3)" by (cases x)
    have "done_ok P L c q (advance s3)" using 1 x that by (auto simp: done_ok_def named_def)
    then show ?case using soa_ints_ok [OF _ assms(3)] x by simp
  qed
  show ?thesis unfolding eq by (rule flow_ok_andthen [OF wready_name [OF assms(1,2)] tail])
qed

lemma rrd_soa_ok:
  assumes "ready P L c q s" and "rd_end \<le> L"
  shows "flow_ok (load_ret P L c q) (done_ok P L c q) (rrd_soa sc rd_end s)"
  unfolding rrd_soa_def
proof (rule flow_ok_andthen [OF desc_ready [OF assms(1)]], goal_cases)
  case (1 s1)
  then have "flow_ok (load_ret P L c q) (named P L c q) (get_name DNS_SOA s1)"
    by (intro wready_name) (auto simp: ready_def done_ok_def)
  then show ?case
    by (rule flow_ok_andthen)
      (rule flow_ok_andthen [OF named_stored], assumption, auto intro!: soa_rname_ok simp: done_ok_def assms(2))
qed

section \<open>HINFO, TXT and OPT\<close>

lemma mem_get_ok: "i < length m \<Longrightarrow> mem_get m i = Some (m ! i)"
  by (simp add: mem_get_def)

text \<open>One length-prefixed string: the part that HINFO and TXT share.\<close>

lemma prefixed_ok:
  assumes "done_ok P L c q s" and "rs_offset s \<le> L" and "rd_end \<le> L"
    and put: "\<And>b s'. done_ok P L c q s' \<Longrightarrow>
       flow_ok (load_ret P L c q) (\<lambda>s''. \<exists>msg. s'' = s'\<lparr>rs_msg := msg\<rparr> \<and> load_core P L c q s'') (st b s')"
  shows "flow_ok (load_ret P L c q)
      (\<lambda>s'. done_ok P L c q s' \<and> rs_offset s < rs_offset s' \<and> rs_offset s' \<le> rd_end) (do {
     b \<leftarrow> mem_get (rs_pkt s) (rs_offset s);
     let len = unat b;
     let s1 = set_offset (rs_offset s + 1) s;
     if rs_offset s1 + len > rd_end then ret_err DNS_RR loc DNS_ERDATALEN s1
     else do {
       bs \<leftarrow> mem_read (rs_pkt s1) (rs_offset s1) len;
       andthen (desc (tx @ cstr_of bs) s1) (\<lambda>s2.
       andthen (st bs s2) (\<lambda>s3.
       Some (Inr (set_offset (rs_offset s3 + len) s3)))) } })"
proof -
  have core: "load_core P L c q s" "0 < rs_rc s" using assms(1) by (simp_all add: done_ok_def)
  note fl = core_flags [OF core(1)]
  define len where "len = unat (P ! rs_offset s)"
  let ?s1 = "set_offset (rs_offset s + 1) s"
  have c1: "load_core P L c q ?s1" "done_ok P L c q ?s1" using core by (simp_all add: done_ok_def)
  have g: "mem_get P (rs_offset s) = Some (P ! rs_offset s)" using assms(2) fl by (simp add: mem_get_def)
  show ?thesis
  proof (cases "rs_offset s + 1 + len > rd_end")
    case True
    then show ?thesis using g fl flow_ok_ret_err [OF c1(1)] by (simp add: len_def Let_def)
  next
    case False
    then have r: "mem_read P (rs_offset s + 1) len = Some (take len (drop (rs_offset s + 1) P))"
      using assms(3) fl by (simp add: mem_read_SomeI)
    have "flow_ok (load_ret P L c q)
        (\<lambda>s'. done_ok P L c q s' \<and> rs_offset s < rs_offset s' \<and> rs_offset s' \<le> rd_end)
        (andthen (st bs ?s1) (\<lambda>s3. Some (Inr (set_offset (rs_offset s3 + len) s3))))" for bs
      by (rule flow_ok_andthen [OF put [OF c1(2)]]) (use False core in \<open>auto simp: done_ok_def\<close>)
    moreover have "desc t ?s1 = Some (Inr ?s1)" for t by (rule desc_load [OF c1(1)])
    ultimately show ?thesis using g r fl False by (simp add: len_def [symmetric] Let_def andthen_def)
  qed
qed

lemma hinfo_str_ok:
  assumes "done_ok P L c q s" and "rs_offset s \<le> L" and "rd_end \<le> L"
    and "\<And>p msg. msg_shape c q msg \<Longrightarrow> msg_shape c q (put p msg)"
  shows "flow_ok (load_ret P L c q) (\<lambda>s'. done_ok P L c q s' \<and> rs_offset s < rs_offset s' \<and> rs_offset s' \<le> rd_end)
    (hinfo_str tag put rd_end s)"
  unfolding hinfo_str_def
  by (rule prefixed_ok [OF assms(1-3)]) (rule store_str_ok, simp_all add: done_ok_def assms(4))

lemma rrd_hinfo_ok:
  assumes "ready P L c q s" and "rs_offset s \<le> L" and "rd_end \<le> L"
  shows "flow_ok (load_ret P L c q) (done_ok P L c q) (rrd_hinfo sc n rd_end s)"
proof (cases "n < 2")
  case True
  then show ?thesis using flow_ok_ret_err [OF ready_core [OF assms(1)]] by (simp add: rrd_hinfo_def)
next
  case False
  have d: "done_ok P L c q s" using assms(1) by (simp add: ready_def done_ok_def)
  have put: "msg_shape c q (put_cpu sc p msg)" "msg_shape c q (put_os sc p msg)" if "msg_shape c q msg" for p msg
    using that by (simp_all add: put_cpu_def put_os_def)
  have "flow_ok (load_ret P L c q) (done_ok P L c q)
     (if rs_offset s1 \<ge> rd_end then ret_err DNS_RR DNS_HINFO DNS_ERDATALEN s1
      else andthen (hinfo_str '' os-str='' (put_os sc) rd_end s1) (\<lambda>s2. Some (Inr (s2\<lparr>rs_desc := Inr (rs_wptr s)\<rparr>))))"
    if s1: "done_ok P L c q s1" "rs_offset s1 \<le> rd_end" for s1
  proof -
    have "rs_offset s1 \<le> L" using s1 assms(3) by simp
    then have "flow_ok (load_ret P L c q) (done_ok P L c q)
       (andthen (hinfo_str '' os-str='' (put_os sc) rd_end s1) (\<lambda>s2. Some (Inr (s2\<lparr>rs_desc := Inr (rs_wptr s)\<rparr>))))"
      by (intro flow_ok_andthen [OF hinfo_str_ok [OF s1(1) _ assms(3) put(2)]]) (auto simp: done_ok_def)
    then show ?thesis using s1 by (auto simp: done_ok_def intro: flow_ok_ret_err)
  qed
  then show ?thesis
    unfolding rrd_hinfo_def using False
    by (simp only: if_False) (rule flow_ok_andthen [OF hinfo_str_ok [OF d assms(2,3) put(1)]], assumption, blast)
qed

lemma txt_store_ok:
  assumes "done_ok P L c q s"
  shows "flow_ok (load_ret P L c q) (\<lambda>s'. \<exists>msg. s' = s\<lparr>rs_msg := msg\<rparr> \<and> load_core P L c q s') (txt_store sc bs s)"
proof -
  have core: "load_core P L c q s" using assms by (simp add: done_ok_def)
  then have "msg_shape c q (rs_msg s)" by (simp add: load_core_def)
  from shape_store_str [OF this, of bs] obtain p msg where
    *: "msg_store_str (rs_msg s) bs = Some (p, msg)" "msg_shape c q msg" by (auto elim: returnsE)
  obtain n strs where t: "txt_slot (rs_msg s) (rr_rdata (slot sc (rs_msg s))) = (n, strs)" by fastforce
  have "load_core P L c q (s\<lparr>rs_msg := put_rdata sc rd msg\<rparr>)" for rd
    using core * by (simp add: load_core_def)
  then show ?thesis
    using * t core core_flags [OF core] by (auto simp: txt_store_def intro!: flow_ok_ret_fail)
qed

lemma txt_step_ok:
  assumes "done_ok P L c q s" and "rs_offset s \<le> L" and "rd_end \<le> L"
  shows "flow_ok (load_ret P L c q) (\<lambda>s'. done_ok P L c q s' \<and> rs_offset s < rs_offset s' \<and> rs_offset s' \<le> rd_end)
    (txt_step sc rd_end s)"
  unfolding txt_step_def by (rule prefixed_ok [OF assms]) (rule txt_store_ok)

lemma txt_loop_ok:
  assumes "done_ok P L c q s" and "rd_end \<le> L" and "rd_end \<le> rs_offset s + k"
  shows "flow_ok (load_ret P L c q) (done_ok P L c q) (txt_loop k sc rd_end s)"
  using assms
proof (induction k arbitrary: s)
  case (Suc k)
  show ?case
  proof (cases "rs_offset s < rd_end")
    case True
    then have "rs_offset s \<le> L" using Suc.prems by simp
    then have "flow_ok (load_ret P L c q) (done_ok P L c q) (andthen (txt_step sc rd_end s) (txt_loop k sc rd_end))"
      using Suc.prems by (intro flow_ok_andthen [OF txt_step_ok] Suc.IH) auto
    then show ?thesis using True by simp
  qed (use Suc.prems in simp)
qed simp

lemma rrd_txt_ok:
  assumes "ready P L c q s" and "rd_end \<le> L"
  shows "flow_ok (load_ret P L c q) (done_ok P L c q) (rrd_txt sc rd_end s)"
  unfolding rrd_txt_def
  by (rule flow_ok_andthen [OF txt_loop_ok]) (use assms in \<open>auto simp: ready_def done_ok_def\<close>)

lemma sprint_ok:
  assumes "load_core P L c q s" and "rs_wptr s \<le> DNS_MSG_SIZE" and "tx \<noteq> []"
  shows "returns (sprint tx s) (\<lambda>s'. done_ok P L c q s')"
proof -
  have len: "length (d_msg (rs_dec s)) = DNS_MSG_SIZE" using assms(1) by (simp add: load_core_def load_dec_def)
  have "returns (snprintf_at (d_msg (rs_dec s)) (rs_wptr s) (rs_avail s) tx)
     (\<lambda>(n, m). n = length tx \<and> length m = DNS_MSG_SIZE)"
    using assms(2) len by (intro returns_snprintf_at) auto
  then show ?thesis
    using assms(1,3) by (auto simp: sprint_def done_ok_def load_core_def load_dec_def elim!: returnsE)
qed

lemma rrd_opt_ok:
  assumes "ready P L c q s"
  shows "flow_ok (load_ret P L c q) (done_ok P L c q) (rrd_opt sc cls ttl rd_end s)"
proof (cases "sect_code sc = DNS_AR")
  case False
  then show ?thesis using flow_ok_ret_err [OF ready_core [OF assms]] by (simp add: rrd_opt_def)
next
  case True
  obtain udp ext ver dob z where f: "opt_fields cls ttl = (udp, ext, ver, dob, z)" by (cases "opt_fields cls ttl")
  obtain t where core: "load_core P L c q s" "0 < rs_rc s" "rs_wptr s \<le> DNS_MSG_SIZE"
    and t: "cstr_at (d_msg (rs_dec s)) 0 = Some t" using assms by (auto simp: ready_def)
  let ?put = "\<lambda>p. upd_slot sc (\<lambda>rr. rr\<lparr>rr_rdata := RD_OPT udp ext ver dob z, rr_class := 0, rr_name := p\<rparr>)"
  let ?tx = "str ''UDP-size:'' @ dec_digits (unat udp) @ str '' Ext-RCODE:'' @ dec_digits (unat ext) @
     str '' EDNS0:'' @ dec_digits (unat ver) @ str '' DNSEC-OK:'' @ (if dob then str ''1'' else str ''0'')"
  have st: "flow_ok (load_ret P L c q) (\<lambda>s'. \<exists>msg. s' = s\<lparr>rs_msg := msg\<rparr> \<and> load_core P L c q s')
     (if d_load_msg (rs_dec s) then store_name 0 ?put s else Some (Inr s))"
    using store_name_ok [OF core(1) t, of ?put] core_flags [OF core(1)] by simp
  have "flow_ok (load_ret P L c q) (done_ok P L c q) (do {
        c \<leftarrow> mem_get (d_msg (rs_dec s1)) 0;
        let s2 = (if c = 46 then s1\<lparr>rs_name := Inl (str ''<Root>'')\<rparr> else s1);
        s3 \<leftarrow> sprint ?tx s2;
        Some (Inr (s3\<lparr>rs_dec := (rs_dec s3)\<lparr>d_got_edns := True, d_udp_size := unat udp,
                        d_ext_rcode := ext, d_edns_ver := ver, d_dnssec_ok := dob, d_offset := rd_end\<rparr>,
                      rs_desc := Inr (rs_wptr s2)\<rparr>)) })"
    if s1: "\<exists>msg. s1 = s\<lparr>rs_msg := msg\<rparr> \<and> load_core P L c q s1" for s1
  proof -
    have c1: "load_core P L c q s1" "rs_wptr s1 \<le> DNS_MSG_SIZE" using s1 core by auto
    have "mem_get (d_msg (rs_dec s1)) 0 = Some (d_msg (rs_dec s1) ! 0)"
      using c1 by (simp add: mem_get_def load_core_def load_dec_def DNS_MSG_SIZE_def)
    moreover have "returns (sprint ?tx s2) (\<lambda>s'. done_ok P L c q s')"
      if "s2 = (if b then s1\<lparr>rs_name := nm\<rparr> else s1)" for s2 b nm
      using c1 that by (intro sprint_ok) (auto simp: str_Cons)
    moreover have "done_ok P L c q (s3\<lparr>rs_dec := (rs_dec s3)\<lparr>d_got_edns := True, d_udp_size := unat udp,
                        d_ext_rcode := ext, d_edns_ver := ver, d_dnssec_ok := dob, d_offset := rd_end\<rparr>, rs_desc := d\<rparr>)"
      if "done_ok P L c q s3" for s3 d
      using that by (simp add: done_ok_def load_core_def load_dec_def)
    ultimately show ?thesis
      by (simp only: Option.bind.bind_lunit Let_def) (rule flow_ok_bind, blast, simp only: flow_ok_Inr)
  qed
  then show ?thesis
    unfolding rrd_opt_def f prod.case using True
    by (simp only: simp_thms if_False) (rule flow_ok_andthen [OF st])
qed

lemma rr_switch_ok:
  assumes "ready P L c q s" and "rs_offset s \<le> L" and "rd_end \<le> L"
  shows "flow_ok (load_ret P L c q) (done_ok P L c q) (rr_switch sc t cls ttl rdlen rd_end s)"
  unfolding rr_switch_def
  using rrd_a_ok [OF assms(1,2)] rrd_name_ok [OF assms(1)] rrd_soa_ok [OF assms(1,3)] rrd_hinfo_ok [OF assms]
    rrd_mx_ok [OF assms(1,2)] rrd_txt_ok [OF assms(1,3)] rrd_aaaa_ok [OF assms(1,2)] rrd_srv_ok [OF assms(1,2)]
    rrd_opt_ok [OF assms(1)] assms(1)
  by (simp add: ready_def done_ok_def)

lemma rr_fixed_ok:
  assumes "ready P L c q s"
  shows "flow_ok (load_ret P L c q) (\<lambda>(t, cls, ttl, rdlen, s'). ready P L c q s' \<and> rs_offset s' \<le> L) (rr_fixed sc s)"
proof -
  note core = ready_core [OF assms] and fl = core_flags [OF ready_core [OF assms]]
  show ?thesis
  proof (cases "rs_offset s + 10 > L")
    case True
    then show ?thesis using fl flow_ok_ret_err [OF core] by (simp add: rr_fixed_def)
  next
    case False
    obtain t cl ttl rl where "dec_u16 P (rs_offset s) = Some t" "dec_u16 P (rs_offset s + 2) = Some cl"
      "dec_u32 P (rs_offset s + 4) = Some ttl" "dec_u16 P (rs_offset s + 8) = Some rl"
      using False fl dec_u16_ok [of "rs_offset s" P] dec_u16_ok [of "rs_offset s + 2" P]
        dec_u32_ok [of "rs_offset s + 4" P] dec_u16_ok [of "rs_offset s + 8" P] by auto
    moreover have "load_core P L c q ((set_offset n s)\<lparr>rs_msg := upd_slot sc f (rs_msg s)\<rparr>)" for n f
    proof -
      have "load_core P L c q (set_offset n s)" using core by simp
      then show ?thesis by (simp add: load_core_def)
    qed
    ultimately show ?thesis using False fl assms by (simp add: rr_fixed_def ready_def Let_def)
  qed
qed

text \<open>A record is loaded (positive result, one record more) or not (0 or -1, same counters).\<close>

definition rr_result :: "byte list \<Rightarrow> nat \<Rightarrow> (sect \<Rightarrow> nat) \<Rightarrow> nat \<Rightarrow> sect \<Rightarrow> ret \<Rightarrow> bool" where
  "rr_result P L c q sc r \<longleftrightarrow> load_ret P L c q r \<or>
     (case r of (rc, dec, msg) \<Rightarrow> 0 < rc \<and> load_dec P L dec \<and> msg_shape (c(sc := c sc + 1)) q msg)"

lemma rr_finish_ok:
  assumes "done_ok P L c q s"
  shows "flow_ok (load_ret P L c q) (rr_result P L c q sc) (rr_finish sc t cls ttl rd_end s)"
proof -
  have core: "load_core P L c q s" "0 < rs_rc s" using assms by (simp_all add: done_ok_def)
  have "msg_shape (c(sc := c sc + 1)) q (set_count sc (sect_count sc (rs_msg s) + 1) (rs_msg s))"
    using core shape_count [of c q "rs_msg s" sc] by (auto simp: load_core_def msg_shape_def)
  then show ?thesis
    using core core_flags [OF core(1)] flow_ok_ret_err [OF core(1)]
    by (auto simp: rr_finish_def rr_result_def load_core_def)
qed

lemma dns_rr_decode_load:
  assumes "load_dec P L dec" and "msg_shape c q msg"
  shows "returns (dns_rr_decode dec msg sc) (rr_result P L c q sc)"
proof (cases "sect_count sc msg \<ge> DNS_MAX_RR")
  case True
  then show ?thesis using assms by (simp add: dns_rr_decode_def rr_result_def load_ret_def load_dec_def)
next
  case False
  let ?R = "load_ret P L c q"
  let ?s0 = "\<lparr>rs_dec = dec, rs_msg = msg, rs_wptr = 0, rs_rc = 0, rs_name = Inr 0, rs_desc = Inl []\<rparr>"
  let ?switch = "\<lambda>(t, c, ttl, rdlen, s3).
      let rd_end = (rs_offset s3 + unat rdlen) mod 65536
      in if rd_end > d_pkt_len (rs_dec s3) then ret_err DNS_RR DNS_RDATA DNS_ETRUNC s3
         else andthen (rr_switch sc t c ttl rdlen rd_end s3) (\<lambda>s4. rr_finish sc t c ttl rd_end s4)"
  have core0: "load_core P L c q ?s0" using assms by (simp add: load_core_def)
  have sw: "flow_ok ?R (rr_result P L c q sc) (?switch x)"
    if "case x of (t, cls, ttl, rdlen, s') \<Rightarrow> ready P L c q s' \<and> rs_offset s' \<le> L" for x
  proof -
    obtain t cl ttl rl s3 where x: "x = (t, cl, ttl, rl, s3)" by (cases x)
    then have r3: "ready P L c q s3" "rs_offset s3 \<le> L" using that by simp_all
    show ?thesis
    proof (cases "(rs_offset s3 + unat rl) mod 65536 > L")
      case True
      then show ?thesis using x core_flags [OF ready_core [OF r3(1)]] flow_ok_ret_err [OF ready_core [OF r3(1)]]
        by (simp add: Let_def)
    next
      case False
      then have "flow_ok ?R (rr_result P L c q sc) (andthen (rr_switch sc t cl ttl rl ((rs_offset s3 + unat rl) mod 65536) s3)
          (\<lambda>s4. rr_finish sc t cl ttl ((rs_offset s3 + unat rl) mod 65536) s4))"
        by (intro flow_ok_andthen [OF rr_switch_ok [OF r3]] rr_finish_ok) simp
      then show ?thesis using False x core_flags [OF ready_core [OF r3(1)]] by (simp add: Let_def)
    qed
  qed
  have st: "flow_ok ?R (ready P L c q)
      (store_name 0 (\<lambda>p. upd_slot sc (\<lambda>rr. rr\<lparr>rr_name := p\<rparr>)) (s1\<lparr>rs_wptr := nat (rs_rc s1) + 1\<rparr>))"
    if s1: "named P L c q s1 \<and> rs_wptr s1 = rs_wptr ?s0" for s1
  proof -
    obtain t where "cstr_at (d_msg (rs_dec s1)) 0 = Some t" using s1 by (auto simp: named_def)
    then show ?thesis
      using s1 by (intro flow_ok_mono [OF store_name_ok]) (auto simp: named_def ready_def)
  qed
  have "flow_ok ?R (rr_result P L c q sc)
     (andthen (get_name DNS_NAME ?s0) (\<lambda>s1.
      andthen (store_name 0 (\<lambda>p. upd_slot sc (\<lambda>rr. rr\<lparr>rr_name := p\<rparr>)) (s1\<lparr>rs_wptr := nat (rs_rc s1) + 1\<rparr>)) (\<lambda>s2.
      andthen (rr_fixed sc s2) ?switch)))"
    using core0 by (intro flow_ok_andthen [OF get_name_ok] flow_ok_andthen [OF st] flow_ok_andthen [OF rr_fixed_ok] sw) simp_all
  then show ?thesis
    using False unfolding dns_rr_decode_def flow_ok_def Let_def [of ?s0]
    by (auto simp: rr_result_def elim!: returnsE split: sum.splits)
qed

section \<open>Sections and messages\<close>

lemma sect_loop_load:
  assumes "load_dec P L dec" and "msg_shape c q msg"
  shows "returns (sect_loop n i dec msg sc) (\<lambda>r. \<exists>k \<le> c sc + 1. c sc \<le> k \<and> load_ret P L (c(sc := k)) q r)"
  using assms
proof (induction n arbitrary: i dec msg)
  case 0
  have "load_ret P L (c(sc := c sc)) q (0, dec, msg)" using 0 by (simp add: load_ret_def fun_upd_triv del: fun_upd_apply)
  then show ?case by (simp del: fun_upd_apply fun_upd_triv) (intro exI [of _ "c sc"], simp)
next
  case (Suc n)
  obtain rc dec1 msg1 where run: "dns_rr_decode dec msg sc = Some (rc, dec1, msg1)"
    and res: "rr_result P L c q sc (rc, dec1, msg1)"
    using dns_rr_decode_load [OF Suc.prems, of sc] by (auto elim: returnsE)
  obtain e dec2 where err: "dns_dec_err dec1 DNS_PDU (sect_code sc) (int i + DNS_EC_ISROW) = (e, dec2)" by fastforce
  show ?case
  proof (cases "rc = 0")
    case True
    then have "load_dec P L dec1" "msg_shape c q msg1" using res by (auto simp: rr_result_def load_ret_def)
    then show ?thesis using Suc.IH run True by simp
  next
    case False
    have d: "load_dec P L dec1" using res by (auto simp: rr_result_def load_ret_def)
    have e: "(e = 0 \<or> e = -1) \<and> load_dec P L dec2" using load_dec_err [OF d, of DNS_PDU "sect_code sc" "int i + DNS_EC_ISROW"] err by simp
    have "msg_shape (c(sc := c sc)) q msg1 \<or> msg_shape (c(sc := c sc + 1)) q msg1"
      using res by (auto simp: rr_result_def load_ret_def)
    then have "load_ret P L (c(sc := c sc)) q (e, dec2, msg1) \<or> load_ret P L (c(sc := c sc + 1)) q (e, dec2, msg1)"
      using e by (simp add: load_ret_def)
    then have "\<exists>k \<le> c sc + 1. c sc \<le> k \<and> load_ret P L (c(sc := k)) q (e, dec2, msg1)"
      by (meson le_add1 le_refl)
    then show ?thesis using run False err by (simp add: fun_upd_def)
  qed
qed

lemma dns_qd_decode_load:
  assumes "load_dec P L dec" and "msg_shape c q msg"
  shows "returns (dns_qd_decode dec msg) (\<lambda>(rc, dec', msg'). load_dec P L dec' \<and>
     ((rc = 0 \<or> rc = -1) \<and> msg_shape c q msg' \<or> 0 < rc \<and> q = 0 \<and> msg_shape c 1 msg'))"
proof (cases "q \<ge> DNS_MAX_QD")
  case True
  then show ?thesis using assms by (simp add: dns_qd_decode_def load_dec_def msg_shape_def)
next
  case False
  then have q: "q = 0" by (simp add: DNS_MAX_QD_def)
  have d: "d_pkt_len dec \<le> length (d_pkt dec)" "0 + DNS_MSG_SIZE \<le> length (d_msg dec)" "L + 16 \<le> length P"
    "d_pkt dec = P" "d_pkt_len dec = L" "d_load_msg dec" "\<not> d_need_emsg dec" "length (d_msg dec) = DNS_MSG_SIZE"
    using assms(1) by (auto simp: load_dec_def)
  obtain rc off buf where run: "decode_name dec (Some 0) DNS_MSG_SIZE = Some (rc, dec\<lparr>d_offset := off, d_msg := buf\<rparr>)"
    and len: "length buf = length (d_msg dec)"
    and res: "(\<exists>e k t. wire_name (d_pkt dec) (d_pkt_len dec) (d_offset dec) e k t \<and> k \<le> 17 \<and> length t < DNS_MSG_SIZE \<and>
        rc = int (length t) + 1 \<and> off = e \<and> mem_read buf 0 (length t + 1) = Some (t @ [0])) \<or>
     (\<nexists>e k t. wire_name (d_pkt dec) (d_pkt_len dec) (d_offset dec) e k t \<and> k \<le> 17 \<and> length t < DNS_MSG_SIZE) \<and>
       rc \<in> {- DNS_EBADJMP, - DNS_EMAXJMP, - DNS_ENAMELEN, - DNS_EOUTLEN, - DNS_ENONULL}"
    using d(1,2) by (rule decode_name_spec)
  have rc: "rc < 0 \<or> 0 < rc \<and> (\<exists>u. cstr_at buf 0 = Some u)"
    using res
  proof (elim disjE exE conjE)
    fix e k t
    assume t: "rc = int (length t) + 1" "mem_read buf 0 (length t + 1) = Some (t @ [0])"
    show ?thesis using t(1) nul_at [OF read_nul(2) [OF t(2)] _ read_nul(1) [OF t(2)], of 0] by simp
  qed (auto simp: dns_errors)
  let ?d = "dec\<lparr>d_offset := off, d_msg := buf\<rparr>"
  have dok: "load_dec P L (dec\<lparr>d_offset := n, d_msg := buf\<rparr>)" "load_dec P L (dec\<lparr>d_msg := buf, d_offset := n\<rparr>)" for n
    using d len by (simp_all add: load_dec_def)
  have err: "case dns_dec_err ?d DNS_QD f e of (r, dec') \<Rightarrow> (r = 0 \<or> r = -1) \<and> load_dec P L dec'" for f e
    using load_dec_err [OF dok(1)] .
  show ?thesis
  proof (cases "rc < 0 \<or> off + 4 > L")
    case True
    then show ?thesis
      using run err [of DNS_NAME rc] err [of DNS_HDR DNS_ETRUNC] assms(2) False d
      by (auto simp: dns_qd_decode_def msg_shape_def split: prod.splits)
  next
    case rcpos: False
    then obtain u where u: "cstr_at buf 0 = Some u" "0 < rc" using rc by auto
    obtain t cl where tc: "dec_u16 P off = Some t" "dec_u16 P (off + 2) = Some cl"
      using dec_u16_ok [of off P] dec_u16_ok [of "off + 2" P] rcpos d by auto
    obtain p msg1 where st: "msg_store_name msg (Some u) = Some (p, msg1)" "msg_shape c q msg1"
      using shape_store_name [OF assms(2), of "Some u"] by (auto elim: returnsE)
    have sh: "msg_shape c q (msg1\<lparr>m_qd := xs\<rparr>)" "msg_shape c k (msg1\<lparr>m_qd := xs, m_qd_len := k\<rparr>)"
      if "length xs = DNS_MAX_QD" for xs k
    proof -
      have "sect_base s (msg1\<lparr>m_qd := xs, m_qd_len := k\<rparr>) = sect_base s msg1"
        "sect_count s (msg1\<lparr>m_qd := xs, m_qd_len := k\<rparr>) = sect_count s msg1"
        "sect_base s (msg1\<lparr>m_qd := xs\<rparr>) = sect_base s msg1"
        "sect_count s (msg1\<lparr>m_qd := xs\<rparr>) = sect_count s msg1" for s by (cases s; simp)+
      then show "msg_shape c q (msg1\<lparr>m_qd := xs\<rparr>)" "msg_shape c k (msg1\<lparr>m_qd := xs, m_qd_len := k\<rparr>)"
        using st(2) that by (auto simp: msg_shape_def store_inv_def)
    qed
    have ql: "length (m_qd msg1) = DNS_MAX_QD" "m_qd_len msg = 0" "m_qd_len msg1 = 0"
      using st(2) assms(2) q by (simp_all add: msg_shape_def)
    show ?thesis
      using run rcpos u tc st(1) d ql q dok sh
      by (auto simp: dns_qd_decode_def DNS_MAX_QD_def Let_def)
  qed
qed

lemma qd_loop_load:
  assumes "load_dec P L dec" and "msg_shape c q msg" and "q \<le> 1"
  shows "returns (qd_loop n i dec msg) (\<lambda>r. \<exists>q' \<le> 1. load_ret P L c q' r)"
  using assms
proof (induction n arbitrary: i dec msg)
  case 0
  then show ?case by (auto simp: load_ret_def)
next
  case (Suc n)
  obtain rc dec1 msg1 where run: "dns_qd_decode dec msg = Some (rc, dec1, msg1)" and d1: "load_dec P L dec1"
    and res: "(rc = 0 \<or> rc = -1) \<and> msg_shape c q msg1 \<or> 0 < rc \<and> q = 0 \<and> msg_shape c 1 msg1"
  proof (rule returnsE [OF dns_qd_decode_load [OF Suc.prems(1,2)]])
    fix r
    assume "dns_qd_decode dec msg = Some r" "case r of (rc, dec', msg') \<Rightarrow> load_dec P L dec' \<and>
     ((rc = 0 \<or> rc = -1) \<and> msg_shape c q msg' \<or> 0 < rc \<and> q = 0 \<and> msg_shape c 1 msg')"
    then show thesis using that by (cases r) simp
  qed
  obtain e dec2 where err: "dns_dec_err dec1 DNS_PDU DNS_QD (int i + DNS_EC_ISROW) = (e, dec2)" by fastforce
  have e: "(e = 0 \<or> e = -1) \<and> load_dec P L dec2" using load_dec_err [OF d1, of DNS_PDU DNS_QD "int i + DNS_EC_ISROW"] err by simp
  show ?case
  proof (cases "rc = 0")
    case True
    then show ?thesis using run res Suc.IH [OF d1 _ assms(3)] by simp
  next
    case False
    obtain q' where "q' \<le> 1" "msg_shape c q' msg1" using res assms(3) by blast
    then have "\<exists>q' \<le> 1. load_ret P L c q' (e, dec2, msg1)" using e by (auto simp: load_ret_def)
    then show ?thesis using run False err by simp
  qed
qed

lemma seq_rc_returns:
  assumes "returns m P" and "\<And>rc dec msg. P (rc, dec, msg) \<Longrightarrow> rc \<noteq> 0 \<Longrightarrow> Q (rc, dec, msg)"
    and "\<And>dec msg. P (0, dec, msg) \<Longrightarrow> returns (f dec msg) Q"
  shows "returns (seq_rc m f) Q"
proof -
  obtain r where "m = Some r" "P r" using assms(1) by (rule returnsE)
  then show ?thesis using assms(2,3) by (cases r) (auto simp: seq_rc_def)
qed

text \<open>The counters at each stage: at most \<open>b s\<close> records in section \<open>s\<close>, at most one question.\<close>

definition at_most :: "byte list \<Rightarrow> nat \<Rightarrow> (sect \<Rightarrow> nat) \<Rightarrow> ret \<Rightarrow> bool" where
  "at_most P L b r \<longleftrightarrow> (\<exists>c q. (\<forall>s. c s \<le> b s) \<and> q \<le> 1 \<and> load_ret P L c q r)"

lemma at_most_mono: "at_most P L b r \<Longrightarrow> (\<And>s. b s \<le> b' s) \<Longrightarrow> at_most P L b' r"
  unfolding at_most_def using le_trans by blast

lemma at_most_sect:
  assumes "at_most P L b (0, dec, msg)" and "\<And>s. b' s = (if s = sc then b s + 1 else b s)"
  shows "returns (dns_sect_decode dec msg n sc) (at_most P L b')"
proof -
  obtain c q where c: "\<forall>s. c s \<le> b s" "q \<le> 1" "load_dec P L dec" "msg_shape c q msg"
    using assms(1) by (auto simp: at_most_def load_ret_def)
  show ?thesis
    unfolding dns_sect_decode_def
  proof (rule returns_mono [OF sect_loop_load [OF c(3,4)]], elim exE conjE)
    fix r k
    assume "k \<le> c sc + 1" "load_ret P L (c(sc := k)) q r"
    moreover have "(c(sc := k)) s \<le> b' s" for s
      using c(1) assms(2) \<open>k \<le> c sc + 1\<close> by (auto intro: le_trans)
    ultimately show "at_most P L b' r" unfolding at_most_def using c(2) by blast
  qed
qed

lemma decode_hdr_load:
  assumes "load_dec P L dec" and "msg_shape (\<lambda>_. 0) 0 msg"
  shows "returns (decode_hdr dec msg) (at_most P L (\<lambda>_. 0))"
proof -
  have sh: "msg_shape (\<lambda>_. 0) 0 (msg\<lparr>m_hdr := h\<rparr>)" for h
  proof -
    have "sect_base s (msg\<lparr>m_hdr := h\<rparr>) = sect_base s msg" "sect_count s (msg\<lparr>m_hdr := h\<rparr>) = sect_count s msg" for s
      by (cases s; simp)+
    then show ?thesis using assms(2) by (simp add: msg_shape_def store_inv_def)
  qed
  have am: "at_most P L (\<lambda>_. 0) (rc, dec', msg\<lparr>m_hdr := h\<rparr>)" if "rc = 0 \<or> rc = -1" "load_dec P L dec'" for rc dec' h
    using that sh [of h] by (auto simp: at_most_def load_ret_def intro!: exI [of _ "\<lambda>_. 0"] exI [of _ 0])
  have d: "d_pkt dec = P" "d_pkt_len dec = L" "L + 16 \<le> length P" "\<not> d_need_emsg dec" using assms(1) by (simp_all add: load_dec_def)
  show ?thesis
  proof (cases "L < DNS_HDR_LEN")
    case True
    obtain e dec' where err: "dns_dec_err dec DNS_PDU DNS_HDR DNS_EHDRLEN = (e, dec')" by fastforce
    then have "(e = 0 \<or> e = -1) \<and> load_dec P L dec'" using load_dec_err [OF assms(1), of DNS_PDU DNS_HDR DNS_EHDRLEN] by simp
    then have "at_most P L (\<lambda>_. 0) (e, dec', msg\<lparr>m_hdr := m_hdr msg\<rparr>)" by (intro am) simp_all
    then show ?thesis using True d err by (simp add: decode_hdr_def dns_hdr_decode_def DNS_EHDRLEN_def)
  next
    case False
    obtain v0 v1 v2 v3 v4 v5 where "dec_u16 P 0 = Some v0" "dec_u16 P 2 = Some v1" "dec_u16 P 4 = Some v2"
      "dec_u16 P 6 = Some v3" "dec_u16 P 8 = Some v4" "dec_u16 P 10 = Some v5"
      using d False dec_u16_ok [of 0 P] dec_u16_ok [of 2 P] dec_u16_ok [of 4 P] dec_u16_ok [of 6 P]
        dec_u16_ok [of 8 P] dec_u16_ok [of 10 P] by (auto simp: DNS_HDR_LEN_def)
    moreover have "load_dec P L (dec\<lparr>d_offset := n\<rparr>)" for n using assms(1) by (simp add: load_dec_def)
    ultimately show ?thesis
      using False d am by (simp add: decode_hdr_def dns_hdr_decode_def)
  qed
qed

lemma decode_msg_load:
  assumes "load_dec P L dec" and "msg_shape c q msg"
  shows "returns (decode_msg dec msg) (at_most P L (\<lambda>_. 1))"
proof -
  have sh: "msg_shape (\<lambda>_. 0) 0 (dns_msg_reset msg)"
  proof -
    have "sect_base s (dns_msg_reset msg) = sect_base s msg" "sect_count s (dns_msg_reset msg) = 0" for s
      by (cases s; simp add: dns_msg_reset_def)+
    then show ?thesis using assms(2) by (simp add: msg_shape_def store_inv_def dns_msg_reset_def)
  qed
  define bA where "bA = (\<lambda>s :: sect. if s = SectAN then 1 else 0 :: nat)"
  define bN where "bN = (\<lambda>s :: sect. if s = SectAR then 0 else 1 :: nat)"
  have b: "bN s = (if s = SectNS then bA s + 1 else bA s)" "(1::nat) = (if s = SectAR then bN s + 1 else bN s)"
    "bA s = (if s = SectAN then 0 + 1 else 0)" for s by (cases s; simp add: bA_def bN_def)+
  have lift: "at_most P L b r \<Longrightarrow> (\<And>s. b s \<le> 1) \<Longrightarrow> at_most P L (\<lambda>_. 1) r" for b r by (erule at_most_mono) simp
  have le: "bA s \<le> 1" "bN s \<le> 1" "bA s \<le> bN s" for s by (simp_all add: bA_def bN_def)
  have 0: "returns (seq_rc (decode_hdr dec (dns_msg_reset msg)) decode_qd) (at_most P L (\<lambda>_. 0))"
  proof (rule seq_rc_returns [OF decode_hdr_load [OF assms(1) sh]])
    fix dec' msg'
    assume "at_most P L (\<lambda>_. 0) (0, dec', msg')"
    then obtain q where "q \<le> 1" "load_dec P L dec'" "msg_shape (\<lambda>_. 0) q msg'"
      by (auto simp: at_most_def load_ret_def) (metis ext)
    then show "returns (decode_qd dec' msg') (at_most P L (\<lambda>_. 0))"
      unfolding decode_qd_def
      by (intro returns_mono [OF qd_loop_load]) (auto simp: at_most_def intro!: exI [of _ "\<lambda>_. 0"])
  qed
  have 1: "returns (seq_rc (seq_rc (decode_hdr dec (dns_msg_reset msg)) decode_qd) decode_an) (at_most P L bA)"
    by (rule seq_rc_returns [OF 0])
      (auto simp: decode_an_def b(3) intro!: at_most_sect elim: at_most_mono)
  have 2: "returns (seq_rc (seq_rc (seq_rc (decode_hdr dec (dns_msg_reset msg)) decode_qd) decode_an) decode_ns) (at_most P L bN)"
    by (rule seq_rc_returns [OF 1]) (auto simp: decode_ns_def le intro!: at_most_sect b(1) elim: at_most_mono)
  have 3: "returns (seq_rc (seq_rc (seq_rc (seq_rc (decode_hdr dec (dns_msg_reset msg)) decode_qd) decode_an) decode_ns) decode_ar)
     (at_most P L (\<lambda>_. 1))"
  proof (rule seq_rc_returns [OF 2], goal_cases)
    case (1 rc dec' msg')
    show ?case using 1(1) le(2) by (rule lift)
  next
    case (2 dec' msg')
    show ?case unfolding decode_ar_def by (rule at_most_sect [where b' = "\<lambda>_. 1", OF 2 b(2)])
  qed
  show ?thesis
    unfolding decode_msg_def
    by (rule seq_rc_returns [OF 3])
      (auto simp: size_check_def at_most_def load_ret_def load_dec_def)
qed

section \<open>Properties\<close>

lemma zero_shape: "msg_shape (\<lambda>_. 0) 0 zero_msg"
proof -
  have "sect_base s zero_msg = replicate DNS_MAX_RR zero_rr" "sect_count s zero_msg = 0" for s
    by (cases s; simp add: zero_msg_def)+
  then show ?thesis by (simp add: msg_shape_def store_inv_def zero_msg_def)
qed

lemma dns_msg_decode_load:
  assumes "msg_shape c q msg" and "len + 16 \<le> length buf"
  shows "returns (dns_msg_decode msg buf len) (\<lambda>(rc, msg'). (rc = 0 \<or> rc = -1) \<and>
    (\<exists>c' q'. (\<forall>s. c' s \<le> 1) \<and> q' \<le> 1 \<and> msg_shape c' q' msg'))"
proof -
  have "load_dec buf len (dec_init buf len False True [])"
    using assms(2) by (simp add: load_dec_def dec_init_def)
  from decode_msg_load [OF this assms(1)]
  obtain r where r: "decode_msg (dec_init buf len False True []) msg = Some r" "at_most buf len (\<lambda>_. 1) r"
    by (rule returnsE)
  obtain rc dec msg' where [simp]: "r = (rc, dec, msg')" by (cases r)
  show ?thesis using r by (auto simp: dns_msg_decode_def at_most_def load_ret_def)
qed

text \<open>C2. Memory safety of \<open>dns_msg_decode\<close>: for every message whose arrays have their declared sizes (whatever its counters say) and every packet of \<open>len\<close> bytes in a buffer with 16 more readable bytes, the decoder accesses no memory outside its objects, ends, returns 0 or -1, keeps the shape of the message, and fills at most one question and at most one record per section.\<close>

theorem dns_msg_decode_safe:
  assumes "msg_shape c q msg" and "len + 16 \<le> length buf"
  shows "\<exists>rc msg'. dns_msg_decode msg buf len = Some (rc, msg') \<and> rc \<in> {0, -1} \<and>
    msg_shape (\<lambda>s. sect_count s msg') (m_qd_len msg') msg' \<and>
    m_qd_len msg' \<le> 1 \<and> (\<forall>s. sect_count s msg' \<le> 1)"
proof -
  obtain r where r: "dns_msg_decode msg buf len = Some r" and p: "case r of (rc, msg') \<Rightarrow> (rc = 0 \<or> rc = -1) \<and>
    (\<exists>c' q'. (\<forall>s. c' s \<le> 1) \<and> q' \<le> 1 \<and> msg_shape c' q' msg')"
    using dns_msg_decode_load [OF assms] by (rule returnsE)
  obtain rc msg' where "r = (rc, msg')" by (cases r)
  then show ?thesis using r p by (auto simp: msg_shape_def)
qed

theorem dns_msg_decode_safe_witness:
  "\<exists>rc msg'. dns_msg_decode zero_msg (replicate 28 0) 12 = Some (rc, msg') \<and> rc \<in> {0, -1} \<and>
    msg_shape (\<lambda>s. sect_count s msg') (m_qd_len msg') msg' \<and>
    m_qd_len msg' \<le> 1 \<and> (\<forall>s. sect_count s msg' \<le> 1)"
  by (rule dns_msg_decode_safe [OF zero_shape]) simp

text \<open>C36. A packet shorter than a DNS header is not refused: \<open>dns_msg_decode\<close> returns 0, the code for success, and the message is the reset one, because the error is only noted in the decoder that is dropped on return.\<close>

theorem dns_msg_decode_truncated:
  assumes "len < DNS_HDR_LEN"
  shows "\<exists>msg'. dns_msg_decode msg buf len = Some (0, msg') \<and> m_hdr msg' = dns_hdr_reset \<and> m_qd_len msg' = 0 \<and>
    (\<forall>s. sect_count s msg' = 0)"
proof -
  have "sect_count s (dns_msg_reset msg) = 0" for s by (cases s) (simp_all add: dns_msg_reset_def)
  moreover have "dns_msg_decode msg buf len = Some (0, dns_msg_reset msg)"
    using assms by (simp add: dns_msg_decode_def decode_msg_def seq_rc_def decode_hdr_def dns_hdr_decode_def dec_init_def
        dns_dec_err_def DNS_EHDRLEN_def decode_qd_def decode_an_def decode_ns_def decode_ar_def dns_sect_decode_def
        size_check_def dns_msg_reset_def dns_hdr_reset_def DNS_MAX_EMSG_def)
  ultimately show ?thesis by (simp add: dns_msg_reset_def)
qed

theorem dns_msg_decode_truncated_witness:
  "\<exists>msg'. dns_msg_decode zero_msg [] 0 = Some (0, msg') \<and> m_hdr msg' = dns_hdr_reset \<and> m_qd_len msg' = 0 \<and>
    (\<forall>s. sect_count s msg' = 0)"
  by (rule dns_msg_decode_truncated) (simp add: DNS_HDR_LEN_def)

end
