(* ===== verification/Dns_Validate.thy ===== *)
theory Dns_Validate
  imports Dns_Load
begin

text \<open>
  \<open>dns_validate\<close> describes a packet in a text buffer while it decodes it. This theory shows when that is memory-safe: the
  descriptions are built in a scratch buffer of 1124 bytes, which is enough for four names of 255 characters and the numbers
  of a record, so every record type but TXT stays inside it as long as names keep to the limit of RFC 1035.
  \<open>val_at\<close> tracks how much of the scratch buffer is used; one lemma per record type adds its share.
\<close>

section \<open>The state of a validation\<close>

definition emsg_ok :: "nat \<Rightarrow> sbuf \<Rightarrow> bool" where
  "emsg_ok M b \<longleftrightarrow> length (sb_mem b) = M \<and> sb_pos b < M \<and> 0 \<in> set (sb_mem b)"

definition err_ok :: "dns_err \<Rightarrow> bool" where
  "err_ok e \<longleftrightarrow> length (err_text e) < DNS_MSG_SIZE"

definition val_dec :: "byte list \<Rightarrow> nat \<Rightarrow> nat \<Rightarrow> dns_dec \<Rightarrow> bool" where
  "val_dec P L M dec \<longleftrightarrow> d_pkt dec = P \<and> d_pkt_len dec = L \<and> L + 16 \<le> length P \<and> length (d_msg dec) = DNS_MSG_SIZE \<and>
     \<not> d_load_msg dec \<and> d_need_emsg dec \<and> emsg_ok M (d_emsg dec) \<and> list_all err_ok (d_errs dec)"

lemma snprintf_nul:
  assumes "p < length m"
  shows "returns (snprintf_at m p (length m - p) s) (\<lambda>(n, m'). n = length s \<and> length m' = length m \<and> take p m' = take p m \<and>
     0 \<in> set (drop p m') \<and> (p + length s < length m \<longrightarrow> m' ! (p + length s) = 0))"
proof -
  let ?t = "take (length m - p - 1) s @ [0]"
  have "p + length ?t \<le> length m" using assms by simp
  then have w: "mem_write m p ?t = Some (take p m @ ?t @ drop (p + length ?t) m)" by (rule mem_write_SomeI)
  have "drop p (take p m @ ?t @ drop (p + length ?t) m) = ?t @ drop (p + length ?t) m" using assms by simp
  then show ?thesis using assms w by (auto simp: snprintf_at_def nth_append)
qed

lemma wmsg_ok:
  assumes "val_dec P L M dec"
  shows "returns (dns_wmsg dec s) (\<lambda>(rc, dec'). (rc = 0 \<or> rc = -1) \<and> (\<exists>b. dec' = dec\<lparr>d_emsg := b\<rparr>) \<and> val_dec P L M dec' \<and>
    (sb_pos (d_emsg dec) + length s < M \<longrightarrow> rc = 0))"
proof -
  let ?b = "d_emsg dec"
  have p: "sb_pos ?b < length (sb_mem ?b)" "length (sb_mem ?b) = M" using assms by (auto simp: val_dec_def emsg_ok_def)
  then have r: "sbuf_rem ?b = length (sb_mem ?b) - sb_pos ?b" by (simp add: sbuf_rem_def)
  obtain m' where m: "snprintf_at (sb_mem ?b) (sb_pos ?b) (sbuf_rem ?b) s = Some (length s, m')" "length m' = M" "0 \<in> set (drop (sb_pos ?b) m')"
    using snprintf_nul [OF p(1), of s] p(2) unfolding r by (auto elim!: returnsE)
  have "0 \<in> set m'" using m(3) by (rule in_set_dropD)
  then show ?thesis using m assms p by (auto simp: dns_wmsg_def Let_def r val_dec_def emsg_ok_def)
qed

text \<open>Error texts are short.\<close>

lemma length_ec_tostr: "\<bar>ec\<bar> < 90000 \<Longrightarrow> length (dns_ec_tostr ec) \<le> 100"
proof -
  assume b: "\<bar>ec\<bar> < 90000"
  have d: "length (int_str v) \<le> 100" if "v < 100000" for v
  proof -
    have "nat v < 10 ^ 5" using that by simp
    then have "length (dec_digits (nat v)) \<le> 5" by (rule length_dec_digits) simp
    then show ?thesis by (simp add: int_str_def)
  qed
  have t: "\<forall>x \<in> set dns_ec_strs. \<exists>s. x = Some s \<and> length s \<le> 100" by (simp add: dns_ec_strs_def)
  show ?thesis
  proof (cases "ec_tostr dns_ec_strs \<bar>ec\<bar>")
    case None
    then show ?thesis using b by (auto simp: dns_ec_tostr_def abs_if Let_def DNS_EC_ISROW_def intro!: d split: if_splits)
  next
    case (Some s)
    then have "Some s \<in> set dns_ec_strs" by (auto simp: ec_tostr_def split: if_splits dest!: sym [of _ "Some s"])
    then have "length s \<le> 100" using t by blast
    then show ?thesis using Some by (simp add: dns_ec_tostr_def abs_if Let_def split: if_splits)
  qed
qed

lemma length_code_tostr: "0 \<le> c \<Longrightarrow> c < 22 \<Longrightarrow> length (dec_code_tostr c) \<le> 20"
proof -
  assume c: "0 \<le> c" "c < 22"
  have t: "\<forall>x \<in> set dec_code_strs. \<exists>s. x = Some s \<and> length s \<le> 20" by (simp add: dec_code_strs_def)
  have l: "length dec_code_strs = 22" by (simp add: dec_code_strs_def)
  have "ec_tostr dec_code_strs c = dec_code_strs ! nat c" using c l by (simp add: ec_tostr_def)
  moreover have "dec_code_strs ! nat c \<in> set dec_code_strs" using c l by (intro nth_mem) simp
  ultimately obtain s where "ec_tostr dec_code_strs c = Some s" "length s \<le> 20" using t by auto
  then show ?thesis by (simp add: dec_code_tostr_def)
qed

lemma err_okI: "0 \<le> g \<Longrightarrow> g < 22 \<Longrightarrow> 0 \<le> f \<Longrightarrow> f < 22 \<Longrightarrow> \<bar>ec\<bar> < 90000 \<Longrightarrow> err_ok \<lparr>er_group = g, er_field = f, er_ec = ec\<rparr>"
  using length_ec_tostr [of ec] length_code_tostr [of g] length_code_tostr [of f] by (simp add: err_ok_def err_text_def DNS_MSG_SIZE_def)

lemma dec_err_ok:
  assumes "val_dec P L M dec" and "0 \<le> g" "g < 22" "0 \<le> f" "f < 22" "\<bar>ec\<bar> < 90000"
  shows "case dns_dec_err dec g f ec of (rc, dec') \<Rightarrow> (rc = 0 \<or> rc = -1) \<and> val_dec P L M dec' \<and> d_errs dec' \<noteq> []"
  using assms err_okI [OF assms(2-6)] by (auto simp: dns_dec_err_def val_dec_def dns_limits)

section \<open>Header\<close>

lemma put_flag_ok:
  assumes "sb_pos b \<le> length (sb_mem b)"
  shows "returns (put_flag f s b) (\<lambda>b'. length (sb_mem b') = length (sb_mem b) \<and> sb_pos b' \<le> length (sb_mem b'))"
  using assms by (auto simp: put_flag_def sbuf_puticm_def sbuf_putcm_def sbuf_putm_def sbuf_mksp_def sbuf_rem_def mem_write_SomeI split: if_splits)

lemma puts_ok:
  assumes "sb_pos b \<le> length (sb_mem b)"
  shows "returns (sbuf_puts b (Some s)) (\<lambda>(n, b'). length (sb_mem b') = length (sb_mem b) \<and> sb_pos b' \<le> length (sb_mem b'))"
  using assms by (auto simp: sbuf_puts_def sbuf_putm_def sbuf_mksp_def sbuf_rem_def mem_write_SomeI)

lemma desc_flags_ok:
  assumes "sb_pos b \<le> length (sb_mem b)" and "length (sb_mem b) = n"
  shows "returns (desc_response fl b) (\<lambda>b'. length (sbuf_text b') \<le> n)" "returns (desc_query fl b) (\<lambda>b'. length (sbuf_text b') \<le> n)"
proof -
  let ?ok = "\<lambda>b. sb_pos b \<le> length (sb_mem b) \<and> length (sb_mem b) = n"
  have flag: "returns (put_flag f s b \<bind> k) (\<lambda>b'. length (sbuf_text b') \<le> n)"
    if "?ok b" "\<And>b. ?ok b \<Longrightarrow> returns (k b) (\<lambda>b'. length (sbuf_text b') \<le> n)" for f s b k
    by (rule returns_bindI [OF put_flag_ok]) (use that in auto)
  have last: "returns (put_flag f s b) (\<lambda>b'. length (sbuf_text b') \<le> n)" if "?ok b" for f s b
    by (rule returns_mono [OF put_flag_ok]) (use that in \<open>auto simp: sbuf_text_def\<close>)
  have puts: "returns (sbuf_puts b (Some s) \<bind> (\<lambda>(n, b). k b)) (\<lambda>b'. length (sbuf_text b') \<le> n)"
    if "?ok b" "\<And>b. ?ok b \<Longrightarrow> returns (k b) (\<lambda>b'. length (sbuf_text b') \<le> n)" for s b k
    by (rule returns_bindI [OF puts_ok]) (use that in auto)
  have ok: "?ok b" using assms by simp
  show "returns (desc_response fl b) (\<lambda>b'. length (sbuf_text b') \<le> n)" "returns (desc_query fl b) (\<lambda>b'. length (sbuf_text b') \<le> n)"
    unfolding desc_response_def desc_query_def Let_def by (rule flag puts last ok | assumption)+
qed

lemma decode_hdr_ok:
  assumes "val_dec P L M dec"
  shows "returns (decode_hdr dec msg) (\<lambda>(rc, dec', msg'). (rc = 0 \<or> rc = -1) \<and> val_dec P L M dec' \<and>
    (L < DNS_HDR_LEN \<longrightarrow> d_errs dec' \<noteq> []) \<and> (DNS_HDR_LEN \<le> L \<longrightarrow> dns_hdr_decode (m_hdr msg) P L = Some (0, m_hdr msg')))"
proof (cases "L < DNS_HDR_LEN")
  case True
  then have d: "dns_hdr_decode (m_hdr msg) (d_pkt dec) (d_pkt_len dec) = Some (DNS_EHDRLEN, m_hdr msg)"
    using assms by (simp add: dns_hdr_decode_def val_dec_def)
  have "case dns_dec_err dec DNS_PDU DNS_HDR DNS_EHDRLEN of (rc, dec') \<Rightarrow> (rc = 0 \<or> rc = -1) \<and> val_dec P L M dec' \<and> d_errs dec' \<noteq> []"
    by (rule dec_err_ok [OF assms]) (simp_all add: DNS_PDU_def DNS_HDR_def DNS_EHDRLEN_def)
  then show ?thesis using d True by (auto simp: decode_hdr_def DNS_EHDRLEN_def split: prod.splits)
next
  case False
  have pkt: "d_pkt dec = P" "d_pkt_len dec = L" "L \<le> length P" using assms by (simp_all add: val_dec_def)
  then have "P \<noteq> []" using False by (auto simp: DNS_HDR_LEN_def)
  then obtain hdr where h: "dns_hdr_decode (m_hdr msg) P L = Some (0, hdr)"
    using False pkt(3) by (simp add: dns_hdr_decode_def dec_u16_def mem_get_def DNS_HDR_LEN_def)
  let ?d1 = "dec\<lparr>d_offset := d_offset dec + DNS_HDR_LEN\<rparr>"
  have v: "val_dec P L M (?d1\<lparr>d_hdr := hdr\<rparr>)" using assms by (simp add: val_dec_def)
  let ?qr = "flag_set (hd_flags hdr) DNS_FLAGS_QR"
  define b where "b = (if ?qr then desc_response (hd_flags hdr) (sbuf_init (replicate 100 0)) else desc_query (hd_flags hdr) (sbuf_init (replicate 100 0)))"
  obtain buf where buf: "b = Some buf"
    using desc_flags_ok [of "sbuf_init (replicate 100 0)" 100 "hd_flags hdr"] unfolding b_def by (cases ?qr) (auto simp: sbuf_init_def elim!: returnsE)
  have e: "val_dec P L M (snd (dns_dec_err (?d1\<lparr>d_hdr := hdr\<rparr>) DNS_PDU DNS_HDR DNS_ERCODE))"
    "val_dec P L M (snd (dns_dec_err (?d1\<lparr>d_hdr := hdr\<rparr>) DNS_PDU DNS_HDR DNS_EOPCODE))"
    using dec_err_ok [OF v, of DNS_PDU DNS_HDR DNS_ERCODE] dec_err_ok [OF v, of DNS_PDU DNS_HDR DNS_EOPCODE]
    by (auto simp: DNS_PDU_def DNS_HDR_def DNS_ERCODE_def DNS_EOPCODE_def split: prod.splits)
  have desc: "returns (desc_hdr ?d1 hdr) (\<lambda>(rc, dec'). (rc = 0 \<or> rc = -1) \<and> val_dec P L M dec')"
    unfolding desc_hdr_def Let_def b_def [symmetric] buf bind.bind_lunit
    by (rule returns_mono [OF wmsg_ok]) (use v e in auto)
  have "d_need_emsg ?d1" using assms by (simp add: val_dec_def)
  then show ?thesis using False h desc pkt by (auto simp: decode_hdr_def elim!: returnsE)
qed

section \<open>Questions\<close>

lemma qd_decode_ok:
  assumes "val_dec P L M dec"
  shows "returns (dns_qd_decode dec msg) (\<lambda>(rc, dec', msg'). val_dec P L M dec' \<and> msg' = msg)"
proof -
  have d: "d_pkt_len dec \<le> length (d_pkt dec)" "0 + DNS_MSG_SIZE \<le> length (d_msg dec)" "d_pkt dec = P" "d_pkt_len dec = L" "\<not> d_load_msg dec"
    using assms by (simp_all add: val_dec_def)
  obtain rc off buf where run: "decode_name dec (Some 0) DNS_MSG_SIZE = Some (rc, dec\<lparr>d_offset := off, d_msg := buf\<rparr>)"
    and len: "length buf = length (d_msg dec)"
    and res: "(\<exists>e k t. wire_name (d_pkt dec) (d_pkt_len dec) (d_offset dec) e k t \<and> k \<le> 17 \<and> length t < DNS_MSG_SIZE \<and>
        rc = int (length t) + 1 \<and> off = e \<and> mem_read buf 0 (length t + 1) = Some (t @ [0])) \<or>
     (\<nexists>e k t. wire_name (d_pkt dec) (d_pkt_len dec) (d_offset dec) e k t \<and> k \<le> 17 \<and> length t < DNS_MSG_SIZE) \<and>
       rc \<in> {- DNS_EBADJMP, - DNS_EMAXJMP, - DNS_ENAMELEN, - DNS_EOUTLEN, - DNS_ENONULL}"
    by (rule decode_name_spec [OF d(1,2)])
  let ?d1 = "dec\<lparr>d_offset := off, d_msg := buf\<rparr>"
  have v: "val_dec P L M (?d1\<lparr>d_offset := n\<rparr>)" for n using assms len by (simp add: val_dec_def)
  have v1: "val_dec P L M ?d1" using assms len by (simp add: val_dec_def)
  have err: "case dns_dec_err ?d1 DNS_QD f ec of (e, dec') \<Rightarrow> val_dec P L M dec'" if "f \<in> {DNS_NAME, DNS_HDR}" "\<bar>ec\<bar> < 100" for f ec
    using dec_err_ok [OF v1, of DNS_QD f ec] that by (auto simp: DNS_QD_def DNS_NAME_def DNS_HDR_def split: prod.splits)
  show ?thesis
  proof (cases "rc < 0")
    case True
    then have "\<bar>rc\<bar> < 100" using res by (auto simp: dns_errors)
    then show ?thesis using run True d err [of DNS_NAME rc] by (auto simp: dns_qd_decode_def split: prod.splits)
  next
    case False
    then obtain t where t: "mem_read buf 0 (length t + 1) = Some (t @ [0])" using res by (auto simp: dns_errors)
    obtain nm where nm: "cstr_at buf 0 = Some nm" using nul_at [OF read_nul(2) [OF t] _ read_nul(1) [OF t], of 0] by auto
    show ?thesis
    proof (cases "off + 4 > L")
      case True
      then show ?thesis using run False d err [of DNS_HDR DNS_ETRUNC] by (auto simp: dns_qd_decode_def DNS_ETRUNC_def split: prod.splits)
    next
      case fits: False
      have "off + 4 \<le> length P" using fits d by simp
      then obtain x y where xy: "dec_u16 P off = Some x" "dec_u16 P (off + 2) = Some y" using dec_u16_ok [of off P] dec_u16_ok [of "off + 2" P] by auto
      have w: "returns (dns_wmsg (?d1\<lparr>d_offset := off + 4\<rparr>) s) (\<lambda>(rc, dec'). val_dec P L M dec')" for s
        by (rule returns_mono [OF wmsg_ok [OF v]]) auto
      have "d_need_emsg (?d1\<lparr>d_offset := off + 4\<rparr>)" using v by (simp add: val_dec_def)
      moreover have "returns (dns_wmsg (?d1\<lparr>d_offset := off + 4\<rparr>) s \<bind> (\<lambda>(rc, dec3). Some (rc, dec3, msg)))
          (\<lambda>(rc, dec', msg'). val_dec P L M dec' \<and> msg' = msg)" for s
        by (rule returns_bindI [OF w]) auto
      ultimately show ?thesis using run False fits d xy nm by (simp add: dns_qd_decode_def Let_def)
    qed
  qed
qed

lemma row_err_ok:
  assumes "val_dec P L M dec" and "f \<in> {DNS_QD, DNS_AN, DNS_NS, DNS_AR}" and "i < 70000"
  shows "case dns_dec_err dec DNS_PDU f (int i + DNS_EC_ISROW) of (rc, dec') \<Rightarrow> (rc = 0 \<or> rc = -1) \<and> val_dec P L M dec'"
  using dec_err_ok [OF assms(1), of DNS_PDU f "int i + DNS_EC_ISROW"] assms(2,3)
  by (auto simp: DNS_PDU_def DNS_QD_def DNS_AN_def DNS_NS_def DNS_AR_def DNS_EC_ISROW_def split: prod.splits)

lemma qd_loop_ok: "val_dec P L M dec \<Longrightarrow> i + n < 70000 \<Longrightarrow>
    returns (qd_loop n i dec msg) (\<lambda>(rc, dec', msg'). (rc = 0 \<or> rc = -1) \<and> val_dec P L M dec' \<and> msg' = msg)"
proof (induction n arbitrary: i dec)
  case (Suc n)
  obtain rc dec1 where q: "dns_qd_decode dec msg = Some (rc, dec1, msg)" "val_dec P L M dec1"
    using qd_decode_ok [OF Suc.prems(1), of msg] by (auto elim!: returnsE)
  show ?case
  proof (cases "rc = 0")
    case True
    then show ?thesis using q Suc.IH [of dec1 "i + 1"] Suc.prems by simp
  next
    case False
    then show ?thesis using q row_err_ok [OF q(2), of DNS_QD i] Suc.prems by (auto split: prod.splits)
  qed
qed simp

section \<open>Names in records\<close>

definition short_names :: "byte list \<Rightarrow> nat \<Rightarrow> bool" where
  "short_names P L \<longleftrightarrow> (\<forall>p e k t. wire_name P L p e k t \<longrightarrow> length t \<le> 255)"

definition val_core :: "byte list \<Rightarrow> nat \<Rightarrow> nat \<Rightarrow> dns_msg \<Rightarrow> rrs \<Rightarrow> bool" where
  "val_core P L M msg s \<longleftrightarrow> val_dec P L M (rs_dec s) \<and> rs_msg s = msg"

text \<open>The owner name ends below \<open>wptr\<close>, and \<open>wptr\<close> is at most \<open>b\<close>.\<close>

definition val_at :: "byte list \<Rightarrow> nat \<Rightarrow> nat \<Rightarrow> dns_msg \<Rightarrow> nat \<Rightarrow> rrs \<Rightarrow> bool" where
  "val_at P L M msg b s \<longleftrightarrow> val_core P L M msg s \<and> rs_wptr s \<le> b \<and> (\<exists>z < rs_wptr s. d_msg (rs_dec s) ! z = 0) \<and>
     (rs_name s = Inr 0 \<or> (\<exists>l. rs_name s = Inl l))"

definition ret_ok :: "byte list \<Rightarrow> nat \<Rightarrow> nat \<Rightarrow> dns_msg \<Rightarrow> ret \<Rightarrow> bool" where
  "ret_ok P L M msg r = (case r of (rc, dec, msg') \<Rightarrow> val_dec P L M dec \<and> msg' = msg)"

lemma ret_err_ok:
  assumes "val_core P L M msg s" and "f \<in> {0..<22}" and "\<bar>ec\<bar> < 100"
  shows "flow_ok (ret_ok P L M msg) Q (ret_err DNS_RR f ec s)"
  using dec_err_ok [of P L M "rs_dec s" DNS_RR f ec] assms
  by (auto simp: ret_err_def flow_ok_def ret_ok_def val_core_def DNS_RR_def split: prod.splits)

lemma get_name_val:
  assumes "val_core P L M msg s" and "rs_wptr s \<le> DNS_MSG_SIZE" and "short_names P L" and "loc \<in> {0..<22}"
  shows "flow_ok (ret_ok P L M msg) (\<lambda>s'. val_core P L M msg s' \<and> rs_wptr s' = rs_wptr s \<and> rs_name s' = rs_name s \<and> rs_desc s' = rs_desc s \<and>
      take (rs_wptr s) (d_msg (rs_dec s')) = take (rs_wptr s) (d_msg (rs_dec s)) \<and> 0 < rs_rc s' \<and> rs_rc s' \<le> 255 \<and>
      rs_wptr s + nat (rs_rc s') < DNS_MSG_SIZE \<and> d_msg (rs_dec s') ! (rs_wptr s + nat (rs_rc s')) = 0) (get_name loc s)"
proof -
  have d: "d_pkt_len (rs_dec s) \<le> length (rs_pkt s)" "length (d_msg (rs_dec s)) = DNS_MSG_SIZE" "rs_pkt s = P" "d_pkt_len (rs_dec s) = L"
    using assms(1) by (simp_all add: val_core_def val_dec_def)
  have v: "val_core P L M msg (s\<lparr>rs_dec := (rs_dec s)\<lparr>d_offset := off, d_msg := b\<rparr>, rs_rc := r\<rparr>)" if "length b = DNS_MSG_SIZE" for off b r
    using assms(1) that by (simp add: val_core_def val_dec_def)
  show ?thesis
  proof (cases rule: get_name_cases [OF d(1,2) assms(2), of loc])
    case (1 rc off buf)
    then show ?thesis using ret_err_ok [OF v [of buf] assms(4), of "- rc"] by simp
  next
    case (2 off buf)
    then show ?thesis using v [where b = buf and off = off] by (simp add: ret_rc_def flow_ok_def ret_ok_def val_core_def)
  next
    case (3 off buf rc e k t)
    then have "rc \<le> 255" using assms(3) d by (fastforce simp: short_names_def)
    then show ?thesis using 3 v [where b = buf and off = off and r = rc] by simp
  qed
qed

section \<open>Record data\<close>

definition done_val :: "byte list \<Rightarrow> nat \<Rightarrow> nat \<Rightarrow> dns_msg \<Rightarrow> rrs \<Rightarrow> bool" where
  "done_val P L M msg s \<longleftrightarrow> val_core P L M msg s \<and> (\<exists>t. rs_string (rs_name s) s = Some t) \<and> (\<exists>t. rs_string (rs_desc s) s = Some t)"

lemma owner_kept: "take w m' = take w m \<Longrightarrow> \<exists>z < w. m ! z = 0 \<Longrightarrow> w \<le> length m \<Longrightarrow> \<exists>z < w. m' ! z = (0 :: byte)"
  by (metis nth_take)

lemma owner_string: "val_at P L M msg b s \<Longrightarrow> b \<le> DNS_MSG_SIZE \<Longrightarrow> \<exists>t. rs_string (rs_name s) s = Some t"
  using nul_at [of "d_msg (rs_dec s)" _ 0] by (fastforce simp: val_at_def val_core_def val_dec_def rs_string_def)

text \<open>Printing into the scratch buffer moves \<open>wptr\<close> by the length of the text, which ends with a NUL there.\<close>

lemma sprint_val:
  assumes "val_at P L M msg b s" and "b + length t < DNS_MSG_SIZE"
  shows "returns (sprint t s) (\<lambda>s'. val_at P L M msg (b + length t) s' \<and> rs_wptr s' = rs_wptr s + length t \<and> rs_offset s' = rs_offset s \<and>
     d_msg (rs_dec s') ! rs_wptr s' = 0)"
proof -
  let ?m = "d_msg (rs_dec s)"
  have l: "length ?m = DNS_MSG_SIZE" using assms(1) by (simp add: val_at_def val_core_def val_dec_def)
  have w: "rs_wptr s \<le> b" using assms(1) by (simp add: val_at_def)
  then have p: "rs_wptr s < length ?m" using assms(2) l by simp
  have av: "rs_avail s = length ?m - rs_wptr s" using p l by simp
  obtain m' where m: "snprintf_at ?m (rs_wptr s) (rs_avail s) t = Some (length t, m')" "length m' = length ?m"
      "take (rs_wptr s) m' = take (rs_wptr s) ?m" "m' ! (rs_wptr s + length t) = 0"
    using snprintf_nul [OF p, of t] w assms(2) l unfolding av by (auto elim!: returnsE)
  have "\<exists>z < rs_wptr s. m' ! z = 0" using owner_kept [OF m(3)] assms(1) p by (simp add: val_at_def)
  then have "\<exists>z < rs_wptr s + length t. m' ! z = 0" by (meson trans_less_add1)
  then show ?thesis using m assms(1) l w by (auto simp: sprint_def val_at_def val_core_def val_dec_def)
qed

lemma desc_val:
  assumes "val_at P L M msg b s" and "b + length t < DNS_MSG_SIZE"
  shows "flow_ok R (\<lambda>s'. val_at P L M msg (b + length t) s' \<and> rs_offset s' = rs_offset s \<and> d_msg (rs_dec s') ! rs_wptr s' = 0 \<and>
    rs_wptr s \<le> rs_wptr s') (desc t s)"
proof -
  have "d_need_emsg (rs_dec s)" using assms(1) by (simp add: val_at_def val_core_def val_dec_def)
  then show ?thesis using sprint_val [OF assms] by (auto simp: desc_def elim!: returnsE)
qed

lemma store_name_val: "val_core P L M msg s \<Longrightarrow> store_name q put s = Some (Inr s)"
  by (simp add: store_name_def val_core_def val_dec_def)

lemma advance_more [simp]: "rs_msg (advance s) = rs_msg s" "rs_name (advance s) = rs_name s"
  by (simp_all add: advance_def)

lemma name_val:
  assumes "val_at P L M msg b s" and "b \<le> DNS_MSG_SIZE" and "short_names P L" and "loc \<in> {0..<22}"
  shows "flow_ok (ret_ok P L M msg) (\<lambda>s'. val_core P L M msg s' \<and> val_at P L M msg (b + 255) (advance s') \<and> rs_wptr s' = rs_wptr s \<and>
     d_msg (rs_dec s') ! rs_wptr (advance s') = 0 \<and> rs_wptr (advance s') < DNS_MSG_SIZE) (get_name loc s)"
proof -
  have w: "rs_wptr s \<le> b" "val_core P L M msg s" "\<exists>z < rs_wptr s. d_msg (rs_dec s) ! z = 0" "length (d_msg (rs_dec s)) = DNS_MSG_SIZE"
    using assms(1) by (auto simp: val_at_def val_core_def val_dec_def)
  have le: "rs_wptr s \<le> DNS_MSG_SIZE" using w assms(2) by simp
  show ?thesis
  proof (rule flow_ok_mono [OF get_name_val [OF w(2) le assms(3,4)]], goal_cases)
    case (1 s')
    then have "\<exists>z < rs_wptr s. d_msg (rs_dec s') ! z = 0" using owner_kept [of "rs_wptr s"] w le by simp
    then have z: "\<exists>z < rs_wptr s + nat (rs_rc s'). d_msg (rs_dec s') ! z = 0" by (meson trans_less_add1)
    have n: "nat (rs_rc s') \<le> 255" "rs_wptr s + nat (rs_rc s') \<le> b + 255" using 1 w by auto
    show ?case using 1 n z assms(1) by (auto simp: val_at_def val_core_def)
  qed
qed

lemma done_at:
  assumes "val_at P L M msg b s" and "d_msg (rs_dec s) ! rs_wptr s = 0" and "rs_wptr s < DNS_MSG_SIZE" and "w \<le> rs_wptr s"
  shows "done_val P L M msg (s\<lparr>rs_desc := Inr w\<rparr>)"
proof -
  have l: "length (d_msg (rs_dec s)) = DNS_MSG_SIZE" using assms(1) by (simp add: val_at_def val_core_def val_dec_def)
  obtain z where "z < rs_wptr s" "d_msg (rs_dec s) ! z = 0" using assms(1) by (auto simp: val_at_def)
  then have "\<exists>t. cstr_at (d_msg (rs_dec s)) 0 = Some t" using nul_at [of "d_msg (rs_dec s)" z 0] assms(3) l by auto
  moreover have "\<exists>t. cstr_at (d_msg (rs_dec s)) w = Some t" using nul_at [OF assms(2,4)] assms(3) l by auto
  ultimately show ?thesis using assms(1) by (auto simp: done_val_def val_at_def val_core_def rs_string_def)
qed

lemma rrd_name_val:
  assumes "val_at P L M msg 256 s" and "short_names P L" and "loc \<in> {0..<22}"
  shows "flow_ok (ret_ok P L M msg) (done_val P L M msg) (rrd_name loc f sc s)"
  unfolding rrd_name_def
proof (rule flow_ok_andthen [OF name_val [OF assms(1) _ assms(2,3)]], goal_cases)
  case 1
  then show ?case by (simp add: DNS_MSG_SIZE_def)
next
  case (2 s1)
  have "done_val P L M msg ((advance s1)\<lparr>rs_desc := Inr (rs_wptr s)\<rparr>)" using 2 by (intro done_at) auto
  then show ?case using 2 store_name_val [of P L M msg s1] by (simp add: andthen_def)
qed

lemma val_flags: "val_core P L M msg s \<Longrightarrow> \<not> d_load_msg (rs_dec s) \<and> d_need_emsg (rs_dec s) \<and> rs_pkt s = P \<and> d_pkt_len (rs_dec s) = L \<and>
    L + 16 \<le> length P \<and> length (d_msg (rs_dec s)) = DNS_MSG_SIZE"
  by (simp add: val_core_def val_dec_def)

lemma at_core: "val_at P L M msg b s \<Longrightarrow> val_core P L M msg s"
  by (simp add: val_at_def)

lemma val_set_offset [simp]: "val_at P L M msg b (set_offset n s) = val_at P L M msg b s" "val_core P L M msg (set_offset n s) = val_core P L M msg s"
  by (simp_all add: val_at_def val_core_def val_dec_def set_offset_def)

lemma val_mono: "val_at P L M msg b s \<Longrightarrow> b \<le> b' \<Longrightarrow> val_at P L M msg b' s"
  by (simp add: val_at_def)

lemma length_digits: "unat v < 10 ^ 10 \<Longrightarrow> length (dec_digits (unat v)) \<le> 10"
  using length_dec_digits [of "unat v" 10] by simp

lemma length_digits_u32: "length (dec_digits (unat v)) \<le> 10" for v :: u32
  using length_digits [of v] unsigned_less [of v, where ?'a = nat] by simp

lemma length_digits_u16: "length (dec_digits (unat v)) \<le> 10" for v :: u16
  using length_digits [of v] unsigned_less [of v, where ?'a = nat] by simp

lemma length_digits_u8: "length (dec_digits (unat v)) \<le> 10" for v :: u8
  using length_digits [of v] unsigned_less [of v, where ?'a = nat] by simp

lemma addr_desc_val:
  assumes "val_at P L M msg 256 s" and "r \<le> L"
  shows "flow_ok R (done_val P L M msg) (do {
          a \<leftarrow> mem_read (rs_pkt s) r 4;
          (n, buf) \<leftarrow> ip4_str_encode a (d_msg (rs_dec s)) (rs_wptr s) (rs_avail s);
          let s3 = s\<lparr>rs_dec := (rs_dec s)\<lparr>d_msg := buf\<rparr>\<rparr>;
          if n = 0 then Some (Inr (s3\<lparr>rs_wptr := rs_wptr s3 + 3, rs_desc := Inl (str ''???'')\<rparr>))
          else do {
            t \<leftarrow> cstr_at buf (rs_wptr s3);
            Some (Inr (s3\<lparr>rs_wptr := rs_wptr s3 + length t, rs_desc := Inr (rs_wptr s3)\<rparr>)) } })"
proof -
  let ?m = "d_msg (rs_dec s)" and ?w = "rs_wptr s"
  note f = val_flags [OF at_core [OF assms(1)]]
  have w: "?w \<le> 256" "\<exists>z < ?w. ?m ! z = 0" using assms(1) by (auto simp: val_at_def)
  obtain a where a: "mem_read P r 4 = Some a" using f assms(2) by (simp add: mem_read_SomeI)
  let ?t = "ip4_text a @ [0]"
  have l: "?w + length ?t \<le> length ?m" using length_ip4_text [of a] w f by (simp add: DNS_MSG_SIZE_def)
  let ?b = "take ?w ?m @ ?t @ drop (?w + length ?t) ?m"
  have e: "ip4_str_encode a ?m ?w (rs_avail s) = Some (length (ip4_text a), ?b)"
    using w f l by (simp add: ip4_str_encode_def mem_write_SomeI DNS_MSG_SIZE_def)
  have n: "?b ! (?w + length (ip4_text a)) = 0" "?w + length (ip4_text a) < length ?b" using l by (simp_all add: nth_append)
  obtain t where t: "cstr_at ?b ?w = Some t" using nul_at [OF n(1) _ n(2), of ?w] by auto
  have "\<exists>z < ?w. ?b ! z = 0" using owner_kept [of ?w ?b ?m] w l by simp
  then obtain z where z: "z < ?w" "?b ! z = 0" by blast
  obtain u where u: "cstr_at ?b 0 = Some u" using nul_at [OF z(2) _, of 0] z(1) n(2) by auto
  have v: "val_core P L M msg (s\<lparr>rs_dec := (rs_dec s)\<lparr>d_msg := ?b\<rparr>, rs_wptr := x, rs_desc := d\<rparr>)" for x d
    using at_core [OF assms(1)] f l by (simp add: val_core_def val_dec_def)
  have nm: "rs_name s = Inr 0 \<or> (\<exists>l. rs_name s = Inl l)" using assms(1) by (simp add: val_at_def)
  have "done_val P L M msg (s\<lparr>rs_dec := (rs_dec s)\<lparr>d_msg := ?b\<rparr>, rs_wptr := x, rs_desc := Inr ?w\<rparr>)"
    "done_val P L M msg (s\<lparr>rs_dec := (rs_dec s)\<lparr>d_msg := ?b\<rparr>, rs_wptr := x, rs_desc := Inl y\<rparr>)" for x y
    using v u t nm unfolding done_val_def by (auto simp: rs_string_def)
  moreover have "ip4_text a \<noteq> []" by (simp add: ip4_text_def)
  ultimately show ?thesis using a e t f by (simp add: Let_def del: append_assoc)
qed

lemma rrd_a_val:
  assumes "val_at P L M msg 256 s" and "rs_offset s \<le> L"
  shows "flow_ok (ret_ok P L M msg) (done_val P L M msg) (rrd_a sc n s)"
proof (cases "n = 4")
  case False
  then show ?thesis using ret_err_ok [OF at_core [OF assms(1)], of DNS_A DNS_ERDATALEN] by (simp add: rrd_a_def DNS_A_def DNS_ERDATALEN_def)
next
  case True
  note f = val_flags [OF at_core [OF assms(1)]]
  have "val_at P L M msg 256 (set_offset (rs_offset s + 4) s)" using assms(1) by simp
  from addr_desc_val [OF this assms(2)] show ?thesis using f True by (simp add: rrd_a_def Let_def)
qed

lemma rrd_aaaa_val:
  assumes "val_at P L M msg 256 s" and "rs_offset s \<le> L"
  shows "flow_ok (ret_ok P L M msg) (done_val P L M msg) (rrd_aaaa sc n s)"
proof (cases "n = 16")
  case False
  then show ?thesis using ret_err_ok [OF at_core [OF assms(1)], of DNS_AAAA DNS_ERDATALEN] by (simp add: rrd_aaaa_def DNS_AAAA_def DNS_ERDATALEN_def)
next
  case True
  note f = val_flags [OF at_core [OF assms(1)]]
  have "val_at P L M msg 256 (set_offset (rs_offset s + 16) s)" using assms(1) by simp
  from addr_desc_val [OF this assms(2)] show ?thesis using f True by (simp add: rrd_aaaa_def Let_def)
qed

text \<open>A description followed by a name: MX and SRV.\<close>

lemma numbered_name_val:
  assumes "val_at P L M msg 256 s" and "short_names P L" and "loc \<in> {0..<22}" and "length tx \<le> 200"
  shows "flow_ok (ret_ok P L M msg) (done_val P L M msg)
    (andthen (desc tx (set_offset n s)) (\<lambda>s1.
     andthen (get_name loc s1) (\<lambda>s2.
     andthen (store_name (rs_wptr s2) (\<lambda>p. put_rdata sc (f p)) s2) (\<lambda>s3.
     Some (Inr ((advance s3)\<lparr>rs_desc := Inr (rs_wptr s)\<rparr>))))))"
proof -
  have a: "val_at P L M msg 256 (set_offset n s)" "256 + length tx < DNS_MSG_SIZE" using assms(1,4) by (simp_all add: DNS_MSG_SIZE_def)
  show ?thesis
  proof (rule flow_ok_andthen [OF desc_val [OF a]], goal_cases)
    case (1 s1)
    then have b: "val_at P L M msg (256 + length tx) s1" "256 + length tx \<le> DNS_MSG_SIZE" "rs_wptr s \<le> rs_wptr s1" using a(2) by simp_all
    show ?case
    proof (rule flow_ok_andthen [OF name_val [OF b(1,2) assms(2,3)]], goal_cases)
      case (1 s2)
      have "done_val P L M msg ((advance s2)\<lparr>rs_desc := Inr (rs_wptr s)\<rparr>)" using 1 b(3) by (intro done_at) auto
      then show ?case using 1 store_name_val [of P L M msg s2] by (simp add: andthen_def)
    qed
  qed
qed

lemma rrd_mx_val:
  assumes "val_at P L M msg 256 s" and "rs_offset s \<le> L" and "short_names P L"
  shows "flow_ok (ret_ok P L M msg) (done_val P L M msg) (rrd_mx sc n s)"
proof -
  note f = val_flags [OF at_core [OF assms(1)]]
  obtain v where v: "dec_u16 P (rs_offset s) = Some v" using dec_u16_ok [of "rs_offset s" P] assms(2) f by auto
  have "length (str ''pref '' @ dec_digits (unat v) @ [32]) \<le> 200" using length_digits_u16 [of v] by simp
  then show ?thesis
    using v f numbered_name_val [OF assms(1,3), of DNS_MX "str ''pref '' @ dec_digits (unat v) @ [32]"]
      ret_err_ok [OF at_core [OF assms(1)], of DNS_MX DNS_ERDATALEN "done_val P L M msg"]
    by (simp add: rrd_mx_def DNS_MX_def DNS_ERDATALEN_def)
qed

lemma rrd_srv_val:
  assumes "val_at P L M msg 256 s" and "rs_offset s \<le> L" and "short_names P L"
  shows "flow_ok (ret_ok P L M msg) (done_val P L M msg) (rrd_srv sc n s)"
proof -
  note f = val_flags [OF at_core [OF assms(1)]]
  obtain u v w where v: "dec_u16 P (rs_offset s) = Some u" "dec_u16 P (rs_offset s + 2) = Some v" "dec_u16 P (rs_offset s + 4) = Some w"
    using dec_u16_ok [of "rs_offset s" P] dec_u16_ok [of "rs_offset s + 2" P] dec_u16_ok [of "rs_offset s + 4" P] assms(2) f by auto
  let ?t = "str ''Priority '' @ dec_digits (unat u) @ str '' Weight '' @ dec_digits (unat v) @ str '' port '' @ dec_digits (unat w) @ [32]"
  have "length ?t \<le> 200" using length_digits_u16 [of u] length_digits_u16 [of v] length_digits_u16 [of w] by simp
  then show ?thesis
    using v f numbered_name_val [OF assms(1,3), of DNS_SRV ?t] ret_err_ok [OF at_core [OF assms(1)], of DNS_SRV DNS_ERDATALEN "done_val P L M msg"]
    by (simp add: rrd_srv_def DNS_SRV_def DNS_ERDATALEN_def)
qed

section \<open>SOA, HINFO and OPT\<close>

lemma soa_desc_val:
  "val_at P L M msg b s \<Longrightarrow> b + 22 * length vs < DNS_MSG_SIZE \<Longrightarrow> \<forall>(nm, v) \<in> set vs. length nm \<le> 10 \<Longrightarrow>
   d_msg (rs_dec s) ! rs_wptr s = 0 \<or> vs \<noteq> [] \<Longrightarrow>
   flow_ok R (\<lambda>s'. val_at P L M msg (b + 22 * length vs) s' \<and> rs_offset s' = rs_offset s \<and> rs_wptr s \<le> rs_wptr s' \<and>
     d_msg (rs_dec s') ! rs_wptr s' = 0) (soa_desc vs s)"
proof (induction vs arbitrary: b s)
  case (Cons x vs)
  obtain nm v where x: "x = (nm, v)" by (cases x)
  let ?t = "[32] @ str nm @ [61] @ dec_digits (unat v)"
  have t: "length ?t \<le> 22" using Cons.prems(3) x length_digits_u32 [of v] by simp
  have l: "b + length ?t < DNS_MSG_SIZE" using t Cons.prems(2) by simp
  show ?case unfolding x soa_desc.simps
  proof (rule flow_ok_andthen [OF desc_val [OF Cons.prems(1) l]], goal_cases)
    case (1 s1)
    have v: "val_at P L M msg (b + 22) s1" using 1 t val_mono by fastforce
    show ?case by (rule flow_ok_mono [OF Cons.IH [OF v]]) (use 1 Cons.prems in \<open>auto simp: add.assoc\<close>)
  qed
qed simp

lemma soa_ints_val:
  assumes "val_at P L M msg 900 s" and "rd_end \<le> L" and "w \<le> rs_wptr s"
  shows "flow_ok (ret_ok P L M msg) (done_val P L M msg) (soa_ints sc rd_end w mp rp s)"
proof (cases "rs_offset s + 20 > rd_end")
  case True
  then show ?thesis using ret_err_ok [OF at_core [OF assms(1)], of DNS_SOA DNS_ERDATALEN "done_val P L M msg"]
    by (simp add: soa_ints_def DNS_SOA_def DNS_ERDATALEN_def)
next
  case False
  note f = val_flags [OF at_core [OF assms(1)]]
  have "rs_offset s + 20 \<le> length P" using False assms(2) f by simp
  then obtain v0 v1 v2 v3 v4 where v: "dec_u32 P (rs_offset s) = Some v0" "dec_u32 P (rs_offset s + 4) = Some v1"
    "dec_u32 P (rs_offset s + 8) = Some v2" "dec_u32 P (rs_offset s + 12) = Some v3" "dec_u32 P (rs_offset s + 16) = Some v4"
    using dec_u32_ok [of "rs_offset s" P] dec_u32_ok [of "rs_offset s + 4" P] dec_u32_ok [of "rs_offset s + 8" P]
      dec_u32_ok [of "rs_offset s + 12" P] dec_u32_ok [of "rs_offset s + 16" P] by auto
  let ?vs = "[(''serial'', v0), (''refresh'', v1), (''retry'', v2), (''expire'', v3), (''min_ttl'', v4)]"
  let ?s = "set_offset (rs_offset s + 20) s"
  have sd: "flow_ok (ret_ok P L M msg) (\<lambda>s'. val_at P L M msg (900 + 22 * length ?vs) s' \<and> rs_offset s' = rs_offset ?s \<and>
      rs_wptr ?s \<le> rs_wptr s' \<and> d_msg (rs_dec s') ! rs_wptr s' = 0) (soa_desc ?vs ?s)"
    by (rule soa_desc_val) (use assms(1) in \<open>simp_all add: DNS_MSG_SIZE_def\<close>)
  have "flow_ok (ret_ok P L M msg) (done_val P L M msg) (andthen (soa_desc ?vs ?s) (\<lambda>s1.
        Some (Inr ((if d_load_msg (rs_dec s1) then s1\<lparr>rs_msg := put_rdata sc (RD_SOA mp rp v0 v1 v2 v3 v4) (rs_msg s1)\<rparr>
                    else s1)\<lparr>rs_desc := Inr w\<rparr>))))"
  proof (rule flow_ok_andthen [OF sd], goal_cases)
    case (1 s1)
    then have "rs_wptr s1 \<le> 1010" by (simp add: val_at_def)
    then have "rs_wptr s1 < DNS_MSG_SIZE" by (simp add: DNS_MSG_SIZE_def)
    moreover have "w \<le> rs_wptr s1" using 1 assms(3) by simp
    moreover have "\<not> d_load_msg (rs_dec s1)" using 1 val_flags [OF at_core] by blast
    ultimately show ?case using 1 done_at [of P L M msg _ s1 w] by auto
  qed
  then show ?thesis using False v f by (simp add: soa_ints_def)
qed

lemma rrd_soa_val:
  assumes "val_at P L M msg 256 s" and "rd_end \<le> L" and "short_names P L"
  shows "flow_ok (ret_ok P L M msg) (done_val P L M msg) (rrd_soa sc rd_end s)"
proof -
  have loc: "DNS_SOA \<in> {0..<22}" by (simp add: DNS_SOA_def)
  have rname: "flow_ok (ret_ok P L M msg) (done_val P L M msg) (soa_rname sc rd_end (rs_wptr s) mp s1)"
    if "val_at P L M msg 600 s1" "rs_wptr s \<le> rs_wptr s1" for s1 mp
    unfolding soa_rname_def
  proof (rule flow_ok_andthen [OF desc_val [OF that(1)]], simp add: DNS_MSG_SIZE_def, goal_cases)
    case (1 s2)
    then have v: "val_at P L M msg (600 + length (str '' RNAME='')) s2" "600 + length (str '' RNAME='') \<le> DNS_MSG_SIZE"
      by (simp_all add: DNS_MSG_SIZE_def)
    show ?case
    proof (rule flow_ok_andthen [OF name_val [OF v assms(3) loc]], goal_cases)
      case (1 s3)
      have v3: "val_at P L M msg 900 (advance s3)" using 1 by (auto intro: val_mono)
      have "rs_wptr s \<le> rs_wptr (advance s3)" using 1 that(2) \<open>_ \<and> _ \<and> _ \<and> rs_wptr s1 \<le> rs_wptr s2\<close> by simp
      from soa_ints_val [OF v3 assms(2) this] show ?case
        using val_flags [of P L M msg s3] 1 by (simp add: store_local_def)
    qed
  qed
  show ?thesis unfolding rrd_soa_def
  proof (rule flow_ok_andthen [OF desc_val [OF assms(1)]], simp add: DNS_MSG_SIZE_def, goal_cases)
    case (1 s1)
    then have v: "val_at P L M msg (256 + length (str ''MNAME='')) s1" "256 + length (str ''MNAME='') \<le> DNS_MSG_SIZE"
      by (simp_all add: DNS_MSG_SIZE_def)
    show ?case
    proof (rule flow_ok_andthen [OF name_val [OF v assms(3) loc]], goal_cases)
      case (1 s2)
      have "val_at P L M msg 600 (advance s2)" using 1 by (auto intro: val_mono)
      moreover have "rs_wptr s \<le> rs_wptr (advance s2)" using 1 \<open>_ \<and> _ \<and> _ \<and> rs_wptr s \<le> rs_wptr s1\<close> by simp
      ultimately show ?case using rname store_name_val [of P L M msg s2] 1 by (simp add: andthen_def)
    qed
  qed
qed

lemma store_str_val: "val_core P L M msg s \<Longrightarrow> store_str bs put s = Some (Inr s)"
  by (simp add: store_str_def val_core_def val_dec_def)

lemma hinfo_str_val:
  assumes "val_at P L M msg b s" and "rs_offset s \<le> L" and "rd_end \<le> L" and "b + 300 < DNS_MSG_SIZE" and "length tag \<le> 10"
  shows "flow_ok (ret_ok P L M msg) (\<lambda>s'. val_at P L M msg (b + 265) s' \<and> rs_offset s' \<le> rd_end \<and> rs_wptr s \<le> rs_wptr s' \<and>
     d_msg (rs_dec s') ! rs_wptr s' = 0) (hinfo_str tag put rd_end s)"
proof -
  note f = val_flags [OF at_core [OF assms(1)]]
  define len where "len = unat (P ! rs_offset s)"
  have g: "mem_get P (rs_offset s) = Some (P ! rs_offset s)" using assms(2) f by (simp add: mem_get_def)
  show ?thesis
  proof (cases "rs_offset s + 1 + len > rd_end")
    case True
    have "val_core P L M msg (set_offset (rs_offset s + 1) s)" using assms(1) by (simp add: at_core)
    then show ?thesis using ret_err_ok [of P L M msg "set_offset (rs_offset s + 1) s" DNS_HINFO DNS_ERDATALEN] True g f
      by (simp add: hinfo_str_def len_def Let_def DNS_HINFO_def DNS_ERDATALEN_def)
  next
    case False
    let ?s = "set_offset (rs_offset s + 1) s"
    have r: "mem_read P (rs_offset s + 1) len = Some (take len (drop (rs_offset s + 1) P))" using False assms(3) f by (simp add: mem_read_SomeI)
    define bs where "bs = take len (drop (rs_offset s + 1) P)"
    have "len < 256" unfolding len_def by (rule unat_u8_less)
    then have t: "length (str tag @ cstr_of bs) \<le> 265" using length_cstr_of [of bs] assms(5) by (simp add: bs_def)
    have a: "val_at P L M msg b ?s" "b + length (str tag @ cstr_of bs) < DNS_MSG_SIZE" using assms(1,4) t by simp_all
    have "flow_ok (ret_ok P L M msg) (\<lambda>s'. val_at P L M msg (b + 265) s' \<and> rs_offset s' \<le> rd_end \<and> rs_wptr s \<le> rs_wptr s' \<and>
        d_msg (rs_dec s') ! rs_wptr s' = 0) (andthen (desc (str tag @ cstr_of bs) ?s) (\<lambda>s2.
          andthen (store_str bs put s2) (\<lambda>s3. Some (Inr (set_offset (rs_offset s3 + len) s3)))))"
    proof (rule flow_ok_andthen [OF desc_val [OF a]], goal_cases)
      case (1 s1)
      then have "val_at P L M msg (b + 265) s1" using t val_mono by fastforce
      then show ?case using 1 False store_str_val [OF at_core] by (simp add: andthen_def)
    qed
    then show ?thesis using g r f False by (simp add: hinfo_str_def len_def [symmetric] Let_def bs_def)
  qed
qed

lemma rrd_hinfo_val:
  assumes "val_at P L M msg 256 s" and "rs_offset s \<le> L" and "rd_end \<le> L"
  shows "flow_ok (ret_ok P L M msg) (done_val P L M msg) (rrd_hinfo sc n rd_end s)"
proof (cases "n < 2")
  case True
  then show ?thesis using ret_err_ok [OF at_core [OF assms(1)], of DNS_HINFO DNS_ERDATALEN "done_val P L M msg"]
    by (simp add: rrd_hinfo_def DNS_HINFO_def DNS_ERDATALEN_def)
next
  case False
  have "flow_ok (ret_ok P L M msg) (done_val P L M msg) (andthen (hinfo_str '' cpu='' (put_cpu sc) rd_end s) (\<lambda>s1.
        if rs_offset s1 \<ge> rd_end then ret_err DNS_RR DNS_HINFO DNS_ERDATALEN s1
        else andthen (hinfo_str '' os-str='' (put_os sc) rd_end s1) (\<lambda>s2. Some (Inr (s2\<lparr>rs_desc := Inr (rs_wptr s)\<rparr>)))))"
  proof (rule flow_ok_andthen [OF hinfo_str_val [OF assms]], goal_cases)
    case (3 s1)
    then have v: "val_at P L M msg (256 + 265) s1" "rs_offset s1 \<le> L" using assms(3) by simp_all
    show ?case
    proof (cases "rs_offset s1 \<ge> rd_end")
      case True
      then show ?thesis using ret_err_ok [OF at_core [OF v(1)], of DNS_HINFO DNS_ERDATALEN "done_val P L M msg"]
        by (simp add: DNS_HINFO_def DNS_ERDATALEN_def)
    next
      case False
      have "flow_ok (ret_ok P L M msg) (done_val P L M msg)
          (andthen (hinfo_str '' os-str='' (put_os sc) rd_end s1) (\<lambda>s2. Some (Inr (s2\<lparr>rs_desc := Inr (rs_wptr s)\<rparr>))))"
      proof (rule flow_ok_andthen [OF hinfo_str_val [OF v assms(3)]], goal_cases)
        case (3 s2)
        then have "rs_wptr s2 < DNS_MSG_SIZE" by (simp add: val_at_def DNS_MSG_SIZE_def)
        then show ?case using 3 done_at [of P L M msg _ s2 "rs_wptr s"] \<open>_ \<and> _ \<and> rs_wptr s \<le> rs_wptr s1 \<and> _\<close> by auto
      qed (simp_all add: DNS_MSG_SIZE_def)
      then show ?thesis using False by simp
    qed
  qed (simp_all add: DNS_MSG_SIZE_def)
  then show ?thesis using False by (simp add: rrd_hinfo_def)
qed

lemma rrd_opt_val:
  assumes "val_at P L M msg 256 s"
  shows "flow_ok (ret_ok P L M msg) (done_val P L M msg) (rrd_opt sc cls ttl rd_end s)"
proof (cases "sect_code sc = DNS_AR")
  case False
  then show ?thesis using ret_err_ok [OF at_core [OF assms], of DNS_OPT DNS_EMSGFMT "done_val P L M msg"]
    by (simp add: rrd_opt_def DNS_OPT_def DNS_EMSGFMT_def)
next
  case True
  obtain udp ext ver dob z where o: "opt_fields cls ttl = (udp, ext, ver, dob, z)" by (cases "opt_fields cls ttl")
  note f = val_flags [OF at_core [OF assms]]
  let ?tx = "str ''UDP-size:'' @ dec_digits (unat udp) @ str '' Ext-RCODE:'' @ dec_digits (unat ext) @
     str '' EDNS0:'' @ dec_digits (unat ver) @ str '' DNSEC-OK:'' @ (if dob then str ''1'' else str ''0'')"
  define s2 where "s2 = (if d_msg (rs_dec s) ! 0 = 46 then s\<lparr>rs_name := Inl (str ''<Root>'')\<rparr> else s)"
  have v: "val_at P L M msg 256 s2" using assms by (auto simp: s2_def val_at_def val_core_def)
  have t: "256 + length ?tx < DNS_MSG_SIZE"
    using length_digits_u16 [of udp] length_digits_u8 [of ext] length_digits_u8 [of ver] by (simp add: DNS_MSG_SIZE_def)
  obtain s3 where s3: "sprint ?tx s2 = Some s3" "val_at P L M msg (256 + length ?tx) s3" "rs_wptr s3 = rs_wptr s2 + length ?tx"
      "d_msg (rs_dec s3) ! rs_wptr s3 = 0"
    using sprint_val [OF v t] by (auto elim!: returnsE)
  let ?s4 = "s3\<lparr>rs_dec := (rs_dec s3)\<lparr>d_got_edns := True, d_udp_size := unat udp, d_ext_rcode := ext, d_edns_ver := ver,
      d_dnssec_ok := dob, d_offset := rd_end\<rparr>\<rparr>"
  have v4: "val_at P L M msg (256 + length ?tx) ?s4" using s3(2) by (simp add: val_at_def val_core_def val_dec_def)
  have w4: "rs_wptr ?s4 < DNS_MSG_SIZE" using s3(2) t by (simp add: val_at_def)
  have "done_val P L M msg (?s4\<lparr>rs_desc := Inr (rs_wptr s2)\<rparr>)" by (rule done_at [OF v4 _ w4]) (use s3 in simp_all)
  moreover have "mem_get (d_msg (rs_dec s)) 0 = Some (d_msg (rs_dec s) ! 0)" using f by (simp add: mem_get_def DNS_MSG_SIZE_def)
  ultimately show ?thesis using True o f s3(1) by (simp add: rrd_opt_def andthen_def Let_def s2_def [symmetric])
qed

lemma rr_switch_val:
  assumes "val_at P L M msg 256 s" and "rs_offset s \<le> L" and "rd_end \<le> L" and "short_names P L" and "t \<noteq> DNS_TYPE_TXT"
    and "rs_desc s = Inl []"
  shows "flow_ok (ret_ok P L M msg) (done_val P L M msg) (rr_switch sc t cls ttl rdlen rd_end s)"
proof -
  have "\<exists>t. rs_string (rs_name s) s = Some t" by (rule owner_string [OF assms(1)]) (simp add: DNS_MSG_SIZE_def)
  then have "done_val P L M msg (set_offset n s)" for n
    using at_core [OF assms(1)] assms(6) by (auto simp: done_val_def rs_string_def set_offset_def val_core_def val_dec_def split: sum.splits)
  then show ?thesis
    unfolding rr_switch_def
    using rrd_a_val [OF assms(1,2)] rrd_name_val [OF assms(1,4)] rrd_soa_val [OF assms(1,3,4)] rrd_hinfo_val [OF assms(1-3)]
      rrd_mx_val [OF assms(1,2,4)] rrd_aaaa_val [OF assms(1,2)] rrd_srv_val [OF assms(1,2,4)] rrd_opt_val [OF assms(1)] assms(5)
    by (simp add: DNS_TNS_def DNS_CNAME_def)
qed

lemma rr_finish_val:
  assumes "done_val P L M msg s"
  shows "flow_ok (ret_ok P L M msg) (ret_ok P L M msg) (rr_finish sc t cls ttl rd_end s)"
proof -
  have core: "val_core P L M msg s" using assms by (simp add: done_val_def)
  then have f: "\<not> d_load_msg (rs_dec s)" "d_need_emsg (rs_dec s)" "val_dec P L M (rs_dec s)" "rs_msg s = msg" using val_flags [OF core] by (auto simp: val_core_def)
  obtain nm de where st: "rs_string (rs_name s) s = Some nm" "rs_string (rs_desc s) s = Some de" using assms by (auto simp: done_val_def)
  have w: "flow_ok (ret_ok P L M msg) (ret_ok P L M msg) (dns_wmsg (rs_dec s) x \<bind> (\<lambda>(rc, dec). Some (Inr (rc, dec, msg))))" for x
    by (rule flow_ok_bind [OF wmsg_ok [OF f(3)]]) (auto simp: ret_ok_def)
  show ?thesis
    using f st w ret_err_ok [OF core, of DNS_RDATA DNS_ERDATALEN "ret_ok P L M msg"]
    by (simp add: rr_finish_def Let_def DNS_RDATA_def DNS_ERDATALEN_def)
qed

section \<open>Records, sections and the message\<close>

text \<open>No 16-bit field of the packet is the type code of TXT.\<close>

definition no_txt :: "byte list \<Rightarrow> nat \<Rightarrow> bool" where
  "no_txt P L \<longleftrightarrow> (\<forall>i. i + 10 \<le> L \<longrightarrow> dec_u16 P i \<noteq> Some DNS_TYPE_TXT)"

lemma rr_fixed_val:
  assumes "val_at P L M msg 256 s" and "no_txt P L"
  shows "flow_ok (ret_ok P L M msg) (\<lambda>(t, cls, ttl, rdlen, s'). val_at P L M msg 256 s' \<and> rs_offset s' \<le> L \<and> t \<noteq> DNS_TYPE_TXT \<and>
    rs_desc s' = rs_desc s) (rr_fixed sc s)"
proof -
  note f = val_flags [OF at_core [OF assms(1)]]
  show ?thesis
  proof (cases "rs_offset s + 10 > L")
    case True
    then show ?thesis using f ret_err_ok [OF at_core [OF assms(1)], of DNS_HDR DNS_ETRUNC]
      by (simp add: rr_fixed_def DNS_HDR_def DNS_ETRUNC_def)
  next
    case False
    obtain t cl ttl rl where t: "dec_u16 P (rs_offset s) = Some t" "dec_u16 P (rs_offset s + 2) = Some cl"
      "dec_u32 P (rs_offset s + 4) = Some ttl" "dec_u16 P (rs_offset s + 8) = Some rl"
      using False f dec_u16_ok [of "rs_offset s" P] dec_u16_ok [of "rs_offset s + 2" P]
        dec_u32_ok [of "rs_offset s + 4" P] dec_u16_ok [of "rs_offset s + 8" P] by auto
    have "t \<noteq> DNS_TYPE_TXT" using assms(2) t(1) False by (auto simp: no_txt_def)
    then show ?thesis using False f assms(1) t by (simp add: rr_fixed_def Let_def) (simp add: set_offset_def)
  qed
qed

lemma dns_rr_decode_val:
  assumes "val_dec P L M dec" and "short_names P L" and "no_txt P L"
  shows "returns (dns_rr_decode dec msg sc) (ret_ok P L M msg)"
proof -
  let ?R = "ret_ok P L M msg"
  let ?s0 = "\<lparr>rs_dec = dec, rs_msg = msg, rs_wptr = 0, rs_rc = 0, rs_name = Inr 0, rs_desc = Inl []\<rparr>"
  let ?switch = "\<lambda>(t, c, ttl, rdlen, s3).
      let rd_end = (rs_offset s3 + unat rdlen) mod 65536
      in if rd_end > d_pkt_len (rs_dec s3) then ret_err DNS_RR DNS_RDATA DNS_ETRUNC s3
         else andthen (rr_switch sc t c ttl rdlen rd_end s3) (\<lambda>s4. rr_finish sc t c ttl rd_end s4)"
  have core0: "val_core P L M msg ?s0" using assms by (simp add: val_core_def)
  have sw: "flow_ok ?R ?R (?switch x)"
    if "case x of (t, cls, ttl, rdlen, s') \<Rightarrow> val_at P L M msg 256 s' \<and> rs_offset s' \<le> L \<and> t \<noteq> DNS_TYPE_TXT \<and> rs_desc s' = Inl []" for x
  proof -
    obtain t cl ttl rl s3 where x: "x = (t, cl, ttl, rl, s3)" by (cases x)
    then have r3: "val_at P L M msg 256 s3" "rs_offset s3 \<le> L" "t \<noteq> DNS_TYPE_TXT" "rs_desc s3 = Inl []" using that by simp_all
    show ?thesis
    proof (cases "(rs_offset s3 + unat rl) mod 65536 > L")
      case True
      then show ?thesis using x val_flags [OF at_core [OF r3(1)]] ret_err_ok [OF at_core [OF r3(1)], of DNS_RDATA DNS_ETRUNC ?R]
        by (simp add: Let_def DNS_RDATA_def DNS_ETRUNC_def)
    next
      case False
      then have "flow_ok ?R ?R (andthen (rr_switch sc t cl ttl rl ((rs_offset s3 + unat rl) mod 65536) s3)
          (\<lambda>s4. rr_finish sc t cl ttl ((rs_offset s3 + unat rl) mod 65536) s4))"
        by (intro flow_ok_andthen [OF rr_switch_val [OF r3(1,2) _ assms(2) r3(3,4)]] rr_finish_val) simp_all
      then show ?thesis using False x val_flags [OF at_core [OF r3(1)]] by (simp add: Let_def)
    qed
  qed
  have "flow_ok ?R ?R (andthen (get_name DNS_NAME ?s0) (\<lambda>s1.
      andthen (store_name 0 (\<lambda>p. upd_slot sc (\<lambda>rr. rr\<lparr>rr_name := p\<rparr>)) (s1\<lparr>rs_wptr := nat (rs_rc s1) + 1\<rparr>)) (\<lambda>s2.
      andthen (rr_fixed sc s2) ?switch)))"
  proof (rule flow_ok_andthen [OF get_name_val [OF core0 _ assms(2)]], goal_cases)
    case (3 s1)
    let ?s2 = "s1\<lparr>rs_wptr := nat (rs_rc s1) + 1\<rparr>"
    have v: "val_at P L M msg 256 ?s2" using 3 by (auto simp: val_at_def val_core_def intro!: exI [of _ "nat (rs_rc s1)"])
    have "rs_desc ?s2 = Inl []" using 3 by simp
    then have "flow_ok ?R ?R (andthen (rr_fixed sc ?s2) ?switch)"
      using rr_fixed_val [OF v assms(3), of sc] by (intro flow_ok_andthen [OF _ sw]) (simp_all add: case_prod_unfold)
    moreover have "val_core P L M msg ?s2" using v by (rule at_core)
    ultimately show ?case using store_name_val [of P L M msg ?s2] by (simp add: andthen_def)
  qed (simp_all add: DNS_NAME_def)
  moreover have "\<not> d_load_msg dec" using assms(1) by (simp add: val_dec_def)
  ultimately show ?thesis
    unfolding dns_rr_decode_def flow_ok_def Let_def [of ?s0] by (auto elim!: returnsE split: sum.splits)
qed

lemma sect_loop_val:
  assumes "val_dec P L M dec" and "i + n < 70000" and "n = 0 \<or> short_names P L \<and> no_txt P L"
  shows "returns (sect_loop n i dec msg sc) (\<lambda>(rc, dec', msg'). (rc = 0 \<or> rc = -1) \<and> val_dec P L M dec' \<and> msg' = msg)"
  using assms
proof (induction n arbitrary: i dec)
  case (Suc n)
  then obtain rc dec1 where q: "dns_rr_decode dec msg sc = Some (rc, dec1, msg)" "val_dec P L M dec1"
    using dns_rr_decode_val [of P L M dec msg sc] by (auto simp: ret_ok_def elim!: returnsE)
  show ?case
  proof (cases "rc = 0")
    case True
    then show ?thesis using q Suc.IH [of dec1 "i + 1"] Suc.prems by simp
  next
    case False
    then show ?thesis using q row_err_ok [OF q(2), of "sect_code sc" i] Suc.prems by (cases sc) (auto split: prod.splits)
  qed
qed simp

lemma seq_rc_val:
  assumes "returns m (\<lambda>(rc, dec, msg). (rc = 0 \<or> rc = -1) \<and> val_dec P L M dec \<and> Q msg)"
    and "\<And>dec msg. val_dec P L M dec \<Longrightarrow> Q msg \<Longrightarrow> returns (f dec msg) (\<lambda>(rc, dec, msg). (rc = 0 \<or> rc = -1) \<and> val_dec P L M dec \<and> Q msg)"
  shows "returns (seq_rc m f) (\<lambda>(rc, dec, msg). (rc = 0 \<or> rc = -1) \<and> val_dec P L M dec \<and> Q msg)"
  using assms by (auto simp: seq_rc_def elim!: returnsE)

text \<open>The counts of a header say that there are no records, or the records are harmless.\<close>

definition plain_records :: "byte list \<Rightarrow> nat \<Rightarrow> bool" where
  "plain_records P L \<longleftrightarrow> L < DNS_HDR_LEN \<or> dec_u16 P 6 = Some 0 \<and> dec_u16 P 8 = Some 0 \<and> dec_u16 P 10 = Some 0 \<or> short_names P L \<and> no_txt P L"

lemma err_tostr_ok:
  assumes "val_dec P L M dec" and "err_ok e"
  shows "returns (dns_err_tostr dec e) (\<lambda>(r, dec'). (\<exists>s. r = Some s) \<and> val_dec P L M dec')"
proof -
  let ?m = "d_msg dec"
  have l: "length ?m = DNS_MSG_SIZE" "0 < length ?m" using assms(1) by (simp_all add: val_dec_def DNS_MSG_SIZE_def)
  obtain m' where m: "snprintf_at ?m 0 DNS_MSG_SIZE (err_text e) = Some (length (err_text e), m')" "length m' = DNS_MSG_SIZE" "0 \<in> set m'"
    using snprintf_nul [OF l(2), of "err_text e"] l(1) by (auto elim!: returnsE)
  then show ?thesis using assms by (auto simp: dns_err_tostr_def err_ok_def cstr_at_def val_dec_def)
qed

lemma genmsg_loop_ok: "val_dec P L M dec \<Longrightarrow> list_all err_ok es \<Longrightarrow> returns (genmsg_loop es dec) (val_dec P L M)"
proof (induction es arbitrary: dec)
  case (Cons e es)
  then obtain s dec1 where 1: "dns_err_tostr dec e = Some (Some s, dec1)" "val_dec P L M dec1"
    using err_tostr_ok [of P L M dec e] by (auto elim!: returnsE)
  obtain rc dec2 where 2: "dns_wmsg dec1 (str ''/ '' @ s) = Some (rc, dec2)" "val_dec P L M dec2"
    using wmsg_ok [OF 1(2), of "str ''/ '' @ s"] by (auto elim!: returnsE)
  then show ?case using 1 Cons by simp
qed simp

lemma dec_genmsg_ok:
  assumes "val_dec P L M dec"
  shows "returns (dns_dec_genmsg dec) (\<lambda>(ec, dec'). val_dec P L M dec' \<and> ec = (if d_errs dec = [] then 0 else -1))"
proof (cases "d_errs dec = []")
  case True
  have "sbuf_rem (d_emsg dec) \<noteq> 0" using assms by (simp add: val_dec_def emsg_ok_def sbuf_rem_def)
  then show ?thesis using True assms by (simp add: dns_dec_genmsg_def)
next
  case False
  obtain rc1 dec1 where 1: "dns_wmsg dec (str ''[ERROR] '') = Some (rc1, dec1)" "val_dec P L M dec1"
    using wmsg_ok [OF assms, of "str ''[ERROR] ''"] by (auto elim!: returnsE)
  define m where "m = (if d_pkt_len dec1 \<ge> DNS_HDR_LEN then dns_wmsg dec1 (str ''ID 0x'' @ hex4 (hd_id (d_hdr dec1)) @ [32]) else Some (0, dec1))"
  obtain rc2 dec2 where 2: "m = Some (rc2, dec2)" "val_dec P L M dec2"
    using wmsg_ok [OF 1(2), of "str ''ID 0x'' @ hex4 (hd_id (d_hdr dec1)) @ [32]"] 1(2) unfolding m_def
    by (cases "d_pkt_len dec1 \<ge> DNS_HDR_LEN") (auto elim!: returnsE)
  have "list_all err_ok (rev (d_errs dec2))" using 2(2) by (simp add: val_dec_def list_all_iff)
  from genmsg_loop_ok [OF 2(2) this] obtain dec3 where 3: "genmsg_loop (rev (d_errs dec2)) dec2 = Some dec3" "val_dec P L M dec3"
    by (rule returnsE)
  obtain rc4 dec4 where 4: "dns_wmsg dec3 [10] = Some (rc4, dec4)" "val_dec P L M dec4"
    using wmsg_ok [OF 3(2), of "[10]"] by (auto elim!: returnsE)
  show ?thesis using False 1(1) 2 3(1) 4 by (simp add: dns_dec_genmsg_def m_def [symmetric])
qed

lemma size_check_val: "val_dec P L M dec \<Longrightarrow> returns (size_check dec msg) (\<lambda>(rc, dec', msg'). (rc = 0 \<or> rc = -1) \<and> val_dec P L M dec' \<and> msg' = msg)"
  unfolding size_check_def by (auto intro!: returns_bindI [OF wmsg_ok])

lemma decode_msg_val:
  assumes "val_dec P L M dec" and "plain_records P L"
  shows "returns (decode_msg dec msg) (\<lambda>(rc, dec', msg'). (rc = 0 \<or> rc = -1) \<and> val_dec P L M dec')"
proof -
  define Q where "Q = (\<lambda>m :: dns_msg. short_names P L \<and> no_txt P L \<or> L < DNS_HDR_LEN \<and> m_hdr m = dns_hdr_reset \<or>
     an_count (m_hdr m) = 0 \<and> ns_count (m_hdr m) = 0 \<and> ar_count (m_hdr m) = 0)"
  have hdr: "returns (decode_hdr dec (dns_msg_reset msg)) (\<lambda>(rc, dec, msg). (rc = 0 \<or> rc = -1) \<and> val_dec P L M dec \<and> Q msg)"
  proof (cases "L < DNS_HDR_LEN")
    case True
    then have "decode_hdr dec (dns_msg_reset msg) = (case dns_dec_err dec DNS_PDU DNS_HDR DNS_EHDRLEN of (e, dec') \<Rightarrow> Some (e, dec', dns_msg_reset msg))"
      using assms(1) by (simp add: decode_hdr_def dns_hdr_decode_def val_dec_def DNS_EHDRLEN_def)
    moreover have "case dns_dec_err dec DNS_PDU DNS_HDR DNS_EHDRLEN of (rc, dec') \<Rightarrow> (rc = 0 \<or> rc = -1) \<and> val_dec P L M dec' \<and> d_errs dec' \<noteq> []"
      by (rule dec_err_ok [OF assms(1)]) (simp_all add: DNS_PDU_def DNS_HDR_def DNS_EHDRLEN_def)
    ultimately show ?thesis using True by (auto simp: Q_def dns_msg_reset_def split: prod.splits)
  next
    case False
    have "an_count h = 0 \<and> ns_count h = 0 \<and> ar_count h = 0" if "dns_hdr_decode g P L = Some (0, h)"
      "dec_u16 P 6 = Some 0 \<and> dec_u16 P 8 = Some 0 \<and> dec_u16 P 10 = Some 0" for g h
      using that False by (auto simp: dns_hdr_decode_def split: bind_splits)
    then show ?thesis using False assms(2) unfolding Q_def plain_records_def
      by (intro returns_mono [OF decode_hdr_ok [OF assms(1)]]) auto
  qed
  have cnt: "unat c + 0 < 70000" for c :: u16 using unat_u16_less [of c] by simp
  have zero: "Q m \<Longrightarrow> (unat (an_count (m_hdr m)) = 0 \<or> short_names P L \<and> no_txt P L) \<and> (unat (ns_count (m_hdr m)) = 0 \<or> short_names P L \<and> no_txt P L) \<and>
      (unat (ar_count (m_hdr m)) = 0 \<or> short_names P L \<and> no_txt P L)" for m
    by (auto simp: Q_def dns_hdr_reset_def)
  have sect: "returns (dns_sect_decode d m (unat c) sc) (\<lambda>(rc, dec, msg). (rc = 0 \<or> rc = -1) \<and> val_dec P L M dec \<and> Q msg)"
    if "val_dec P L M d" "Q m" "unat c = 0 \<or> short_names P L \<and> no_txt P L" for d m sc and c :: u16
    unfolding dns_sect_decode_def using that cnt [of c] by (intro returns_mono [OF sect_loop_val]) auto
  have "returns (decode_msg dec msg) (\<lambda>(rc, dec, msg). (rc = 0 \<or> rc = -1) \<and> val_dec P L M dec \<and> Q msg)"
    unfolding decode_msg_def
  proof (intro seq_rc_val hdr, goal_cases)
    case (1 d m)
    then show ?case unfolding decode_qd_def using cnt [of "qd_count (m_hdr m)"] by (intro returns_mono [OF qd_loop_ok]) auto
  next
    case (2 d m)
    then show ?case unfolding decode_an_def using zero [of m] by (intro sect) auto
  next
    case (3 d m)
    then show ?case unfolding decode_ns_def using zero [of m] by (intro sect) auto
  next
    case (4 d m)
    then show ?case unfolding decode_ar_def using zero [of m] by (intro sect) auto
  next
    case (5 d m)
    then show ?case by (intro returns_mono [OF size_check_val]) auto
  qed
  then show ?thesis by (rule returns_mono) auto
qed

lemma validate_run:
  assumes "len + 16 \<le> length buf" and "emsg \<noteq> []" and "plain_records buf len"
  obtains rc dec msg sb where
    "decode_msg (dec_init buf len True False (emsg[0 := 0])) zero_msg = Some (rc, dec, msg)" "val_dec buf len (length emsg) dec"
    "dns_validate buf len emsg = Some (if d_errs dec = [] then rc else -1, sb)" "rc = 0 \<or> rc = -1" "emsg_ok (length emsg) sb"
proof -
  let ?d = "dec_init buf len True False (emsg[0 := 0])"
  have w: "mem_write emsg 0 [0] = Some (emsg[0 := 0])" using assms(2) by (simp add: mem_write_one)
  have "0 \<in> set (emsg[0 := 0])" using assms(2) by (cases emsg) simp_all
  then have v: "val_dec buf len (length emsg) ?d"
    using assms(1,2) by (simp add: val_dec_def dec_init_def emsg_ok_def sbuf_init_def)
  obtain rc dec msg where r: "decode_msg ?d zero_msg = Some (rc, dec, msg)" "rc = 0 \<or> rc = -1" "val_dec buf len (length emsg) dec"
    using decode_msg_val [OF v assms(3), of zero_msg] by (auto elim!: returnsE)
  obtain ec dec' where g: "dns_dec_genmsg dec = Some (ec, dec')" "val_dec buf len (length emsg) dec'" "ec = (if d_errs dec = [] then 0 else -1)"
    using dec_genmsg_ok [OF r(3)] by (auto elim!: returnsE)
  have "dns_validate buf len emsg = Some (if d_errs dec = [] then rc else -1, d_emsg dec')"
    using w r g by (auto simp: dns_validate_def)
  moreover have "emsg_ok (length emsg) (d_emsg dec')" using g(2) by (simp add: val_dec_def)
  ultimately show ?thesis using that r by blast
qed



end
