(* ===== verification/Dns_Overflow.thy ===== *)
theory Dns_Overflow
  imports Dns_Validate
begin

text \<open>
  The condition of \<open>Dns_Validate\<close> on TXT records is needed: a packet of 1559 bytes makes the validator store behind its
  scratch buffer.
\<close>

section \<open>The scratch buffer overflows on TXT records\<close>

text \<open>
  \<open>snprintf\<close> returns the length of the text even when it has been cut, and the code moves \<open>wptr\<close> by that length. When
  \<open>wptr\<close> has passed the end, \<open>wend - wptr\<close> is a huge \<open>size_t\<close> and the next text is stored behind the buffer.
\<close>

lemma sprint_past_end:
  assumes "length (d_msg (rs_dec s)) = DNS_MSG_SIZE" and "DNS_MSG_SIZE < rs_wptr s" and "rs_wptr s < 2 ^ 63"
  shows "sprint t s = None"
proof -
  have "rs_avail s \<noteq> 0" using assms by (simp add: size_sub_def)
  moreover have "mem_write (d_msg (rs_dec s)) (rs_wptr s) (u @ [0]) = None" for u using assms by (simp add: mem_write_def)
  ultimately show ?thesis by (simp add: sprint_def snprintf_at_def)
qed

definition txt_string :: "byte \<Rightarrow> byte list" where
  "txt_string c = 255 # replicate 255 c"

text \<open>A response with one TXT record of six strings of 255 characters each.\<close>

definition txt_packet :: "u16 \<Rightarrow> byte \<Rightarrow> byte list" where
  "txt_packet tid c = be16 tid @ [0x80, 0, 0, 0, 0, 1, 0, 0, 0, 0] @ [0] @ [0, 16, 0, 1, 0, 0, 0, 0, 6, 0] @ concat (replicate 6 (txt_string c))"

lemma txt_step_string:
  assumes "val_core P L M msg s" and "drop (rs_offset s) P = txt_string c @ r" and "c \<noteq> 0" and "rs_offset s + 256 \<le> rd_end"
    and "rd_end \<le> L"
  shows "DNS_MSG_SIZE < rs_wptr s \<Longrightarrow> rs_wptr s < 2 ^ 63 \<Longrightarrow> txt_step sc rd_end s = None"
    and "rs_wptr s < DNS_MSG_SIZE \<Longrightarrow> \<exists>s'. txt_step sc rd_end s = Some (Inr s') \<and> val_core P L M msg s' \<and>
      rs_wptr s' = rs_wptr s + 260 \<and> rs_offset s' = rs_offset s + 256"
proof -
  note f = val_flags [OF assms(1)]
  have o: "rs_offset s < length P" using assms(4,5) f by simp
  have h: "P ! rs_offset s = 255" using assms(2) hd_drop_conv_nth [OF o] by (simp add: txt_string_def)
  have "drop (rs_offset s + 1) P = tl (drop (rs_offset s) P)" by (simp add: drop_Suc tl_drop)
  then have t: "drop (rs_offset s + 1) P = replicate 255 c @ r" using assms(2) by (simp add: txt_string_def)
  have r: "mem_read P (rs_offset s + 1) 255 = Some (replicate 255 c)"
    using t assms(4,5) f by (subst mem_read_SomeI) simp_all
  have cs: "cstr_of (replicate 255 c) = replicate 255 c" using assms(3) by (intro cstr_of_id) simp
  let ?s1 = "set_offset (rs_offset s + 1) s" and ?t = "str '' txt='' @ replicate 255 c"
  have step: "txt_step sc rd_end s = andthen (desc ?t ?s1) (\<lambda>s2. andthen (txt_store sc (replicate 255 c) s2) (\<lambda>s3.
       Some (Inr (set_offset (rs_offset s3 + 255) s3))))"
    using h r f assms(4) o cs by (simp add: txt_step_def Let_def mem_get_def)
  { assume "DNS_MSG_SIZE < rs_wptr s" "rs_wptr s < 2 ^ 63"
    then have "sprint ?t ?s1 = None" using f by (intro sprint_past_end) simp_all
    then show "txt_step sc rd_end s = None" using f unfolding step by (simp add: desc_def andthen_def) }
  { assume w: "rs_wptr s < DNS_MSG_SIZE"
    then have p: "rs_wptr s < length (d_msg (rs_dec s))" using f by simp
    obtain m' where m: "snprintf_at (d_msg (rs_dec s)) (rs_wptr s) (length (d_msg (rs_dec s)) - rs_wptr s) ?t = Some (length ?t, m')" "length m' = DNS_MSG_SIZE"
      using snprintf_nul [OF p, of ?t] f by (auto elim!: returnsE)
    define s2 where "s2 = ?s1\<lparr>rs_dec := (rs_dec ?s1)\<lparr>d_msg := m'\<rparr>, rs_wptr := rs_wptr s + 260, rs_rc := int 260\<rparr>"
    have sp: "sprint ?t ?s1 = Some s2" using m w f by (simp add: sprint_def s2_def)
    have v: "val_core P L M msg s2" using assms(1) m(2) by (simp add: s2_def val_core_def val_dec_def set_offset_def)
    have "txt_store sc bs s2 = Some (Inr s2)" for bs using val_flags [OF v] by (simp add: txt_store_def)
    then have "txt_step sc rd_end s = Some (Inr (set_offset (rs_offset s2 + 255) s2))" using f sp unfolding step by (simp add: desc_def andthen_def)
    then show "\<exists>s'. txt_step sc rd_end s = Some (Inr s') \<and> val_core P L M msg s' \<and> rs_wptr s' = rs_wptr s + 260 \<and> rs_offset s' = rs_offset s + 256"
      using v by (auto simp: s2_def) }
qed

lemma txt_loop_overflow:
  assumes "val_core P L M msg s" and "rs_wptr s + 260 * (n - 1) < DNS_MSG_SIZE" and "DNS_MSG_SIZE < rs_wptr s + 260 * n" and "c \<noteq> 0"
    and "\<And>j. j \<le> n \<Longrightarrow> \<exists>r. drop (rs_offset s + 256 * j) P = txt_string c @ r" and "rs_offset s + 256 * Suc n \<le> rd_end" and "rd_end \<le> L"
  shows "txt_loop (n + Suc k) sc rd_end s = None"
  using assms
proof (induction n arbitrary: s)
  case 0
  obtain r where r: "drop (rs_offset s) P = txt_string c @ r" using "0.prems"(5) [of 0] by auto
  have "rs_wptr s < 2 ^ 63" using "0.prems"(2) by (simp add: DNS_MSG_SIZE_def)
  then show ?case using txt_step_string(1) [OF "0.prems"(1) r "0.prems"(4) _ "0.prems"(7)] "0.prems"(3,6) by (simp add: andthen_def)
next
  case (Suc n)
  obtain r where r: "drop (rs_offset s) P = txt_string c @ r" using Suc.prems(5) [of 0] by auto
  have w: "rs_wptr s < DNS_MSG_SIZE" "rs_offset s + 256 \<le> rd_end" using Suc.prems(2,6) by simp_all
  obtain s' where s': "txt_step sc rd_end s = Some (Inr s')" "val_core P L M msg s'" "rs_wptr s' = rs_wptr s + 260" "rs_offset s' = rs_offset s + 256"
    using txt_step_string(2) [OF Suc.prems(1) r Suc.prems(4) w(2) Suc.prems(7) w(1)] by blast
  show ?case
  proof (cases "n = 0")
    case True
    obtain r1 where r1: "drop (rs_offset s') P = txt_string c @ r1" using Suc.prems(5) [of 1] s'(4) by auto
    have "DNS_MSG_SIZE < rs_wptr s'" "rs_wptr s' < 2 ^ 63" "rs_offset s' + 256 \<le> rd_end" using Suc.prems(3,6) w s' True by (simp_all add: DNS_MSG_SIZE_def)
    then have "txt_step sc rd_end s' = None" using txt_step_string(1) [OF s'(2) r1 Suc.prems(4) _ Suc.prems(7)] by blast
    then show ?thesis using s' w True Suc.prems(6) by (simp add: andthen_def)
  next
    case False
    have "txt_loop (n + Suc k) sc rd_end s' = None"
    proof (rule Suc.IH [OF s'(2)])
      show "\<exists>r. drop (rs_offset s' + 256 * j) P = txt_string c @ r" if "j \<le> n" for j
        using Suc.prems(5) [of "Suc j"] that s'(4) by (simp add: algebra_simps)
    qed (use Suc.prems s' False in \<open>simp_all add: algebra_simps\<close>)
    then show ?thesis using s' w by (simp add: andthen_def)
  qed
qed

lemma drop_concat_replicate: "j \<le> n \<Longrightarrow> drop (length B * j) (concat (replicate n B)) = concat (replicate (n - j) B)"
proof (induction j arbitrary: n)
  case (Suc j)
  then obtain m where m: "n = Suc m" by (cases n) auto
  have "drop (length B * Suc j) (concat (replicate n B)) = drop (length B * j) (concat (replicate m B))" unfolding m by simp
  then show ?case using Suc.IH [of m] Suc.prems m by simp
qed simp

definition txt_head :: "u16 \<Rightarrow> byte list" where
  "txt_head tid = [ucast (drop_bit 8 tid), ucast tid, 0x80, 0, 0, 0, 0, 1, 0, 0, 0, 0, 0, 0, 16, 0, 1, 0, 0, 0, 0, 6, 0]"

lemma txt_packet_split: "txt_packet tid c = txt_head tid @ concat (replicate 6 (txt_string c))" "length (txt_head tid) = 23"
  by (simp_all add: txt_packet_def txt_head_def be16_def)

lemma txt_packet_strings: "j \<le> 5 \<Longrightarrow> \<exists>r. drop (23 + 256 * j) (txt_packet tid c @ slack) = txt_string c @ r"
proof -
  assume j: "j \<le> 5"
  have "drop (23 + 256 * j) (txt_packet tid c @ slack) = drop (256 * j) (concat (replicate 6 (txt_string c)) @ slack)"
    unfolding txt_packet_split(1) using txt_packet_split(2) [of tid] by simp
  also have "\<dots> = drop (256 * j) (concat (replicate 6 (txt_string c))) @ slack"
    using j by (simp add: length_concat txt_string_def sum_list_replicate)
  also have "drop (256 * j) (concat (replicate 6 (txt_string c))) = concat (replicate (6 - j) (txt_string c))"
    using drop_concat_replicate [of j 6 "txt_string c"] j by (simp add: txt_string_def)
  also have "\<dots> = txt_string c @ concat (replicate (5 - j) (txt_string c))"
  proof -
    have "6 - j = Suc (5 - j)" using j by simp
    then show ?thesis by (simp only: replicate_Suc concat.simps)
  qed
  finally show ?thesis by auto
qed

lemma length_txt_packet: "length (txt_packet tid c) = 1559"
  by (simp add: txt_packet_split txt_string_def length_concat sum_list_replicate)

lemma txt_packet_nth: "i < 23 \<Longrightarrow> (txt_packet tid c @ slack) ! i = txt_head tid ! i"
  by (simp add: txt_packet_split nth_append)

lemma txt_fields:
  assumes "P = txt_packet tid c @ slack"
  shows "dec_u16 P 13 = Some 16" "dec_u16 P 15 = Some 1" "dec_u32 P 17 = Some 0" "dec_u16 P 21 = Some 1536"
    "dec_u16 P 2 = Some 0x8000" "dec_u16 P 4 = Some 0" "dec_u16 P 6 = Some 1" "dec_u16 P 8 = Some 0" "dec_u16 P 10 = Some 0"
    "P ! 12 = 0" "1559 \<le> length P"
  unfolding assms by (simp_all add: dec_u16_def dec_u32_def mem_get_def length_txt_packet txt_packet_nth txt_head_def)

lemma txt_id: "dec_u16 (txt_packet tid c @ slack) 0 = Some tid"
  using be16.dec_append [of "[]" 0 tid] by (simp add: txt_packet_def)

text \<open>The root name in front of the record.\<close>

lemma get_root:
  assumes "val_core P L M msg s" and "rs_offset s < L" and "P ! rs_offset s = 0" and "rs_wptr s = 0"
  shows "\<exists>s'. get_name loc s = Some (Inr s') \<and> val_core P L M msg s' \<and> rs_offset s' = rs_offset s + 1 \<and> rs_rc s' = 1"
proof -
  note f = val_flags [OF assms(1)]
  let ?m = "(d_msg (rs_dec s))[0 := 0]"
  have "decode_name (rs_dec s) (Some 0) DNS_MSG_SIZE = Some (1, (rs_dec s)\<lparr>d_offset := rs_offset s + 1, d_msg := ?m\<rparr>)"
    using f assms by (simp add: decode_name_def name_loop.simps mem_get_def put_name_def mem_write_one DNS_MSG_SIZE_def)
  moreover have "dns_add_str ?m 0 DNS_MSG_SIZE (str ''.'') = Some (1, ?m[0 := 46, 1 := 0])"
    using f by (simp add: dns_add_str_def mem_write_one str_Cons DNS_MSG_SIZE_def)
  ultimately show ?thesis using assms f
    by (simp add: get_name_def fix_label_def) (simp add: val_core_def val_dec_def)
qed

lemma rr_decode_txt:
  assumes "val_dec P L M dec" and "P = txt_packet tid c @ slack" and "L = 1559" and "d_offset dec = 12" and "c \<noteq> 0"
  shows "dns_rr_decode dec msg sc = None"
proof -
  let ?s0 = "\<lparr>rs_dec = dec, rs_msg = msg, rs_wptr = 0, rs_rc = 0, rs_name = Inr 0, rs_desc = Inl []\<rparr>"
  note fld = txt_fields [OF assms(2)]
  have core0: "val_core P L M msg ?s0" using assms by (simp add: val_core_def)
  obtain s1 where s1: "get_name DNS_NAME ?s0 = Some (Inr s1)" "val_core P L M msg s1" "rs_offset s1 = 13" "rs_rc s1 = 1"
    using get_root [OF core0, of DNS_NAME] assms(3,4) fld by auto
  let ?s2 = "s1\<lparr>rs_wptr := Suc (Suc 0)\<rparr>"
  have v2: "val_core P L M msg ?s2" using s1(2) by (simp add: val_core_def)
  note f = val_flags [OF v2]
  have fx: "rr_fixed sc ?s2 = Some (Inr (16, 1, 0, 1536, set_offset 23 ?s2))"
    using f fld s1(3) assms(3) by (simp add: rr_fixed_def)
  let ?s3 = "set_offset 23 ?s2"
  have v3: "val_core P L M msg ?s3" using v2 by simp
  have "txt_loop (5 + Suc 1553) sc 1559 ?s3 = None"
  proof (rule txt_loop_overflow [OF v3 _ _ assms(5)])
    show "\<exists>r. drop (rs_offset ?s3 + 256 * j) P = txt_string c @ r" if "j \<le> 5" for j
      using txt_packet_strings [OF that, of tid c slack] assms(2) by simp
  qed (use assms(3) in \<open>simp_all add: DNS_MSG_SIZE_def\<close>)
  then have "rr_switch sc 16 1 0 1536 1559 ?s3 = None"
    by (simp add: rr_switch_def dns_types rrd_txt_def andthen_def)
  moreover have "\<not> d_load_msg dec" using assms(1) by (simp add: val_dec_def)
  ultimately show ?thesis
    using s1 fx f v2 val_flags [OF v3] assms(3) store_name_val [OF v2, of 0 "\<lambda>p. upd_slot sc (\<lambda>rr. rr\<lparr>rr_name := p\<rparr>)"]
    by (simp add: dns_rr_decode_def andthen_def Let_def)
qed

text \<open>The header of the packet is described in less than 200 bytes.\<close>

lemma decode_hdr_txt:
  assumes "val_dec P L M dec" and "P = txt_packet tid c @ slack" and "L = 1559" and "d_offset dec = 0" and "sb_pos (d_emsg dec) = 0" and "200 \<le> M"
  shows "\<exists>dec' msg'. decode_hdr dec msg = Some (0, dec', msg') \<and> val_dec P L M dec' \<and> d_offset dec' = 12 \<and>
    qd_count (m_hdr msg') = 0 \<and> an_count (m_hdr msg') = 1"
proof -
  note fld = txt_fields [OF assms(2)]
  have d: "d_pkt dec = P" "d_pkt_len dec = L" "d_need_emsg dec" using assms(1) by (simp_all add: val_dec_def)
  let ?h = "\<lparr>hd_id = tid, hd_flags = 0x8000, qd_count = 0, an_count = 1, ns_count = 0, ar_count = 0\<rparr>"
  have h: "dns_hdr_decode (m_hdr msg) P L = Some (0, ?h)"
    using fld txt_id assms(2,3) by (simp add: dns_hdr_decode_def DNS_HDR_LEN_def)
  let ?d1 = "dec\<lparr>d_offset := 12, d_hdr := ?h\<rparr>"
  have v: "val_dec P L M ?d1" using assms(1) by (simp add: val_dec_def)
  obtain b where b: "desc_response 0x8000 (sbuf_init (replicate 100 0)) = Some b" "length (sbuf_text b) \<le> 100"
    using desc_flags_ok(1) [of "sbuf_init (replicate 100 0)" 100 "0x8000"] by (auto simp: sbuf_init_def elim!: returnsE)
  have fl: "flag_set 0x8000 DNS_FLAGS_QR" "hdr_opcode 0x8000 = 0" "uint (0x8000 AND DNS_FLAGS_RCODE) = 0"
    by (simp_all add: flag_set_def hdr_opcode_def DNS_FLAGS_QR_def DNS_FLAGS_OPCODE_def DNS_FLAGS_RCODE_def)
  let ?t = "str ''['' @ str ''RESPONSE'' @ str ''] ID 0x'' @ hex4 tid @ str '' QR:'' @ str ''1'' @ str '' OPCODE:'' @ opcode_tostr 0 @ [32] @
       cstr_of (sbuf_text b) @ [10]"
  have "length ?t < 200" using length_cstr_of [of "sbuf_text b"] b(2) by (simp add: hex4_def opcode_tostr_def opcode_strs_def ec_tostr_def)
  then obtain dec2 where w: "dns_wmsg ?d1 ?t = Some (0, dec2)" "val_dec P L M dec2" "d_offset dec2 = 12"
    using wmsg_ok [OF v, of ?t] assms(5,6) by (auto elim!: returnsE)
  have "desc_hdr (dec\<lparr>d_offset := 12\<rparr>) ?h = Some (0, dec2)"
    using b(1) fl w(1) by (simp add: desc_hdr_def Let_def)
  then show ?thesis using h d w assms(4) by (simp add: decode_hdr_def DNS_HDR_LEN_def)
qed

text \<open>C35. A single packet overflows the scratch buffer: on a response with one TXT record of six strings of 255 characters,
  with any id, any character and any text buffer of at least 200 bytes, \<open>dns_validate\<close> writes outside its objects.\<close>

theorem dns_validate_txt_overflow:
  assumes "c \<noteq> 0" and "16 \<le> length slack" and "200 \<le> length emsg"
  shows "dns_validate (txt_packet tid c @ slack) (length (txt_packet tid c)) emsg = None"
proof -
  let ?P = "txt_packet tid c @ slack" and ?M = "length emsg"
  let ?d = "dec_init ?P 1559 True False (emsg[0 := 0])"
  have ne: "emsg \<noteq> []" using assms(3) by auto
  have "0 \<in> set (emsg[0 := 0])" using ne by (cases emsg) simp_all
  then have v: "val_dec ?P 1559 ?M ?d"
    using assms(2,3) ne by (simp add: val_dec_def dec_init_def emsg_ok_def sbuf_init_def length_txt_packet)
  obtain dec msg where h: "decode_hdr ?d (dns_msg_reset zero_msg) = Some (0, dec, msg)" "val_dec ?P 1559 ?M dec" "d_offset dec = 12"
      "qd_count (m_hdr msg) = 0" "an_count (m_hdr msg) = 1"
    using decode_hdr_txt [OF v refl refl, of "dns_msg_reset zero_msg"] assms(3) by (auto simp: dec_init_def sbuf_init_def)
  have "dns_rr_decode dec msg SectAN = None" by (rule rr_decode_txt [OF h(2) refl refl h(3) assms(1)])
  then have "decode_an dec msg = None" using h(5) by (simp add: decode_an_def dns_sect_decode_def)
  moreover have "decode_qd dec msg = Some (0, dec, msg)" using h(4) by (simp add: decode_qd_def)
  ultimately have "decode_msg ?d zero_msg = None" using h(1) by (simp add: decode_msg_def seq_rc_def)
  then show ?thesis using ne by (simp add: dns_validate_def mem_write_one length_txt_packet)
qed

theorem dns_validate_txt_overflow_witness:
  "dns_validate (txt_packet 0x1234 97 @ replicate 16 0) (length (txt_packet 0x1234 97)) (replicate 4096 0) = None"
  by (rule dns_validate_txt_overflow) simp_all

end
