(* ===== verification/Dns_Encode.thy ===== *)
theory Dns_Encode
  imports Dns_Name Dns_Store
begin

text \<open>
  The encoder of \<open>src/src/dns_proto.c\<close>: names with compression (\<open>encode_name\<close>), the reservation of
  space in the packet buffer, questions, resource records by type, sections, the header and
  \<open>dns_msg_encode\<close>.

  A field is written in three steps: reserve the most it may need, write, give the rest back. The
  writes are checked against the buffer itself (\<open>e_buf\<close>), not against the reservation, so a write
  past the space reserved shows as a write into the following bytes or, at the end, as undefined
  behaviour.
\<close>

section \<open>State\<close>

text \<open>
  A compression target: the suffix of a name written before and its offset. The source keeps a
  pointer to the suffix inside the message's name store, which the encoder does not change; here it
  is the text. (\<open>len\<close> of \<open>struct dns_suffix\<close> is never used.)
\<close>

record dns_suffix =
  sx_name :: "byte list"
  sx_offset :: u16

record dns_enc =
  e_buf :: "byte list"
  e_max :: nat
  e_len :: nat
  e_suffix :: "dns_suffix list"

section \<open>Names\<close>

definition suffix_match :: "dns_suffix list \<Rightarrow> nat \<Rightarrow> byte list \<Rightarrow> dns_suffix option" where
  "suffix_match sfx offset name = find (\<lambda>s. unat (sx_offset s) < offset \<and> strcaseeq (sx_name s) name) sfx"

definition comp_ptr :: "u16 \<Rightarrow> u16" where
  "comp_ptr off = 0xc000 OR off"

text \<open>
  The loop of \<open>encode_name\<close> on the rest of the name. The label length is an \<open>uint8_t\<close>: it is taken
  modulo 256 before it is compared with 63. A NULL result is \<open>None\<close> in the first component.
\<close>

function encode_loop :: "nat \<Rightarrow> nat \<Rightarrow> byte list \<Rightarrow> dns_enc \<Rightarrow> (nat option \<times> dns_enc) option" where
  "encode_loop offset wptr name enc =
     (if name = [] then do {
        m \<leftarrow> mem_write (e_buf enc) wptr [0];
        Some (Some (wptr + 1), enc\<lparr>e_buf := m\<rparr>) }
      else case suffix_match (e_suffix enc) offset name of
        Some s \<Rightarrow> do {
          m \<leftarrow> mem_write (e_buf enc) wptr (be16 (comp_ptr (sx_offset s)));
          Some (Some (wptr + 2), enc\<lparr>e_buf := m\<rparr>) }
      | None \<Rightarrow>
          let enc1 = (if length (e_suffix enc) < DNS_MAX_SUFFIX
                      then enc\<lparr>e_suffix := e_suffix enc @ [\<lparr>sx_name = name, sx_offset = of_nat wptr\<rparr>]\<rparr>
                      else enc);
              lab = takeWhile (\<lambda>b. b \<noteq> 46) name;
              len = (of_nat (length lab) :: u8)
          in if unat len > DNS_LABEL_MAXSTR then Some (None, enc1)
             else do {
               m1 \<leftarrow> mem_write (e_buf enc1) wptr [len];
               m2 \<leftarrow> mem_write m1 (wptr + 1) (take (unat len) name);
               encode_loop offset (wptr + 1 + unat len) (drop (length lab + 1) name) (enc1\<lparr>e_buf := m2\<rparr>) })"
  by pat_completeness auto
termination
  by (relation "measure (\<lambda>(offset, wptr, name, enc). length name)") auto

declare encode_loop.simps [simp del]

definition encode_name :: "dns_enc \<Rightarrow> nat \<Rightarrow> byte list option \<Rightarrow> (nat option \<times> dns_enc) option" where
  "encode_name enc wptr name =
     (case name of
        None \<Rightarrow> do { m \<leftarrow> mem_write (e_buf enc) wptr [0]; Some (Some (wptr + 1), enc\<lparr>e_buf := m\<rparr>) }
      | Some s \<Rightarrow> encode_loop wptr wptr s enc)"

section \<open>Space\<close>

definition dns_enc_retspace :: "dns_enc \<Rightarrow> nat \<Rightarrow> int \<times> dns_enc" where
  "dns_enc_retspace enc len =
     (if len > e_len enc then (-1, enc) else (0, enc\<lparr>e_len := e_len enc - len\<rparr>))"

definition dns_enc_mkspace :: "dns_enc \<Rightarrow> nat \<Rightarrow> nat option \<times> dns_enc" where
  "dns_enc_mkspace enc len =
     (if e_len enc + len > e_max enc then (None, enc)
      else (Some (e_len enc), enc\<lparr>e_len := e_len enc + len\<rparr>))"

text \<open>\<open>enc_fld_mkspace\<close> only adds a message for the log; then the caller returns -1.\<close>

definition enc_fld_mkspace :: "dns_enc \<Rightarrow> nat \<Rightarrow> (nat \<Rightarrow> dns_enc \<Rightarrow> (int \<times> dns_enc) option) \<Rightarrow> (int \<times> dns_enc) option" where
  "enc_fld_mkspace enc len k =
     (case dns_enc_mkspace enc len of (None, e) \<Rightarrow> Some (-1, e) | (Some p, e) \<Rightarrow> k p e)"

text \<open>\<open>rc = f(enc); if (rc) return rc;\<close>\<close>

definition enc_then :: "(int \<times> dns_enc) option \<Rightarrow> (dns_enc \<Rightarrow> (int \<times> dns_enc) option) \<Rightarrow> (int \<times> dns_enc) option" where
  "enc_then m f = do { (rc, e) \<leftarrow> m; if rc \<noteq> 0 then Some (rc, e) else f e }"

text \<open>The strings of a message: \<open>None\<close> for NULL.\<close>

definition rr_str :: "dns_msg \<Rightarrow> nat option \<Rightarrow> byte list option option" where
  "rr_str msg p = (case p of None \<Rightarrow> Some None | Some k \<Rightarrow> do { s \<leftarrow> cstr_at (m_names msg) k; Some (Some s) })"

text \<open>Writes at a pointer into the packet buffer.\<close>

definition put_bytes :: "byte list \<Rightarrow> nat \<Rightarrow> dns_enc \<Rightarrow> (nat \<times> dns_enc) option" where
  "put_bytes bs p enc = do { m \<leftarrow> mem_write (e_buf enc) p bs; Some (p + length bs, enc\<lparr>e_buf := m\<rparr>) }"

definition put_u16 :: "u16 \<Rightarrow> nat \<Rightarrow> dns_enc \<Rightarrow> (nat \<times> dns_enc) option" where
  "put_u16 v p enc = do { (q, m) \<leftarrow> enc_u16 (e_buf enc) p v; Some (q, enc\<lparr>e_buf := m\<rparr>) }"

definition put_u32 :: "u32 \<Rightarrow> nat \<Rightarrow> dns_enc \<Rightarrow> (nat \<times> dns_enc) option" where
  "put_u32 v p enc = do { (q, m) \<leftarrow> enc_u32 (e_buf enc) p v; Some (q, enc\<lparr>e_buf := m\<rparr>) }"

section \<open>Questions and fields\<close>

definition dns_enc_quest :: "dns_enc \<Rightarrow> dns_msg \<Rightarrow> dns_qd \<Rightarrow> (int \<times> dns_enc) option" where
  "dns_enc_quest enc msg quest =
     enc_fld_mkspace enc (DNS_NAME_MAXLEN + 4) (\<lambda>wbuf e. do {
       qname \<leftarrow> rr_str msg (qd_name quest);
       (w, e1) \<leftarrow> encode_name e wbuf qname;
       case w of None \<Rightarrow> Some (-1, e1)
       | Some wptr \<Rightarrow> do {
           (wptr, e2) \<leftarrow> put_u16 (qd_type quest) wptr e1;
           (wptr, e3) \<leftarrow> put_u16 (qd_class quest) wptr e2;
           Some (dns_enc_retspace e3 (size_sub (DNS_NAME_MAXLEN + 4) (wptr - wbuf))) } })"

definition dns_enc_name :: "dns_msg \<Rightarrow> nat option \<Rightarrow> dns_enc \<Rightarrow> (int \<times> dns_enc) option" where
  "dns_enc_name msg name enc =
     enc_fld_mkspace enc DNS_NAME_MAXLEN (\<lambda>wbuf e. do {
       s \<leftarrow> rr_str msg name;
       (w, e1) \<leftarrow> encode_name e wbuf s;
       case w of None \<Rightarrow> Some (-1, e1)
       | Some wptr \<Rightarrow> Some (dns_enc_retspace e1 (size_sub DNS_NAME_MAXLEN (wptr - wbuf))) })"

definition dns_enc_mem :: "byte list \<Rightarrow> dns_enc \<Rightarrow> (int \<times> dns_enc) option" where
  "dns_enc_mem mem enc =
     enc_fld_mkspace enc (length mem) (\<lambda>wbuf e. do { (w, e1) \<leftarrow> put_bytes mem wbuf e; Some (0, e1) })"

definition dns_enc_str :: "byte list \<Rightarrow> dns_enc \<Rightarrow> (int \<times> dns_enc) option" where
  "dns_enc_str s enc =
     enc_fld_mkspace enc (length s + 1) (\<lambda>wbuf e. do {
       (wptr, e1) \<leftarrow> put_bytes [of_nat (length s)] wbuf e;
       (w, e2) \<leftarrow> put_bytes s wptr e1;
       Some (0, e2) })"

section \<open>Resource records\<close>

definition opt_str :: "byte list option \<Rightarrow> byte list" where
  "opt_str s = (case s of None \<Rightarrow> [] | Some b \<Rightarrow> b)"

definition rre_soa :: "dns_msg \<Rightarrow> nat rdata \<Rightarrow> dns_enc \<Rightarrow> (int \<times> dns_enc) option" where
  "rre_soa msg rd enc = do {
     (mname, rname, serial, refresh, retry, expire, min_ttl) \<leftarrow> rd_soa rd;
     enc_then (dns_enc_name msg mname enc) (\<lambda>e.
     enc_then (dns_enc_name msg rname e) (\<lambda>e.
     enc_fld_mkspace e 20 (\<lambda>w e. do {
       (w, e) \<leftarrow> put_u32 serial w e;
       (w, e) \<leftarrow> put_u32 refresh w e;
       (w, e) \<leftarrow> put_u32 retry w e;
       (w, e) \<leftarrow> put_u32 expire w e;
       (w, e) \<leftarrow> put_u32 min_ttl w e;
       Some (0, e) }))) }"

text \<open>HINFO: \<open>wptr\<close> is not moved over the first string, so the second length lands on its first byte.\<close>

definition rre_hinfo :: "dns_msg \<Rightarrow> nat rdata \<Rightarrow> dns_enc \<Rightarrow> (int \<times> dns_enc) option" where
  "rre_hinfo msg rd enc = do {
     (cpu, os) \<leftarrow> rd_hinfo rd;
     cpu_str \<leftarrow> rr_str msg cpu;
     os_str \<leftarrow> rr_str msg os;
     let c = opt_str cpu_str;
     let x = opt_str os_str;
     enc_fld_mkspace enc (2 + length c + length x) (\<lambda>w e. do {
       (w, e) \<leftarrow> put_bytes [of_nat (length c)] w e;
       (w', e) \<leftarrow> put_bytes c w e;
       (w, e) \<leftarrow> put_bytes [of_nat (length x)] w e;
       (w', e) \<leftarrow> put_bytes x w e;
       Some (0, e) }) }"

text \<open>MX: four bytes are reserved, two are written.\<close>

definition rre_mx :: "dns_msg \<Rightarrow> nat rdata \<Rightarrow> dns_enc \<Rightarrow> (int \<times> dns_enc) option" where
  "rre_mx msg rd enc = do {
     (pref, name) \<leftarrow> rd_mx rd;
     enc_fld_mkspace enc 4 (\<lambda>w e. do {
       (w, e) \<leftarrow> put_u16 pref w e;
       dns_enc_name msg name e }) }"

fun txt_strs :: "dns_msg \<Rightarrow> nat option list \<Rightarrow> dns_enc \<Rightarrow> (int \<times> dns_enc) option" where
  "txt_strs msg [] enc = Some (0, enc)"
| "txt_strs msg (p # ps) enc = do {
     s \<leftarrow> rr_str msg p;
     enc_then (dns_enc_str (opt_str s) enc) (txt_strs msg ps) }"

definition rre_txt :: "dns_msg \<Rightarrow> nat rdata \<Rightarrow> dns_enc \<Rightarrow> (int \<times> dns_enc) option" where
  "rre_txt msg rd enc = do {
     (n, strs) \<leftarrow> rd_txt rd;
     if n \<le> length strs then txt_strs msg (take n strs) enc
     else None }"

text \<open>SRV: two bytes are reserved, six are written.\<close>

definition rre_srv :: "dns_msg \<Rightarrow> nat rdata \<Rightarrow> dns_enc \<Rightarrow> (int \<times> dns_enc) option" where
  "rre_srv msg rd enc = do {
     (prior, weight, port, name) \<leftarrow> rd_srv rd;
     enc_fld_mkspace enc 2 (\<lambda>w e. do {
       (w, e) \<leftarrow> put_u16 prior w e;
       (w, e) \<leftarrow> put_u16 weight w e;
       (w, e) \<leftarrow> put_u16 port w e;
       dns_enc_name msg name e }) }"

text \<open>OPT rewrites the class and, with only 16 bits, the first half of the TTL of the record's header.\<close>

definition opt_ttl :: "u8 \<Rightarrow> u8 \<Rightarrow> bool \<Rightarrow> u16 \<Rightarrow> u32" where
  "opt_ttl ext_rcode edns_ver do_bit z_bits =
     push_bit 24 (ucast ext_rcode) OR push_bit 16 (ucast edns_ver) OR (if do_bit then 0x8000 else 0) OR
     (ucast z_bits AND 0x7fff)"

definition rre_opt :: "nat \<Rightarrow> nat rdata \<Rightarrow> dns_enc \<Rightarrow> (int \<times> dns_enc) option" where
  "rre_opt rdlen_ptr rd enc = do {
     (udp_size, ext_rcode, edns_ver, do_bit, z_bits) \<leftarrow> rd_opt rd;
     (w, e) \<leftarrow> put_u16 udp_size (rdlen_ptr - (4 + 2)) enc;
     (w, e) \<leftarrow> put_u16 (ucast (opt_ttl ext_rcode edns_ver do_bit z_bits)) w e;
     Some (0, e) }"

definition rre_switch :: "dns_msg \<Rightarrow> u16 \<Rightarrow> nat rdata \<Rightarrow> nat \<Rightarrow> dns_enc \<Rightarrow> (int \<times> dns_enc) option" where
  "rre_switch msg t rd rdlen_ptr enc =
     (if t = DNS_TYPE_A then do { a \<leftarrow> rd_a rd; dns_enc_mem a enc }
      else if t = DNS_TYPE_NS then do { p \<leftarrow> rd_name rd; dns_enc_name msg p enc }
      else if t = DNS_TYPE_CNAME then do { p \<leftarrow> rd_name rd; dns_enc_name msg p enc }
      else if t = DNS_TYPE_SOA then rre_soa msg rd enc
      else if t = DNS_TYPE_PTR then do { p \<leftarrow> rd_name rd; dns_enc_name msg p enc }
      else if t = DNS_TYPE_HINFO then rre_hinfo msg rd enc
      else if t = DNS_TYPE_MX then rre_mx msg rd enc
      else if t = DNS_TYPE_TXT then rre_txt msg rd enc
      else if t = DNS_TYPE_AAAA then do { a \<leftarrow> rd_aaaa rd; dns_enc_mem a enc }
      else if t = DNS_TYPE_SRV then rre_srv msg rd enc
      else if t = DNS_TYPE_OPT then rre_opt rdlen_ptr rd enc
      else Some (0, enc))"

definition dns_rr_encode :: "dns_enc \<Rightarrow> dns_msg \<Rightarrow> msg_rr \<Rightarrow> (int \<times> dns_enc) option" where
  "dns_rr_encode enc msg rr =
     enc_fld_mkspace enc (DNS_NAME_MAXLEN + 2 + 2 + 4 + 2) (\<lambda>wbuf e. do {
       name \<leftarrow> rr_str msg (rr_name rr);
       (w, e) \<leftarrow> encode_name e wbuf name;
       case w of None \<Rightarrow> Some (-1, e)
       | Some wptr \<Rightarrow> do {
           (wptr, e) \<leftarrow> put_u16 (rr_type rr) wptr e;
           (wptr, e) \<leftarrow> put_u16 (rr_class rr) wptr e;
           (rdlen_ptr, e) \<leftarrow> put_u32 (rr_ttl rr) wptr e;
           (wptr, e) \<leftarrow> put_u16 0 rdlen_ptr e;
           enc_then (Some (dns_enc_retspace e (size_sub (DNS_NAME_MAXLEN + 2 + 2 + 4 + 2) (wptr - wbuf)))) (\<lambda>e.
           enc_then (rre_switch msg (rr_type rr) (rr_rdata rr) rdlen_ptr e) (\<lambda>e'. do {
             let pkt_len = (of_nat (e_len e) :: u16);
             (w, e2) \<leftarrow> put_u16 (of_nat (e_len e') - pkt_len) rdlen_ptr e';
             Some (0, e2) })) } })"

section \<open>Sections and messages\<close>

fun sect_enc_loop :: "dns_msg \<Rightarrow> msg_rr list \<Rightarrow> dns_enc \<Rightarrow> (int \<times> dns_enc) option" where
  "sect_enc_loop msg [] enc = Some (0, enc)"
| "sect_enc_loop msg (rr # rrs) enc = enc_then (dns_rr_encode enc msg rr) (sect_enc_loop msg rrs)"

definition dns_sect_enc :: "sect \<Rightarrow> dns_msg \<Rightarrow> dns_enc \<Rightarrow> (int \<times> dns_enc) option" where
  "dns_sect_enc sc msg enc =
     (if sect_count sc msg \<le> length (sect_base sc msg)
      then sect_enc_loop msg (take (sect_count sc msg) (sect_base sc msg)) enc else None)"

definition encode_an :: "dns_msg \<Rightarrow> dns_enc \<Rightarrow> (int \<times> dns_enc) option" where
  "encode_an msg enc = dns_sect_enc SectAN msg enc"

definition encode_ns :: "dns_msg \<Rightarrow> dns_enc \<Rightarrow> (int \<times> dns_enc) option" where
  "encode_ns msg enc = dns_sect_enc SectNS msg enc"

definition encode_ar :: "dns_msg \<Rightarrow> dns_enc \<Rightarrow> (int \<times> dns_enc) option" where
  "encode_ar msg enc = dns_sect_enc SectAR msg enc"

fun qd_enc_loop :: "dns_msg \<Rightarrow> dns_qd list \<Rightarrow> dns_enc \<Rightarrow> (int \<times> dns_enc) option" where
  "qd_enc_loop msg [] enc = Some (0, enc)"
| "qd_enc_loop msg (q # qs) enc = enc_then (dns_enc_quest enc msg q) (qd_enc_loop msg qs)"

definition encode_qd :: "dns_msg \<Rightarrow> dns_enc \<Rightarrow> (int \<times> dns_enc) option" where
  "encode_qd msg enc =
     (if m_qd_len msg \<le> length (m_qd msg) then qd_enc_loop msg (take (m_qd_len msg) (m_qd msg)) enc else None)"

text \<open>\<open>encode_hdr\<close> stores the section counters in the message's header and writes the header.\<close>

definition sync_hdr :: "dns_msg \<Rightarrow> dns_hdr" where
  "sync_hdr msg = (m_hdr msg)\<lparr>qd_count := of_nat (m_qd_len msg), an_count := of_nat (m_an_len msg),
     ns_count := of_nat (m_ns_len msg), ar_count := of_nat (m_ar_len msg)\<rparr>"

definition write_hdr :: "dns_hdr \<Rightarrow> dns_enc \<Rightarrow> (int \<times> dns_enc) option" where
  "write_hdr hdr enc =
     enc_fld_mkspace enc DNS_HDR_LEN (\<lambda>w e. do {
       (w, e) \<leftarrow> put_u16 (hd_id hdr) w e;
       (w, e) \<leftarrow> put_u16 (hd_flags hdr) w e;
       (w, e) \<leftarrow> put_u16 (qd_count hdr) w e;
       (w, e) \<leftarrow> put_u16 (an_count hdr) w e;
       (w, e) \<leftarrow> put_u16 (ns_count hdr) w e;
       (w, e) \<leftarrow> put_u16 (ar_count hdr) w e;
       Some (0, e) })"

definition encode_hdr :: "dns_msg \<Rightarrow> dns_enc \<Rightarrow> (int \<times> dns_enc \<times> dns_msg) option" where
  "encode_hdr msg enc = do {
     let msg' = msg\<lparr>m_hdr := sync_hdr msg\<rparr>;
     (rc, e) \<leftarrow> write_hdr (m_hdr msg') enc;
     Some (rc, e, msg') }"

definition encode_msg :: "dns_msg \<Rightarrow> dns_enc \<Rightarrow> (int \<times> dns_enc \<times> dns_msg) option" where
  "encode_msg msg enc = do {
     (rc, e, msg') \<leftarrow> encode_hdr msg enc;
     (rc', e') \<leftarrow> enc_then (enc_then (enc_then (enc_then (Some (rc, e)) (encode_qd msg')) (encode_an msg'))
       (encode_ns msg')) (encode_ar msg');
     Some (rc', e', msg') }"

definition dns_msg_encode :: "dns_msg \<Rightarrow> byte list \<Rightarrow> nat \<Rightarrow> (int \<times> byte list \<times> dns_msg) option" where
  "dns_msg_encode msg buf len = do {
     (rc, e, msg') \<leftarrow> encode_msg msg \<lparr>e_buf = buf, e_max = len, e_len = 0, e_suffix = []\<rparr>;
     Some (if rc \<noteq> 0 then -1 else int (e_len e), e_buf e, msg') }"

section \<open>Reservation\<close>

interpretation enc_space: reserve e_max e_len dns_enc_mkspace
  by unfold_locales (simp_all add: dns_enc_mkspace_def)

section \<open>Memory safety of the encoder\<close>

text \<open>
  The state between two steps of the encoder: at most \<open>M\<close> bytes are in use, the buffer consists of
  \<open>N\<close> bytes that may change and of the bytes \<open>D\<close> that may not.
\<close>

definition enc_inv :: "nat \<Rightarrow> nat \<Rightarrow> byte list \<Rightarrow> dns_enc \<Rightarrow> bool" where
  "enc_inv N M D e \<longleftrightarrow> e_max e = M \<and> e_len e \<le> M \<and> M \<le> N \<and> (\<exists>pre. e_buf e = pre @ D \<and> length pre = N)"

lemma mem_write_inside:
  assumes "length pre = N" and "p + length bs \<le> N"
  shows "\<exists>pre'. mem_write (pre @ D) p bs = Some (pre' @ D) \<and> length pre' = N \<and> take p pre' = take p pre \<and>
    take (length bs) (drop p pre') = bs"
proof -
  have "mem_write (pre @ D) p bs = Some ((take p pre @ bs @ drop (p + length bs) pre) @ D)"
    using assms by (simp add: mem_write_SomeI)
  then show ?thesis using assms by (intro exI [of _ "take p pre @ bs @ drop (p + length bs) pre"]) simp
qed

lemma inv_write:
  assumes "enc_inv N M D e" and "p + length bs \<le> N"
  shows "\<exists>m. mem_write (e_buf e) p bs = Some m \<and> enc_inv N M D (e\<lparr>e_buf := m\<rparr>)"
proof -
  obtain pre where pre: "e_buf e = pre @ D" "length pre = N" using assms(1) by (auto simp: enc_inv_def)
  obtain pre' where "mem_write (pre @ D) p bs = Some (pre' @ D)" "length pre' = N"
    using mem_write_inside [OF pre(2) assms(2)] by blast
  then show ?thesis using assms(1) pre by (auto simp: enc_inv_def)
qed

lemma put_bytes_ok:
  assumes "enc_inv N M D e" and "p + length bs \<le> N"
  shows "\<exists>e'. put_bytes bs p e = Some (p + length bs, e') \<and> enc_inv N M D e' \<and> e_len e' = e_len e"
  using inv_write [OF assms] by (auto simp: put_bytes_def)

lemma put_u16_ok:
  assumes "enc_inv N M D e" and "p + 2 \<le> N"
  shows "\<exists>e'. put_u16 v p e = Some (p + 2, e') \<and> enc_inv N M D e' \<and> e_len e' = e_len e"
  using inv_write [of N M D e p "be16 v"] assms be16.enc_width [of v] by (auto simp: put_u16_def enc_u16_def)

lemma put_u32_ok:
  assumes "enc_inv N M D e" and "p + 4 \<le> N"
  shows "\<exists>e'. put_u32 v p e = Some (p + 4, e') \<and> enc_inv N M D e' \<and> e_len e' = e_len e"
  using inv_write [of N M D e p "be32 v"] assms be32.enc_width [of v] by (auto simp: put_u32_def enc_u32_def)

lemma inv_suffix [simp]: "enc_inv N M D (e\<lparr>e_suffix := s\<rparr>) = enc_inv N M D e"
  by (simp add: enc_inv_def)

text \<open>A name takes at most two bytes more than its text.\<close>

lemma encode_loop_ok:
  assumes "enc_inv N M D e" and "wptr + length name + 2 \<le> N"
  shows "returns (encode_loop offset wptr name e) (\<lambda>(w, e'). enc_inv N M D e' \<and> e_len e' = e_len e \<and>
     (\<forall>q. w = Some q \<longrightarrow> wptr < q \<and> q \<le> wptr + length name + 2))"
  using assms
proof (induction offset wptr name e rule: encode_loop.induct)
  case (1 offset wptr name enc)
  show ?case
  proof (cases "name = []")
    case True
    then show ?thesis
      using inv_write [OF "1.prems"(1), of wptr "[0]"] "1.prems"(2) by (auto simp: encode_loop.simps [of _ _ "[]"])
  next
    case ne: False
    show ?thesis
    proof (cases "suffix_match (e_suffix enc) offset name")
      case (Some s)
      have "0 < length name" using ne by simp
      then show ?thesis
        using ne Some inv_write [OF "1.prems"(1), of wptr "be16 (comp_ptr (sx_offset s))"] "1.prems"(2)
        by (subst encode_loop.simps) (auto simp: be16.enc_width)
    next
      case None
      define enc1 where "enc1 = (if length (e_suffix enc) < DNS_MAX_SUFFIX
        then enc\<lparr>e_suffix := e_suffix enc @ [\<lparr>sx_name = name, sx_offset = of_nat wptr\<rparr>]\<rparr> else enc)"
      define lab where "lab = takeWhile (\<lambda>b. b \<noteq> 46) name"
      define len where "len = (of_nat (length lab) :: u8)"
      have e1: "enc_inv N M D enc1" "e_len enc1 = e_len enc" using "1.prems"(1) by (simp_all add: enc1_def)
      have ll: "unat len \<le> length lab" "length lab \<le> length name"
        by (simp_all add: len_def lab_def unat_of_nat take_bit_eq_mod length_takeWhile_le)
      show ?thesis
      proof (cases "unat len > DNS_LABEL_MAXSTR")
        case True
        then show ?thesis
          using ne None e1 by (subst encode_loop.simps) (simp add: Let_def enc1_def lab_def len_def)
      next
        case False
        obtain m1 where m1: "mem_write (e_buf enc1) wptr [len] = Some m1" "enc_inv N M D (enc1\<lparr>e_buf := m1\<rparr>)"
          using inv_write [OF e1(1), of wptr "[len]"] "1.prems"(2) by auto
        have tl: "length (take (unat len) name) = unat len" using ll by simp
        obtain m2 where m2: "mem_write m1 (wptr + 1) (take (unat len) name) = Some m2" "enc_inv N M D (enc1\<lparr>e_buf := m2\<rparr>)"
          using inv_write [OF m1(2), of "wptr + 1" "take (unat len) name"] "1.prems"(2) ll tl by auto
        let ?rest = "drop (length lab + 1) name"
        have room: "wptr + 1 + unat len + (if ?rest = [] then 1 else length ?rest + 2) \<le> wptr + length name + 2"
          using ll by auto
        have step: "encode_loop offset wptr name enc =
            encode_loop offset (wptr + 1 + unat len) ?rest (enc1\<lparr>e_buf := m2\<rparr>)"
          using ne None False m1 m2 by (subst encode_loop.simps) (simp add: Let_def enc1_def lab_def len_def)
        show ?thesis
        proof (cases "?rest = []")
          case True
          then show ?thesis
            using step inv_write [OF m2(2), of "wptr + 1 + unat len" "[0]"] room "1.prems"(2) e1
            by (auto simp: encode_loop.simps [of _ _ "[]"])
        next
          case rest: False
          have "returns (encode_loop offset (wptr + 1 + unat len) ?rest (enc1\<lparr>e_buf := m2\<rparr>))
            (\<lambda>(w, e'). enc_inv N M D e' \<and> e_len e' = e_len (enc1\<lparr>e_buf := m2\<rparr>) \<and>
             (\<forall>q. w = Some q \<longrightarrow> wptr + 1 + unat len < q \<and> q \<le> wptr + 1 + unat len + length ?rest + 2))"
            by (rule "1.IH" [OF ne None enc1_def lab_def len_def False m1(1) m2(1) m2(2)]) (use rest room "1.prems"(2) in simp)
          then show ?thesis
            unfolding step by (rule returns_mono) (use room rest e1 in auto)
        qed
      qed
    qed
  qed
qed

lemma encode_name_ok:
  assumes "enc_inv N M D e" and "wptr + safe_strlen name + 2 \<le> N"
  shows "returns (encode_name e wptr name) (\<lambda>(w, e'). enc_inv N M D e' \<and> e_len e' = e_len e \<and>
     (\<forall>q. w = Some q \<longrightarrow> wptr < q \<and> q \<le> wptr + safe_strlen name + 2))"
proof (cases name)
  case None
  then show ?thesis using inv_write [OF assms(1), of wptr "[0]"] assms(2) by (auto simp: encode_name_def)
next
  case (Some s)
  then show ?thesis using encode_loop_ok [OF assms(1), of wptr s wptr] assms(2)
    by (simp add: encode_name_def safe_strlen_def)
qed

text \<open>Strings of a message that the name store could have produced: at most 253 bytes long.\<close>

definition short_ptr :: "dns_msg \<Rightarrow> nat option \<Rightarrow> bool" where
  "short_ptr msg p = (case rr_str msg p of None \<Rightarrow> False | Some s \<Rightarrow> safe_strlen s \<le> DNS_NAME_MAXSTR)"

lemma short_ptrE:
  assumes "short_ptr msg p"
  obtains s where "rr_str msg p = Some s" "safe_strlen s \<le> 253"
  using assms by (auto simp: short_ptr_def DNS_NAME_MAXSTR_def split: option.splits)

definition enc_safe :: "nat \<Rightarrow> nat \<Rightarrow> byte list \<Rightarrow> dns_enc \<Rightarrow> (int \<times> dns_enc) option \<Rightarrow> bool" where
  "enc_safe N M D e0 m \<longleftrightarrow> returns m (\<lambda>(rc, e). (rc = 0 \<or> rc = -1) \<and> enc_inv N M D e \<and> (rc = 0 \<longrightarrow> e_len e0 \<le> e_len e))"

lemma safe_done: "enc_inv N M D e \<Longrightarrow> e_len e0 \<le> e_len e \<Longrightarrow> enc_safe N M D e0 (Some (0, e))"
  by (simp add: enc_safe_def)

lemma safe_fail: "enc_inv N M D e \<Longrightarrow> enc_safe N M D e0 (Some (-1, e))"
  by (simp add: enc_safe_def)

lemma safe_from: "enc_safe N M D e0 m \<Longrightarrow> e_len e1 \<le> e_len e0 \<Longrightarrow> enc_safe N M D e1 m"
  unfolding enc_safe_def by (erule returns_mono) auto

lemma safe_then:
  assumes "enc_safe N M D e0 m" and "\<And>e. enc_inv N M D e \<Longrightarrow> e_len e0 \<le> e_len e \<Longrightarrow> enc_safe N M D e (f e)"
  shows "enc_safe N M D e0 (enc_then m f)"
proof -
  obtain rc e where m: "m = Some (rc, e)" "rc = 0 \<or> rc = -1" "enc_inv N M D e" "rc = 0 \<longrightarrow> e_len e0 \<le> e_len e"
    using assms(1) by (auto simp: enc_safe_def returns_iff)
  show ?thesis
  proof (cases "rc = 0")
    case True
    then show ?thesis using m safe_from [OF assms(2), of e e0] by (simp add: enc_then_def)
  next
    case False
    then show ?thesis using m by (simp add: enc_then_def enc_safe_def)
  qed
qed

lemma safe_fld:
  assumes "enc_inv N M D e"
    and "\<And>e'. enc_inv N M D e' \<Longrightarrow> e_len e' = e_len e + n \<Longrightarrow> e_len e + n \<le> M \<Longrightarrow> enc_safe N M D e (k (e_len e) e')"
  shows "enc_safe N M D e (enc_fld_mkspace e n k)"
proof (cases "e_len e + n \<le> M")
  case True
  then have "enc_inv N M D (e\<lparr>e_len := e_len e + n\<rparr>)" using assms(1) by (simp add: enc_inv_def)
  then show ?thesis using assms True by (simp add: enc_fld_mkspace_def dns_enc_mkspace_def enc_inv_def)
next
  case False
  then show ?thesis using assms(1) safe_fail [OF assms(1)]
    by (simp add: enc_fld_mkspace_def dns_enc_mkspace_def enc_inv_def)
qed

lemma safe_retspace:
  assumes "enc_inv N M D e" and "e_len e0 + n = e_len e" and "used \<le> n"
  shows "enc_safe N M D e0 (Some (dns_enc_retspace e (size_sub n used)))"
  using assms by (auto simp: dns_enc_retspace_def enc_safe_def enc_inv_def)

lemma inv_room: "enc_inv N M D e \<Longrightarrow> p \<le> M \<Longrightarrow> p \<le> N"
  by (simp add: enc_inv_def)

lemma safe_name:
  assumes "enc_inv N M D e" and "short_ptr msg p"
  shows "enc_safe N M D e (dns_enc_name msg p e)"
  unfolding dns_enc_name_def
proof (rule safe_fld [OF assms(1)])
  fix e'
  assume e': "enc_inv N M D e'" "e_len e' = e_len e + DNS_NAME_MAXLEN" "e_len e + DNS_NAME_MAXLEN \<le> M"
  obtain s where s: "rr_str msg p = Some s" "safe_strlen s \<le> 253" using assms(2) by (rule short_ptrE)
  have "e_len e + safe_strlen s + 2 \<le> N" using e' s inv_room [OF e'(1,3)] by (simp add: DNS_NAME_MAXLEN_def)
  from encode_name_ok [OF e'(1) this] obtain w e1 where w: "encode_name e' (e_len e) s = Some (w, e1)"
    "enc_inv N M D e1" "e_len e1 = e_len e'" "\<forall>q. w = Some q \<longrightarrow> e_len e < q \<and> q \<le> e_len e + safe_strlen s + 2"
    by (auto simp: returns_iff)
  show "enc_safe N M D e (do {
       s \<leftarrow> rr_str msg p;
       (w, e1) \<leftarrow> encode_name e' (e_len e) s;
       case w of None \<Rightarrow> Some (-1, e1)
       | Some wptr \<Rightarrow> Some (dns_enc_retspace e1 (size_sub DNS_NAME_MAXLEN (wptr - e_len e))) })"
  proof (cases w)
    case None
    then show ?thesis using s w by (simp add: safe_fail)
  next
    case (Some q)
    then have "q - e_len e \<le> DNS_NAME_MAXLEN" using w(4) s by (auto simp: DNS_NAME_MAXLEN_def)
    from safe_retspace [OF w(2) _ this, of e] show ?thesis using s w e' Some by simp
  qed
qed

lemma safe_mem: "enc_inv N M D e \<Longrightarrow> enc_safe N M D e (dns_enc_mem mem e)"
  unfolding dns_enc_mem_def
  by (erule safe_fld, frule_tac bs = mem and p = "e_len e" in put_bytes_ok, erule (1) inv_room)
    (auto simp: enc_safe_def)

lemma safe_str:
  assumes "enc_inv N M D e"
  shows "enc_safe N M D e (dns_enc_str s e)"
  unfolding dns_enc_str_def
proof (rule safe_fld [OF assms])
  fix e'
  assume e': "enc_inv N M D e'" "e_len e' = e_len e + (length s + 1)" "e_len e + (length s + 1) \<le> M"
  have room: "e_len e + (length s + 1) \<le> N" using e' by (simp add: enc_inv_def)
  obtain e1 where e1: "put_bytes [of_nat (length s)] (e_len e) e' = Some (e_len e + 1, e1)" "enc_inv N M D e1" "e_len e1 = e_len e'"
    using put_bytes_ok [OF e'(1), of "e_len e" "[of_nat (length s)]"] room by auto
  obtain e2 where "put_bytes s (e_len e + 1) e1 = Some (e_len e + 1 + length s, e2)" "enc_inv N M D e2" "e_len e2 = e_len e1"
    using put_bytes_ok [OF e1(2), of "e_len e + 1" s] room by auto
  then show "enc_safe N M D e (do {
       (wptr, e1) \<leftarrow> put_bytes [of_nat (length s)] (e_len e) e';
       (w, e2) \<leftarrow> put_bytes s wptr e1;
       Some (0, e2) })"
    using e1 e' by (simp add: enc_safe_def)
qed

text \<open>Stepping over the writes of one field.\<close>

lemma safe_put_u16:
  assumes "enc_inv N M D e" and "p + 2 \<le> N"
    and "\<And>e'. enc_inv N M D e' \<Longrightarrow> e_len e' = e_len e \<Longrightarrow> enc_safe N M D e0 (k (p + 2) e')"
  shows "enc_safe N M D e0 (put_u16 v p e \<bind> (\<lambda>(q, e'). k q e'))"
  using put_u16_ok [OF assms(1,2), of v] assms(3) by auto

lemma safe_put_u32:
  assumes "enc_inv N M D e" and "p + 4 \<le> N"
    and "\<And>e'. enc_inv N M D e' \<Longrightarrow> e_len e' = e_len e \<Longrightarrow> enc_safe N M D e0 (k (p + 4) e')"
  shows "enc_safe N M D e0 (put_u32 v p e \<bind> (\<lambda>(q, e'). k q e'))"
  using put_u32_ok [OF assms(1,2), of v] assms(3) by auto

lemma safe_put_bytes:
  assumes "enc_inv N M D e" and "p + length bs \<le> N"
    and "\<And>e'. enc_inv N M D e' \<Longrightarrow> e_len e' = e_len e \<Longrightarrow> enc_safe N M D e0 (k (p + length bs) e')"
  shows "enc_safe N M D e0 (put_bytes bs p e \<bind> (\<lambda>(q, e'). k q e'))"
  using put_bytes_ok [OF assms(1,2)] assms(3) by auto

lemmas safe_puts = safe_put_u16 safe_put_u32 safe_put_bytes

lemma safe_soa:
  assumes "enc_inv N M D e" and "rd_soa rd = Some (mn, rn, a, b, c, d, f)" and "short_ptr msg mn" "short_ptr msg rn"
  shows "enc_safe N M D e (rre_soa msg rd e)"
proof -
  have "enc_safe N M D e' (enc_fld_mkspace e' 20 (\<lambda>w e. do {
       (w, e) \<leftarrow> put_u32 a w e; (w, e) \<leftarrow> put_u32 b w e; (w, e) \<leftarrow> put_u32 c w e;
       (w, e) \<leftarrow> put_u32 d w e; (w, e) \<leftarrow> put_u32 f w e; Some (0, e) }))" if "enc_inv N M D e'" for e'
    by (rule safe_fld [OF that], (rule safe_put_u32, assumption, simp add: enc_inv_def)+, rule safe_done, assumption, simp)
  then show ?thesis
    unfolding rre_soa_def using assms by (auto intro!: safe_then safe_name)
qed

lemma safe_hinfo:
  assumes "enc_inv N M D e" and "rd_hinfo rd = Some (c, x)" and "rr_str msg c = Some cs" "rr_str msg x = Some xs"
  shows "enc_safe N M D e (rre_hinfo msg rd e)"
  unfolding rre_hinfo_def assms(2-4) Option.bind.bind_lunit prod.case Let_def
  by (rule safe_fld [OF assms(1)], (rule safe_put_bytes, assumption, simp add: enc_inv_def)+, rule safe_done, assumption, simp)

lemma safe_mx:
  assumes "enc_inv N M D e" and "rd_mx rd = Some (v, p)" and "short_ptr msg p"
  shows "enc_safe N M D e (rre_mx msg rd e)"
  unfolding rre_mx_def assms(2) Option.bind.bind_lunit prod.case
  by (rule safe_fld [OF assms(1)], rule safe_put_u16, assumption, simp add: enc_inv_def,
      rule safe_from, rule safe_name, assumption, rule assms(3), simp)

lemma safe_txt_strs:
  "enc_inv N M D e \<Longrightarrow> (\<And>p. p \<in> set ps \<Longrightarrow> rr_str msg p \<noteq> None) \<Longrightarrow> enc_safe N M D e (txt_strs msg ps e)"
proof (induction ps arbitrary: e)
  case (Cons p ps)
  obtain s where "rr_str msg p = Some s" using Cons.prems(2) [of p] by auto
  then show ?case using Cons by (auto intro!: safe_then safe_str)
qed (simp add: safe_done)

text \<open>SRV needs four bytes behind the space it reserves.\<close>

lemma safe_srv:
  assumes "enc_inv N M D e" and "M + 4 \<le> N" and "rd_srv rd = Some (a, b, c, p)" and "short_ptr msg p"
  shows "enc_safe N M D e (rre_srv msg rd e)"
  unfolding rre_srv_def assms(3) Option.bind.bind_lunit prod.case
  by (rule safe_fld [OF assms(1)], (rule safe_put_u16, assumption, use assms(2) in linarith)+,
      rule safe_from, rule safe_name, assumption, rule assms(4), simp)

lemma safe_opt:
  assumes "enc_inv N M D e" and "rd_opt rd = Some (a, b, c, d, f)" and "6 \<le> rp" and "rp \<le> N"
  shows "enc_safe N M D e (rre_opt rp rd e)"
  unfolding rre_opt_def assms(2) Option.bind.bind_lunit prod.case
  by (rule safe_put_u16 [OF assms(1)], use assms(3,4) in linarith, rule safe_put_u16, assumption,
      use assms(3,4) in linarith, rule safe_done, assumption, simp)

text \<open>
  A record the encoder can read: its union holds the member that belongs to its type, and its
  strings are short.
\<close>

definition rd_ok :: "dns_msg \<Rightarrow> u16 \<Rightarrow> nat rdata \<Rightarrow> bool" where
  "rd_ok msg t rd =
     (if t = DNS_TYPE_A then rd_a rd \<noteq> None
      else if t = DNS_TYPE_NS \<or> t = DNS_TYPE_CNAME \<or> t = DNS_TYPE_PTR
      then (case rd_name rd of None \<Rightarrow> False | Some p \<Rightarrow> short_ptr msg p)
      else if t = DNS_TYPE_SOA
      then (case rd_soa rd of None \<Rightarrow> False | Some (m, r, _) \<Rightarrow> short_ptr msg m \<and> short_ptr msg r)
      else if t = DNS_TYPE_HINFO
      then (case rd_hinfo rd of None \<Rightarrow> False | Some (c, x) \<Rightarrow> short_ptr msg c \<and> short_ptr msg x)
      else if t = DNS_TYPE_MX then (case rd_mx rd of None \<Rightarrow> False | Some (v, p) \<Rightarrow> short_ptr msg p)
      else if t = DNS_TYPE_TXT
      then (case rd_txt rd of None \<Rightarrow> False | Some (n, ss) \<Rightarrow> n \<le> length ss \<and> list_all (short_ptr msg) (take n ss))
      else if t = DNS_TYPE_AAAA then rd_aaaa rd \<noteq> None
      else if t = DNS_TYPE_SRV then (case rd_srv rd of None \<Rightarrow> False | Some (_, _, _, p) \<Rightarrow> short_ptr msg p)
      else if t = DNS_TYPE_OPT then rd_opt rd \<noteq> None
      else True)"

definition rr_ok :: "dns_msg \<Rightarrow> msg_rr \<Rightarrow> bool" where
  "rr_ok msg rr \<longleftrightarrow> short_ptr msg (rr_name rr) \<and> rd_ok msg (rr_type rr) (rr_rdata rr)"

text \<open>The bytes behind the buffer that a record of the type may write.\<close>

definition srv_slack :: "u16 \<Rightarrow> nat" where
  "srv_slack t = (if t = DNS_TYPE_SRV then 4 else 0)"

lemma safe_switch:
  assumes "enc_inv N M D e" and "rd_ok msg t rd" and "M + srv_slack t \<le> N" and "6 \<le> rp" and "rp \<le> N"
  shows "enc_safe N M D e (rre_switch msg t rd rp e)"
proof -
  have s_nm: "enc_safe N M D e (do { p \<leftarrow> rd_name rd; dns_enc_name msg p e })"
    if "case rd_name rd of None \<Rightarrow> False | Some p \<Rightarrow> short_ptr msg p"
    using that safe_name [OF assms(1)] by (auto split: option.splits)
  have s_soa: "enc_safe N M D e (rre_soa msg rd e)"
    if "case rd_soa rd of None \<Rightarrow> False | Some (m, r, _) \<Rightarrow> short_ptr msg m \<and> short_ptr msg r"
    using that safe_soa [OF assms(1)] by (auto split: option.splits)
  have s_hinfo: "enc_safe N M D e (rre_hinfo msg rd e)"
    if "case rd_hinfo rd of None \<Rightarrow> False | Some (c, x) \<Rightarrow> short_ptr msg c \<and> short_ptr msg x"
    using that safe_hinfo [OF assms(1)] by (auto elim!: short_ptrE split: option.splits)
  have s_mx: "enc_safe N M D e (rre_mx msg rd e)"
    if "case rd_mx rd of None \<Rightarrow> False | Some (v, p) \<Rightarrow> short_ptr msg p"
    using that safe_mx [OF assms(1)] by (auto split: option.splits)
  have s_tx: "enc_safe N M D e (rre_txt msg rd e)"
    if rd: "case rd_txt rd of None \<Rightarrow> False | Some (n, ss) \<Rightarrow> n \<le> length ss \<and> list_all (short_ptr msg) (take n ss)"
  proof -
    obtain n ss where n: "rd_txt rd = Some (n, ss)" "n \<le> length ss" "list_all (short_ptr msg) (take n ss)"
      using rd by (cases "rd_txt rd") auto
    then have "rr_str msg p \<noteq> None" if "p \<in> set (take n ss)" for p
      using that by (auto simp: list_all_iff elim!: short_ptrE)
    then show ?thesis using n safe_txt_strs [OF assms(1), of "take n ss" msg] by (simp add: rre_txt_def)
  qed
  have s_srv: "enc_safe N M D e (rre_srv msg rd e)"
    if "t = DNS_TYPE_SRV" "case rd_srv rd of None \<Rightarrow> False | Some (_, _, _, p) \<Rightarrow> short_ptr msg p"
    using that safe_srv [OF assms(1)] assms(3) by (auto simp: srv_slack_def split: option.splits)
  have s_opt: "enc_safe N M D e (rre_opt rp rd e)" if "rd_opt rd \<noteq> None"
    using that safe_opt [OF assms(1) _ assms(4,5)] by auto
  have mem: "enc_safe N M D e (dns_enc_mem a e)" for a using assms(1) by (rule safe_mem)
  have ok: "rd_ok msg t rd" by (rule assms(2))
  consider (a) "t = DNS_TYPE_A" | (nm) "t = DNS_TYPE_NS \<or> t = DNS_TYPE_CNAME \<or> t = DNS_TYPE_PTR" | (soa) "t = DNS_TYPE_SOA"
    | (hinfo) "t = DNS_TYPE_HINFO" | (mx) "t = DNS_TYPE_MX" | (tx) "t = DNS_TYPE_TXT" | (aaaa) "t = DNS_TYPE_AAAA"
    | (srv) "t = DNS_TYPE_SRV" | (opt) "t = DNS_TYPE_OPT"
    | (other) "t \<noteq> DNS_TYPE_A" "t \<noteq> DNS_TYPE_NS" "t \<noteq> DNS_TYPE_CNAME" "t \<noteq> DNS_TYPE_PTR" "t \<noteq> DNS_TYPE_SOA" "t \<noteq> DNS_TYPE_HINFO"
        "t \<noteq> DNS_TYPE_MX" "t \<noteq> DNS_TYPE_TXT" "t \<noteq> DNS_TYPE_AAAA" "t \<noteq> DNS_TYPE_SRV" "t \<noteq> DNS_TYPE_OPT" by blast
  then show ?thesis
  proof cases
    case a then show ?thesis using ok mem by (auto simp: rre_switch_def rd_ok_def)
  next
    case nm then show ?thesis using ok s_nm
      by (elim disjE) (simp_all add: rre_switch_def rd_ok_def dns_types)
  next
    case soa then show ?thesis using ok s_soa by (simp add: rre_switch_def rd_ok_def dns_types)
  next
    case hinfo then show ?thesis using ok s_hinfo by (simp add: rre_switch_def rd_ok_def dns_types)
  next
    case mx then show ?thesis using ok s_mx by (simp add: rre_switch_def rd_ok_def dns_types)
  next
    case tx then show ?thesis using ok s_tx by (simp add: rre_switch_def rd_ok_def dns_types)
  next
    case aaaa then show ?thesis using ok mem by (auto simp: rre_switch_def rd_ok_def dns_types)
  next
    case srv then show ?thesis using ok s_srv by (simp add: rre_switch_def rd_ok_def dns_types)
  next
    case opt then show ?thesis using ok s_opt by (simp add: rre_switch_def rd_ok_def dns_types)
  next
    case other then show ?thesis using safe_done [OF assms(1) le_refl] by (simp add: rre_switch_def)
  qed
qed

lemma safe_rr:
  assumes "enc_inv N M D e" and "rr_ok msg rr" and "M + srv_slack (rr_type rr) \<le> N"
  shows "enc_safe N M D e (dns_rr_encode e msg rr)"
  unfolding dns_rr_encode_def
proof (rule safe_fld [OF assms(1)])
  let ?n = "DNS_NAME_MAXLEN + 2 + 2 + 4 + 2"
  fix e'
  assume e': "enc_inv N M D e'" "e_len e' = e_len e + ?n" "e_len e + ?n \<le> M"
  obtain s where s: "rr_str msg (rr_name rr) = Some s" "safe_strlen s \<le> 253"
    using assms(2) by (auto simp: rr_ok_def elim: short_ptrE)
  have N: "e_len e + 265 \<le> N" using e' by (simp add: DNS_NAME_MAXLEN_def enc_inv_def)
  then have "e_len e + safe_strlen s + 2 \<le> N" using s by simp
  from encode_name_ok [OF e'(1) this] obtain w e1 where w: "encode_name e' (e_len e) s = Some (w, e1)"
    "enc_inv N M D e1" "e_len e1 = e_len e'" "\<forall>q. w = Some q \<longrightarrow> e_len e < q \<and> q \<le> e_len e + safe_strlen s + 2"
    by (auto simp: returns_iff)
  have tail: "enc_safe N M D e (do {
           (wptr, e) \<leftarrow> put_u16 (rr_type rr) q e1;
           (wptr, e) \<leftarrow> put_u16 (rr_class rr) wptr e;
           (rdlen_ptr, e) \<leftarrow> put_u32 (rr_ttl rr) wptr e;
           (wptr, e) \<leftarrow> put_u16 0 rdlen_ptr e;
           enc_then (Some (dns_enc_retspace e (size_sub ?n (wptr - e_len e0)))) (\<lambda>e.
           enc_then (rre_switch msg (rr_type rr) (rr_rdata rr) rdlen_ptr e) (\<lambda>e'. do {
             let pkt_len = (of_nat (e_len e) :: u16);
             (w, e2) \<leftarrow> put_u16 (of_nat (e_len e') - pkt_len) rdlen_ptr e';
             Some (0, e2) })) })" if q: "w = Some q" and e0: "e_len e0 = e_len e" for q e0
  proof -
    have b: "e_len e < q" "q \<le> e_len e + 255" using w(4) q s by auto
    have last: "enc_safe N M D x (do { (w, e2) \<leftarrow> put_u16 v (q + 8) x; Some (0, e2) })" if "enc_inv N M D x" for x v
      by (rule safe_put_u16 [OF that], use b N in linarith, rule safe_done, assumption, simp)
    have "enc_safe N M D e (enc_then (Some (dns_enc_retspace e4 (size_sub ?n (q + 10 - e_len e0)))) (\<lambda>e.
           enc_then (rre_switch msg (rr_type rr) (rr_rdata rr) (q + 8) e) (\<lambda>e'. do {
             let pkt_len = (of_nat (e_len e) :: u16);
             (w, e2) \<leftarrow> put_u16 (of_nat (e_len e') - pkt_len) (q + 8) e';
             Some (0, e2) })))" if e4: "enc_inv N M D e4" "e_len e4 = e_len e'" for e4
    proof (rule safe_then [OF safe_retspace [OF e4(1)]])
      show "e_len e + ?n = e_len e4" using e' e4 by simp
      show "q + 10 - e_len e0 \<le> ?n" using b e0 by (simp add: DNS_NAME_MAXLEN_def)
      fix x
      assume x: "enc_inv N M D x"
      show "enc_safe N M D x (enc_then (rre_switch msg (rr_type rr) (rr_rdata rr) (q + 8) x) (\<lambda>e'. do {
             let pkt_len = (of_nat (e_len x) :: u16);
             (w, e2) \<leftarrow> put_u16 (of_nat (e_len e') - pkt_len) (q + 8) e';
             Some (0, e2) }))"
        unfolding Let_def using assms(2,3) x b N
        by (intro safe_then [OF safe_switch] last) (auto simp: rr_ok_def)
    qed
    moreover have "q + 2 \<le> N" "q + 2 + 2 \<le> N" "q + 2 + 2 + 4 \<le> N" "q + 2 + 2 + 4 + 2 \<le> N" using b N by simp_all
    ultimately show ?thesis
      using w(2,3) by (intro safe_put_u16 safe_put_u32) (simp_all add: ac_simps)
  qed
  show "enc_safe N M D e (do {
       name \<leftarrow> rr_str msg (rr_name rr);
       (w, ea) \<leftarrow> encode_name e' (e_len e) name;
       case w of None \<Rightarrow> Some (-1, ea)
       | Some wptr \<Rightarrow> do {
           (wptr, e3) \<leftarrow> put_u16 (rr_type rr) wptr ea;
           (wptr, e3) \<leftarrow> put_u16 (rr_class rr) wptr e3;
           (rdlen_ptr, e3) \<leftarrow> put_u32 (rr_ttl rr) wptr e3;
           (wptr, e3) \<leftarrow> put_u16 0 rdlen_ptr e3;
           enc_then (Some (dns_enc_retspace e3 (size_sub ?n (wptr - e_len e)))) (\<lambda>e.
           enc_then (rre_switch msg (rr_type rr) (rr_rdata rr) rdlen_ptr e) (\<lambda>e'. do {
             let pkt_len = (of_nat (e_len e) :: u16);
             (w, e2) \<leftarrow> put_u16 (of_nat (e_len e') - pkt_len) rdlen_ptr e';
             Some (0, e2) })) } })"
    using s w safe_fail [OF w(2)] tail [of _ e] by (cases w) simp_all
qed

lemma safe_quest:
  assumes "enc_inv N M D e" and "short_ptr msg (qd_name q)"
  shows "enc_safe N M D e (dns_enc_quest e msg q)"
  unfolding dns_enc_quest_def
proof (rule safe_fld [OF assms(1)])
  let ?n = "DNS_NAME_MAXLEN + 4"
  fix e'
  assume e': "enc_inv N M D e'" "e_len e' = e_len e + ?n" "e_len e + ?n \<le> M"
  obtain s where s: "rr_str msg (qd_name q) = Some s" "safe_strlen s \<le> 253" using assms(2) by (rule short_ptrE)
  have N: "e_len e + 259 \<le> N" using e' by (simp add: DNS_NAME_MAXLEN_def enc_inv_def)
  then have "e_len e + safe_strlen s + 2 \<le> N" using s by simp
  from encode_name_ok [OF e'(1) this] obtain w e1 where w: "encode_name e' (e_len e) s = Some (w, e1)"
    "enc_inv N M D e1" "e_len e1 = e_len e'" "\<forall>q. w = Some q \<longrightarrow> e_len e < q \<and> q \<le> e_len e + safe_strlen s + 2"
    by (auto simp: returns_iff)
  have "enc_safe N M D e (do {
           (wptr, e2) \<leftarrow> put_u16 (qd_type q) p e1;
           (wptr, e3) \<leftarrow> put_u16 (qd_class q) wptr e2;
           Some (dns_enc_retspace e3 (size_sub ?n (wptr - e_len e))) })" if "w = Some p" for p
    using w that s N e'(2)
    by (intro safe_put_u16 safe_retspace) (auto simp: DNS_NAME_MAXLEN_def)
  then show "enc_safe N M D e (do {
       qname \<leftarrow> rr_str msg (qd_name q);
       (w, e1) \<leftarrow> encode_name e' (e_len e) qname;
       case w of None \<Rightarrow> Some (-1, e1)
       | Some wptr \<Rightarrow> do {
           (wptr, e2) \<leftarrow> put_u16 (qd_type q) wptr e1;
           (wptr, e3) \<leftarrow> put_u16 (qd_class q) wptr e2;
           Some (dns_enc_retspace e3 (size_sub ?n (wptr - e_len e))) } })"
    using s w safe_fail [OF w(2)] by (cases w) simp_all
qed

lemma safe_sect_loop:
  "enc_inv N M D e \<Longrightarrow> (\<And>rr. rr \<in> set rrs \<Longrightarrow> rr_ok msg rr \<and> M + srv_slack (rr_type rr) \<le> N) \<Longrightarrow>
   enc_safe N M D e (sect_enc_loop msg rrs e)"
  by (induction rrs arbitrary: e) (auto intro!: safe_then safe_rr safe_done)

lemma safe_qd_loop:
  "enc_inv N M D e \<Longrightarrow> (\<And>q. q \<in> set qs \<Longrightarrow> short_ptr msg (qd_name q)) \<Longrightarrow> enc_safe N M D e (qd_enc_loop msg qs e)"
  by (induction qs arbitrary: e) (auto intro!: safe_then safe_quest safe_done)

text \<open>
  A message the encoder can read: the counters stay inside the arrays, the counted records and
  questions are readable.
\<close>

definition enc_ready :: "dns_msg \<Rightarrow> bool" where
  "enc_ready msg \<longleftrightarrow> m_qd_len msg \<le> length (m_qd msg) \<and>
     (\<forall>q\<in>set (take (m_qd_len msg) (m_qd msg)). short_ptr msg (qd_name q)) \<and>
     (\<forall>s. sect_count s msg \<le> length (sect_base s msg) \<and>
        (\<forall>rr\<in>set (take (sect_count s msg) (sect_base s msg)). rr_ok msg rr))"

definition sect_rrs :: "dns_msg \<Rightarrow> msg_rr list" where
  "sect_rrs msg = concat (map (\<lambda>s. take (sect_count s msg) (sect_base s msg)) [SectAN, SectNS, SectAR])"

definition enc_slack :: "dns_msg \<Rightarrow> nat" where
  "enc_slack msg = (if \<exists>rr\<in>set (sect_rrs msg). rr_type rr = DNS_TYPE_SRV then 4 else 0)"

lemma sect_rrs_in: "rr \<in> set (take (sect_count s msg) (sect_base s msg)) \<Longrightarrow> rr \<in> set (sect_rrs msg)"
  by (cases s) (auto simp: sect_rrs_def)

lemma slack_rr: "rr \<in> set (take (sect_count s msg) (sect_base s msg)) \<Longrightarrow> srv_slack (rr_type rr) \<le> enc_slack msg"
  by (auto simp: srv_slack_def enc_slack_def dest: sect_rrs_in)

lemma hdr_upd [simp]:
  "sect_base s (msg\<lparr>m_hdr := h\<rparr>) = sect_base s msg" "sect_count s (msg\<lparr>m_hdr := h\<rparr>) = sect_count s msg"
  by (cases s; simp)+

lemma hdr_upd_str [simp]: "rr_str (msg\<lparr>m_hdr := h\<rparr>) = rr_str msg"
  by (rule ext) (simp add: rr_str_def split: option.split)

lemma hdr_upd_short [simp]: "short_ptr (msg\<lparr>m_hdr := h\<rparr>) = short_ptr msg"
  by (simp add: fun_eq_iff short_ptr_def)

lemma hdr_upd_ok [simp]: "rr_ok (msg\<lparr>m_hdr := h\<rparr>) = rr_ok msg"
  unfolding rr_ok_def rd_ok_def hdr_upd_short ..

lemma safe_sect:
  assumes "enc_inv N M D e" and "enc_ready msg" and "M + enc_slack msg \<le> N"
  shows "enc_safe N M D e (dns_sect_enc sc msg e)"
proof -
  have "rr_ok msg rr \<and> M + srv_slack (rr_type rr) \<le> N" if "rr \<in> set (take (sect_count sc msg) (sect_base sc msg))" for rr
    using assms that slack_rr [OF that] by (auto simp: enc_ready_def)
  then show ?thesis using assms(2) safe_sect_loop [OF assms(1)] by (simp add: dns_sect_enc_def enc_ready_def)
qed

lemma safe_hdr: "enc_inv N M D e \<Longrightarrow> enc_safe N M D e (write_hdr h e)"
  unfolding write_hdr_def DNS_HDR_LEN_def
  by (erule safe_fld, (rule safe_put_u16, assumption, simp add: enc_inv_def)+, rule safe_done, assumption, simp)

lemma encode_msg_safe:
  assumes "enc_inv N M D e" and "enc_ready msg" and "M + enc_slack msg \<le> N"
  shows "returns (encode_msg msg e) (\<lambda>(rc, e', msg'). (rc = 0 \<or> rc = -1) \<and> enc_inv N M D e' \<and>
     msg' = msg\<lparr>m_hdr := sync_hdr msg\<rparr> \<and> (rc = 0 \<longrightarrow> e_len e \<le> e_len e'))"
proof -
  let ?m = "msg\<lparr>m_hdr := sync_hdr msg\<rparr>"
  have r: "enc_ready ?m" "M + enc_slack ?m \<le> N" using assms(2,3) by (simp_all add: enc_ready_def enc_slack_def sect_rrs_def)
  have qd: "enc_safe N M D x (encode_qd ?m x)" if "enc_inv N M D x" for x
    using r safe_qd_loop [OF that, of "take (m_qd_len ?m) (m_qd ?m)" ?m] by (simp add: encode_qd_def enc_ready_def)
  obtain rc e1 where h: "write_hdr (sync_hdr msg) e = Some (rc, e1)" using safe_hdr [OF assms(1), of "sync_hdr msg"]
    by (auto simp: enc_safe_def returns_iff)
  have "enc_safe N M D e (enc_then (enc_then (enc_then (enc_then (Some (rc, e1)) (encode_qd ?m)) (encode_an ?m))
       (encode_ns ?m)) (encode_ar ?m))"
    unfolding encode_an_def encode_ns_def encode_ar_def using safe_hdr [OF assms(1), of "sync_hdr msg"] h
    by (intro safe_then qd safe_sect r) simp_all
  then show ?thesis using h by (auto simp: encode_msg_def encode_hdr_def enc_safe_def returns_iff Let_def)
qed

lemma msg_encode_ok:
  assumes "enc_ready msg" and "len + enc_slack msg \<le> length buf"
  shows "\<exists>n buf'. dns_msg_encode msg buf len = Some (n, buf', msg\<lparr>m_hdr := sync_hdr msg\<rparr>) \<and>
    (n = -1 \<or> 0 \<le> n \<and> n \<le> int len) \<and> length buf' = length buf \<and>
    drop (len + enc_slack msg) buf' = drop (len + enc_slack msg) buf"
proof -
  let ?N = "len + enc_slack msg" and ?e = "\<lparr>e_buf = buf, e_max = len, e_len = 0, e_suffix = []\<rparr>"
  have "enc_inv ?N len (drop ?N buf) ?e"
    using assms(2) by (auto simp: enc_inv_def intro!: exI [of _ "take ?N buf"])
  from encode_msg_safe [OF this assms(1)] obtain rc e' where r: "encode_msg msg ?e = Some (rc, e', msg\<lparr>m_hdr := sync_hdr msg\<rparr>)"
    "rc = 0 \<or> rc = -1" "enc_inv ?N len (drop ?N buf) e'" by (auto simp: returns_iff)
  then obtain pre where "e_buf e' = pre @ drop ?N buf" "length pre = ?N" "e_len e' \<le> len" by (auto simp: enc_inv_def)
  then show ?thesis using r assms(2) by (auto simp: dns_msg_encode_def)
qed

text \<open>C6. Memory safety of \<open>dns_msg_encode\<close>: for every readable message and every buffer the encoder ends, returns -1 or a length of at most \<open>len\<close>, changes nothing of the message but the counters of its header and no byte of the memory behind the first \<open>len\<close> bytes of the buffer; only when the message holds an SRV record may it need, and write, four bytes more.\<close>

theorem dns_msg_encode_safe:
  assumes "enc_ready msg" and "len + enc_slack msg \<le> length buf"
  shows "\<exists>n buf'. dns_msg_encode msg buf len = Some (n, buf', msg\<lparr>m_hdr := sync_hdr msg\<rparr>) \<and>
    (n = -1 \<or> 0 \<le> n \<and> n \<le> int len) \<and> length buf' = length buf \<and>
    drop (len + enc_slack msg) buf' = drop (len + enc_slack msg) buf"
  using assms by (rule msg_encode_ok)

theorem dns_msg_encode_safe_witness:
  "let msg = zero_msg\<lparr>m_an_len := 1, m_an := [\<lparr>rr_name = None, rr_type = DNS_TYPE_SRV, rr_class = 1, rr_ttl = 60, rr_rdlen = 0,
      rr_rdata = RD_SRV 1 2 3 None\<rparr>]\<rparr>; buf = replicate 604 7
   in \<exists>n buf'. dns_msg_encode msg buf 600 = Some (n, buf', msg\<lparr>m_hdr := sync_hdr msg\<rparr>) \<and>
    (n = -1 \<or> 0 \<le> n \<and> n \<le> int 600) \<and> length buf' = length buf \<and> drop (600 + enc_slack msg) buf' = drop (600 + enc_slack msg) buf"
  unfolding Let_def
proof (rule dns_msg_encode_safe)
  let ?msg = "zero_msg\<lparr>m_an_len := 1, m_an := [\<lparr>rr_name = None, rr_type = DNS_TYPE_SRV, rr_class = 1, rr_ttl = 60, rr_rdlen = 0,
      rr_rdata = RD_SRV 1 2 3 None\<rparr>]\<rparr>"
  have "sect_count s ?msg \<le> length (sect_base s ?msg) \<and>
        (\<forall>rr\<in>set (take (sect_count s ?msg) (sect_base s ?msg)). rr_ok ?msg rr)" for s
    by (cases s) (simp_all add: zero_msg_def rr_ok_def rd_ok_def short_ptr_def rr_str_def safe_strlen_def dns_types)
  then show "enc_ready ?msg" by (simp add: enc_ready_def) (simp add: zero_msg_def)
  show "600 + enc_slack ?msg \<le> length (replicate 604 7)" by (simp add: enc_slack_def)
qed

text \<open>C38. The SRV case reserves 2 bytes and writes 6: with fewer than 6 bytes left in the buffer, but at least the 2 it asks for, it writes behind the end of the buffer.\<close>

theorem srv_writes_past_buffer:
  assumes "length (e_buf e) = e_max e" and "e_len e + 2 \<le> e_max e" and "e_max e < e_len e + 6"
  shows "rre_srv msg (RD_SRV prior weight port p) e = None"
proof -
  have w: "put_u16 v q x = None" if "length (e_buf x) < q + 2" for v q x
    using that by (simp add: put_u16_def enc_u16_def mem_write_def be16_def)
  have l: "length (e_buf x') = length (e_buf x) \<and> r = q + 2" if "put_u16 v q x = Some (r, x')" for v q x r x'
    using that by (auto simp: put_u16_def enc_u16_def dest: mem_write_length split: bind_splits)
  let ?e = "e\<lparr>e_len := e_len e + 2\<rparr>"
  show ?thesis
  proof (cases "put_u16 prior (e_len e) ?e")
    case None
    then show ?thesis using assms by (simp add: rre_srv_def enc_fld_mkspace_def dns_enc_mkspace_def)
  next
    case (Some r1)
    then obtain e1 where 1: "put_u16 prior (e_len e) ?e = Some (e_len e + 2, e1)" "length (e_buf e1) = e_max e"
      using l [of prior "e_len e" ?e] assms(1) by (cases r1) auto
    show ?thesis
    proof (cases "put_u16 weight (e_len e + 2) e1")
      case None
      then show ?thesis using 1 assms by (simp add: rre_srv_def enc_fld_mkspace_def dns_enc_mkspace_def)
    next
      case (Some r2)
      then obtain e2 where 2: "put_u16 weight (e_len e + 2) e1 = Some (e_len e + 4, e2)" "length (e_buf e2) = e_max e"
        using l [of weight "e_len e + 2" e1] 1 by (cases r2) auto
      then have "put_u16 port (e_len e + 4) e2 = None" using assms(3) by (intro w) simp
      then show ?thesis using 1 2 assms by (simp add: rre_srv_def enc_fld_mkspace_def dns_enc_mkspace_def)
    qed
  qed
qed

theorem srv_writes_past_buffer_witness:
  "rre_srv zero_msg (RD_SRV 1 2 3 None) \<lparr>e_buf = replicate 4 0, e_max = 4, e_len = 0, e_suffix = []\<rparr> = None"
  by (rule srv_writes_past_buffer) simp_all

end
