(* ===== verification/Dns_Enc_Name.thy ===== *)
theory Dns_Enc_Name
  imports Dns_Encode
begin

text \<open>
  What the encoder writes, read with the wire format of \<open>Dns_Name\<close>: names and their compression
  (the invariant \<open>names_ok\<close> of the compression table), the header, a question, and a query message.
  The buffer is at most \<open>2 ^ 14\<close> bytes long: a compression pointer has 14 bits and the encoder does
  not check that its target fits.
\<close>

section \<open>Names round trip\<close>

text \<open>The wire format depends only on the bytes of the packet, and a longer packet keeps its names.\<close>

lemma wire_name_extend:
  assumes "wire_name pkt L p e k t" and "L \<le> L'" and "L' \<le> length pkt'" and "L \<le> length pkt" and "take L pkt' = take L pkt"
  shows "wire_name pkt' L' p e k t"
proof -
  have nth: "pkt' ! i = pkt ! i" if "i < L" for i using assms(5) that by (metis nth_take)
  have sub: "take l (drop i pkt') = take l (drop i pkt)" if "i + l \<le> L" for i l
    using arg_cong [OF assms(5), of "\<lambda>x. drop i (take (i + l) x)"] that by (simp add: drop_take min_def)
  show ?thesis
    using assms(1)
  proof (induction rule: wire_name.induct)
    case (root p)
    then show ?case using nth assms(2) by (intro wire_name.root) simp_all
  next
    case (label p l e k t)
    have lt: "p + 1 + l < L" using wire_name_bound [OF label.hyps(5)] by simp
    have "wire_name pkt' L' p e k (take l (drop (p + 1) pkt') @ (if pkt' ! (p + 1 + l) = 0 then t else 46 # t))"
      using label nth assms(2) by (intro wire_name.label) simp_all
    then show ?case using sub [of "p + 1" l] nth [OF lt] lt by simp
  next
    case (jump p jmp e k t)
    then show ?case using nth assms(2) by (intro wire_name.jump) simp_all
  qed
qed

lemma wire_name_first: "wire_name pkt L p e k t \<Longrightarrow> t \<noteq> [] \<Longrightarrow> pkt ! p \<noteq> 0"
  by (cases rule: wire_name.cases) (auto simp: is_ptr_def)

text \<open>Compression pointers.\<close>

lemma unat_be16: "unat v = unat (ucast (drop_bit 8 v) :: u8) * 256 + unat (ucast v :: u8)" for v :: u16
proof -
  have "unat (ucast (drop_bit 8 v) :: u8) = unat v div 256"
    using unat_u16_less [of v] by (simp add: unsigned_ucast_eq take_bit_eq_mod unat_drop_bit)
  moreover have "unat (ucast v :: u8) = unat v mod 256" by (simp add: unsigned_ucast_eq take_bit_eq_mod)
  ultimately show ?thesis by simp
qed

lemma u16_high_bits: "unat (v :: u16) < 0x4000 \<Longrightarrow> 14 \<le> n \<Longrightarrow> \<not> bit v n"
proof
  assume a: "unat v < 0x4000" "14 \<le> n" "bit v n"
  have "drop_bit n (unat v) = 0" using a(1,2)
  proof -
    have "(2::nat) ^ 14 \<le> 2 ^ n" using a(2) by (rule power_increasing) simp
    then show ?thesis using a(1) by (simp add: drop_bit_eq_div)
  qed
  then have "\<not> bit (unat v) n" by (simp add: bit_iff_odd_drop_bit)
  then show False using a(3) by (simp add: bit_unsigned_iff)
qed

lemma comp_ptr_bytes:
  assumes "unat off < 0x4000"
  shows "is_ptr (ucast (drop_bit 8 (comp_ptr off)))"
    "ptr_target (ucast (drop_bit 8 (comp_ptr off))) (ucast (comp_ptr off)) = unat off"
proof -
  show "is_ptr (ucast (drop_bit 8 (comp_ptr off)))"
    unfolding is_ptr_def comp_ptr_def
  proof (rule bit_word_eqI)
    fix n assume n: "n < LENGTH(8)"
    then show "bit (ucast (drop_bit 8 (0xc000 OR off)) AND 0xC0 :: u8) n = bit (0xC0 :: u8) n"
      by (auto simp: bit_simps less_Suc_eq numeral_eq_Suc)
  qed
  have "ucast (drop_bit 8 (comp_ptr off)) AND 0x3F = (ucast (drop_bit 8 off) :: u8)"
  proof (rule bit_word_eqI)
    fix n assume n: "n < LENGTH(8)"
    then show "bit (ucast (drop_bit 8 (comp_ptr off)) AND 0x3F :: u8) n = bit (ucast (drop_bit 8 off) :: u8) n"
      using u16_high_bits [OF assms, of "8 + n"]
      by (auto simp: comp_ptr_def bit_simps less_Suc_eq numeral_eq_Suc)
  qed
  moreover have "(ucast (comp_ptr off) :: u8) = ucast off"
    by (rule bit_word_eqI) (auto simp: comp_ptr_def bit_simps less_Suc_eq numeral_eq_Suc)
  ultimately show "ptr_target (ucast (drop_bit 8 (comp_ptr off))) (ucast (comp_ptr off)) = unat off"
    by (simp add: ptr_target_def unat_be16 [of off])
qed

text \<open>Names whose labels have 1 to 63 bytes, without a trailing dot.\<close>

function good_labels :: "byte list \<Rightarrow> bool" where
  "good_labels name =
     (let lab = takeWhile (\<lambda>b. b \<noteq> 46) name
      in lab \<noteq> [] \<and> length lab \<le> DNS_LABEL_MAXSTR \<and>
         (length lab < length name \<longrightarrow> good_labels (drop (length lab + 1) name)))"
  by pat_completeness auto
termination by (relation "measure length") auto

declare good_labels.simps [simp del]

definition good_name :: "byte list \<Rightarrow> bool" where
  "good_name name \<longleftrightarrow> name = [] \<or> good_labels name"

lemma good_labelsD:
  assumes "good_labels name" and "lab = takeWhile (\<lambda>b. b \<noteq> 46) name"
  shows "name \<noteq> []" "0 < length lab" "length lab \<le> 63" "good_name (drop (length lab + 1) name)"
    "name = lab @ (if drop (length lab + 1) name = [] then [] else 46 # drop (length lab + 1) name)"
proof -
  have g: "lab \<noteq> []" "length lab \<le> 63" "length lab < length name \<Longrightarrow> good_labels (drop (length lab + 1) name)"
    using assms good_labels.simps [of name] by (simp_all add: Let_def DNS_LABEL_MAXSTR_def)
  show "0 < length lab" "length lab \<le> 63" "good_name (drop (length lab + 1) name)"
    using g by (cases "length lab < length name"; auto simp: good_name_def)+
  show "name \<noteq> []" using g(1) assms(2) by auto
  have take: "lab = take (length lab) name" using takeWhile_eq_take [of "\<lambda>b. b \<noteq> 46" name] assms(2) by simp
  show "name = lab @ (if drop (length lab + 1) name = [] then [] else 46 # drop (length lab + 1) name)"
  proof (cases "length lab < length name")
    case False
    then have "lab = name" using take by simp
    then show ?thesis by simp
  next
    case True
    have "name ! length lab = 46" using True assms(2) nth_length_takeWhile [of "\<lambda>b. b \<noteq> 46" name] by simp
    moreover have "name = lab @ drop (length lab) name" using append_take_drop_id [of "length lab" name] take by simp
    moreover have "drop (length lab) name = name ! length lab # drop (length lab + 1) name"
      using True by (simp add: Cons_nth_drop_Suc)
    moreover have "drop (length lab + 1) name \<noteq> []" using g(3) [OF True] good_labels.simps [of "[]"] by auto
    ultimately show ?thesis by simp
  qed
qed

text \<open>
  The compression table: every entry whose offset lies before \<open>L\<close> points at a name that ends
  before \<open>L\<close>, whose text is the entry's up to case and that is read over at most \<open>d\<close> pointers.
\<close>

definition sfx_at :: "byte list \<Rightarrow> nat \<Rightarrow> nat \<Rightarrow> dns_suffix \<Rightarrow> bool" where
  "sfx_at buf L d s \<longleftrightarrow> 12 \<le> unat (sx_offset s) \<and>
     (\<exists>e k t. wire_name buf L (unat (sx_offset s)) e k t \<and> k \<le> d \<and> strcaseeq t (sx_name s))"

definition table_ok :: "nat \<Rightarrow> nat \<Rightarrow> dns_enc \<Rightarrow> bool" where
  "table_ok d L e \<longleftrightarrow> (\<forall>s\<in>set (e_suffix e). unat (sx_offset s) < L \<longrightarrow> sfx_at (e_buf e) L d s)"

lemma sfx_at_extend:
  assumes "sfx_at buf L d s" and "L \<le> L'" and "L' \<le> length buf'" and "L \<le> length buf" and "take L buf' = take L buf" and "d \<le> d'"
  shows "sfx_at buf' L' d' s"
  using assms(1,6) wire_name_extend [OF _ assms(2-5)] unfolding sfx_at_def by (meson le_trans)

lemma table_ok_extend:
  assumes "table_ok d L e" and "L \<le> length (e_buf e)" and "length (e_buf e') = length (e_buf e)"
    and "take L (e_buf e') = take L (e_buf e)"
    and "\<And>s. s \<in> set (e_suffix e') \<Longrightarrow> s \<in> set (e_suffix e) \<or> L \<le> unat (sx_offset s)"
  shows "table_ok d L e'"
  unfolding table_ok_def
proof (intro ballI impI)
  fix s
  assume "s \<in> set (e_suffix e')" "unat (sx_offset s) < L"
  then have "sfx_at (e_buf e) L d s" using assms(1,5) by (fastforce simp: table_ok_def)
  then show "sfx_at (e_buf e') L d s" by (rule sfx_at_extend) (use assms in auto)
qed

lemma enc_inv_len: "enc_inv N M D e \<Longrightarrow> N \<le> length (e_buf e)"
  by (auto simp: enc_inv_def)

lemma strcaseeq_refl [simp]: "strcaseeq a a"
  by (simp add: strcaseeq_def)

lemma strcaseeq_append: "strcaseeq t u \<Longrightarrow> strcaseeq (a @ t) (a @ u)"
  by (simp add: strcaseeq_def)

lemma strcaseeq_Nil: "strcaseeq t u \<Longrightarrow> (t = []) = (u = [])"
  by (auto simp: strcaseeq_def)

text \<open>What the loop leaves at \<open>wptr\<close>; when no earlier name can be pointed at, the text comes back exactly.\<close>

definition fresh :: "nat \<Rightarrow> dns_enc \<Rightarrow> bool" where
  "fresh offset e \<longleftrightarrow> (\<forall>s\<in>set (e_suffix e). offset \<le> unat (sx_offset s))"

definition encoded :: "nat \<Rightarrow> nat \<Rightarrow> nat \<Rightarrow> byte list \<Rightarrow> dns_enc \<Rightarrow> nat \<Rightarrow> dns_enc \<Rightarrow> bool" where
  "encoded d offset wptr name e q e' \<longleftrightarrow> wptr < q \<and> take wptr (e_buf e') = take wptr (e_buf e) \<and>
     (\<exists>k t. wire_name (e_buf e') q wptr q k t \<and> k \<le> d + 1 \<and> strcaseeq t name \<and> (fresh offset e \<longrightarrow> t = name)) \<and>
     (name = [] \<longrightarrow> e_buf e' ! wptr = 0) \<and>
     (\<forall>s\<in>set (e_suffix e'). s \<in> set (e_suffix e) \<or> wptr \<le> unat (sx_offset s) \<and> sfx_at (e_buf e') q (d + 1) s)"

lemma encode_loop_root:
  assumes "enc_inv N M D e" and "wptr + 1 \<le> N"
  shows "\<exists>e'. encode_loop offset wptr [] e = Some (Some (wptr + 1), e') \<and> enc_inv N M D e' \<and> e_len e' = e_len e \<and>
     encoded d offset wptr [] e (wptr + 1) e'"
proof -
  obtain m where m: "mem_write (e_buf e) wptr [0] = Some m" "enc_inv N M D (e\<lparr>e_buf := m\<rparr>)"
    using inv_write [OF assms(1), of wptr "[0]"] assms(2) by auto
  have "m ! wptr = 0" using mem_write_nth_in [OF m(1), of 0] by simp
  moreover from this have "wire_name m (wptr + 1) wptr (wptr + 1) 0 []" by (intro wire_name.root) simp_all
  moreover have "take wptr m = take wptr (e_buf e)" by (rule mem_write_take [OF m(1)]) simp
  ultimately have "encoded d offset wptr [] e (wptr + 1) (e\<lparr>e_buf := m\<rparr>)"
    unfolding encoded_def by (auto intro!: exI [of _ "0::nat"] exI [of _ "[]::byte list"])
  then show ?thesis using m by (auto simp: encode_loop.simps [of _ _ "[]"])
qed

lemma encode_loop_comp:
  assumes "enc_inv N M D e" and "wptr + 2 \<le> N" and "N \<le> 0x4000" and "name \<noteq> []"
    and "suffix_match (e_suffix e) offset name = Some s" and "offset \<le> wptr" and "table_ok d offset e"
  shows "\<exists>e'. encode_loop offset wptr name e = Some (Some (wptr + 2), e') \<and> enc_inv N M D e' \<and> e_len e' = e_len e \<and>
     encoded d offset wptr name e (wptr + 2) e'"
proof -
  have s: "s \<in> set (e_suffix e)" "unat (sx_offset s) < offset" "strcaseeq (sx_name s) name"
    using assms(5) by (auto simp: suffix_match_def find_Some_iff)
  then obtain en k t where w: "wire_name (e_buf e) offset (unat (sx_offset s)) en k t" "k \<le> d" "strcaseeq t (sx_name s)"
    and o12: "12 \<le> unat (sx_offset s)"
    using assms(7) by (auto simp: table_ok_def sfx_at_def)
  let ?bs = "be16 (comp_ptr (sx_offset s))"
  obtain m where m: "mem_write (e_buf e) wptr ?bs = Some m" "enc_inv N M D (e\<lparr>e_buf := m\<rparr>)"
    using inv_write [OF assms(1), of wptr ?bs] assms(2) by (auto simp: be16.enc_width)
  have len: "length m = length (e_buf e)" "N \<le> length (e_buf e)"
    using mem_write_length [OF m(1)] enc_inv_len [OF assms(1)] by simp_all
  have b: "m ! wptr = ucast (drop_bit 8 (comp_ptr (sx_offset s)))" "m ! (wptr + 1) = ucast (comp_ptr (sx_offset s))"
    using mem_write_nth_in [OF m(1), of 0] mem_write_nth_in [OF m(1), of 1] by (simp_all add: be16_def)
  have tk: "take k m = take k (e_buf e)" if "k \<le> wptr" for k using mem_write_take [OF m(1) that] .
  have lt: "unat (sx_offset s) < 0x4000" using s(2) assms(2,3,6) by simp
  have "wire_name m (wptr + 2) (unat (sx_offset s)) en k t"
    by (rule wire_name_extend [OF w(1)]) (use assms(2,6) len tk [OF assms(6)] in auto)
  then have "wire_name m (wptr + 2) wptr (wptr + 2) (k + 1) t"
    using comp_ptr_bytes [OF lt] b o12 by (intro wire_name.jump [where jmp = "unat (sx_offset s)"]) auto
  moreover have "strcaseeq t name" using w(3) s(3) by (simp add: strcaseeq_def)
  moreover have "\<not> fresh offset e" using s(1,2) unfolding fresh_def by (meson not_le)
  ultimately have "encoded d offset wptr name e (wptr + 2) (e\<lparr>e_buf := m\<rparr>)"
    unfolding encoded_def using tk [OF le_refl] w(2) assms(4) by auto
  then show ?thesis using m assms(4,5) by (subst encode_loop.simps) auto
qed

lemma encoded_label:
  assumes "encoded d offset (wptr + 1 + length lab) rest e2 q e'" and "name = lab @ (if rest = [] then [] else 46 # rest)"
    and "0 < length lab" "length lab \<le> 63" and "q \<le> length (e_buf e')"
    and "take (wptr + 1 + length lab) (e_buf e2) = take wptr (e_buf e) @ [of_nat (length lab)] @ lab" and "wptr \<le> length (e_buf e)"
    and "e_suffix e2 = e_suffix e \<or> e_suffix e2 = e_suffix e @ [\<lparr>sx_name = name, sx_offset = of_nat wptr\<rparr>]"
    and "wptr < 65536" and "12 \<le> wptr" and "offset \<le> wptr"
  shows "encoded d offset wptr name e q e'"
proof -
  let ?p = "wptr + 1 + length lab"
  obtain k t where w: "wire_name (e_buf e') q ?p q k t" "k \<le> d + 1" "strcaseeq t rest" "fresh offset e2 \<longrightarrow> t = rest"
    and tk: "take ?p (e_buf e') = take wptr (e_buf e) @ [of_nat (length lab)] @ lab" and q: "?p < q"
    and sf: "\<forall>s\<in>set (e_suffix e'). s \<in> set (e_suffix e2) \<or> ?p \<le> unat (sx_offset s) \<and> sfx_at (e_buf e') q (d + 1) s"
    using assms(1,6) by (auto simp: encoded_def)
  have lw: "length (take wptr (e_buf e)) = wptr" using assms(7) by simp
  have b: "e_buf e' ! wptr = of_nat (length lab)"
    using arg_cong [OF tk, of "\<lambda>x. x ! wptr"] lw by (simp add: nth_append)
  have l: "take (length lab) (drop (wptr + 1) (e_buf e')) = lab"
  proof -
    have "drop (wptr + 1) (take ?p (e_buf e')) = lab" using tk lw by simp
    then show ?thesis by (simp add: drop_take)
  qed
  have ul: "unat (of_nat (length lab) :: u8) = length lab" using assms(4) by (simp add: unat_of_nat take_bit_eq_mod)
  have nptr: "\<not> is_ptr (e_buf e' ! wptr)"
  proof
    assume "is_ptr (e_buf e' ! wptr)"
    then have "(of_nat (length lab) :: u8) AND 0xC0 = 0xC0" by (simp add: is_ptr_def b)
    then have "bit ((of_nat (length lab) :: u8) AND 0xC0) 6" by (simp add: bit_simps)
    then have "bit (unat (of_nat (length lab) :: u8)) 6" by (simp add: bit_simps)
    then show False unfolding ul using assms(4) by (simp add: bit_iff_odd)
  qed
  have "e_buf e' ! ?p = 0 \<longleftrightarrow> rest = []"
    using assms(1) wire_name_first [OF w(1)] strcaseeq_Nil [OF w(3)] by (auto simp: encoded_def)
  then have tx: "take (length lab) (drop (wptr + 1) (e_buf e')) @ (if e_buf e' ! ?p = 0 then t else 46 # t) =
      lab @ (if rest = [] then [] else 46 # t)"
    using l strcaseeq_Nil [OF w(3)] by simp
  have eq: "strcaseeq (lab @ (if rest = [] then [] else 46 # t)) name"
    unfolding assms(2) using w(3) by (auto simp: strcaseeq_def)
  have ex: "fresh offset e \<longrightarrow> lab @ (if rest = [] then [] else 46 # t) = name"
    unfolding assms(2) using w(4) assms(8,9,11) by (auto simp: fresh_def unat_of_nat take_bit_eq_mod)
  have "wire_name (e_buf e') q wptr q k (take (length lab) (drop (wptr + 1) (e_buf e')) @ (if e_buf e' ! ?p = 0 then t else 46 # t))"
    by (rule wire_name.label [OF _ nptr _ assms(3) w(1)]) (use q b ul in auto)
  then have wn: "wire_name (e_buf e') q wptr q k (lab @ (if rest = [] then [] else 46 # t))" unfolding tx .
  have new: "sfx_at (e_buf e') q (d + 1) \<lparr>sx_name = name, sx_offset = of_nat wptr\<rparr>" "unat (of_nat wptr :: u16) = wptr"
    using wn eq w(2) assms(9,10) by (auto simp: sfx_at_def unat_of_nat take_bit_eq_mod)
  have "take wptr (e_buf e') = take wptr (e_buf e)" using arg_cong [OF tk, of "take wptr"] lw by (simp add: min_def)
  moreover have "name \<noteq> []" using assms(2,3) by auto
  moreover have "s \<in> set (e_suffix e) \<or> wptr \<le> unat (sx_offset s) \<and> sfx_at (e_buf e') q (d + 1) s" if "s \<in> set (e_suffix e')" for s
    using sf that assms(8) new by auto
  ultimately show ?thesis unfolding encoded_def using wn eq ex w(2) q by auto
qed

text \<open>The loop writes the wire format of the name.\<close>

text \<open>A label in the buffer, and what it leaves of the table: the suffix that starts with it is entered while there is room.\<close>

lemma label_written:
  assumes inv: "enc_inv N M D e" and fit: "wptr + 1 + length lab \<le> N"
  obtains m1 m2 where "mem_write (e_buf e) wptr [len] = Some m1" "mem_write m1 (wptr + 1) lab = Some m2" "enc_inv N M D (e\<lparr>e_buf := m2\<rparr>)"
    "take (wptr + 1 + length lab) m2 = take wptr (e_buf e) @ [len] @ lab" "length m2 = length (e_buf e)"
proof -
  have N: "N \<le> length (e_buf e)" by (rule enc_inv_len [OF inv])
  obtain m1 where m1: "mem_write (e_buf e) wptr [len] = Some m1" "enc_inv N M D (e\<lparr>e_buf := m1\<rparr>)"
    using inv_write [OF inv, of wptr "[len]"] fit by auto
  obtain m2 where m2: "mem_write m1 (wptr + 1) lab = Some m2" "enc_inv N M D (e\<lparr>e_buf := m2\<rparr>)"
    using inv_write [OF m1(2), of "wptr + 1" lab] fit by auto
  have "m1 = take wptr (e_buf e) @ [len] @ drop (wptr + 1) (e_buf e)" using m1(1) fit N by (simp add: mem_write_SomeI)
  then have "m2 = (take wptr (e_buf e) @ [len] @ lab) @ drop (wptr + 1 + length lab) (e_buf e)"
    using m2(1) fit N by (auto simp: mem_write_SomeI ac_simps)
  then show ?thesis using N fit by (intro that [OF m1(1) m2]) simp_all
qed

lemma label_table:
  assumes "table_ok d offset e" and "offset \<le> wptr" and "wptr \<le> length (e_buf e)" and "wptr < 65536" and "length m = length (e_buf e)" and "take wptr m = take wptr (e_buf e)"
    and "set (e_suffix e1) \<subseteq> insert \<lparr>sx_name = name, sx_offset = of_nat wptr\<rparr> (set (e_suffix e))"
  shows "table_ok d offset (e1\<lparr>e_buf := m\<rparr>)"
proof (rule table_ok_extend [OF assms(1)])
  show "offset \<le> length (e_buf e)" "length (e_buf (e1\<lparr>e_buf := m\<rparr>)) = length (e_buf e)" using assms by simp_all
  show "take offset (e_buf (e1\<lparr>e_buf := m\<rparr>)) = take offset (e_buf e)" using arg_cong [OF assms(6), of "take offset"] assms(2) by (simp add: min_def)
  show "s \<in> set (e_suffix e) \<or> offset \<le> unat (sx_offset s)" if "s \<in> set (e_suffix (e1\<lparr>e_buf := m\<rparr>))" for s
    using that assms(2,4,7) by (auto simp: unat_of_nat take_bit_eq_mod)
qed

lemma encode_loop_encoded:
  assumes "enc_inv N M D e" and "wptr + length name + 2 \<le> N" and "N \<le> 0x4000" and "good_name name"
    and "12 \<le> offset" and "offset \<le> wptr" and "table_ok d offset e"
  shows "\<exists>q e'. encode_loop offset wptr name e = Some (Some q, e') \<and> enc_inv N M D e' \<and> e_len e' = e_len e \<and>
     encoded d offset wptr name e q e' \<and> q \<le> wptr + length name + 2"
  using assms(1,2,4,5,6,7)
proof (induction offset wptr name e rule: encode_loop.induct)
  case (1 offset wptr name enc)
  consider (root) "name = []" | (comp) s where "name \<noteq> []" "suffix_match (e_suffix enc) offset name = Some s"
    | (lab) "name \<noteq> []" "suffix_match (e_suffix enc) offset name = None" by fastforce
  then show ?case
  proof cases
    case root
    then show ?thesis using encode_loop_root [OF "1.prems"(1), of wptr offset d] "1.prems"(2) by fastforce
  next
    case comp
    then show ?thesis
      using encode_loop_comp [OF "1.prems"(1) _ assms(3) comp "1.prems"(5,6)] "1.prems"(2) by fastforce
  next
    case none: lab
    define enc1 where "enc1 = (if length (e_suffix enc) < DNS_MAX_SUFFIX
      then enc\<lparr>e_suffix := e_suffix enc @ [\<lparr>sx_name = name, sx_offset = of_nat wptr\<rparr>]\<rparr> else enc)"
    define lab where "lab = takeWhile (\<lambda>b. b \<noteq> 46) name"
    define len where "len = (of_nat (length lab) :: u8)"
    let ?rest = "drop (length lab + 1) name"
    note g = good_labelsD [OF _ lab_def]
    have gl: "good_labels name" using "1.prems"(3) none(1) by (simp add: good_name_def)
    have ul: "unat len = length lab" using g(3) [OF gl] by (simp add: len_def unat_of_nat take_bit_eq_mod)
    then have small: "\<not> unat len > DNS_LABEL_MAXSTR" using g(3) [OF gl] by (simp add: DNS_LABEL_MAXSTR_def)
    have e1: "enc_inv N M D enc1" "e_len enc1 = e_len enc" "e_buf enc1 = e_buf enc" using "1.prems"(1) by (simp_all add: enc1_def)
    have ln: "length lab \<le> length name" "take (unat len) name = lab"
      using takeWhile_eq_take [of "\<lambda>b. b \<noteq> 46" name] ul by (simp_all add: lab_def length_takeWhile_le)
    have N: "N \<le> length (e_buf enc)" by (rule enc_inv_len [OF "1.prems"(1)])
    have "wptr + 1 + length lab \<le> N" using "1.prems"(2) ln by simp
    from label_written [OF e1(1) this, of len] obtain m1 m2 where m: "mem_write (e_buf enc1) wptr [len] = Some m1"
        "mem_write m1 (wptr + 1) (take (unat len) name) = Some m2" "enc_inv N M D (enc1\<lparr>e_buf := m2\<rparr>)"
      and tk: "take (wptr + 1 + length lab) m2 = take wptr (e_buf enc) @ [len] @ lab" "length m2 = length (e_buf enc)"
      unfolding ln(2) e1(3) by blast
    have step: "encode_loop offset wptr name enc = encode_loop offset (wptr + 1 + unat len) ?rest (enc1\<lparr>e_buf := m2\<rparr>)"
      using none small m by (subst encode_loop.simps) (simp add: Let_def enc1_def lab_def len_def)
    have w16: "wptr < 65536" "unat (of_nat wptr :: u16) = wptr"
      using "1.prems"(2) assms(3) by (simp_all add: unat_of_nat take_bit_eq_mod)
    have "take wptr m2 = take wptr (e_buf enc)" using arg_cong [OF tk(1), of "take wptr"] "1.prems"(2) N by (simp add: min_def)
    then have tab: "table_ok d offset (enc1\<lparr>e_buf := m2\<rparr>)"
      using "1.prems"(2,5) N tk(2) w16(1) by (intro label_table [OF "1.prems"(6)]) (auto simp: enc1_def)
    have room: "wptr + 1 + unat len + length ?rest + 2 \<le> wptr + length name + 2 \<or> ?rest = []" using ul ln by auto
    obtain q e' where q: "encode_loop offset (wptr + 1 + unat len) ?rest (enc1\<lparr>e_buf := m2\<rparr>) = Some (Some q, e')"
      "enc_inv N M D e'" "e_len e' = e_len enc" "encoded d offset (wptr + 1 + length lab) ?rest (enc1\<lparr>e_buf := m2\<rparr>) q e'"
      "q \<le> wptr + length name + 2"
    proof (cases "?rest = []")
      case True
      have "wptr + 1 + length lab + 1 \<le> N" using "1.prems"(2) ln by simp
      from encode_loop_root [OF m(3) this, of offset d] show ?thesis using that True ul ln e1 by fastforce
    next
      case False
      have "wptr + 1 + unat len + length ?rest + 2 \<le> N" using room False "1.prems"(2) by simp
      from "1.IH" [OF none enc1_def lab_def len_def small m(1,2,3) this g(4) [OF gl] "1.prems"(4) _ tab] that show ?thesis
        using "1.prems"(5) room False e1 ul by auto
    qed
    have "encoded d offset wptr name enc q e'"
      by (rule encoded_label [OF q(4) g(5) [OF gl] g(2,3) [OF gl]])
        (use q(2,5) "1.prems"(2,4,5) N tk enc_inv_len [OF q(2)] w16 in \<open>auto simp: len_def enc1_def\<close>)
    then show ?thesis using step q by auto
  qed
qed

text \<open>Between two names every entry of the table is a name written before.\<close>

definition names_ok :: "nat \<Rightarrow> nat \<Rightarrow> dns_enc \<Rightarrow> bool" where
  "names_ok d L e \<longleftrightarrow> (\<forall>s\<in>set (e_suffix e). sfx_at (e_buf e) L d s)"

lemma names_ok_table: "names_ok d L e \<Longrightarrow> table_ok d L e"
  by (simp add: names_ok_def table_ok_def)

lemma names_ok_extend:
  assumes "names_ok d L e" and "L \<le> L'" and "L' \<le> length (e_buf e')" and "L \<le> length (e_buf e)"
    and "take L (e_buf e') = take L (e_buf e)" and "e_suffix e' = e_suffix e"
  shows "names_ok d L' e'"
  using assms sfx_at_extend [OF _ assms(2-5)] by (auto simp: names_ok_def)

lemma encode_name_encoded:
  assumes "enc_inv N M D e" and "wptr + length name + 2 \<le> N" and "N \<le> 0x4000" and "good_name name"
    and "12 \<le> wptr" and "names_ok d wptr e"
  shows "\<exists>q e'. encode_name e wptr (Some name) = Some (Some q, e') \<and> enc_inv N M D e' \<and> e_len e' = e_len e \<and>
     encoded d wptr wptr name e q e' \<and> q \<le> wptr + length name + 2 \<and> names_ok (d + 1) q e'"
proof -
  obtain q e' where q: "encode_loop wptr wptr name e = Some (Some q, e')" "enc_inv N M D e'" "e_len e' = e_len e"
    "encoded d wptr wptr name e q e'" "q \<le> wptr + length name + 2"
    using encode_loop_encoded [OF assms(1-5) le_refl names_ok_table [OF assms(6)]] by blast
  have len: "N \<le> length (e_buf e)" "N \<le> length (e_buf e')" using assms(1) q(2) by (auto dest: enc_inv_len)
  have "sfx_at (e_buf e') q (d + 1) s" if s: "s \<in> set (e_suffix e)" for s
    by (rule sfx_at_extend [of "e_buf e" wptr d]) (use s assms(2,6) q len in \<open>auto simp: names_ok_def encoded_def\<close>)
  then have "names_ok (d + 1) q e'" using q(4) by (auto simp: names_ok_def encoded_def)
  then show ?thesis using q by (auto simp: encode_name_def)
qed

lemma decode_encoded:
  assumes "encoded d wptr wptr name e q e'" and "d < 17" and "q \<le> L" and "take q pkt = take q (e_buf e')" and "L \<le> length pkt"
    and "q \<le> length (e_buf e')"
  shows "\<exists>k t. wire_name pkt L wptr q k t \<and> k \<le> 17 \<and> strcaseeq t name \<and> (fresh wptr e \<longrightarrow> t = name)"
proof -
  obtain k t where w: "wire_name (e_buf e') q wptr q k t" "k \<le> d + 1" "strcaseeq t name" "fresh wptr e \<longrightarrow> t = name"
    using assms(1) by (auto simp: encoded_def)
  have "wire_name pkt L wptr q k t" by (rule wire_name_extend [OF w(1)]) (use assms in auto)
  then show ?thesis using w(2-4) assms(2) by (intro exI [of _ k] exI [of _ t]) simp
qed

lemma start_inv: "enc_inv n n [] \<lparr>e_buf = replicate n 0, e_max = n, e_len = k, e_suffix = []\<rparr> \<longleftrightarrow> k \<le> n"
  by (simp add: enc_inv_def)

text \<open>C5. Names round trip through compression: \<open>encode_name\<close> writes a name with labels of 1 to 63 bytes into at most two bytes more than its text, changes no byte before it, and \<open>decode_name\<close> run on any packet that starts with these bytes returns the name, up to the case of letters where a compression pointer was used, and stops right behind it. It keeps the invariant of the compression table with one pointer more per chain.\<close>

theorem encode_name_roundtrip:
  assumes "enc_inv N M D e" and "wptr + length name + 2 \<le> N" and "N \<le> 0x4000" and "good_name name" and "length name \<le> 253"
    and "12 \<le> wptr" and "names_ok d wptr e" and "d < 17"
    and "length (d_msg dec) = DNS_MSG_SIZE"
  shows "\<exists>q e'. encode_name e wptr (Some name) = Some (Some q, e') \<and> wptr < q \<and> q \<le> wptr + length name + 2 \<and>
    take wptr (e_buf e') = take wptr (e_buf e) \<and> enc_inv N M D e' \<and> names_ok (d + 1) q e' \<and>
    (\<forall>pkt L. take q pkt = take q (e_buf e') \<longrightarrow> q \<le> L \<longrightarrow> L \<le> length pkt \<longrightarrow>
       (\<exists>t buf. decode_name (dec\<lparr>d_pkt := pkt, d_pkt_len := L, d_offset := wptr\<rparr>) (Some 0) DNS_MSG_SIZE =
          Some (int (length name) + 1, dec\<lparr>d_pkt := pkt, d_pkt_len := L, d_offset := q, d_msg := buf\<rparr>) \<and>
        strcaseeq t name \<and> mem_read buf 0 (length t + 1) = Some (t @ [0])))"
proof -
  obtain q e' where q: "encode_name e wptr (Some name) = Some (Some q, e')" "enc_inv N M D e'"
    "encoded d wptr wptr name e q e'" "q \<le> wptr + length name + 2" "names_ok (d + 1) q e'"
    using encode_name_encoded [OF assms(1-4,6,7)] by blast
  have ql: "q \<le> length (e_buf e')" using q(4) assms(2) enc_inv_len [OF q(2)] by simp
  have "\<exists>t buf. decode_name (dec\<lparr>d_pkt := pkt, d_pkt_len := L, d_offset := wptr\<rparr>) (Some 0) DNS_MSG_SIZE =
          Some (int (length name) + 1, dec\<lparr>d_pkt := pkt, d_pkt_len := L, d_offset := q, d_msg := buf\<rparr>) \<and>
        strcaseeq t name \<and> mem_read buf 0 (length t + 1) = Some (t @ [0])"
    if p: "take q pkt = take q (e_buf e')" "q \<le> L" "L \<le> length pkt" for pkt L
  proof -
    obtain k t where w: "wire_name pkt L wptr q k t" "k \<le> 17" "strcaseeq t name"
      using decode_encoded [OF q(3) assms(8) p(2,1,3) ql] by blast
    have lt: "length t = length name" using w(3) map_eq_imp_length_eq [of ch_lower t ch_lower name] by (simp add: strcaseeq_def)
    have lt2: "length t < DNS_MSG_SIZE" using lt assms(5) by (simp add: DNS_MSG_SIZE_def)
    let ?dec = "dec\<lparr>d_pkt := pkt, d_pkt_len := L, d_offset := wptr\<rparr>"
    let ?buf = "take 0 (d_msg dec) @ (t @ [0]) @ drop (0 + length t + 1) (d_msg dec)"
    have "name_loop pkt L wptr DNS_MSG_SIZE 0 (- 1) wptr (d_msg dec) (Some 0) =
        Some (Inr (DNS_MSG_SIZE - length t - 1), wptr + (q - wptr), ?buf)"
      using name_loop_complete [OF w(1) p(3), of 0 DNS_MSG_SIZE "d_msg dec" 0 "- 1" wptr] assms(9) w(2) lt2 by simp
    then have "decode_name ?dec (Some 0) DNS_MSG_SIZE =
        Some (int (length name) + 1, dec\<lparr>d_pkt := pkt, d_pkt_len := L, d_offset := q, d_msg := ?buf\<rparr>)"
      using lt lt2 wire_name_bound [OF w(1)] by (simp add: decode_name_def)
    moreover have "mem_read ?buf 0 (length t + 1) = Some (t @ [0])" by (simp add: mem_read_def)
    ultimately show ?thesis using w(3) by blast
  qed
  then show ?thesis using q by (intro exI [of _ q] exI [of _ e']) (auto simp: encoded_def)
qed

theorem encode_name_roundtrip_witness:
  "\<exists>q e'. encode_name \<lparr>e_buf = replicate 600 0, e_max = 600, e_len = 600, e_suffix = []\<rparr> 12 (Some (str ''www.example.com'')) = Some (Some q, e') \<and>
     12 < q \<and> q \<le> 29"
proof -
  have n: "good_name (str ''www.example.com'')" by code_simp
  have "names_ok 0 12 \<lparr>e_buf = replicate 600 0, e_max = 600, e_len = 600, e_suffix = []\<rparr>" by (simp add: names_ok_def)
  from encode_name_roundtrip [OF start_inv [THEN iffD2, OF le_refl, of 600] _ _ n _ _ this, of "dec_init [] 0 False True []"]
  show ?thesis by (auto simp: dec_init_def)
qed

section \<open>Header and question\<close>

lemma put_u16_dec:
  assumes "enc_inv N M D e" and "p + 2 \<le> N"
  shows "\<exists>e'. put_u16 v p e = Some (p + 2, e') \<and> enc_inv N M D e' \<and> e_len e' = e_len e \<and> e_suffix e' = e_suffix e \<and>
    length (e_buf e') = length (e_buf e) \<and> dec_u16 (e_buf e') p = Some v \<and>
    (\<forall>k \<le> p. take k (e_buf e') = take k (e_buf e)) \<and>
    (\<forall>r. r + 2 \<le> p \<longrightarrow> dec_u16 (e_buf e') r = dec_u16 (e_buf e) r)"
proof -
  obtain m where m: "mem_write (e_buf e) p (be16 v) = Some m" "enc_inv N M D (e\<lparr>e_buf := m\<rparr>)"
    using inv_write [OF assms(1), of p "be16 v"] assms(2) by (auto simp: be16.enc_width)
  then show ?thesis
    using mem_write_length [OF m(1)] be16.dec_written [OF m(1)] be16.dec_frame [OF m(1)] mem_write_take [OF m(1)]
    by (simp add: put_u16_def enc_u16_def)
qed

definition hdr_at :: "byte list \<Rightarrow> dns_hdr \<Rightarrow> bool" where
  "hdr_at buf h \<longleftrightarrow> dec_u16 buf 0 = Some (hd_id h) \<and> dec_u16 buf 2 = Some (hd_flags h) \<and> dec_u16 buf 4 = Some (qd_count h) \<and>
     dec_u16 buf 6 = Some (an_count h) \<and> dec_u16 buf 8 = Some (ns_count h) \<and> dec_u16 buf 10 = Some (ar_count h)"

lemma hdr_at_cong:
  assumes "hdr_at buf h" and "12 \<le> length buf" and "length buf' = length buf" and "take 12 buf' = take 12 buf"
  shows "hdr_at buf' h"
proof -
  have "dec_u16 buf' r = dec_u16 buf r" if "r + 2 \<le> 12" for r
  proof (rule be16.dec_cong [OF assms(3)])
    have "drop r (take (r + 2) (take 12 buf')) = drop r (take (r + 2) (take 12 buf))" using assms(4) by simp
    then show "take 2 (drop r buf') = take 2 (drop r buf)" using that by (simp add: drop_take min_def)
  qed
  then show ?thesis using assms(1) by (simp add: hdr_at_def)
qed

lemma write_hdr_at:
  assumes "enc_inv N M D e" and "e_len e = 0" and "12 \<le> M"
  shows "\<exists>e'. write_hdr h e = Some (0, e') \<and> enc_inv N M D e' \<and> e_len e' = 12 \<and> e_suffix e' = e_suffix e \<and> hdr_at (e_buf e') h"
proof -
  let ?e = "e\<lparr>e_len := 12\<rparr>"
  have N: "12 \<le> N" using assms by (simp add: enc_inv_def)
  have e0: "enc_inv N M D ?e" using assms by (simp add: enc_inv_def)
  obtain e1 where 1: "put_u16 (hd_id h) 0 ?e = Some (2, e1)" "enc_inv N M D e1" "e_len e1 = 12" "e_suffix e1 = e_suffix e"
    "dec_u16 (e_buf e1) 0 = Some (hd_id h)" using put_u16_dec [OF e0, of 0 "hd_id h"] N by auto
  obtain e2 where 2: "put_u16 (hd_flags h) 2 e1 = Some (4, e2)" "enc_inv N M D e2" "e_len e2 = 12" "e_suffix e2 = e_suffix e"
    "dec_u16 (e_buf e2) 2 = Some (hd_flags h)" "\<forall>r. r + 2 \<le> 2 \<longrightarrow> dec_u16 (e_buf e2) r = dec_u16 (e_buf e1) r"
    using put_u16_dec [OF 1(2), of 2 "hd_flags h"] 1 N by auto
  obtain e3 where 3: "put_u16 (qd_count h) 4 e2 = Some (6, e3)" "enc_inv N M D e3" "e_len e3 = 12" "e_suffix e3 = e_suffix e"
    "dec_u16 (e_buf e3) 4 = Some (qd_count h)" "\<forall>r. r + 2 \<le> 4 \<longrightarrow> dec_u16 (e_buf e3) r = dec_u16 (e_buf e2) r"
    using put_u16_dec [OF 2(2), of 4 "qd_count h"] 2 N by auto
  obtain e4 where 4: "put_u16 (an_count h) 6 e3 = Some (8, e4)" "enc_inv N M D e4" "e_len e4 = 12" "e_suffix e4 = e_suffix e"
    "dec_u16 (e_buf e4) 6 = Some (an_count h)" "\<forall>r. r + 2 \<le> 6 \<longrightarrow> dec_u16 (e_buf e4) r = dec_u16 (e_buf e3) r"
    using put_u16_dec [OF 3(2), of 6 "an_count h"] 3 N by auto
  obtain e5 where 5: "put_u16 (ns_count h) 8 e4 = Some (10, e5)" "enc_inv N M D e5" "e_len e5 = 12" "e_suffix e5 = e_suffix e"
    "dec_u16 (e_buf e5) 8 = Some (ns_count h)" "\<forall>r. r + 2 \<le> 8 \<longrightarrow> dec_u16 (e_buf e5) r = dec_u16 (e_buf e4) r"
    using put_u16_dec [OF 4(2), of 8 "ns_count h"] 4 N by auto
  obtain e6 where 6: "put_u16 (ar_count h) 10 e5 = Some (12, e6)" "enc_inv N M D e6" "e_len e6 = 12" "e_suffix e6 = e_suffix e"
    "dec_u16 (e_buf e6) 10 = Some (ar_count h)" "\<forall>r. r + 2 \<le> 10 \<longrightarrow> dec_u16 (e_buf e6) r = dec_u16 (e_buf e5) r"
    using put_u16_dec [OF 5(2), of 10 "ar_count h"] 5 N by auto
  have "hdr_at (e_buf e6) h" using 1 2 3 4 5 6 by (simp add: hdr_at_def)
  moreover have "write_hdr h e = Some (0, e6)"
    using assms 1 2 3 4 5 6 by (simp add: write_hdr_def enc_fld_mkspace_def dns_enc_mkspace_def DNS_HDR_LEN_def enc_inv_def)
  ultimately show ?thesis using 6 by auto
qed

lemma encoded_cong:
  assumes "encoded d w w name e q e'" and "take q (e_buf e'') = take q (e_buf e')" and "e_suffix e'' = e_suffix e'"
    and "q \<le> length (e_buf e')" and "length (e_buf e'') = length (e_buf e')"
  shows "encoded d w w name e q e''"
proof -
  have wq: "w < q" using assms(1) by (simp add: encoded_def)
  have "wire_name (e_buf e'') q p en k t" if "wire_name (e_buf e') q p en k t" for p en k t
    by (rule wire_name_extend [OF that]) (use assms in auto)
  moreover have "sfx_at (e_buf e'') q (d + 1) s" if "sfx_at (e_buf e') q (d + 1) s" for s
    by (rule sfx_at_extend [OF that]) (use assms in auto)
  moreover have "take w (e_buf e'') = take w (e_buf e')" using arg_cong [OF assms(2), of "take w"] wq by (simp add: min_def)
  moreover have "e_buf e'' ! w = e_buf e' ! w" using assms(2) wq by (metis nth_take)
  ultimately show ?thesis using assms(1,3) unfolding encoded_def by simp blast
qed

lemma dns_enc_quest_at:
  assumes "enc_inv N M D e" and "e_len e + 259 \<le> M" and "N \<le> 0x4000" and "12 \<le> e_len e" and "names_ok d (e_len e) e"
    and "rr_str msg (qd_name qd) = Some (Some name)" and "good_name name" and "length name \<le> 253"
  shows "\<exists>q e'. dns_enc_quest e msg qd = Some (0, e') \<and> enc_inv N M D e' \<and> e_len e' = q + 4 \<and> q \<le> e_len e + 255 \<and>
     encoded d (e_len e) (e_len e) name e q e' \<and> dec_u16 (e_buf e') q = Some (qd_type qd) \<and>
     dec_u16 (e_buf e') (q + 2) = Some (qd_class qd) \<and> names_ok (d + 1) (q + 4) e' \<and>
     take (e_len e) (e_buf e') = take (e_len e) (e_buf e)"
proof -
  let ?p = "e_len e" and ?e = "e\<lparr>e_len := e_len e + 259\<rparr>"
  have N: "?p + 259 \<le> N" using assms(1,2) by (simp add: enc_inv_def)
  have e0: "enc_inv N M D ?e" using assms(1,2) by (simp add: enc_inv_def)
  have n0: "names_ok d ?p ?e" using assms(5) by (simp add: names_ok_def)
  have "?p + length name + 2 \<le> N" using N assms(8) by simp
  from encode_name_encoded [OF e0 this assms(3,7,4) n0] obtain q e1 where
    q: "encode_name ?e ?p (Some name) = Some (Some q, e1)" "enc_inv N M D e1" "e_len e1 = ?p + 259"
    "encoded d ?p ?p name ?e q e1" "q \<le> ?p + length name + 2" "names_ok (d + 1) q e1" by auto
  have qb: "?p < q" "q + 4 \<le> N" using q(4,5) N assms(8) by (auto simp: encoded_def)
  obtain e2 where 2: "put_u16 (qd_type qd) q e1 = Some (q + 2, e2)" "enc_inv N M D e2" "e_len e2 = e_len e1"
    "e_suffix e2 = e_suffix e1" "length (e_buf e2) = length (e_buf e1)" "dec_u16 (e_buf e2) q = Some (qd_type qd)"
    "take q (e_buf e2) = take q (e_buf e1)"
    using put_u16_dec [OF q(2), of q "qd_type qd"] qb by auto
  obtain e3 where 3: "put_u16 (qd_class qd) (q + 2) e2 = Some (q + 4, e3)" "enc_inv N M D e3" "e_len e3 = e_len e2"
    "e_suffix e3 = e_suffix e2" "length (e_buf e3) = length (e_buf e2)" "dec_u16 (e_buf e3) (q + 2) = Some (qd_class qd)"
    "take q (e_buf e3) = take q (e_buf e2)" "dec_u16 (e_buf e3) q = dec_u16 (e_buf e2) q"
    using put_u16_dec [OF 2(2), of "q + 2" "qd_class qd"] qb by (auto simp: add.commute)
  let ?e' = "e3\<lparr>e_len := q + 4\<rparr>"
  have l1: "N \<le> length (e_buf e1)" by (rule enc_inv_len [OF q(2)])
  have "dns_enc_quest e msg qd = Some (0, ?e')"
    using assms(1,2,6) q(1,3,5) 2 3 qb assms(8)
    by (simp add: dns_enc_quest_def enc_fld_mkspace_def dns_enc_mkspace_def DNS_NAME_MAXLEN_def enc_inv_def dns_enc_retspace_def)
  moreover have "encoded d ?p ?p name ?e q ?e'"
    by (rule encoded_cong [OF q(4)]) (use 2 3 l1 qb in auto)
  moreover have "names_ok (d + 1) (q + 4) ?e'"
    by (rule names_ok_extend [OF q(6)]) (use 2 3 l1 qb in auto)
  moreover have "enc_inv N M D ?e'" using 3(2,3) 2(3) q(3) assms(2) q(5) assms(8) by (simp add: enc_inv_def)
  ultimately show ?thesis
    using 2 3 q(5) assms(8) by (intro exI [of _ q] exI [of _ ?e']) (auto simp: encoded_def fresh_def)
qed

text \<open>A message with one question and no records.\<close>

definition query_hdr :: "dns_hdr \<Rightarrow> dns_hdr" where
  "query_hdr h = h\<lparr>qd_count := 1, an_count := 0, ns_count := 0, ar_count := 0\<rparr>"

lemma dns_msg_encode_query:
  assumes "m_qd_len msg = 1" and "m_qd msg = [qd]" and cnt: "\<And>s. sect_count s msg = 0"
    and "rr_str msg (qd_name qd) = Some (Some name)" and "good_name name" and "length name \<le> 253"
    and "271 \<le> len" and "len \<le> length buf" and "len \<le> 0x4000"
  shows "\<exists>q k buf'. dns_msg_encode msg buf len = Some (int (q + 4), buf', msg\<lparr>m_hdr := query_hdr (m_hdr msg)\<rparr>) \<and>
     q + 4 \<le> len \<and> length buf' = length buf \<and> hdr_at buf' (query_hdr (m_hdr msg)) \<and> wire_name buf' (q + 4) 12 q k name \<and> k \<le> 17 \<and>
     dec_u16 buf' q = Some (qd_type qd) \<and> dec_u16 buf' (q + 2) = Some (qd_class qd)"
proof -
  let ?h = "query_hdr (m_hdr msg)" and ?msg = "msg\<lparr>m_hdr := query_hdr (m_hdr msg)\<rparr>"
  let ?e = "\<lparr>e_buf = buf, e_max = len, e_len = 0, e_suffix = []\<rparr>" and ?D = "drop len buf"
  have c0: "m_an_len msg = 0" "m_ns_len msg = 0" "m_ar_len msg = 0"
    using cnt [of SectAN] cnt [of SectNS] cnt [of SectAR] by simp_all
  have sync: "sync_hdr msg = ?h" using c0 assms(1) by (simp add: sync_hdr_def query_hdr_def)
  have i0: "enc_inv len len ?D ?e" using assms(8) by (auto simp: enc_inv_def intro!: exI [of _ "take len buf"])
  obtain e1 where 1: "write_hdr ?h ?e = Some (0, e1)" "enc_inv len len ?D e1" "e_len e1 = 12" "e_suffix e1 = []" "hdr_at (e_buf e1) ?h"
    using write_hdr_at [OF i0, of ?h] assms(7) by auto
  have n1: "names_ok 0 (e_len e1) e1" using 1(4) by (simp add: names_ok_def)
  have rs: "rr_str ?msg (qd_name qd) = Some (Some name)" using assms(4) by simp
  obtain q e2 where 2: "dns_enc_quest e1 ?msg qd = Some (0, e2)" "enc_inv len len ?D e2" "e_len e2 = q + 4"
    "encoded 0 12 12 name e1 q e2" "dec_u16 (e_buf e2) q = Some (qd_type qd)" "dec_u16 (e_buf e2) (q + 2) = Some (qd_class qd)"
    "take 12 (e_buf e2) = take 12 (e_buf e1)"
    using dns_enc_quest_at [OF 1(2) _ assms(9) _ n1 rs assms(5,6)] 1(3) assms(7) by auto
  have len: "length (e_buf e1) = length buf" "length (e_buf e2) = length buf" "q + 4 \<le> len"
    using 1(2) 2(2,3) assms(8) by (auto simp: enc_inv_def)
  have h2: "hdr_at (e_buf e2) ?h" by (rule hdr_at_cong [OF 1(5)]) (use 2(7) len assms in auto)
  have "fresh 12 e1" using 1(4) by (simp add: fresh_def)
  moreover have "\<exists>k t. wire_name (e_buf e2) (q + 4) 12 q k t \<and> k \<le> 17 \<and> strcaseeq t name \<and> (fresh 12 e1 \<longrightarrow> t = name)"
    by (rule decode_encoded [OF 2(4)]) (use len assms(8) in auto)
  ultimately obtain k where k: "wire_name (e_buf e2) (q + 4) 12 q k name" "k \<le> 17" by blast
  have sc: "dns_sect_enc s ?msg e2 = Some (0, e2)" for s using cnt by (simp add: dns_sect_enc_def)
  have "encode_msg msg ?e = Some (0, e2, ?msg)"
    using 1(1) 2(1) sync sc assms(1,2)
    by (simp add: encode_msg_def encode_hdr_def enc_then_def encode_qd_def encode_an_def encode_ns_def encode_ar_def)
  then show ?thesis using 2 k h2 len by (intro exI [of _ q] exI [of _ k] exI [of _ "e_buf e2"]) (simp add: dns_msg_encode_def)
qed

section \<open>Fields the encoder gets wrong\<close>

text \<open>C39. The OPT case writes the low 16 bits of the EDNS fields over the high half of the TTL: extended RCODE and version never reach the packet, the DO and Z bits land where those two belong, and the low half keeps the record's own TTL.\<close>

theorem opt_ttl_truncated:
  assumes "enc_inv N M D e" and "6 \<le> rp" and "rp \<le> N"
  shows "\<exists>e'. rre_opt rp (RD_OPT udp_size ext_rcode edns_ver do_bit z_bits) e = Some (0, e') \<and>
     dec_u16 (e_buf e') (rp - 6) = Some udp_size \<and>
     dec_u16 (e_buf e') (rp - 4) = Some ((if do_bit then 0x8000 else 0) OR (z_bits AND 0x7fff)) \<and>
     drop (rp - 2) (e_buf e') = drop (rp - 2) (e_buf e)"
proof -
  have ucast: "(ucast (opt_ttl ext_rcode edns_ver do_bit z_bits) :: u16) = (if do_bit then 0x8000 else 0) OR (z_bits AND 0x7fff)"
    by (rule bit_word_eqI) (auto simp: opt_ttl_def bit_simps)
  have dr: "drop (q + 2) (e_buf x') = drop (q + 2) (e_buf x)" if "put_u16 v q x = Some (r, x')" for v q x r x'
    using that be16.enc_width [of v] mem_write_drop [of "e_buf x" q "be16 v"]
    by (auto simp: put_u16_def enc_u16_def split: bind_splits)
  have b: "rp - 6 + 2 \<le> N" "rp - 6 + 2 + 2 \<le> N" using assms(2,3) by linarith+
  obtain e1 where 1: "put_u16 udp_size (rp - 6) e = Some (rp - 6 + 2, e1)" "enc_inv N M D e1" "dec_u16 (e_buf e1) (rp - 6) = Some udp_size"
    using put_u16_dec [OF assms(1) b(1), of udp_size] by auto
  obtain e2 where 2: "put_u16 (ucast (opt_ttl ext_rcode edns_ver do_bit z_bits)) (rp - 6 + 2) e1 = Some (rp - 6 + 2 + 2, e2)"
    "dec_u16 (e_buf e2) (rp - 6 + 2) = Some (ucast (opt_ttl ext_rcode edns_ver do_bit z_bits))"
    "dec_u16 (e_buf e2) (rp - 6) = dec_u16 (e_buf e1) (rp - 6)"
    using put_u16_dec [OF 1(2) b(2), of "ucast (opt_ttl ext_rcode edns_ver do_bit z_bits)"] by auto
  have r: "rp - 6 + 2 = rp - 4" "rp - 6 + 2 + 2 = rp - 2" "rp - 2 = 2 + (rp - 4)" using assms(2) by simp_all
  have "drop (rp - 2) (e_buf e2) = drop (rp - 2) (e_buf e1)" using dr [OF 2(1)] r by simp
  moreover have "drop (rp - 2) (e_buf e1) = drop (rp - 2) (e_buf e)"
    using arg_cong [OF dr [OF 1(1)], of "drop 2"] r by simp
  moreover have "rre_opt rp (RD_OPT udp_size ext_rcode edns_ver do_bit z_bits) e = Some (0, e2)"
    using 1(1) 2(1) by (simp add: rre_opt_def)
  ultimately show ?thesis using 1(3) 2(2,3) r ucast by (intro exI [of _ e2]) simp
qed

theorem opt_ttl_truncated_witness:
  "\<exists>e'. rre_opt 11 (RD_OPT 4096 1 2 True 0) \<lparr>e_buf = replicate 13 0, e_max = 13, e_len = 13, e_suffix = []\<rparr> = Some (0, e') \<and>
     dec_u16 (e_buf e') 5 = Some 4096 \<and> dec_u16 (e_buf e') 7 = Some 0x8000 \<and>
     drop 9 (e_buf e') = replicate 4 0"
  using opt_ttl_truncated [OF start_inv [THEN iffD2, of 13 13], of 11 4096 1 2 True 0] by simp

text \<open>The text ".", which the decoder stores for the root name, is encoded as two zero bytes, while the name in the packet is the first of them: every field after it is one byte late.\<close>

theorem encode_root_dot:
  assumes "enc_inv N M D e" and "wptr + 3 \<le> N" and "e_suffix e = []"
  shows "\<exists>e'. encode_name e wptr (Some (str ''.'')) = Some (Some (wptr + 2), e') \<and>
     mem_read (e_buf e') wptr 2 = Some [0, 0] \<and> wire_name (e_buf e') (wptr + 2) wptr (wptr + 1) 0 []"
proof -
  let ?e1 = "e\<lparr>e_suffix := [\<lparr>sx_name = [46], sx_offset = of_nat wptr\<rparr>]\<rparr>"
  have i1: "enc_inv N M D ?e1" using assms(1) by simp
  obtain m1 where m1: "mem_write (e_buf e) wptr [0] = Some m1" "enc_inv N M D (?e1\<lparr>e_buf := m1\<rparr>)"
    using inv_write [OF i1, of wptr "[0]"] assms(2) by auto
  obtain m2 where m2: "mem_write m1 (wptr + 1) [0] = Some m2" "enc_inv N M D (?e1\<lparr>e_buf := m2\<rparr>)"
    using inv_write [OF m1(2), of "wptr + 1" "[0]"] assms(2) by auto
  have len: "N \<le> length (e_buf e)" "length m1 = length (e_buf e)" "length m2 = length (e_buf e)"
    using enc_inv_len [OF assms(1)] mem_write_length [OF m1(1)] mem_write_length [OF m2(1)] by simp_all
  have z: "m2 ! wptr = 0" "m2 ! (wptr + 1) = 0"
    using mem_write_nth_in [OF m1(1), of 0] mem_write_nth_other [OF m2(1), of wptr] mem_write_nth_in [OF m2(1), of 0] len assms(2)
    by simp_all
  have "encode_name e wptr (Some (str ''.'')) = Some (Some (wptr + 2), ?e1\<lparr>e_buf := m2\<rparr>)"
    using m1(1) m2(1) assms(3)
    by (simp add: encode_name_def str_Cons encode_loop.simps [of _ _ "[46]"] encode_loop.simps [of _ _ "[]"]
        suffix_match_def DNS_MAX_SUFFIX_def Let_def)
  moreover have "mem_read m2 wptr 2 = Some [0, 0]"
    using z len assms(2) take_drop_2 [of wptr m2] by (simp add: mem_read_def)
  moreover have "wire_name m2 (wptr + 2) wptr (wptr + 1) 0 []" using z by (intro wire_name.root) simp_all
  ultimately show ?thesis by (intro exI [of _ "?e1\<lparr>e_buf := m2\<rparr>"]) simp
qed

theorem encode_root_dot_witness:
  "\<exists>e'. encode_name \<lparr>e_buf = replicate 40 0, e_max = 40, e_len = 40, e_suffix = []\<rparr> 12 (Some (str ''.'')) = Some (Some 14, e') \<and>
     mem_read (e_buf e') 12 2 = Some [0, 0] \<and> wire_name (e_buf e') 14 12 13 0 []"
  using encode_root_dot [OF start_inv [THEN iffD2, of 40 40], of 12] by simp

end
