(* ===== verification/Dns_Roundtrip.thy ===== *)
theory Dns_Roundtrip
  imports Dns_Enc_Name Dns_Load
begin

text \<open>
  The message builder, the encoder and the decoder composed: what \<open>dns_gen\<close> sends is what the
  decoder reads.
\<close>

lemma decode_name_text:
  assumes "wire_name (d_pkt dec) (d_pkt_len dec) (d_offset dec) q k t" and "k \<le> 17" and "length t < n"
    and "d_pkt_len dec \<le> length (d_pkt dec)" and "n \<le> length (d_msg dec)" and "0 \<notin> set t"
  shows "\<exists>buf. decode_name dec (Some 0) n = Some (int (length t) + 1, dec\<lparr>d_offset := q, d_msg := buf\<rparr>) \<and>
    length buf = length (d_msg dec) \<and> cstr_at buf 0 = Some t"
proof -
  let ?buf = "take 0 (d_msg dec) @ (t @ [0]) @ drop (0 + length t + 1) (d_msg dec)"
  have "name_loop (d_pkt dec) (d_pkt_len dec) (d_offset dec) n 0 (-1) (d_offset dec) (d_msg dec) (Some 0) =
      Some (Inr (n - length t - 1), d_offset dec + (q - d_offset dec), ?buf)"
    using name_loop_complete [OF assms(1,4), of 0 n "d_msg dec" 0 "-1" "d_offset dec"] assms by simp
  then have "decode_name dec (Some 0) n = Some (int (length t) + 1, dec\<lparr>d_offset := q, d_msg := ?buf\<rparr>)"
    using assms(3) wire_name_bound [OF assms(1)] by (simp add: decode_name_def)
  moreover have "cstr_at ?buf 0 = Some t" using assms(6) cstr_of_append_nul [OF assms(6)] by (simp add: cstr_at_def)
  moreover have "length ?buf = length (d_msg dec)" using assms(3,5) by simp
  ultimately show ?thesis by blast
qed

lemma dns_msg_decode_query:
  assumes "hdr_at pkt (query_hdr h)" and "L \<le> length pkt" and "wire_name pkt L 12 q k name" and "k \<le> 17"
    and "length name \<le> 253" and "0 \<notin> set name" and "L = q + 4" and "dec_u16 pkt q = Some t" and "dec_u16 pkt (q + 2) = Some c"
    and "msg_shape c0 q0 m"
  shows "\<exists>msg' p. dns_msg_decode m pkt L = Some (0, msg') \<and> m_hdr msg' = query_hdr h \<and> m_qd_len msg' = 1 \<and>
    m_qd msg' = [\<lparr>qd_name = Some p, qd_type = t, qd_class = c\<rparr>] \<and> msg_str msg' p = Some name \<and> (\<forall>s. sect_count s msg' = 0)"
proof -
  let ?d = "dec_init pkt L False True []"
  let ?m = "(dns_msg_reset m)\<lparr>m_hdr := query_hdr h\<rparr>"
  have L: "12 \<le> L" using wire_name_bound [OF assms(3)] by simp
  have hdr: "decode_hdr ?d (dns_msg_reset m) = Some (0, ?d\<lparr>d_offset := 12\<rparr>, ?m)"
    using assms(1) L by (simp add: decode_hdr_def dns_hdr_decode_def hdr_at_def DNS_HDR_LEN_def dec_init_def)
  have ql: "length (m_qd m) = 1" using assms(10) by (simp add: msg_shape_def DNS_MAX_QD_def)
  then obtain x where x: "m_qd m = [x]" by (cases "m_qd m") auto
  have inv: "store_inv ?m" "m_names_len ?m = 0" "m_qd_len ?m = 0" "m_qd ?m = [x]"
    using assms(10) x by (simp_all add: store_inv_def msg_shape_def dns_msg_reset_def)
  obtain buf where nm: "decode_name (?d\<lparr>d_offset := 12\<rparr>) (Some 0) DNS_MSG_SIZE =
      Some (int (length name) + 1, ?d\<lparr>d_offset := q, d_msg := buf\<rparr>)" "cstr_at buf 0 = Some name"
    using decode_name_text [of "?d\<lparr>d_offset := 12\<rparr>" q k name DNS_MSG_SIZE] assms
    by (auto simp: dec_init_def DNS_MSG_SIZE_def)
  obtain p m1 where st: "msg_store_str ?m name = Some (Some p, m1)" "msg_str m1 p = Some name"
    "m_hdr m1 = query_hdr h" "m_qd_len m1 = 0" "m_qd m1 = [x]" "\<And>s. sect_count s m1 = 0"
    using inv(1)
  proof (cases rule: msg_store_str_cases [where s = name])
    case full
    then show ?thesis using assms(5) inv by simp
  next
    case (stored names)
    have "msg_str (?m\<lparr>m_names := names, m_names_len := length name + 1\<rparr>) 0 = Some (cstr_of name)"
      using stored inv cstr_at_end [of "[]" name] by (simp add: msg_str_def)
    moreover have "sect_count s (?m\<lparr>m_names := names, m_names_len := n\<rparr>) = 0" for s n
      by (cases s) (simp_all add: dns_msg_reset_def)
    ultimately show ?thesis
      using stored inv that [of 0 "?m\<lparr>m_names := names, m_names_len := length name + 1\<rparr>"] cstr_of_id [OF assms(6)] by simp
  qed
  let ?m2 = "m1\<lparr>m_qd := [\<lparr>qd_name = Some p, qd_type = t, qd_class = c\<rparr>], m_qd_len := 1\<rparr>"
  have qd: "dns_qd_decode (?d\<lparr>d_offset := 12\<rparr>) ?m = Some (int (length name) + 1, ?d\<lparr>d_offset := q + 4, d_msg := buf\<rparr>, ?m2)"
    using nm st inv assms(7-9)
    by (simp add: dns_qd_decode_def DNS_MAX_QD_def msg_store_name_def dec_init_def Let_def)
  have "\<exists>d'. decode_qd (?d\<lparr>d_offset := 12\<rparr>) ?m = Some (0, d', ?m2) \<and> \<not> d_need_emsg d'"
    using qd by (simp add: decode_qd_def query_hdr_def dns_dec_err_def dec_init_def DNS_MAX_EMSG_def)
  then obtain d' where d': "decode_qd (?d\<lparr>d_offset := 12\<rparr>) ?m = Some (0, d', ?m2)" "\<not> d_need_emsg d'" by blast
  have sec: "dns_sect_decode d' ?m2 0 s = Some (0, d', ?m2)" for s by (simp add: dns_sect_decode_def)
  have "decode_msg ?d m = Some (0, d', ?m2)"
    using hdr d' sec st(3)
    by (simp add: decode_msg_def seq_rc_def decode_an_def decode_ns_def decode_ar_def size_check_def query_hdr_def)
  moreover have "sect_count s ?m2 = 0" for s using st(6) [of s] by (cases s) simp_all
  moreover have "msg_str ?m2 p = Some name" using st(2) by simp
  ultimately show ?thesis using st(3) by (intro exI [of _ ?m2] exI [of _ p]) (simp add: dns_msg_decode_def)
qed

lemma msg_str_rr_str: "msg_str msg k = Some s \<Longrightarrow> rr_str msg (Some k) = Some (Some s)"
  using cstr_at_append_left [of "take (m_names_len msg) (m_names msg)" k s "drop (m_names_len msg) (m_names msg)"]
  by (simp add: rr_str_def msg_str_def)

lemma add_query:
  assumes "msg_shape c q m" and "length name \<le> 253" and "0 \<notin> set name"
  shows "\<exists>msg p. dns_add_qd (dns_msg_init (dns_msg_reset m) i flags) (Some name) t cl = Some (0, msg) \<and>
    m_qd_len msg = 1 \<and> m_qd msg = [\<lparr>qd_name = Some p, qd_type = t, qd_class = cl\<rparr>] \<and> (\<forall>s. sect_count s msg = 0) \<and>
    rr_str msg (Some p) = Some (Some name) \<and> hd_id (m_hdr msg) = i \<and> hd_flags (m_hdr msg) = flags"
proof -
  let ?m = "dns_msg_init (dns_msg_reset m) i flags"
  have ql: "length (m_qd m) = 1" using assms(1) by (simp add: msg_shape_def DNS_MAX_QD_def)
  then obtain x where x: "m_qd m = [x]" by (cases "m_qd m") auto
  have inv: "store_inv ?m" "m_names_len ?m = 0" "m_qd_len ?m = 0" "m_qd ?m = [x]"
    using assms(1) x by (simp_all add: store_inv_def msg_shape_def dns_msg_reset_def dns_msg_init_def)
  from inv(1) show ?thesis
  proof (cases rule: msg_store_str_cases [where s = name])
    case full
    then show ?thesis using assms(2) inv by simp
  next
    case (stored names)
    let ?m1 = "?m\<lparr>m_names := names, m_names_len := length name + 1\<rparr>"
    let ?m2 = "?m1\<lparr>m_qd := [\<lparr>qd_name = Some 0, qd_type = t, qd_class = cl\<rparr>], m_qd_len := 1\<rparr>"
    have "msg_str ?m2 0 = Some name"
      using stored inv cstr_at_end [of "[]" name] cstr_of_id [OF assms(3)] by (simp add: msg_str_def)
    then have "rr_str ?m2 (Some 0) = Some (Some name)" by (rule msg_str_rr_str)
    moreover have "sect_count s ?m2 = 0" for s by (cases s) (simp_all add: dns_msg_reset_def dns_msg_init_def)
    moreover have "dns_add_qd ?m (Some name) t cl = Some (0, ?m2)"
      using stored inv by (simp add: dns_add_qd_def dns_add_qdn_def DNS_MAX_QD_def Let_def)
    ultimately show ?thesis by (intro exI [of _ ?m2] exI [of _ 0]) (simp add: dns_msg_init_def)
  qed
qed

lemma query_returns:
  assumes "good_name name" and "length name \<le> 253" and "0 \<notin> set name" and "msg_shape c0 q0 m0" and "msg_shape c1 q1 m1"
    and "271 \<le> len" and "len \<le> length buf" and "len \<le> 0x4000"
  shows "\<exists>msg n buf' msg1 msg' p. dns_add_qd (dns_msg_init (dns_msg_reset m0) i flags) (Some name) t cl = Some (0, msg) \<and>
    dns_msg_encode msg buf len = Some (int n, buf', msg1) \<and> 0 < n \<and> n \<le> len \<and> length buf' = length buf \<and>
    dns_msg_decode m1 buf' n = Some (0, msg') \<and>
    m_hdr msg' = \<lparr>hd_id = i, hd_flags = flags, qd_count = 1, an_count = 0, ns_count = 0, ar_count = 0\<rparr> \<and>
    m_qd_len msg' = 1 \<and> m_qd msg' = [\<lparr>qd_name = Some p, qd_type = t, qd_class = cl\<rparr>] \<and> msg_str msg' p = Some name \<and>
    (\<forall>s. sect_count s msg' = 0)"
proof -
  obtain msg p where msg: "dns_add_qd (dns_msg_init (dns_msg_reset m0) i flags) (Some name) t cl = Some (0, msg)"
    "m_qd_len msg = 1" "m_qd msg = [\<lparr>qd_name = Some p, qd_type = t, qd_class = cl\<rparr>]" "\<And>s. sect_count s msg = 0"
    "rr_str msg (Some p) = Some (Some name)" "hd_id (m_hdr msg) = i" "hd_flags (m_hdr msg) = flags"
    using add_query [OF assms(4,2,3)] by blast
  have h: "query_hdr (m_hdr msg) = \<lparr>hd_id = i, hd_flags = flags, qd_count = 1, an_count = 0, ns_count = 0, ar_count = 0\<rparr>"
    using msg by (simp add: query_hdr_def)
  obtain q k buf' where e: "dns_msg_encode msg buf len = Some (int (q + 4), buf', msg\<lparr>m_hdr := query_hdr (m_hdr msg)\<rparr>)"
    "q + 4 \<le> len" "length buf' = length buf" "hdr_at buf' (query_hdr (m_hdr msg))" "wire_name buf' (q + 4) 12 q k name" "k \<le> 17"
    "dec_u16 buf' q = Some t" "dec_u16 buf' (q + 2) = Some cl"
    using dns_msg_encode_query [OF msg(2,3,4) _ assms(1,2,6-8)] msg(5) by auto
  have "q + 4 \<le> length buf'" using e(2,3) assms(7) by simp
  from dns_msg_decode_query [OF e(4) this e(5,6) assms(2,3) refl e(7,8) assms(5)] obtain msg' p' where
    "dns_msg_decode m1 buf' (q + 4) = Some (0, msg')" "m_hdr msg' = query_hdr (m_hdr msg)" "m_qd_len msg' = 1"
    "m_qd msg' = [\<lparr>qd_name = Some p', qd_type = t, qd_class = cl\<rparr>]" "msg_str msg' p' = Some name" "\<forall>s. sect_count s msg' = 0"
    by blast
  then show ?thesis using msg(1) e(1-3) h by (intro exI conjI) auto
qed

text \<open>C4. Queries round trip: a question added to a reset message with \<open>dns_add_qd\<close>, encoded with \<open>dns_msg_encode\<close> and decoded with \<open>dns_msg_decode\<close> into any message comes back with the same id, flags, name, type and class, one question and no records. The name has labels of 1 to 63 bytes and at most 253 bytes, the buffer has at least 271 bytes (what the encoder reserves) and at most \<open>2 ^ 14\<close>.\<close>

theorem query_roundtrip:
  assumes "good_name name" and "length name \<le> 253" and "0 \<notin> set name" and "msg_shape c0 q0 m0" and "msg_shape c1 q1 m1"
    and "271 \<le> len" and "len \<le> length buf" and "len \<le> 0x4000"
  shows "\<exists>msg n buf' msg1 msg' p. dns_add_qd (dns_msg_init (dns_msg_reset m0) i flags) (Some name) t cl = Some (0, msg) \<and>
    dns_msg_encode msg buf len = Some (int n, buf', msg1) \<and> n \<le> len \<and>
    dns_msg_decode m1 buf' n = Some (0, msg') \<and>
    m_hdr msg' = \<lparr>hd_id = i, hd_flags = flags, qd_count = 1, an_count = 0, ns_count = 0, ar_count = 0\<rparr> \<and>
    m_qd_len msg' = 1 \<and> m_qd msg' = [\<lparr>qd_name = Some p, qd_type = t, qd_class = cl\<rparr>] \<and> msg_str msg' p = Some name \<and>
    (\<forall>s. sect_count s msg' = 0)"
  using query_returns [OF assms] by blast

theorem query_roundtrip_witness:
  "\<exists>msg n buf' msg1 msg' p. dns_add_qd (dns_msg_init (dns_msg_reset zero_msg) 0x1234 0x0100) (Some (str ''www.example.com'')) 1 1 = Some (0, msg) \<and>
    dns_msg_encode msg (replicate 512 0) 512 = Some (int n, buf', msg1) \<and> n \<le> 512 \<and>
    dns_msg_decode zero_msg buf' n = Some (0, msg') \<and>
    m_hdr msg' = \<lparr>hd_id = 0x1234, hd_flags = 0x0100, qd_count = 1, an_count = 0, ns_count = 0, ar_count = 0\<rparr> \<and>
    m_qd_len msg' = 1 \<and> m_qd msg' = [\<lparr>qd_name = Some p, qd_type = 1, qd_class = 1\<rparr>] \<and> msg_str msg' p = Some (str ''www.example.com'') \<and>
    (\<forall>s. sect_count s msg' = 0)"
proof -
  have n: "good_name (str ''www.example.com'')" "0 \<notin> set (str ''www.example.com'')" by code_simp+
  show ?thesis by (rule query_roundtrip [OF n(1) _ n(2) zero_shape zero_shape]) simp_all
qed

end
