(* ===== verification/Pcap.thy ===== *)
theory Pcap
  imports Str_Codec
begin

text \<open>
  Packet capture files, \<open>src/src/pcap.h\<close> and \<open>src/src/pcap.c\<close>: the legacy format and pcapng, reading
  with detection of format and byte order, writing with simple or enhanced packet blocks.

  The stream of the C library is a record: the bytes of the file, the position, the two indicators
  and the position \<open>st_limit\<close> from which the medium fails with \<open>st_errno\<close> (a bad block when reading,
  a full disk when writing). Time, memory and the opened file come from the environment
  (\<open>pcap_env\<close>). The host is little-endian, as the names of the magic numbers say. The lines the
  trace flag prints are not modelled.
\<close>

section \<open>The file stream\<close>

record stream =
  st_data :: "byte list"
  st_pos :: nat
  st_limit :: nat
  st_err :: bool
  st_eof :: bool
  st_errno :: int

text \<open>\<open>fread(data, 1, n, fp)\<close>: the bytes read, as many as there are before the end or the fault.\<close>

definition fread :: "nat \<Rightarrow> stream \<Rightarrow> byte list \<times> stream" where
  "fread n s =
     (let bs = take n (drop (st_pos s) (take (st_limit s) (st_data s)));
          short = (length bs < n);
          bad = (short \<and> st_pos s < length (st_data s) \<and> st_limit s < length (st_data s))
      in (bs, s\<lparr>st_pos := st_pos s + length bs, st_err := st_err s \<or> bad, st_eof := st_eof s \<or> (short \<and> \<not> bad)\<rparr>))"

text \<open>\<open>fwrite(data, 1, n, fp)\<close>: the number of bytes written.\<close>

definition fwrite :: "byte list \<Rightarrow> stream \<Rightarrow> nat \<times> stream" where
  "fwrite bs s =
     (let n = min (length bs) (st_limit s - st_pos s);
          d = st_data s @ replicate (st_pos s - length (st_data s)) 0
      in (n, s\<lparr>st_data := (if n = 0 then st_data s else take (st_pos s) d @ take n bs @ drop (st_pos s + n) d),
               st_pos := st_pos s + n, st_err := st_err s \<or> n < length bs\<rparr>))"

datatype whence = SEEK_SET | SEEK_CUR

definition fseek :: "int \<Rightarrow> whence \<Rightarrow> stream \<Rightarrow> int \<times> stream" where
  "fseek off wh s =
     (let p = (case wh of SEEK_SET \<Rightarrow> off | SEEK_CUR \<Rightarrow> int (st_pos s) + off)
      in if p < 0 then (-1, s) else (0, s\<lparr>st_pos := nat p, st_eof := False\<rparr>))"

section \<open>Integers in the byte order of the host\<close>

definition le16 :: "u16 \<Rightarrow> byte list" where
  "le16 v = rev (be16 v)"

definition le32 :: "u32 \<Rightarrow> byte list" where
  "le32 v = rev (be32 v)"

definition le64 :: "u64 \<Rightarrow> byte list" where
  "le64 v = le32 (ucast v) @ le32 (ucast (drop_bit 32 v))"

text \<open>Reading a field of a structure that was read as bytes (the structure is complete).\<close>

definition ld32 :: "byte list \<Rightarrow> nat \<Rightarrow> u32" where
  "ld32 bs p = push_bit 24 (ucast (bs ! (p + 3))) OR push_bit 16 (ucast (bs ! (p + 2))) OR
     push_bit 8 (ucast (bs ! (p + 1))) OR ucast (bs ! p)"

definition ld16 :: "byte list \<Rightarrow> nat \<Rightarrow> u16" where
  "ld16 bs p = push_bit 8 (ucast (bs ! (p + 1))) OR ucast (bs ! p)"

definition ld64 :: "byte list \<Rightarrow> nat \<Rightarrow> u64" where
  "ld64 bs p = push_bit 32 (ucast (ld32 bs (p + 4))) OR ucast (ld32 bs p)"

text \<open>\<open>__builtin_bswap16/32/64\<close>\<close>

definition bswap16 :: "u16 \<Rightarrow> u16" where
  "bswap16 v = push_bit 8 v OR drop_bit 8 v"

definition bswap32 :: "u32 \<Rightarrow> u32" where
  "bswap32 v = push_bit 24 (ucast (ucast v :: u8)) OR push_bit 16 (ucast (ucast (drop_bit 8 v) :: u8)) OR
     push_bit 8 (ucast (ucast (drop_bit 16 v) :: u8)) OR ucast (ucast (drop_bit 24 v) :: u8)"

definition bswap64 :: "u64 \<Rightarrow> u64" where
  "bswap64 v = push_bit 32 (ucast (bswap32 (ucast v))) OR ucast (bswap32 (ucast (drop_bit 32 v)))"

definition swap16 :: "bool \<Rightarrow> u16 \<Rightarrow> u16" where
  "swap16 b v = (if b then bswap16 v else v)"

definition swap32 :: "bool \<Rightarrow> u32 \<Rightarrow> u32" where
  "swap32 b v = (if b then bswap32 v else v)"

definition swap64 :: "bool \<Rightarrow> u64 \<Rightarrow> u64" where
  "swap64 b v = (if b then bswap64 v else v)"

section \<open>Headers\<close>

definition LINKTYPE_ETHERNET :: u32 where "LINKTYPE_ETHERNET = 1"
definition PCAP_MAGIC_LE_USEC :: u32 where "PCAP_MAGIC_LE_USEC = 0xA1B2C3D4"
definition PCAP_MAGIC_LE_NSEC :: u32 where "PCAP_MAGIC_LE_NSEC = 0xA1B23C4D"
definition PCAP_MAGIC_BE_USEC :: u32 where "PCAP_MAGIC_BE_USEC = 0xD4C3B2A1"
definition PCAP_MAGIC_BE_NSEC :: u32 where "PCAP_MAGIC_BE_NSEC = 0x4D3C2B1A"
definition PCAP_SHB_TYPE :: u32 where "PCAP_SHB_TYPE = 0x0A0D0D0A"
definition PCAP_IDB_TYPE :: u32 where "PCAP_IDB_TYPE = 1"
definition PCAP_SPB_TYPE :: u32 where "PCAP_SPB_TYPE = 3"
definition PCAP_EPB_TYPE :: u32 where "PCAP_EPB_TYPE = 6"
definition PCAP_DSB_TYPE :: u32 where "PCAP_DSB_TYPE = 0xA"
definition PCAP_BOM_NATIVE :: u32 where "PCAP_BOM_NATIVE = 0x1A2B3C4D"
definition PCAP_BOM_SWAP :: u32 where "PCAP_BOM_SWAP = 0x4D3C2B1A"
definition PCAP_SNAPLEN :: u32 where "PCAP_SNAPLEN = 65535"

lemmas pcap_consts =
  LINKTYPE_ETHERNET_def PCAP_MAGIC_LE_USEC_def PCAP_MAGIC_LE_NSEC_def PCAP_MAGIC_BE_USEC_def PCAP_MAGIC_BE_NSEC_def
  PCAP_SHB_TYPE_def PCAP_IDB_TYPE_def PCAP_SPB_TYPE_def PCAP_EPB_TYPE_def PCAP_DSB_TYPE_def
  PCAP_BOM_NATIVE_def PCAP_BOM_SWAP_def PCAP_SNAPLEN_def

record pcap_hdr =
  ph_magic :: u32
  ph_major :: u16
  ph_minor :: u16
  ph_rsvd1 :: u32
  ph_rsvd2 :: u32
  ph_snap_len :: u32
  ph_link_type :: u32

record pcap_rec =
  pr_ts_sec :: u32
  pr_ts_usec :: u32
  pr_incl_len :: u32
  pr_orig_len :: u32

record pcap_shb_hdr =
  sh_type :: u32
  sh_tot_len :: u32
  sh_bom :: u32
  sh_ver_major :: u16
  sh_ver_minor :: u16
  sh_sec_len :: u64

record pcap_idb_hdr =
  id_type :: u32
  id_tot_len :: u32
  id_link_type :: u16
  id_reserved :: u16
  id_snap_len :: u32

record pcap_spb_hdr =
  sp_type :: u32
  sp_tot_len :: u32
  sp_orig_len :: u32

record pcap_epb_hdr =
  ep_type :: u32
  ep_tot_len :: u32
  ep_if_id :: u32
  ep_ts_high :: u32
  ep_ts_low :: u32
  ep_incl_len :: u32
  ep_orig_len :: u32

record pcap_dsb_hdr =
  ds_type :: u32
  ds_tot_len :: u32
  ds_secrets_type :: u32
  ds_secrets_len :: u32

text \<open>The bytes of a header in memory, and the header that bytes are; \<open>sw\<close> swaps every field.\<close>

definition hdr_bytes :: "pcap_hdr \<Rightarrow> byte list" where
  "hdr_bytes h = le32 (ph_magic h) @ le16 (ph_major h) @ le16 (ph_minor h) @ le32 (ph_rsvd1 h) @ le32 (ph_rsvd2 h) @
     le32 (ph_snap_len h) @ le32 (ph_link_type h)"

definition hdr_of :: "bool \<Rightarrow> byte list \<Rightarrow> pcap_hdr" where
  "hdr_of sw b = \<lparr>ph_magic = swap32 sw (ld32 b 0), ph_major = swap16 sw (ld16 b 4), ph_minor = swap16 sw (ld16 b 6),
     ph_rsvd1 = swap32 sw (ld32 b 8), ph_rsvd2 = swap32 sw (ld32 b 12), ph_snap_len = swap32 sw (ld32 b 16),
     ph_link_type = swap32 sw (ld32 b 20)\<rparr>"

definition rec_bytes :: "pcap_rec \<Rightarrow> byte list" where
  "rec_bytes r = le32 (pr_ts_sec r) @ le32 (pr_ts_usec r) @ le32 (pr_incl_len r) @ le32 (pr_orig_len r)"

definition rec_of :: "bool \<Rightarrow> byte list \<Rightarrow> pcap_rec" where
  "rec_of sw b = \<lparr>pr_ts_sec = swap32 sw (ld32 b 0), pr_ts_usec = swap32 sw (ld32 b 4),
     pr_incl_len = swap32 sw (ld32 b 8), pr_orig_len = swap32 sw (ld32 b 12)\<rparr>"

definition shb_bytes :: "pcap_shb_hdr \<Rightarrow> byte list" where
  "shb_bytes h = le32 (sh_type h) @ le32 (sh_tot_len h) @ le32 (sh_bom h) @ le16 (sh_ver_major h) @ le16 (sh_ver_minor h) @
     le64 (sh_sec_len h)"

definition shb_of :: "bool \<Rightarrow> byte list \<Rightarrow> pcap_shb_hdr" where
  "shb_of sw b = \<lparr>sh_type = swap32 sw (ld32 b 0), sh_tot_len = swap32 sw (ld32 b 4), sh_bom = swap32 sw (ld32 b 8),
     sh_ver_major = swap16 sw (ld16 b 12), sh_ver_minor = swap16 sw (ld16 b 14), sh_sec_len = swap64 sw (ld64 b 16)\<rparr>"

definition idb_bytes :: "pcap_idb_hdr \<Rightarrow> byte list" where
  "idb_bytes h = le32 (id_type h) @ le32 (id_tot_len h) @ le16 (id_link_type h) @ le16 (id_reserved h) @ le32 (id_snap_len h)"

definition idb_of :: "bool \<Rightarrow> byte list \<Rightarrow> pcap_idb_hdr" where
  "idb_of sw b = \<lparr>id_type = swap32 sw (ld32 b 0), id_tot_len = swap32 sw (ld32 b 4), id_link_type = swap16 sw (ld16 b 8),
     id_reserved = swap16 sw (ld16 b 10), id_snap_len = swap32 sw (ld32 b 12)\<rparr>"

definition spb_bytes :: "pcap_spb_hdr \<Rightarrow> byte list" where
  "spb_bytes h = le32 (sp_type h) @ le32 (sp_tot_len h) @ le32 (sp_orig_len h)"

definition spb_of :: "bool \<Rightarrow> byte list \<Rightarrow> pcap_spb_hdr" where
  "spb_of sw b = \<lparr>sp_type = swap32 sw (ld32 b 0), sp_tot_len = swap32 sw (ld32 b 4), sp_orig_len = swap32 sw (ld32 b 8)\<rparr>"

definition epb_bytes :: "pcap_epb_hdr \<Rightarrow> byte list" where
  "epb_bytes h = le32 (ep_type h) @ le32 (ep_tot_len h) @ le32 (ep_if_id h) @ le32 (ep_ts_high h) @ le32 (ep_ts_low h) @
     le32 (ep_incl_len h) @ le32 (ep_orig_len h)"

definition epb_of :: "bool \<Rightarrow> byte list \<Rightarrow> pcap_epb_hdr" where
  "epb_of sw b = \<lparr>ep_type = swap32 sw (ld32 b 0), ep_tot_len = swap32 sw (ld32 b 4), ep_if_id = swap32 sw (ld32 b 8),
     ep_ts_high = swap32 sw (ld32 b 12), ep_ts_low = swap32 sw (ld32 b 16), ep_incl_len = swap32 sw (ld32 b 20),
     ep_orig_len = swap32 sw (ld32 b 24)\<rparr>"

definition dsb_of :: "bool \<Rightarrow> byte list \<Rightarrow> pcap_dsb_hdr" where
  "dsb_of sw b = \<lparr>ds_type = swap32 sw (ld32 b 0), ds_tot_len = swap32 sw (ld32 b 4), ds_secrets_type = swap32 sw (ld32 b 8),
     ds_secrets_len = swap32 sw (ld32 b 12)\<rparr>"

definition pcap_islg :: "u32 \<Rightarrow> bool" where
  "pcap_islg magic \<longleftrightarrow> magic = PCAP_MAGIC_LE_USEC \<or> magic = PCAP_MAGIC_LE_NSEC \<or> magic = PCAP_MAGIC_BE_USEC \<or>
     magic = PCAP_MAGIC_BE_NSEC"

definition pcap_isng :: "u32 \<Rightarrow> bool" where
  "pcap_isng magic \<longleftrightarrow> magic = PCAP_SHB_TYPE"

definition pcap_isnative :: "u32 \<Rightarrow> bool" where
  "pcap_isnative magic \<longleftrightarrow> magic = PCAP_MAGIC_LE_USEC \<or> magic = PCAP_MAGIC_LE_NSEC"

definition pcap_bom_isng :: "u32 \<Rightarrow> bool" where
  "pcap_bom_isng magic \<longleftrightarrow> magic = PCAP_BOM_NATIVE \<or> magic = PCAP_BOM_SWAP"

definition pcap_bom_isnative :: "u32 \<Rightarrow> bool" where
  "pcap_bom_isnative magic \<longleftrightarrow> magic = PCAP_BOM_NATIVE"

section \<open>State\<close>

text \<open>
  \<open>struct pcap_file\<close>. The union of \<open>hdr\<close> and \<open>shb\<close> is two fields, each format uses one of them; the
  four function pointers are the format they belong to.
\<close>

datatype pcap_fmt = FmtLG | FmtNG

record pcap_file =
  pf_fp :: stream
  pf_hdr :: pcap_hdr
  pf_shb :: pcap_shb_hdr
  pf_idb :: pcap_idb_hdr
  pf_fmt :: pcap_fmt
  pf_sys_errno :: int
  pf_epoch_usec :: u64
  pf_is_reader :: bool
  pf_is_ng :: bool
  pf_must_swap :: bool
  pf_have_shb :: bool
  pf_have_idb :: bool
  pf_use_spb :: bool
  pf_sys_err :: bool
  pf_have_eof :: bool
  pf_trace_rec :: bool
  pf_pkt_cnt :: nat
  pf_rec_cnt :: nat

definition PCAP_FAIL :: int where "PCAP_FAIL = -1"
definition PCAP_EOF :: int where "PCAP_EOF = -2"
definition EIO :: int where "EIO = 5"

text \<open>\<open>pcap_log_errno_rf\<close>: the first system error is remembered.\<close>

definition pcap_log_errno_rf :: "pcap_file \<Rightarrow> int \<times> pcap_file" where
  "pcap_log_errno_rf file =
     (PCAP_FAIL, if pf_sys_err file then file else file\<lparr>pf_sys_err := True, pf_sys_errno := st_errno (pf_fp file)\<rparr>)"

definition calc_padlen :: "u32 \<Rightarrow> u32" where
  "calc_padlen cap_len = (4 - (cap_len mod 4)) mod 4"

section \<open>Reading, writing and seeking with error tracking\<close>

definition pcap_read_data :: "nat \<Rightarrow> pcap_file \<Rightarrow> int \<times> byte list \<times> pcap_file" where
  "pcap_read_data len file =
     (case fread len (pf_fp file) of (bs, fp) \<Rightarrow>
        let f = file\<lparr>pf_fp := fp\<rparr>
        in if length bs \<noteq> len then
             (if st_err fp then (case pcap_log_errno_rf f of (rc, f') \<Rightarrow> (rc, bs, f'))
              else if bs = [] \<and> st_eof fp then (PCAP_EOF, bs, f\<lparr>pf_have_eof := True\<rparr>)
              else (PCAP_FAIL, bs, f\<lparr>pf_sys_errno := EIO\<rparr>))
           else (0, bs, f))"

definition pcap_read_block :: "nat \<Rightarrow> pcap_file \<Rightarrow> int \<times> byte list \<times> pcap_file" where
  "pcap_read_block len file =
     (case pcap_read_data len file of (rc, bs, f) \<Rightarrow>
        if rc \<noteq> 0 then (rc, bs, f) else (0, bs, f\<lparr>pf_rec_cnt := pf_rec_cnt f + 1\<rparr>))"

definition pcap_write_data :: "byte list \<Rightarrow> pcap_file \<Rightarrow> int \<times> pcap_file" where
  "pcap_write_data bs file =
     (case fwrite bs (pf_fp file) of (n, fp) \<Rightarrow>
        let f = file\<lparr>pf_fp := fp\<rparr>
        in if n \<noteq> length bs then
             (if st_err fp then pcap_log_errno_rf f else (PCAP_FAIL, f\<lparr>pf_sys_errno := EIO\<rparr>))
           else (0, f))"

definition pcap_write_block :: "byte list \<Rightarrow> pcap_file \<Rightarrow> int \<times> pcap_file" where
  "pcap_write_block bs file =
     (case pcap_write_data bs file of (rc, f) \<Rightarrow>
        if rc \<noteq> 0 then (rc, f) else (0, f\<lparr>pf_rec_cnt := pf_rec_cnt f + 1\<rparr>))"

definition pcap_seek_data :: "int \<Rightarrow> whence \<Rightarrow> pcap_file \<Rightarrow> int \<times> pcap_file" where
  "pcap_seek_data len wh file =
     (case fseek len wh (pf_fp file) of (rc, fp) \<Rightarrow>
        if rc \<noteq> 0 then pcap_log_errno_rf (file\<lparr>pf_fp := fp\<rparr>) else (0, file\<lparr>pf_fp := fp\<rparr>))"

definition pcap_data_skip :: "int \<Rightarrow> pcap_file \<Rightarrow> int \<times> pcap_file" where
  "pcap_data_skip len file = pcap_seek_data len SEEK_CUR file"

definition pcap_data_rewind :: "int \<Rightarrow> pcap_file \<Rightarrow> int \<times> pcap_file" where
  "pcap_data_rewind len file = pcap_data_skip (- len) file"

text \<open>The result is a format, or the error code.\<close>

definition pcap_detect_fmt :: "pcap_file \<Rightarrow> (int + pcap_fmt) \<times> pcap_file" where
  "pcap_detect_fmt file =
     (case pcap_read_data 4 file of (ec, bs, f) \<Rightarrow>
        if ec \<noteq> 0 then (Inl ec, f)
        else case pcap_seek_data 0 SEEK_SET f of (ec, f) \<Rightarrow>
          if ec \<noteq> 0 then (Inl ec, f)
          else if pcap_islg (ld32 bs 0) then (Inr FmtLG, f)
          else if pcap_isng (ld32 bs 0) then (Inr FmtNG, f)
          else (Inl (-1), f))"

text \<open>A reading of a clock: seconds and nanoseconds, or \<open>None\<close> when \<open>clock_gettime\<close> fails.\<close>

type_synonym clock = "(u64 \<times> u64) option"

definition usec_of :: "u64 \<times> u64 \<Rightarrow> u64" where
  "usec_of ts = fst ts * 1000000 + snd ts div 1000"

definition pcap_get_ts :: "clock \<Rightarrow> pcap_file \<Rightarrow> u64" where
  "pcap_get_ts mts file = (case mts of None \<Rightarrow> 0 | Some ts \<Rightarrow> usec_of ts + pf_epoch_usec file)"

section \<open>Legacy format\<close>

definition pcap_read_hdr :: "pcap_file \<Rightarrow> int \<times> pcap_file" where
  "pcap_read_hdr file =
     (case pcap_read_data 24 file of (rc, bs, f) \<Rightarrow>
        if rc \<noteq> 0 then (rc, f)
        else let sw = (pf_must_swap f \<or> \<not> pcap_isnative (ld32 bs 0))
             in (0, f\<lparr>pf_must_swap := sw, pf_hdr := hdr_of sw bs\<rparr>))"

text \<open>
  The packet goes to \<open>buf\<close>; \<open>len\<close> is the size the caller states. A read that fails half way has
  already stored what it got.
\<close>

definition put_pkt :: "byte list \<Rightarrow> byte list \<Rightarrow> byte list option" where
  "put_pkt buf bs = mem_write buf 0 bs"

definition pcap_read_rec :: "pcap_file \<Rightarrow> byte list \<Rightarrow> nat \<Rightarrow> (int \<times> byte list \<times> pcap_file) option" where
  "pcap_read_rec file buf len =
     (case pcap_read_block 16 file of (rc, bs, f) \<Rightarrow>
        if rc \<noteq> 0 then Some (rc, buf, f)
        else let incl = unat (pr_incl_len (rec_of (pf_must_swap f) bs))
             in if incl > len then Some (-1, buf, f)
                else case pcap_read_data incl f of (rc, pkt, f) \<Rightarrow> do {
                  buf' \<leftarrow> put_pkt buf pkt;
                  Some (if rc \<noteq> 0 then rc else int incl, buf', f) })"

definition pcap_write_hdr :: "pcap_file \<Rightarrow> int \<times> pcap_file" where
  "pcap_write_hdr file =
     (let h = \<lparr>ph_magic = PCAP_MAGIC_LE_USEC, ph_major = 2, ph_minor = 4, ph_rsvd1 = 0, ph_rsvd2 = 0,
               ph_snap_len = PCAP_SNAPLEN, ph_link_type = LINKTYPE_ETHERNET\<rparr>
      in pcap_write_data (hdr_bytes h) (file\<lparr>pf_hdr := h\<rparr>))"

text \<open>\<open>if (rc) return rc;\<close> in sequence\<close>

definition wr_then :: "int \<times> pcap_file \<Rightarrow> (pcap_file \<Rightarrow> int \<times> pcap_file) \<Rightarrow> int \<times> pcap_file" where
  "wr_then r k = (case r of (rc, f) \<Rightarrow> if rc \<noteq> 0 then (rc, f) else k f)"

definition mk_rec :: "u64 \<Rightarrow> byte list \<Rightarrow> pcap_rec" where
  "mk_rec usec_ts buf = \<lparr>pr_ts_sec = ucast (usec_ts div 1000000), pr_ts_usec = ucast (usec_ts mod 1000000),
     pr_incl_len = of_nat (length buf), pr_orig_len = of_nat (length buf)\<rparr>"

definition pcap_write_rec :: "clock \<Rightarrow> pcap_file \<Rightarrow> byte list \<Rightarrow> int \<times> pcap_file" where
  "pcap_write_rec mts file buf =
     wr_then (pcap_write_block (rec_bytes (mk_rec (pcap_get_ts mts file) buf)) file) (pcap_write_data buf)"

section \<open>pcapng\<close>

definition pcap_read_shb :: "pcap_file \<Rightarrow> int \<times> pcap_file" where
  "pcap_read_shb file =
     (case pcap_read_block 24 file of (rc, bs, f) \<Rightarrow>
        if rc \<noteq> 0 then (rc, f)
        else let f1 = f\<lparr>pf_have_shb := True\<rparr>; bom = ld32 bs 8
             in if \<not> pcap_bom_isng bom then (-1, f1\<lparr>pf_shb := shb_of False bs\<rparr>)
                else let sw = (\<not> pcap_bom_isnative bom);
                         shb = shb_of sw bs;
                         f2 = f1\<lparr>pf_must_swap := sw, pf_shb := shb\<rparr>
                     in if unat (sh_tot_len shb) < 24 then (-1, f2)
                        else pcap_data_skip (int (unat (sh_tot_len shb)) - 24) f2)"

definition pcap_write_shb :: "pcap_file \<Rightarrow> int \<times> pcap_file" where
  "pcap_write_shb file =
     (let shb = \<lparr>sh_type = PCAP_SHB_TYPE, sh_tot_len = 24 + 4, sh_bom = PCAP_BOM_NATIVE, sh_ver_major = 1, sh_ver_minor = 0,
                 sh_sec_len = -1\<rparr>
      in wr_then (pcap_write_block (shb_bytes shb) (file\<lparr>pf_shb := shb\<rparr>)) (\<lambda>f.
         wr_then (pcap_write_data (le32 (sh_tot_len shb)) f) (\<lambda>f.
         (0, f\<lparr>pf_have_shb := True, pf_have_idb := False\<rparr>))))"

definition pcap_read_idb :: "pcap_file \<Rightarrow> int \<times> pcap_file" where
  "pcap_read_idb file =
     (case pcap_read_block 16 file of (rc, bs, f) \<Rightarrow>
        if rc \<noteq> 0 then (rc, f)
        else let idb = idb_of (pf_must_swap f) bs;
                 f1 = f\<lparr>pf_have_idb := True, pf_idb := idb\<rparr>
             in if unat (id_tot_len idb) < 16 then (-1, f1)
                else pcap_data_skip (int (unat (id_tot_len idb)) - 16) f1)"

definition pcap_write_idb :: "pcap_file \<Rightarrow> int \<times> pcap_file" where
  "pcap_write_idb file =
     (let idb = \<lparr>id_type = PCAP_IDB_TYPE, id_tot_len = 16 + 4, id_link_type = ucast LINKTYPE_ETHERNET, id_reserved = 0,
                 id_snap_len = PCAP_SNAPLEN\<rparr>
      in wr_then (pcap_write_block (idb_bytes idb) (file\<lparr>pf_idb := idb\<rparr>)) (\<lambda>f.
         wr_then (pcap_write_data (le32 (id_tot_len idb)) f) (\<lambda>f.
         (0, f\<lparr>pf_have_idb := True\<rparr>))))"

text \<open>
  The packet readers return 0 on every error. The tail they share: read \<open>cap_len\<close> bytes, skip
  \<open>skip_len\<close>, return \<open>cap_len\<close>.
\<close>

definition read_body :: "nat \<Rightarrow> nat \<Rightarrow> pcap_file \<Rightarrow> byte list \<Rightarrow> (int \<times> byte list \<times> pcap_file) option" where
  "read_body cap_len skip_len file buf =
     (case pcap_read_data cap_len file of (rc, pkt, f) \<Rightarrow> do {
        buf' \<leftarrow> put_pkt buf pkt;
        if rc \<noteq> 0 then Some (0, buf', f)
        else case pcap_data_skip (int skip_len) f of (rc, f) \<Rightarrow>
          Some (if rc \<noteq> 0 then 0 else int cap_len, buf', f) })"

definition pcap_read_spb :: "pcap_file \<Rightarrow> byte list \<Rightarrow> nat \<Rightarrow> (int \<times> byte list \<times> pcap_file) option" where
  "pcap_read_spb file buf buf_len =
     (if \<not> pf_have_idb file then Some (0, buf, file)
      else case pcap_read_block 12 file of (rc, bs, f) \<Rightarrow>
        if rc \<noteq> 0 then Some (0, buf, f)
        else let tot_len = sp_tot_len (spb_of (pf_must_swap f) bs)
             in if unat tot_len < 12 then Some (0, buf, f)
                else let cap_len = tot_len - (12 + 4)
                     in if unat cap_len > buf_len then Some (0, buf, f)
                        else read_body (unat cap_len) (unat (tot_len - (12 + cap_len))) f buf)"

definition mk_spb :: "nat \<Rightarrow> pcap_spb_hdr" where
  "mk_spb buf_len = \<lparr>sp_type = PCAP_SPB_TYPE, sp_tot_len = 12 + of_nat buf_len + calc_padlen (of_nat buf_len) + 4,
     sp_orig_len = of_nat buf_len\<rparr>"

text \<open>The tail the packet writers share: a failure to write the packet itself is reported as success.\<close>

definition write_body :: "byte list \<Rightarrow> u32 \<Rightarrow> u32 \<Rightarrow> pcap_file \<Rightarrow> int \<times> pcap_file" where
  "write_body buf pad_len tot_len file =
     (case pcap_write_data buf file of (rc, f) \<Rightarrow>
        if rc \<noteq> 0 then (0, f)
        else wr_then (if pad_len \<noteq> 0 then pcap_write_data (replicate (unat pad_len) 0) f else (0, f))
               (pcap_write_data (le32 tot_len)))"

definition pcap_write_spb :: "pcap_file \<Rightarrow> byte list \<Rightarrow> int \<times> pcap_file" where
  "pcap_write_spb file buf =
     (let spb = mk_spb (length buf)
      in wr_then (pcap_write_block (spb_bytes spb) file)
           (write_body buf (calc_padlen (of_nat (length buf))) (sp_tot_len spb)))"

definition pcap_read_epb :: "pcap_file \<Rightarrow> byte list \<Rightarrow> nat \<Rightarrow> (int \<times> byte list \<times> pcap_file) option" where
  "pcap_read_epb file buf buf_len =
     (if \<not> pf_have_idb file then Some (0, buf, file)
      else case pcap_read_block 28 file of (rc, bs, f) \<Rightarrow>
        if rc \<noteq> 0 then Some (0, buf, f)
        else let epb = epb_of (pf_must_swap f) bs
             in if unat (ep_tot_len epb) < 28 then Some (0, buf, f)
                else if unat (ep_incl_len epb) > buf_len then Some (0, buf, f)
                else read_body (unat (ep_incl_len epb)) (unat (ep_tot_len epb - (28 + ep_incl_len epb))) f buf)"

definition mk_epb :: "u64 \<Rightarrow> nat \<Rightarrow> pcap_epb_hdr" where
  "mk_epb usec_ts buf_len = \<lparr>ep_type = PCAP_EPB_TYPE, ep_tot_len = 28 + of_nat buf_len + calc_padlen (of_nat buf_len) + 4,
     ep_if_id = 0, ep_ts_high = ucast (drop_bit 32 usec_ts), ep_ts_low = ucast (usec_ts AND 0xFFFFFFFF),
     ep_incl_len = of_nat buf_len, ep_orig_len = of_nat buf_len\<rparr>"

definition pcap_write_epb :: "clock \<Rightarrow> pcap_file \<Rightarrow> byte list \<Rightarrow> int \<times> pcap_file" where
  "pcap_write_epb mts file buf =
     (let epb = mk_epb (pcap_get_ts mts file) (length buf)
      in wr_then (pcap_write_block (epb_bytes epb) file)
           (write_body buf (calc_padlen (of_nat (length buf))) (ep_tot_len epb)))"

definition pcap_read_dsb :: "pcap_file \<Rightarrow> byte list \<Rightarrow> nat \<Rightarrow> (int \<times> byte list \<times> pcap_file) option" where
  "pcap_read_dsb file buf buf_len =
     (if \<not> pf_have_shb file then Some (0, buf, file)
      else case pcap_read_block 16 file of (rc, bs, f) \<Rightarrow>
        if rc \<noteq> 0 then Some (0, buf, f)
        else let tot_len = ds_tot_len (dsb_of (pf_must_swap f) bs)
             in if unat tot_len < 16 then Some (0, buf, f)
                else let cap_len = tot_len - (16 + 4)
                     in if unat cap_len > buf_len then Some (0, buf, f)
                        else read_body (unat cap_len) (unat (tot_len - (16 + cap_len))) f buf)"

definition pcap_skip_block :: "pcap_file \<Rightarrow> int \<times> pcap_file" where
  "pcap_skip_block file =
     (case pcap_read_block 8 file of (rc, bs, f) \<Rightarrow>
        if rc \<noteq> 0 then (rc, f)
        else let tot_len = swap32 (pf_must_swap f) (ld32 bs 4)
             in if unat tot_len < 8 then (-1, f)
                else pcap_data_skip (int (unat tot_len) - 8) f)"

text \<open>The block type is returned as an \<open>int\<close>: one with its top bit set is negative.\<close>

definition pcap_peek_block :: "pcap_file \<Rightarrow> int \<times> pcap_file" where
  "pcap_peek_block file =
     (case pcap_read_data 4 file of (rc, bs, f) \<Rightarrow>
        if rc \<noteq> 0 then (rc, f)
        else case pcap_data_rewind 4 f of (rc, f) \<Rightarrow>
          if rc \<noteq> 0 then (rc, f) else (sint (swap32 (pf_must_swap f) (ld32 bs 0)), f))"

text \<open>
  Every block read moves the position forward, which is why \<open>pcap_read_xpb\<close> ends: \<open>moved n f f'\<close> says
  that \<open>f'\<close> has the same file and stands at least \<open>n\<close> bytes further.
\<close>

definition moved :: "nat \<Rightarrow> pcap_file \<Rightarrow> pcap_file \<Rightarrow> bool" where
  "moved n f f' \<longleftrightarrow> st_data (pf_fp f') = st_data (pf_fp f) \<and> st_pos (pf_fp f) + n \<le> st_pos (pf_fp f')"

definition bytes_left :: "pcap_file \<Rightarrow> nat" where
  "bytes_left f = length (st_data (pf_fp f)) - st_pos (pf_fp f)"

lemma log_errno_simps [simp]:
  "pf_fp (snd (pcap_log_errno_rf f)) = pf_fp f" "fst (pcap_log_errno_rf f) = -1"
  by (simp_all add: pcap_log_errno_rf_def PCAP_FAIL_def)

lemma read_data_cases:
  obtains (ok) "pcap_read_data n f = (0, take n (drop (st_pos (pf_fp f)) (st_data (pf_fp f))),
      f\<lparr>pf_fp := (pf_fp f)\<lparr>st_pos := st_pos (pf_fp f) + n\<rparr>\<rparr>)" "n = 0 \<or> st_pos (pf_fp f) + n \<le> length (st_data (pf_fp f))"
    | (fail) rc bs f' where "pcap_read_data n f = (rc, bs, f')" "rc = -1 \<or> rc = -2" "length bs < n" "moved 0 f f'"
proof -
  let ?s = "pf_fp f"
  let ?bs = "take n (drop (st_pos ?s) (take (st_limit ?s) (st_data ?s)))"
  show thesis
  proof (cases "length ?bs = n")
    case True
    have p: "n = 0 \<or> st_pos ?s + n \<le> length (st_data ?s) \<and> st_pos ?s + n \<le> st_limit ?s" using True by auto
    then have "?bs = take n (drop (st_pos ?s) (st_data ?s))" by (auto simp: drop_take min_def)
    moreover have "?s\<lparr>st_pos := st_pos ?s + n, st_err := st_err ?s, st_eof := st_eof ?s\<rparr> = ?s\<lparr>st_pos := st_pos ?s + n\<rparr>" by simp
    ultimately show thesis using True p ok
      by (auto simp: pcap_read_data_def fread_def Let_def)
  next
    case False
    have lt: "length ?bs < n" using False by auto
    obtain rc bs f' where r: "pcap_read_data n f = (rc, bs, f')" by (cases "pcap_read_data n f")
    have "(rc = -1 \<or> rc = -2) \<and> length bs < n \<and> moved 0 f f'"
      using r False lt
      by (auto simp: pcap_read_data_def fread_def Let_def moved_def pcap_log_errno_rf_def PCAP_FAIL_def PCAP_EOF_def split: if_splits)
    then show thesis using fail r by blast
  qed
qed

lemma read_block_moved: "pcap_read_block n f = (0, bs, f') \<Longrightarrow> moved n f f'"
  by (cases rule: read_data_cases [of n f]) (auto simp: pcap_read_block_def moved_def)

lemma data_skip_moved: "pcap_data_skip (int k) f = (rc, f') \<Longrightarrow> moved 0 f f'"
  by (auto simp: pcap_data_skip_def pcap_seek_data_def fseek_def moved_def pcap_log_errno_rf_def)

lemma moved_trans: "moved a f g \<Longrightarrow> moved b g h \<Longrightarrow> moved (a + b) f h"
  by (simp add: moved_def)

lemma moved_upd [simp]:
  "moved n f (g\<lparr>pf_have_shb := b\<rparr>) = moved n f g" "moved n f (g\<lparr>pf_must_swap := b\<rparr>) = moved n f g"
  "moved n f (g\<lparr>pf_shb := sh\<rparr>) = moved n f g" "moved n f (g\<lparr>pf_have_idb := b\<rparr>) = moved n f g"
  "moved n f (g\<lparr>pf_idb := ih\<rparr>) = moved n f g"
  by (simp_all add: moved_def)

lemma read_shb_moved:
  assumes "pcap_read_shb f = (0, f')"
  shows "moved 24 f f'"
proof -
  obtain rc bs g where r: "pcap_read_block 24 f = (rc, bs, g)" by (cases "pcap_read_block 24 f")
  then have rc: "rc = 0" using assms by (auto simp: pcap_read_shb_def split: if_splits)
  let ?sw = "\<not> pcap_bom_isnative (ld32 bs 8)" and ?t = "unat (sh_tot_len (shb_of (\<not> pcap_bom_isnative (ld32 bs 8)) bs))"
  have ok: "pcap_bom_isng (ld32 bs 8)" "\<not> ?t < 24" using assms r rc by (auto simp: pcap_read_shb_def Let_def split: if_splits)
  have "pcap_data_skip (int (?t - 24)) (g\<lparr>pf_have_shb := True, pf_must_swap := ?sw, pf_shb := shb_of ?sw bs\<rparr>) = (0, f')"
    using assms r rc ok by (simp add: pcap_read_shb_def Let_def of_nat_diff)
  from moved_trans [OF _ data_skip_moved [OF this], of 24 f] read_block_moved [OF r [unfolded rc]] show ?thesis by simp
qed

lemma read_idb_moved:
  assumes "pcap_read_idb f = (0, f')"
  shows "moved 16 f f'"
proof -
  obtain rc bs g where r: "pcap_read_block 16 f = (rc, bs, g)" by (cases "pcap_read_block 16 f")
  then have rc: "rc = 0" using assms by (auto simp: pcap_read_idb_def split: if_splits)
  let ?i = "idb_of (pf_must_swap g) bs"
  have ok: "\<not> unat (id_tot_len ?i) < 16" using assms r rc by (auto simp: pcap_read_idb_def Let_def split: if_splits)
  have "pcap_data_skip (int (unat (id_tot_len ?i) - 16)) (g\<lparr>pf_have_idb := True, pf_idb := ?i\<rparr>) = (0, f')"
    using assms r rc ok by (simp add: pcap_read_idb_def Let_def of_nat_diff)
  from moved_trans [OF _ data_skip_moved [OF this], of 16 f] read_block_moved [OF r [unfolded rc]] show ?thesis by simp
qed

lemma skip_block_moved:
  assumes "pcap_skip_block f = (0, f')"
  shows "moved 8 f f'"
proof -
  obtain rc bs g where r: "pcap_read_block 8 f = (rc, bs, g)" by (cases "pcap_read_block 8 f")
  then have rc: "rc = 0" using assms by (auto simp: pcap_skip_block_def split: if_splits)
  let ?t = "swap32 (pf_must_swap g) (ld32 bs 4)"
  have ok: "\<not> unat ?t < 8" using assms r rc by (auto simp: pcap_skip_block_def Let_def split: if_splits)
  have "pcap_data_skip (int (unat ?t - 8)) g = (0, f')"
    using assms r rc ok by (simp add: pcap_skip_block_def Let_def of_nat_diff)
  from moved_trans [OF _ data_skip_moved [OF this], of 8 f] read_block_moved [OF r [unfolded rc]] show ?thesis by simp
qed

lemma peek_block_ok:
  assumes "pcap_peek_block f = (t, f')" and "0 \<le> t"
  shows "f' = f\<lparr>pf_fp := (pf_fp f)\<lparr>st_eof := False\<rparr>\<rparr>" "st_pos (pf_fp f) + 4 \<le> length (st_data (pf_fp f))"
    "t = sint (swap32 (pf_must_swap f) (ld32 (take 4 (drop (st_pos (pf_fp f)) (st_data (pf_fp f)))) 0))"
proof -
  have *: "f' = f\<lparr>pf_fp := (pf_fp f)\<lparr>st_eof := False\<rparr>\<rparr> \<and> st_pos (pf_fp f) + 4 \<le> length (st_data (pf_fp f)) \<and>
    t = sint (swap32 (pf_must_swap f) (ld32 (take 4 (drop (st_pos (pf_fp f)) (st_data (pf_fp f)))) 0))"
  proof (cases rule: read_data_cases [of 4 f])
    case ok
    then show ?thesis using assms
      by (auto simp: pcap_peek_block_def pcap_data_rewind_def pcap_data_skip_def pcap_seek_data_def fseek_def)
  next
    case (fail rc bs g)
    then show ?thesis using assms by (auto simp: pcap_peek_block_def)
  qed
  then show "f' = f\<lparr>pf_fp := (pf_fp f)\<lparr>st_eof := False\<rparr>\<rparr>" "st_pos (pf_fp f) + 4 \<le> length (st_data (pf_fp f))"
    "t = sint (swap32 (pf_must_swap f) (ld32 (take 4 (drop (st_pos (pf_fp f)) (st_data (pf_fp f)))) 0))" by blast+
qed

lemma peek_moved_less:
  assumes "pcap_peek_block f = (t, g)" and "0 \<le> t" and "moved n g h" and "0 < n"
  shows "bytes_left h < bytes_left f"
  using peek_block_ok [OF assms(1,2)] assms(3,4) by (auto simp: bytes_left_def moved_def)

function pcap_read_xpb :: "pcap_file \<Rightarrow> byte list \<Rightarrow> nat \<Rightarrow> (int \<times> byte list \<times> pcap_file) option" where
  "pcap_read_xpb file buf len =
     (case pcap_peek_block file of (block_type, f) \<Rightarrow>
        if block_type < 0 then Some (0, buf, f)
        else if block_type = uint PCAP_SHB_TYPE then
          (case pcap_read_shb f of (rc, f') \<Rightarrow> if rc \<noteq> 0 then Some (-1, buf, f') else pcap_read_xpb f' buf len)
        else if block_type = uint PCAP_IDB_TYPE then
          (case pcap_read_idb f of (rc, f') \<Rightarrow> if rc \<noteq> 0 then Some (-1, buf, f') else pcap_read_xpb f' buf len)
        else if block_type = uint PCAP_SPB_TYPE then pcap_read_spb f buf len
        else if block_type = uint PCAP_EPB_TYPE then pcap_read_epb f buf len
        else if block_type = uint PCAP_DSB_TYPE then pcap_read_dsb f buf len
        else (case pcap_skip_block f of (rc, f') \<Rightarrow> if rc \<noteq> 0 then Some (-1, buf, f') else pcap_read_xpb f' buf len))"
  by pat_completeness auto
termination
  by (relation "measure (\<lambda>(file, buf, len). bytes_left file)")
    (auto intro: peek_moved_less [OF sym _ read_shb_moved [OF sym]] peek_moved_less [OF sym _ read_idb_moved [OF sym]]
      peek_moved_less [OF sym _ skip_block_moved [OF sym]])

declare pcap_read_xpb.simps [simp del]

definition pcap_write_xpb :: "clock \<Rightarrow> pcap_file \<Rightarrow> byte list \<Rightarrow> int \<times> pcap_file" where
  "pcap_write_xpb mts file buf =
     wr_then (if \<not> pf_have_idb file then pcap_write_idb file else (0, file)) (\<lambda>f.
       if pf_use_spb f then pcap_write_spb f buf else pcap_write_epb mts f buf)"

section \<open>Opening, closing, reading and writing\<close>

definition pcap_setup_ts :: "clock \<Rightarrow> clock \<Rightarrow> pcap_file \<Rightarrow> int \<times> pcap_file" where
  "pcap_setup_ts real mts file =
     (case (real, mts) of
        (Some r, Some m) \<Rightarrow> (0, file\<lparr>pf_epoch_usec := (if usec_of r \<ge> usec_of m then usec_of r - usec_of m else 0)\<rparr>)
      | _ \<Rightarrow> (-1, file))"

text \<open>\<open>fmt\<close> is the format asked for; \<open>None\<close> stands for 0.\<close>

definition pcap_setup_fmt :: "pcap_file \<Rightarrow> pcap_fmt option \<Rightarrow> int \<times> pcap_file" where
  "pcap_setup_fmt file fmt =
     (case (case fmt of Some m \<Rightarrow> (Inr m, file)
            | None \<Rightarrow> if pf_is_reader file then pcap_detect_fmt file else (Inr FmtLG, file)) of
        (Inl ec, f) \<Rightarrow> (-1, f)
      | (Inr FmtLG, f) \<Rightarrow> (0, f\<lparr>pf_fmt := FmtLG\<rparr>)
      | (Inr FmtNG, f) \<Rightarrow> (0, f\<lparr>pf_fmt := FmtNG, pf_is_ng := True\<rparr>))"

definition pcap_setup_hdr :: "pcap_file \<Rightarrow> int \<times> pcap_file" where
  "pcap_setup_hdr file =
     (if pf_is_reader file
      then (case pf_fmt file of FmtLG \<Rightarrow> pcap_read_hdr file | FmtNG \<Rightarrow> pcap_read_shb file)
      else (case pf_fmt file of FmtLG \<Rightarrow> pcap_write_hdr file | FmtNG \<Rightarrow> pcap_write_shb file))"

text \<open>The open flags, one field per bit of the mask.\<close>

record pcap_flags =
  fl_read :: bool
  fl_write :: bool
  fl_lg :: bool
  fl_ng :: bool
  fl_trace :: bool
  fl_spb :: bool

text \<open>What the system gives: memory, the file, the two clocks.\<close>

record pcap_env =
  pe_malloc :: bool
  pe_file :: "stream option"
  pe_real :: clock
  pe_mono :: clock

definition zero_stream :: stream where
  "zero_stream = \<lparr>st_data = [], st_pos = 0, st_limit = 0, st_err = False, st_eof = False, st_errno = 0\<rparr>"

definition zero_file :: pcap_file where
  "zero_file = \<lparr>pf_fp = zero_stream, pf_hdr = hdr_of False (replicate 24 0), pf_shb = shb_of False (replicate 24 0),
     pf_idb = idb_of False (replicate 16 0), pf_fmt = FmtLG, pf_sys_errno = 0, pf_epoch_usec = 0, pf_is_reader = False,
     pf_is_ng = False, pf_must_swap = False, pf_have_shb = False, pf_have_idb = False, pf_use_spb = False,
     pf_sys_err = False, pf_have_eof = False, pf_trace_rec = False, pf_pkt_cnt = 0, pf_rec_cnt = 0\<rparr>"

definition pcap_open :: "pcap_env \<Rightarrow> pcap_flags \<Rightarrow> pcap_file option" where
  "pcap_open env flags =
     (if fl_read flags = fl_write flags then None
      else if fl_lg flags \<and> fl_ng flags then None
      else if \<not> pe_malloc env then None
      else case pe_file env of
        None \<Rightarrow> None
      | Some fp \<Rightarrow>
          let file = zero_file\<lparr>pf_fp := fp, pf_trace_rec := fl_trace flags, pf_is_reader := fl_read flags, pf_use_spb := fl_spb flags\<rparr>;
              fmt = (if fl_lg flags then Some FmtLG else if fl_ng flags then Some FmtNG else None)
          in case wr_then (wr_then (pcap_setup_fmt file fmt) pcap_setup_hdr) (pcap_setup_ts (pe_real env) (pe_mono env)) of
               (rc, f) \<Rightarrow> if rc \<noteq> 0 then None else Some f)"

text \<open>\<open>pcap_close\<close>: the result and the value \<open>errno\<close> is set to, if it is.\<close>

definition pcap_close :: "bool \<Rightarrow> pcap_file \<Rightarrow> int \<times> int option" where
  "pcap_close fclose_ok file =
     (if fclose_ok then 0 else -1, if pf_sys_errno file \<noteq> 0 then Some (pf_sys_errno file) else None)"

text \<open>The calls through \<open>file->read_pkt\<close> and \<open>file->write_pkt\<close>.\<close>

definition read_pkt :: "pcap_file \<Rightarrow> byte list \<Rightarrow> nat \<Rightarrow> (int \<times> byte list \<times> pcap_file) option" where
  "read_pkt file buf len =
     (case pf_fmt file of FmtLG \<Rightarrow> pcap_read_rec file buf len | FmtNG \<Rightarrow> pcap_read_xpb file buf len)"

definition write_pkt :: "clock \<Rightarrow> pcap_file \<Rightarrow> byte list \<Rightarrow> int \<times> pcap_file" where
  "write_pkt mts file buf =
     (case pf_fmt file of FmtLG \<Rightarrow> pcap_write_rec mts file buf | FmtNG \<Rightarrow> pcap_write_xpb mts file buf)"

definition pcap_read :: "pcap_file \<Rightarrow> byte list \<Rightarrow> nat \<Rightarrow> (nat \<times> byte list \<times> pcap_file) option" where
  "pcap_read file buf len =
     (if pf_sys_err file \<or> pf_have_eof file then Some (0, buf, file)
      else do {
        (nread, buf', f) \<leftarrow> read_pkt file buf len;
        Some (nat nread, buf', if nread > 0 then f\<lparr>pf_pkt_cnt := pf_pkt_cnt f + 1\<rparr> else f) })"

definition pcap_write :: "clock \<Rightarrow> pcap_file \<Rightarrow> byte list \<Rightarrow> int \<times> pcap_file" where
  "pcap_write mts file buf =
     (if pf_sys_err file then (-1, file)
      else wr_then (write_pkt mts file buf)
             (\<lambda>f. (0, f\<lparr>pf_pkt_cnt := pf_pkt_cnt f + 1\<rparr>)))"

end
