(* ===== verification/Pcap_Format.thy ===== *)
theory Pcap_Format
  imports Pcap
begin

text \<open>
  Reading packet captures: memory safety and termination of \<open>pcap_read\<close> for every file, and the
  contract of a capture format (locale \<open>capture_format\<close>: a block is taken, its packet is delivered, the
  end is noticed), which the legacy format, enhanced and simple packet blocks meet in both byte orders.
\<close>

section \<open>Reading is safe and ends\<close>

text \<open>A read stores at most \<open>len\<close> bytes, at the start of the buffer.\<close>

definition stored :: "byte list \<Rightarrow> nat \<Rightarrow> int \<times> byte list \<times> pcap_file \<Rightarrow> bool" where
  "stored buf len r = (case r of (n, buf', f) \<Rightarrow> n \<le> int len \<and> length buf' = length buf \<and> drop len buf' = drop len buf)"

lemma read_data_short:
  assumes "pcap_read_data n f = (rc, bs, f')"
  shows "length bs \<le> n"
proof (cases rule: read_data_cases [of n f])
  case ok
  then show ?thesis using assms by auto
next
  case (fail rc' bs' g)
  then show ?thesis using assms by auto
qed

lemma put_pkt_stored:
  assumes "length bs \<le> n" and "n \<le> len" and "len \<le> length buf"
  shows "\<exists>buf'. put_pkt buf bs = Some buf' \<and> length buf' = length buf \<and> drop len buf' = drop len buf \<and> take (length bs) buf' = bs"
  using assms by (auto simp: put_pkt_def mem_write_SomeI)

lemma stored_none: "n \<le> 0 \<Longrightarrow> stored buf len (n, buf, f)"
  by (simp add: stored_def)

lemma read_body_stored:
  assumes "cap \<le> len" and "len \<le> length buf"
  shows "returns (read_body cap sk f buf) (stored buf len)"
proof -
  obtain rc bs f' where r: "pcap_read_data cap f = (rc, bs, f')" by (cases "pcap_read_data cap f")
  obtain buf' where "put_pkt buf bs = Some buf'" "length buf' = length buf" "drop len buf' = drop len buf"
    using put_pkt_stored [OF read_data_short [OF r] assms] by blast
  then show ?thesis using r assms by (auto simp: read_body_def stored_def split: prod.splits)
qed

lemma read_rec_stored:
  assumes "len \<le> length buf"
  shows "returns (pcap_read_rec f buf len) (stored buf len)"
proof -
  obtain rc bs f1 where b: "pcap_read_block 16 f = (rc, bs, f1)" by (cases "pcap_read_block 16 f")
  have neg: "rc \<le> 0" using b
    by (cases rule: read_data_cases [of 16 f]) (auto simp: pcap_read_block_def split: if_splits)
  let ?n = "unat (pr_incl_len (rec_of (pf_must_swap f1) bs))"
  show ?thesis
  proof (cases "rc \<noteq> 0 \<or> ?n > len")
    case True
    then show ?thesis using b neg by (auto simp: pcap_read_rec_def stored_def Let_def)
  next
    case False
    obtain rc2 pkt f2 where r: "pcap_read_data ?n f1 = (rc2, pkt, f2)" by (cases "pcap_read_data ?n f1")
    have neg2: "rc2 \<le> 0" using r by (cases rule: read_data_cases [of ?n f1]) auto
    obtain buf' where "put_pkt buf pkt = Some buf'" "length buf' = length buf" "drop len buf' = drop len buf"
      using put_pkt_stored [OF read_data_short [OF r] _ assms] False by auto
    moreover have "int ?n \<le> int len" using False by (simp only: of_nat_le_iff not_less de_Morgan_disj)
    ultimately show ?thesis using b r False neg2 by (auto simp: pcap_read_rec_def stored_def Let_def)
  qed
qed

lemma read_spb_stored: "len \<le> length buf \<Longrightarrow> returns (pcap_read_spb f buf len) (stored buf len)"
  by (auto simp: pcap_read_spb_def stored_none Let_def split: prod.splits intro!: read_body_stored)

lemma read_epb_stored: "len \<le> length buf \<Longrightarrow> returns (pcap_read_epb f buf len) (stored buf len)"
  by (auto simp: pcap_read_epb_def stored_none Let_def split: prod.splits intro!: read_body_stored)

lemma read_dsb_stored: "len \<le> length buf \<Longrightarrow> returns (pcap_read_dsb f buf len) (stored buf len)"
  by (auto simp: pcap_read_dsb_def stored_none Let_def split: prod.splits intro!: read_body_stored)

lemma read_xpb_stored:
  assumes "len \<le> length buf"
  shows "returns (pcap_read_xpb f buf len) (stored buf len)"
  using assms
proof (induction f buf len rule: pcap_read_xpb.induct)
  case (1 pf buf len)
  obtain t f where p: "pcap_peek_block pf = (t, f)" by (cases "pcap_peek_block pf")
  obtain r1 f1 where shb: "pcap_read_shb f = (r1, f1)" by (cases "pcap_read_shb f")
  obtain r2 f2 where idb: "pcap_read_idb f = (r2, f2)" by (cases "pcap_read_idb f")
  obtain r3 f3 where skp: "pcap_skip_block f = (r3, f3)" by (cases "pcap_skip_block f")
  note ih = "1.IH" [OF p [symmetric]]
  show ?case
    using "1.prems" ih(1) [OF _ _ shb [symmetric]] ih(2) [OF _ _ _ idb [symmetric]] ih(3) [OF _ _ _ _ _ _ skp [symmetric]]
      read_spb_stored read_epb_stored read_dsb_stored
    by (subst pcap_read_xpb.simps) (auto simp: p shb idb skp stored_none)
qed

lemma pcap_read_returns:
  assumes "len \<le> length buf"
  shows "\<exists>n buf' f'. pcap_read file buf len = Some (n, buf', f') \<and> n \<le> len \<and> length buf' = length buf \<and>
    drop len buf' = drop len buf"
proof -
  have "returns (read_pkt file buf len) (stored buf len)"
    using assms by (auto simp: read_pkt_def intro: read_rec_stored read_xpb_stored split: pcap_fmt.split)
  then obtain r where r: "(read_pkt file buf len) = Some r"
    "stored buf len r" by (rule returnsE)
  obtain n buf' f' where "r = (n, buf', f')" by (cases r)
  then show ?thesis using r by (auto simp: pcap_read_def stored_def)
qed

text \<open>C16. Reading a packet is safe and always ends. For every content and state of the capture file, in either
  format, \<open>pcap_read\<close> returns (the loop over blocks of pcapng cannot run forever, whatever lengths the
  blocks claim); it stores nothing outside the first \<open>len\<close> bytes of the caller's buffer and never claims
  more than \<open>len\<close> bytes.
\<close>

theorem pcap_read_safe:
  assumes "len \<le> length buf"
  shows "\<exists>n buf' f'. pcap_read file buf len = Some (n, buf', f') \<and> n \<le> len \<and> length buf' = length buf \<and>
    drop len buf' = drop len buf"
  using assms by (rule pcap_read_returns)

theorem pcap_read_safe_witness:
  "\<exists>n buf' f'. pcap_read zero_file (replicate 4 0) 4 = Some (n, buf', f') \<and> n \<le> 4 \<and> length buf' = length (replicate 4 (0::byte)) \<and>
    drop 4 buf' = drop 4 (replicate 4 0)"
  by (rule pcap_read_safe) simp

section \<open>Byte orders\<close>

text \<open>A 32-bit field in a file whose byte order is that of the host, or the other one.\<close>

definition w32 :: "bool \<Rightarrow> u32 \<Rightarrow> byte list" where
  "w32 sw v = (if sw then be32 v else le32 v)"

definition w16 :: "bool \<Rightarrow> u16 \<Rightarrow> byte list" where
  "w16 sw v = (if sw then be16 v else le16 v)"

lemma length_w [simp]: "length (w32 sw v) = 4" "length (w16 sw x) = 2" "length (le32 v) = 4" "length (le16 x) = 2"
  by (simp_all add: w32_def w16_def le32_def le16_def be32_def be16_def)

lemma length_le64 [simp]: "length (le64 v) = 8"
  by (simp add: le64_def)

lemma ld32_le32: "ld32 (le32 v @ post) 0 = v"
  using be32_rebuild [of v] by (simp add: ld32_def le32_def be32_def)

text \<open>The bytes of a word put together from bytes.\<close>

lemma ld32_bytes:
  "(ucast (ld32 bs p) :: u8) = bs ! p" "(ucast (drop_bit 8 (ld32 bs p)) :: u8) = bs ! (p + 1)"
  "(ucast (drop_bit 16 (ld32 bs p)) :: u8) = bs ! (p + 2)" "(ucast (drop_bit 24 (ld32 bs p)) :: u8) = bs ! (p + 3)"
  by (rule bit_word_eqI; auto simp: ld32_def bit_simps)+

lemma ld32_be32: "bswap32 (ld32 (be32 v @ post) 0) = v"
  using be32_rebuild [of v] by (simp add: bswap32_def ld32_bytes) (simp add: be32_def)

lemma ld16_bytes: "(ucast (ld16 bs p) :: u8) = bs ! p" "(ucast (drop_bit 8 (ld16 bs p)) :: u8) = bs ! (p + 1)"
  by (rule bit_word_eqI; auto simp: ld16_def bit_simps)+

lemma bswap16_bytes: "bswap16 v = push_bit 8 (ucast (ucast v :: u8)) OR ucast (ucast (drop_bit 8 v) :: u8)"
  by (rule bit_word_eqI) (auto simp: bswap16_def bit_simps dest: bit_imp_le_length)

lemma ld16_w16: "swap16 sw (ld16 (w16 sw v @ post) 0) = v"
proof (cases sw)
  case True
  then show ?thesis using be16_rebuild [of v]
    by (simp add: swap16_def w16_def bswap16_bytes ld16_bytes) (simp add: be16_def)
next
  case False
  then show ?thesis using be16_rebuild [of v] by (simp add: swap16_def w16_def ld16_def le16_def be16_def)
qed

lemma ld32_w32: "swap32 sw (ld32 (w32 sw v @ post) 0) = v"
  by (simp add: swap32_def w32_def ld32_le32 ld32_be32)

lemma ld32_skip: "length pre \<le> p \<Longrightarrow> ld32 (pre @ bs) p = ld32 bs (p - length pre)"
  by (simp add: ld32_def nth_append Suc_diff_le)

lemma ld16_skip: "length pre \<le> p \<Longrightarrow> ld16 (pre @ bs) p = ld16 bs (p - length pre)"
  by (simp add: ld16_def nth_append Suc_diff_le)

lemma ld32_take: "p + 4 \<le> n \<Longrightarrow> ld32 (take n bs) p = ld32 bs p"
  by (simp add: ld32_def)

lemma ld_last: "swap32 sw (ld32 (w32 sw v) 0) = v" "swap16 sw (ld16 (w16 sw u) 0) = u"
  using ld32_w32 [of sw v "[]"] ld16_w16 [of sw u "[]"] by simp_all

lemmas ld_simps = ld32_w32 ld16_w16 ld32_skip ld16_skip ld_last

text \<open>Records and blocks of a file in either byte order.\<close>

definition lg_rec :: "bool \<Rightarrow> pcap_rec \<Rightarrow> byte list" where
  "lg_rec sw r = w32 sw (pr_ts_sec r) @ w32 sw (pr_ts_usec r) @ w32 sw (pr_incl_len r) @ w32 sw (pr_orig_len r)"

lemma rec_of_lg_rec [simp]: "rec_of sw (lg_rec sw r) = r" "length (lg_rec sw r) = 16"
  by (simp_all add: rec_of_def lg_rec_def ld_simps)

lemma lg_rec_bytes: "lg_rec False r = rec_bytes r"
  by (simp add: lg_rec_def rec_bytes_def w32_def)

definition ng_epb :: "bool \<Rightarrow> pcap_epb_hdr \<Rightarrow> byte list" where
  "ng_epb sw h = w32 sw (ep_type h) @ w32 sw (ep_tot_len h) @ w32 sw (ep_if_id h) @ w32 sw (ep_ts_high h) @ w32 sw (ep_ts_low h) @
     w32 sw (ep_incl_len h) @ w32 sw (ep_orig_len h)"

lemma epb_of_ng_epb [simp]: "epb_of sw (ng_epb sw h) = h" "length (ng_epb sw h) = 28"
  by (simp_all add: epb_of_def ng_epb_def ld_simps)

definition ng_spb :: "bool \<Rightarrow> pcap_spb_hdr \<Rightarrow> byte list" where
  "ng_spb sw h = w32 sw (sp_type h) @ w32 sw (sp_tot_len h) @ w32 sw (sp_orig_len h)"

lemma spb_of_ng_spb [simp]: "spb_of sw (ng_spb sw h) = h" "length (ng_spb sw h) = 12"
  by (simp_all add: spb_of_def ng_spb_def ld_simps)

lemma ng_bytes: "ng_epb False h = epb_bytes h" "ng_spb False g = spb_bytes g"
  by (simp_all add: ng_epb_def epb_bytes_def ng_spb_def spb_bytes_def w32_def)

section \<open>Capture formats\<close>

text \<open>The bytes still to be read from a healthy file.\<close>

definition healthy :: "pcap_file \<Rightarrow> bool" where
  "healthy f \<longleftrightarrow> length (st_data (pf_fp f)) \<le> st_limit (pf_fp f) \<and> st_pos (pf_fp f) \<le> length (st_data (pf_fp f)) \<and>
     \<not> st_err (pf_fp f) \<and> \<not> pf_sys_err f \<and> \<not> pf_have_eof f"

definition rest :: "pcap_file \<Rightarrow> byte list" where
  "rest f = drop (st_pos (pf_fp f)) (st_data (pf_fp f))"

definition at_pos :: "nat \<Rightarrow> pcap_file \<Rightarrow> pcap_file" where
  "at_pos n f = f\<lparr>pf_fp := (pf_fp f)\<lparr>st_pos := st_pos (pf_fp f) + n\<rparr>\<rparr>"

lemma at_pos_simps [simp]:
  "pf_must_swap (at_pos n f) = pf_must_swap f" "pf_fmt (at_pos n f) = pf_fmt f" "pf_have_idb (at_pos n f) = pf_have_idb f"
  "pf_have_shb (at_pos n f) = pf_have_shb f" "pf_pkt_cnt (at_pos n f) = pf_pkt_cnt f" "pf_rec_cnt (at_pos n f) = pf_rec_cnt f"
  by (simp_all add: at_pos_def)

lemma rest_upd [simp]:
  "rest (f\<lparr>pf_rec_cnt := n\<rparr>) = rest f" "rest (f\<lparr>pf_pkt_cnt := n\<rparr>) = rest f" "rest (f\<lparr>pf_fp := (pf_fp f)\<lparr>st_eof := b\<rparr>\<rparr>) = rest f"
  "healthy (f\<lparr>pf_rec_cnt := n\<rparr>) = healthy f" "healthy (f\<lparr>pf_pkt_cnt := n\<rparr>) = healthy f"
  "healthy (f\<lparr>pf_fp := (pf_fp f)\<lparr>st_eof := b\<rparr>\<rparr>) = healthy f"
  by (simp_all add: rest_def healthy_def)

lemma read_data_rest:
  assumes "healthy f" and "rest f = bs @ r"
  shows "pcap_read_data (length bs) f = (0, bs, at_pos (length bs) f)" "healthy (at_pos (length bs) f)" "rest (at_pos (length bs) f) = r"
proof -
  let ?s = "pf_fp f"
  have d: "drop (st_pos ?s) (st_data ?s) = bs @ r" "st_pos ?s \<le> length (st_data ?s)" "length (st_data ?s) \<le> st_limit ?s"
    using assms by (simp_all add: rest_def healthy_def)
  have len: "st_pos ?s + length bs \<le> length (st_data ?s)"
    using arg_cong [OF d(1), of length] d(2) by simp
  have t: "take (length bs) (drop (st_pos ?s) (take (st_limit ?s) (st_data ?s))) = bs" using d by simp
  have "?s\<lparr>st_pos := st_pos ?s + length bs, st_err := st_err ?s, st_eof := st_eof ?s\<rparr> = ?s\<lparr>st_pos := st_pos ?s + length bs\<rparr>" by simp
  then show "pcap_read_data (length bs) f = (0, bs, at_pos (length bs) f)"
    using t by (simp add: pcap_read_data_def fread_def Let_def at_pos_def)
  show "healthy (at_pos (length bs) f)" using assms(1) len by (simp add: healthy_def at_pos_def)
  have "drop (length bs) (drop (st_pos ?s) (st_data ?s)) = r" using d(1) by simp
  then show "rest (at_pos (length bs) f) = r" by (simp add: rest_def at_pos_def add.commute)
qed

lemma read_block_rest:
  assumes "healthy f" and "rest f = bs @ r" and "n = length bs"
  shows "\<exists>f'. pcap_read_block n f = (0, bs, f') \<and> healthy f' \<and> rest f' = r \<and> pf_must_swap f' = pf_must_swap f \<and>
    pf_fmt f' = pf_fmt f \<and> pf_have_idb f' = pf_have_idb f \<and> pf_have_shb f' = pf_have_shb f"
  using read_data_rest [OF assms(1,2)] assms(3)
  by (intro exI [of _ "(at_pos n f)\<lparr>pf_rec_cnt := pf_rec_cnt f + 1\<rparr>"]) (simp add: pcap_read_block_def)

lemma data_skip_rest:
  assumes "healthy f" and "rest f = bs @ r"
  shows "\<exists>f'. pcap_data_skip (int (length bs)) f = (0, f') \<and> healthy f' \<and> rest f' = r \<and> pf_must_swap f' = pf_must_swap f \<and>
    pf_fmt f' = pf_fmt f \<and> pf_have_idb f' = pf_have_idb f \<and> pf_have_shb f' = pf_have_shb f"
proof -
  let ?f = "(at_pos (length bs) f)\<lparr>pf_fp := (pf_fp (at_pos (length bs) f))\<lparr>st_eof := False\<rparr>\<rparr>"
  have p: "nat (int (st_pos (pf_fp f)) + int (length bs)) = st_pos (pf_fp f) + length bs" by simp
  have "pcap_data_skip (int (length bs)) f = (0, ?f)"
    by (simp add: pcap_data_skip_def pcap_seek_data_def fseek_def at_pos_def p)
  then show ?thesis using read_data_rest(2,3) [OF assms] by (intro exI [of _ ?f]) simp
qed

lemma read_data_end:
  assumes "healthy f" and "rest f = []" and "0 < n"
  shows "\<exists>f'. pcap_read_data n f = (PCAP_EOF, [], f') \<and> pf_have_eof f' \<and> pf_fmt f' = pf_fmt f"
  using assms by (auto simp: pcap_read_data_def fread_def Let_def healthy_def rest_def)

text \<open>
  The contract of a capture format: from a state that \<open>fit\<close>s, one call of the reader takes one
  block and delivers \<open>shown\<close> of its packet; at the end of the file it delivers nothing and notes the
  end. \<open>pcap_loop\<close> is the loop of the API's documentation, with the packets it sees.
\<close>

fun pcap_loop :: "nat \<Rightarrow> pcap_file \<Rightarrow> byte list \<Rightarrow> nat \<Rightarrow> byte list list option" where
  "pcap_loop 0 file buf len = None"
| "pcap_loop (Suc k) file buf len = do {
     (n, buf', f) \<leftarrow> pcap_read file buf len;
     if n > 0 then do { ps \<leftarrow> pcap_loop k f buf' len; Some (take n buf' # ps) } else Some [] }"

lemma pcap_loop_step:
  "pcap_read file buf len = Some (n, buf', f) \<Longrightarrow> 0 < n \<Longrightarrow> pcap_loop k f buf' len = Some ps \<Longrightarrow>
   pcap_loop (Suc k) file buf len = Some (take n buf' # ps)"
  by simp

locale capture_format =
  fixes fit :: "pcap_file \<Rightarrow> bool"
    and block :: "'i \<Rightarrow> byte list \<Rightarrow> byte list"
    and shown :: "byte list \<Rightarrow> byte list"
  assumes fit_healthy: "fit f \<Longrightarrow> healthy f"
    and fit_cnt: "fit (f\<lparr>pf_pkt_cnt := n\<rparr>) = fit f"
    and read_one: "fit f \<Longrightarrow> rest f = block i p @ r \<Longrightarrow> length p < 2 ^ 31 \<Longrightarrow> length (shown p) \<le> len \<Longrightarrow> len \<le> length buf \<Longrightarrow>
      \<exists>buf' f'. read_pkt f buf len =
          Some (int (length (shown p)), buf', f') \<and> length buf' = length buf \<and> take (length (shown p)) buf' = shown p \<and>
        fit f' \<and> rest f' = r"
    and read_end: "fit f \<Longrightarrow> rest f = [] \<Longrightarrow>
      \<exists>n f'. read_pkt f buf len = Some (n, buf, f') \<and> n \<le> 0"
begin

lemma read_all:
  assumes "fit f" and "rest f = concat (map (\<lambda>(i, p). block i p) ps)"
    and "\<And>i p. (i, p) \<in> set ps \<Longrightarrow> length p < 2 ^ 31 \<and> 0 < length (shown p) \<and> length (shown p) \<le> len" and "len \<le> length buf"
  shows "pcap_loop (Suc (length ps)) f buf len = Some (map (\<lambda>(i, p). shown p) ps)"
  using assms
proof (induction ps arbitrary: f buf)
  case Nil
  have h: "healthy f" using Nil(1) by (rule fit_healthy)
  obtain n f' where "read_pkt f buf len = Some (n, buf, f')" "n \<le> 0"
    using read_end [OF Nil(1)] Nil(2) by fastforce
  then show ?case using h by (simp add: pcap_read_def healthy_def)
next
  case (Cons ip ps)
  obtain i p where ip: "ip = (i, p)" by (cases ip)
  have h: "healthy f" using Cons.prems(1) by (rule fit_healthy)
  have sz: "length p < 2 ^ 31" "0 < length (shown p)" "length (shown p) \<le> len" using Cons.prems(3) [of i p] ip by auto
  have rf: "rest f = block i p @ concat (map (\<lambda>(i, p). block i p) ps)" using Cons.prems(2) ip by simp
  obtain buf' f' where r: "read_pkt f buf len =
      Some (int (length (shown p)), buf', f')" "length buf' = length buf" "take (length (shown p)) buf' = shown p" "fit f'"
      "rest f' = concat (map (\<lambda>(i, p). block i p) ps)"
    using read_one [OF Cons.prems(1) rf sz(1,3) Cons.prems(4)] by blast
  have rd: "pcap_read f buf len = Some (length (shown p), buf', f'\<lparr>pf_pkt_cnt := pf_pkt_cnt f' + 1\<rparr>)"
    using r(1) sz h by (simp add: pcap_read_def healthy_def)
  have "pcap_loop (Suc (length ps)) (f'\<lparr>pf_pkt_cnt := pf_pkt_cnt f' + 1\<rparr>) buf' len = Some (map (\<lambda>(i, p). shown p) ps)"
    by (rule Cons.IH) (use r Cons.prems fit_cnt in auto)
  from pcap_loop_step [OF rd sz(2) this] show ?case using r(3) ip by (simp only: length_Cons list.map prod.case)
qed

end

section \<open>The three formats\<close>

definition padn :: "nat \<Rightarrow> nat" where
  "padn n = (4 - n mod 4) mod 4"

lemma padn_less: "padn n < 4"
  by (simp add: padn_def)

lemma unat_padlen: "n < 2 ^ 32 \<Longrightarrow> unat (calc_padlen (of_nat n)) = padn n"
proof -
  assume "n < 2 ^ 32"
  then have n: "unat (of_nat n :: u32) = n" by (simp add: unat_of_nat take_bit_eq_mod)
  have m: "unat ((of_nat n :: u32) mod 4) = n mod 4" by (simp add: unat_mod n)
  have "(of_nat n :: u32) mod 4 \<le> 4" unfolding word_le_nat_alt m by (simp add: order_less_imp_le)
  then have "unat (4 - (of_nat n :: u32) mod 4) = 4 - n mod 4" by (simp add: unat_sub m)
  then show ?thesis by (simp add: calc_padlen_def unat_mod padn_def)
qed

lemma unat_small: "n < 2 ^ 32 \<Longrightarrow> unat (of_nat n :: u32) = n"
  by (simp add: unat_of_nat take_bit_eq_mod)

lemma padlen_of_nat: "n < 2 ^ 32 \<Longrightarrow> calc_padlen (of_nat n) = of_nat (padn n)"
  using unat_padlen [of n] by (metis of_nat_unat ucast_id)

lemma tot_len:
  assumes "n < 2 ^ 31" and "h < 2 ^ 16"
  shows "unat (of_nat h + of_nat n + calc_padlen (of_nat n) + 4 :: u32) = h + n + padn n + 4"
proof -
  have "calc_padlen (of_nat n) = (of_nat (padn n) :: u32)" using assms(1) by (intro padlen_of_nat) simp
  then have "of_nat h + of_nat n + calc_padlen (of_nat n) + 4 = (of_nat (h + n + padn n + 4) :: u32)" by simp
  moreover have "unat (of_nat (h + n + padn n + 4) :: u32) = h + n + padn n + 4"
    using assms padn_less [of n] by (intro unat_small) simp
  ultimately show ?thesis by metis
qed


definition lg_fit :: "bool \<Rightarrow> pcap_file \<Rightarrow> bool" where
  "lg_fit sw f \<longleftrightarrow> healthy f \<and> pf_fmt f = FmtLG \<and> pf_must_swap f = sw"

definition lg_block :: "bool \<Rightarrow> u32 \<times> u32 \<Rightarrow> byte list \<Rightarrow> byte list" where
  "lg_block sw ts p = lg_rec sw \<lparr>pr_ts_sec = fst ts, pr_ts_usec = snd ts, pr_incl_len = of_nat (length p),
     pr_orig_len = of_nat (length p)\<rparr> @ p"

lemma put_pkt_front:
  "length p \<le> length buf \<Longrightarrow> \<exists>buf'. put_pkt buf p = Some buf' \<and> length buf' = length buf \<and> take (length p) buf' = p"
  by (auto simp: put_pkt_def mem_write_SomeI)

interpretation lg: capture_format "lg_fit sw" "lg_block sw" "\<lambda>p. p" for sw
proof
  fix f n
  show "lg_fit sw f \<Longrightarrow> healthy f" "lg_fit sw (f\<lparr>pf_pkt_cnt := n\<rparr>) = lg_fit sw f" by (simp_all add: lg_fit_def)
next
  fix f i p r len buf
  assume a: "lg_fit sw f" "rest f = lg_block sw i p @ r" "length p < 2 ^ 31" "length p \<le> len" "len \<le> length (buf :: byte list)"
  let ?rec = "\<lparr>pr_ts_sec = fst i, pr_ts_usec = snd i, pr_incl_len = of_nat (length p), pr_orig_len = of_nat (length p)\<rparr>"
  obtain f1 where 1: "pcap_read_block 16 f = (0, lg_rec sw ?rec, f1)" "healthy f1" "rest f1 = p @ r" "pf_must_swap f1 = sw" "pf_fmt f1 = FmtLG"
    using read_block_rest [of f "lg_rec sw ?rec" "p @ r" 16] a by (auto simp: lg_fit_def lg_block_def)
  have n: "unat (of_nat (length p) :: u32) = length p" using a(3) by (intro unat_small) simp
  have rd: "pcap_read_data (length p) f1 = (0, p, at_pos (length p) f1)" "healthy (at_pos (length p) f1)" "rest (at_pos (length p) f1) = r"
    by (rule read_data_rest [OF 1(2,3)])+
  obtain buf' where "put_pkt buf p = Some buf'" "length buf' = length buf" "take (length p) buf' = p"
    using put_pkt_front [of p buf] a by auto
  then show "\<exists>buf' f'. read_pkt f buf len = Some (int (length p), buf', f') \<and> length buf' = length buf \<and> take (length p) buf' = p \<and>
      lg_fit sw f' \<and> rest f' = r"
    using a(1,4) 1 rd n by (auto simp: read_pkt_def pcap_read_rec_def lg_fit_def Let_def)
next
  fix f buf len
  assume a: "lg_fit sw f" "rest f = []"
  then obtain f' where "pcap_read_data 16 f = (PCAP_EOF, [], f')" using read_data_end [of f 16] by (auto simp: lg_fit_def)
  then show "\<exists>n f'. read_pkt f buf len = Some (n, buf, f') \<and> n \<le> 0"
    using a by (auto simp: read_pkt_def pcap_read_rec_def pcap_read_block_def PCAP_EOF_def lg_fit_def)
qed

text \<open>Blocks of pcapng: the header, the packet, padding to a multiple of four, the length again.\<close>

definition ng_fit :: "bool \<Rightarrow> pcap_file \<Rightarrow> bool" where
  "ng_fit sw f \<longleftrightarrow> healthy f \<and> pf_fmt f = FmtNG \<and> pf_must_swap f = sw \<and> pf_have_idb f"

definition pad :: "byte list \<Rightarrow> byte list" where
  "pad p = replicate (padn (length p)) 0"

definition epb_block :: "bool \<Rightarrow> u64 \<Rightarrow> byte list \<Rightarrow> byte list" where
  "epb_block sw ts p = ng_epb sw (mk_epb ts (length p)) @ p @ pad p @ w32 sw (ep_tot_len (mk_epb ts (length p)))"

definition spb_block :: "bool \<Rightarrow> unit \<Rightarrow> byte list \<Rightarrow> byte list" where
  "spb_block sw u p = ng_spb sw (mk_spb (length p)) @ p @ pad p @ w32 sw (sp_tot_len (mk_spb (length p)))"

definition ng_packet :: "bool \<Rightarrow> bool \<Rightarrow> u64 \<Rightarrow> byte list \<Rightarrow> byte list" where
  "ng_packet sw sp ts p = (if sp then spb_block sw () p else epb_block sw ts p)"

definition ng_shown :: "bool \<Rightarrow> byte list \<Rightarrow> byte list" where
  "ng_shown sp p = (if sp then p @ pad p else p)"

lemma peek_rest:
  assumes "healthy f" and "rest f = w32 (pf_must_swap f) t @ r"
  shows "pcap_peek_block f = (sint t, f\<lparr>pf_fp := (pf_fp f)\<lparr>st_eof := False\<rparr>\<rparr>)"
proof -
  let ?f = "at_pos 4 f"
  have rd: "pcap_read_data 4 f = (0, w32 (pf_must_swap f) t, ?f)" using read_data_rest(1) [OF assms] by simp
  have p: "nat (int (st_pos (pf_fp f)) + 4 - 4) = st_pos (pf_fp f)" by simp
  have "pcap_data_rewind 4 ?f = (0, f\<lparr>pf_fp := (pf_fp f)\<lparr>st_eof := False\<rparr>\<rparr>)"
    by (simp add: pcap_data_rewind_def pcap_data_skip_def pcap_seek_data_def fseek_def at_pos_def)
  then show ?thesis using rd by (simp add: pcap_peek_block_def ld_last)
qed

lemma read_body_rest:
  assumes "healthy f" and "rest f = p @ s @ r" and "length p \<le> length buf"
  shows "\<exists>buf' f'. read_body (length p) (length s) f buf = Some (int (length p), buf', f') \<and> length buf' = length buf \<and>
    take (length p) buf' = p \<and> healthy f' \<and> rest f' = r \<and> pf_must_swap f' = pf_must_swap f \<and> pf_fmt f' = pf_fmt f \<and>
    pf_have_idb f' = pf_have_idb f"
proof -
  have rd: "pcap_read_data (length p) f = (0, p, at_pos (length p) f)" "healthy (at_pos (length p) f)" "rest (at_pos (length p) f) = s @ r"
    by (rule read_data_rest [OF assms(1,2)])+
  obtain f' where s: "pcap_data_skip (int (length s)) (at_pos (length p) f) = (0, f')" "healthy f'" "rest f' = r"
    "pf_must_swap f' = pf_must_swap f" "pf_fmt f' = pf_fmt f" "pf_have_idb f' = pf_have_idb f"
    using data_skip_rest [OF rd(2,3)] by auto
  obtain buf' where "put_pkt buf p = Some buf'" "length buf' = length buf" "take (length p) buf' = p"
    using put_pkt_front [OF assms(3)] by blast
  then show ?thesis using rd(1) s by (auto simp: read_body_def)
qed

lemma ng_read_end:
  assumes "healthy f" and "pf_fmt f = FmtNG" and "rest f = []"
  shows "\<exists>n f'. read_pkt f buf len = Some (n, buf, f') \<and> n \<le> 0"
proof -
  obtain f' where "pcap_read_data 4 f = (PCAP_EOF, [], f')" using read_data_end [of f 4] assms by (auto simp: ng_fit_def)
  then have "pcap_peek_block f = (-2, f')" by (simp add: pcap_peek_block_def PCAP_EOF_def)
  then show ?thesis using assms(2) by (simp add: read_pkt_def pcap_read_xpb.simps)
qed


lemma pad_skip: "unat (4 + of_nat (padn n) :: u32) = padn n + 4"
proof -
  have "unat (of_nat (padn n + 4) :: u32) = padn n + 4" using padn_less [of n] by (intro unat_small) simp
  then show ?thesis by (simp add: add.commute)
qed

lemma length_pad [simp]: "length (pad p) = padn (length p)"
  by (simp add: pad_def)

interpretation epb: capture_format "ng_fit sw" "epb_block sw" "\<lambda>p. p" for sw
proof
  fix f n
  show "ng_fit sw f \<Longrightarrow> healthy f" "ng_fit sw (f\<lparr>pf_pkt_cnt := n\<rparr>) = ng_fit sw f" by (simp_all add: ng_fit_def)
  show "ng_fit sw f \<Longrightarrow> rest f = [] \<Longrightarrow> \<exists>n f'. read_pkt f buf len = Some (n, buf, f') \<and> n \<le> 0" for buf len
    by (rule ng_read_end) (simp_all add: ng_fit_def)
next
  fix f ts p r len buf
  assume a: "ng_fit sw f" "rest f = epb_block sw ts p @ r" "length p < 2 ^ 31" "length p \<le> len" "len \<le> length (buf :: byte list)"
  let ?h = "mk_epb ts (length p)" and ?f = "f\<lparr>pf_fp := (pf_fp f)\<lparr>st_eof := False\<rparr>\<rparr>"
  have pk: "pcap_peek_block f = (6, ?f)"
    using peek_rest [of f PCAP_EPB_TYPE] a(1,2) by (simp add: ng_fit_def epb_block_def ng_epb_def mk_epb_def PCAP_EPB_TYPE_def)
  obtain f1 where 1: "pcap_read_block 28 ?f = (0, ng_epb sw ?h, f1)" "healthy f1" "rest f1 = p @ (pad p @ w32 sw (ep_tot_len ?h)) @ r"
    "pf_must_swap f1 = sw" "pf_fmt f1 = FmtNG" "pf_have_idb f1"
    using read_block_rest [of ?f "ng_epb sw ?h" "p @ (pad p @ w32 sw (ep_tot_len ?h)) @ r" 28] a by (auto simp: ng_fit_def epb_block_def)
  have n: "unat (ep_incl_len ?h) = length p" "unat (ep_tot_len ?h) = 28 + length p + padn (length p) + 4"
    using unat_small [of "length p"] tot_len [of "length p" 28] a(3) by (simp_all add: mk_epb_def)
  have sk: "unat (ep_tot_len ?h - (28 + ep_incl_len ?h)) = length (pad p @ w32 sw (ep_tot_len ?h))"
    using n padlen_of_nat [of "length p"] a(3) pad_skip [of "length p"] by (simp add: mk_epb_def)
  obtain buf' f' where b: "read_body (length p) (length (pad p @ w32 sw (ep_tot_len ?h))) f1 buf = Some (int (length p), buf', f')"
    "length buf' = length buf" "take (length p) buf' = p" "healthy f'" "rest f' = r" "pf_must_swap f' = sw" "pf_fmt f' = FmtNG" "pf_have_idb f'"
    using read_body_rest [OF 1(2,3), of buf] a(4,5) 1(4-6) by auto
  have "pcap_read_epb ?f buf len = Some (int (length p), buf', f')"
    using 1(1,4) n a(1,4) b(1) sk by (simp add: pcap_read_epb_def ng_fit_def Let_def)
  then show "\<exists>buf' f'. read_pkt f buf len = Some (int (length p), buf', f') \<and> length buf' = length buf \<and> take (length p) buf' = p \<and>
      ng_fit sw f' \<and> rest f' = r"
    using a(1) b pk by (auto simp: read_pkt_def ng_fit_def pcap_read_xpb.simps [of f] pcap_consts)
qed

interpretation spb: capture_format "ng_fit sw" "spb_block sw" "\<lambda>p. p @ pad p" for sw
proof
  fix f n
  show "ng_fit sw f \<Longrightarrow> healthy f" "ng_fit sw (f\<lparr>pf_pkt_cnt := n\<rparr>) = ng_fit sw f" by (simp_all add: ng_fit_def)
  show "ng_fit sw f \<Longrightarrow> rest f = [] \<Longrightarrow> \<exists>n f'. read_pkt f buf len = Some (n, buf, f') \<and> n \<le> 0" for buf len
    by (rule ng_read_end) (simp_all add: ng_fit_def)
next
  fix f p r len buf and u :: unit
  assume a: "ng_fit sw f" "rest f = spb_block sw u p @ r" "length p < 2 ^ 31" "length (p @ pad p) \<le> len" "len \<le> length (buf :: byte list)"
  let ?h = "mk_spb (length p)" and ?f = "f\<lparr>pf_fp := (pf_fp f)\<lparr>st_eof := False\<rparr>\<rparr>" and ?q = "p @ pad p"
  have pk: "pcap_peek_block f = (3, ?f)"
    using peek_rest [of f PCAP_SPB_TYPE] a(1,2) by (simp add: ng_fit_def spb_block_def ng_spb_def mk_spb_def PCAP_SPB_TYPE_def)
  obtain f1 where 1: "pcap_read_block 12 ?f = (0, ng_spb sw ?h, f1)" "healthy f1" "rest f1 = ?q @ w32 sw (sp_tot_len ?h) @ r"
    "pf_must_swap f1 = sw" "pf_fmt f1 = FmtNG" "pf_have_idb f1"
    using read_block_rest [of ?f "ng_spb sw ?h" "?q @ w32 sw (sp_tot_len ?h) @ r" 12] a by (auto simp: ng_fit_def spb_block_def)
  have n: "unat (sp_tot_len ?h) = 12 + length p + padn (length p) + 4"
    using tot_len [of "length p" 12] a(3) by (simp add: mk_spb_def)
  have cap: "unat (sp_tot_len ?h - (12 + 4)) = length ?q" using n by (subst unat_sub) (simp_all add: word_le_nat_alt)
  have sk: "sp_tot_len ?h - (12 + (sp_tot_len ?h - (12 + 4))) = 4" by simp
  obtain buf' f' where b: "read_body (length ?q) (length (w32 sw (sp_tot_len ?h))) f1 buf = Some (int (length ?q), buf', f')"
    "length buf' = length buf" "take (length ?q) buf' = ?q" "healthy f'" "rest f' = r" "pf_must_swap f' = sw" "pf_fmt f' = FmtNG" "pf_have_idb f'"
    using read_body_rest [OF 1(2,3), of buf] a(4,5) 1(4-6) by auto
  have "pcap_read_spb ?f buf len = Some (int (length ?q), buf', f')"
    using 1(1,4) n a(1,4) b(1) cap sk by (simp add: pcap_read_spb_def ng_fit_def Let_def)
  then show "\<exists>buf' f'. read_pkt f buf len = Some (int (length ?q), buf', f') \<and> length buf' = length buf \<and> take (length ?q) buf' = ?q \<and>
      ng_fit sw f' \<and> rest f' = r"
    using a(1) b pk by (auto simp: read_pkt_def ng_fit_def pcap_read_xpb.simps [of f] pcap_consts)
qed

end
