(* ===== verification/Pcap_File.thy ===== *)
theory Pcap_File
  imports Pcap_Format
begin

text \<open>
  Writing packet captures (locale \<open>capture_writer\<close>: a call appends exactly one block), whole files from
  \<open>pcap_open\<close> to the end of the read loop, and the behaviour on a full medium and on files the reader
  does not accept.
\<close>

section \<open>Writing\<close>

text \<open>A file open for appending, with \<open>room\<close> bytes left on its medium.\<close>

definition writable :: "pcap_file \<Rightarrow> bool" where
  "writable f \<longleftrightarrow> st_pos (pf_fp f) = length (st_data (pf_fp f)) \<and> st_pos (pf_fp f) \<le> st_limit (pf_fp f) \<and>
     \<not> st_err (pf_fp f) \<and> \<not> pf_sys_err f"

definition room :: "pcap_file \<Rightarrow> nat" where
  "room f = st_limit (pf_fp f) - st_pos (pf_fp f)"

definition app :: "byte list \<Rightarrow> pcap_file \<Rightarrow> pcap_file" where
  "app bs f = f\<lparr>pf_fp := (pf_fp f)\<lparr>st_data := st_data (pf_fp f) @ bs, st_pos := st_pos (pf_fp f) + length bs\<rparr>\<rparr>"

lemma app_simps [simp]:
  "pf_fmt (app bs f) = pf_fmt f" "pf_have_idb (app bs f) = pf_have_idb f" "pf_use_spb (app bs f) = pf_use_spb f"
  "pf_epoch_usec (app bs f) = pf_epoch_usec f" "pf_rec_cnt (app bs f) = pf_rec_cnt f"
  "st_data (pf_fp (app bs f)) = st_data (pf_fp f) @ bs" "st_limit (pf_fp (app bs f)) = st_limit (pf_fp f)"
  "st_errno (pf_fp (app bs f)) = st_errno (pf_fp f)"
  by (simp_all add: app_def)

lemma write_data_ok:
  assumes "writable f" and "length bs \<le> room f"
  shows "pcap_write_data bs f = (0, app bs f)" "writable (app bs f)" "room (app bs f) = room f - length bs"
proof -
  have "(pf_fp f)\<lparr>st_data := st_data (pf_fp f) @ bs, st_pos := st_pos (pf_fp f) + length bs, st_err := st_err (pf_fp f)\<rparr> =
      (pf_fp f)\<lparr>st_data := st_data (pf_fp f) @ bs, st_pos := st_pos (pf_fp f) + length bs\<rparr>" by simp
  moreover have "(pf_fp f)\<lparr>st_data := st_data (pf_fp f), st_pos := st_pos (pf_fp f), st_err := st_err (pf_fp f)\<rparr> = pf_fp f" by simp
  ultimately show "pcap_write_data bs f = (0, app bs f)"
    using assms by (auto simp: pcap_write_data_def fwrite_def writable_def room_def app_def Let_def min_def)
  show "writable (app bs f)" "room (app bs f) = room f - length bs"
    using assms by (auto simp: writable_def room_def app_def)
qed

lemma writable_upd [simp]:
  "writable (f\<lparr>pf_rec_cnt := n\<rparr>) = writable f" "room (f\<lparr>pf_rec_cnt := n\<rparr>) = room f"
  "writable (f\<lparr>pf_pkt_cnt := n\<rparr>) = writable f" "room (f\<lparr>pf_pkt_cnt := n\<rparr>) = room f"
  "writable (f\<lparr>pf_have_idb := b\<rparr>) = writable f" "room (f\<lparr>pf_have_idb := b\<rparr>) = room f"
  "writable (f\<lparr>pf_have_shb := b\<rparr>) = writable f" "room (f\<lparr>pf_have_shb := b\<rparr>) = room f"
  "writable (f\<lparr>pf_idb := ih\<rparr>) = writable f" "room (f\<lparr>pf_idb := ih\<rparr>) = room f"
  "writable (f\<lparr>pf_shb := sh\<rparr>) = writable f" "room (f\<lparr>pf_shb := sh\<rparr>) = room f"
  "writable (f\<lparr>pf_hdr := ph\<rparr>) = writable f" "room (f\<lparr>pf_hdr := ph\<rparr>) = room f"
  by (simp_all add: writable_def room_def)

text \<open>\<open>wrote bs f r\<close>: the call succeeded and appended exactly \<open>bs\<close>.\<close>

definition wrote :: "byte list \<Rightarrow> pcap_file \<Rightarrow> int \<times> pcap_file \<Rightarrow> bool" where
  "wrote bs f r = (case r of (rc, f') \<Rightarrow> rc = 0 \<and> writable f' \<and> st_data (pf_fp f') = st_data (pf_fp f) @ bs \<and>
     room f' = room f - length bs \<and> st_limit (pf_fp f') = st_limit (pf_fp f) \<and> pf_fmt f' = pf_fmt f \<and>
     pf_have_idb f' = pf_have_idb f \<and> pf_use_spb f' = pf_use_spb f \<and> pf_epoch_usec f' = pf_epoch_usec f)"

lemma write_data_wrote: "writable f \<Longrightarrow> length bs \<le> room f \<Longrightarrow> wrote bs f (pcap_write_data bs f)"
  by (simp add: wrote_def write_data_ok)

lemma write_block_wrote: "writable f \<Longrightarrow> length bs \<le> room f \<Longrightarrow> wrote bs f (pcap_write_block bs f)"
  by (simp add: wrote_def write_data_ok pcap_write_block_def)

lemma wrote_then:
  assumes "wrote bs f m" and "\<And>f'. writable f' \<Longrightarrow> room f' = room f - length bs \<Longrightarrow> wrote bs' f' (k f')"
  shows "wrote (bs @ bs') f (wr_then m k)"
proof -
  obtain f' where m: "m = (0, f')" using assms(1) by (cases m) (auto simp: wrote_def)
  have "wrote bs' f' (k f')" by (rule assms(2)) (use assms(1) m in \<open>auto simp: wrote_def\<close>)
  then show ?thesis using assms(1) m by (auto simp: wrote_def wr_then_def)
qed

lemma write_body_wrote:
  assumes "writable f" and "length p < 2 ^ 31" and "length p + padn (length p) + 4 \<le> room f"
  shows "wrote (p @ pad p @ le32 tot) f (write_body p (calc_padlen (of_nat (length p))) tot f)"
proof -
  have eq: "write_body p pl tot f = wr_then (pcap_write_data p f) (\<lambda>f. wr_then
      (if pl \<noteq> 0 then pcap_write_data (replicate (unat pl) 0) f else (0, f)) (pcap_write_data (le32 tot)))"
    if "fst (pcap_write_data p f) = 0" for pl using that by (auto simp: write_body_def wr_then_def split: prod.splits)
  have pl: "unat (calc_padlen (of_nat (length p))) = padn (length p)" using assms(2) by (intro unat_padlen) simp
  have "wrote (p @ pad p @ le32 tot) f (wr_then (pcap_write_data p f) (\<lambda>f. wr_then
      (if calc_padlen (of_nat (length p)) \<noteq> 0 then pcap_write_data (replicate (unat (calc_padlen (of_nat (length p)))) 0) f else (0, f))
      (pcap_write_data (le32 tot))))"
  proof (intro wrote_then [OF write_data_wrote [OF assms(1)]] wrote_then)
    fix f'
    assume f': "writable f'" "room f' = room f - length p"
    show "wrote (pad p) f' (if calc_padlen (of_nat (length p)) \<noteq> 0
        then pcap_write_data (replicate (unat (calc_padlen (of_nat (length p)))) 0) f' else (0, f'))"
    proof (cases "calc_padlen (of_nat (length p)) = 0")
      case True
      then show ?thesis using pl f' by (simp add: wrote_def pad_def)
    next
      case False
      then show ?thesis using pl f' assms(3) write_data_wrote [of f' "pad p"] by (simp add: pad_def)
    qed
  qed (use assms(3) in \<open>auto intro!: write_data_wrote\<close>)
  then show ?thesis using assms by (simp add: eq write_data_ok)
qed

locale capture_writer =
  fixes wfit :: "pcap_file \<Rightarrow> bool"
    and wblock :: "clock \<Rightarrow> byte list \<Rightarrow> byte list"
  assumes wfit_writable: "wfit f \<Longrightarrow> writable f"
    and wfit_cnt: "wfit (f\<lparr>pf_pkt_cnt := n\<rparr>) = wfit f"
    and write_one: "wfit f \<Longrightarrow> length p < 2 ^ 31 \<Longrightarrow> length (wblock c p) \<le> room f \<Longrightarrow>
       wrote (wblock c p) f (write_pkt c f p) \<and> wfit (snd (write_pkt c f p))"

fun pcap_write_all :: "(clock \<times> byte list) list \<Rightarrow> pcap_file \<Rightarrow> int \<times> pcap_file" where
  "pcap_write_all [] f = (0, f)"
| "pcap_write_all ((c, p) # ps) f = wr_then (pcap_write c f p) (pcap_write_all ps)"

context capture_writer
begin

lemma write_all:
  assumes "wfit f" and "\<And>c p. (c, p) \<in> set ps \<Longrightarrow> length p < 2 ^ 31"
    and "length (concat (map (\<lambda>(c, p). wblock c p) ps)) \<le> room f"
  shows "\<exists>f'. pcap_write_all ps f = (0, f') \<and> wfit f' \<and> st_data (pf_fp f') = st_data (pf_fp f) @ concat (map (\<lambda>(c, p). wblock c p) ps) \<and>
     st_limit (pf_fp f') = st_limit (pf_fp f)"
  using assms
proof (induction ps arbitrary: f)
  case (Cons cp ps)
  obtain c p where cp: "cp = (c, p)" by (cases cp)
  have w: "wrote (wblock c p) f (write_pkt c f p)" "wfit (snd (write_pkt c f p))"
    using write_one [OF Cons.prems(1), of p c] Cons.prems(2) [of c p] Cons.prems(3) cp by auto
  then obtain f1 where f1: "write_pkt c f p = (0, f1)" "wfit f1" by (cases "write_pkt c f p") (auto simp: wrote_def)
  let ?f = "f1\<lparr>pf_pkt_cnt := pf_pkt_cnt f1 + 1\<rparr>"
  have "\<not> pf_sys_err f" using wfit_writable [OF Cons.prems(1)] by (simp add: writable_def)
  then have pw: "pcap_write c f p = (0, ?f)" using f1 by (simp add: pcap_write_def wr_then_def)
  have "\<exists>f'. pcap_write_all ps ?f = (0, f') \<and> wfit f' \<and> st_data (pf_fp f') = st_data (pf_fp ?f) @ concat (map (\<lambda>(c, p). wblock c p) ps) \<and>
     st_limit (pf_fp f') = st_limit (pf_fp ?f)"
    by (rule Cons.IH) (use f1 w Cons.prems cp wfit_cnt in \<open>auto simp: wrote_def\<close>)
  then show ?case using pw cp w(1) f1(1) by (auto simp: wr_then_def wrote_def)
qed simp

end

definition lg_wfit :: "u64 \<Rightarrow> pcap_file \<Rightarrow> bool" where
  "lg_wfit e f \<longleftrightarrow> writable f \<and> pf_fmt f = FmtLG \<and> pf_epoch_usec f = e"

definition ng_wfit :: "bool \<Rightarrow> u64 \<Rightarrow> pcap_file \<Rightarrow> bool" where
  "ng_wfit sp e f \<longleftrightarrow> writable f \<and> pf_fmt f = FmtNG \<and> pf_have_idb f \<and> pf_use_spb f = sp \<and> pf_epoch_usec f = e"

definition stamp :: "u64 \<Rightarrow> clock \<Rightarrow> u64" where
  "stamp e c = (case c of None \<Rightarrow> 0 | Some ts \<Rightarrow> usec_of ts + e)"

definition lg_stamp :: "u64 \<Rightarrow> clock \<Rightarrow> u32 \<times> u32" where
  "lg_stamp e c = (ucast (stamp e c div 1000000), ucast (stamp e c mod 1000000))"

lemma get_ts_stamp: "pcap_get_ts c f = stamp (pf_epoch_usec f) c"
  by (simp add: pcap_get_ts_def stamp_def split: option.split)

lemma wrote_snd: "wrote bs f r \<Longrightarrow> writable (snd r) \<and> pf_fmt (snd r) = pf_fmt f \<and> pf_have_idb (snd r) = pf_have_idb f \<and>
    pf_use_spb (snd r) = pf_use_spb f \<and> pf_epoch_usec (snd r) = pf_epoch_usec f"
  by (auto simp: wrote_def split: prod.splits)

interpretation lgw: capture_writer "lg_wfit e" "\<lambda>c. lg_block False (lg_stamp e c)" for e
proof
  fix f n
  show "lg_wfit e f \<Longrightarrow> writable f" "lg_wfit e (f\<lparr>pf_pkt_cnt := n\<rparr>) = lg_wfit e f" by (simp_all add: lg_wfit_def)
next
  fix f p c
  assume a: "lg_wfit e f" "length p < 2 ^ 31" "length (lg_block False (lg_stamp e c) p) \<le> room f"
  let ?r = "mk_rec (stamp e c) p"
  have b: "lg_block False (lg_stamp e c) p = rec_bytes ?r @ p"
    by (simp add: lg_block_def lg_stamp_def mk_rec_def lg_rec_bytes)
  have l: "length (rec_bytes ?r) = 16" by (simp add: rec_bytes_def)
  have "write_pkt c f p = wr_then (pcap_write_block (rec_bytes ?r) f) (pcap_write_data p)"
    using a(1) by (simp add: write_pkt_def pcap_write_rec_def lg_wfit_def get_ts_stamp)
  moreover have "wrote (rec_bytes ?r @ p) f (wr_then (pcap_write_block (rec_bytes ?r) f) (pcap_write_data p))"
    using a b l by (intro wrote_then write_block_wrote write_data_wrote) (auto simp: lg_wfit_def)
  ultimately have "wrote (rec_bytes ?r @ p) f (write_pkt c f p)" by simp
  then show "wrote (lg_block False (lg_stamp e c) p) f (write_pkt c f p) \<and> lg_wfit e (snd (write_pkt c f p))"
    using wrote_snd a(1) b by (auto simp: lg_wfit_def)
qed

lemma write_ng:
  assumes "writable f" and "length p < 2 ^ 31" and "length (ng_packet False (pf_use_spb f) (stamp (pf_epoch_usec f) c) p) \<le> room f"
  shows "wrote (ng_packet False (pf_use_spb f) (stamp (pf_epoch_usec f) c) p) f (if pf_use_spb f then pcap_write_spb f p else pcap_write_epb c f p)"
proof -
  have l: "length (spb_bytes h) = 12" "length (epb_bytes g) = 28" for h g by (simp_all add: spb_bytes_def epb_bytes_def)
  have w: "w32 False v = le32 v" for v by (simp add: w32_def)
  show ?thesis
  proof (cases "pf_use_spb f")
    case True
    have "wrote (spb_bytes (mk_spb (length p)) @ p @ pad p @ le32 (sp_tot_len (mk_spb (length p)))) f (pcap_write_spb f p)"
      unfolding pcap_write_spb_def Let_def using assms True l
      by (intro wrote_then write_block_wrote write_body_wrote) (auto simp: ng_packet_def spb_block_def ng_bytes)
    then show ?thesis using True by (simp add: ng_packet_def spb_block_def ng_bytes w)
  next
    case False
    let ?ts = "stamp (pf_epoch_usec f) c"
    have "wrote (epb_bytes (mk_epb ?ts (length p)) @ p @ pad p @ le32 (ep_tot_len (mk_epb ?ts (length p)))) f (pcap_write_epb c f p)"
      unfolding pcap_write_epb_def Let_def get_ts_stamp using assms False l
      by (intro wrote_then write_block_wrote write_body_wrote) (auto simp: ng_packet_def epb_block_def ng_bytes)
    then show ?thesis using False by (simp add: ng_packet_def epb_block_def ng_bytes w)
  qed
qed

interpretation ngw: capture_writer "ng_wfit sp e" "\<lambda>c. ng_packet False sp (stamp e c)" for sp e
proof
  fix f n
  show "ng_wfit sp e f \<Longrightarrow> writable f" "ng_wfit sp e (f\<lparr>pf_pkt_cnt := n\<rparr>) = ng_wfit sp e f" by (simp_all add: ng_wfit_def)
next
  fix f p c
  assume a: "ng_wfit sp e f" "length p < 2 ^ 31" "length (ng_packet False sp (stamp e c) p) \<le> room f"
  have "write_pkt c f p = (if pf_use_spb f then pcap_write_spb f p else pcap_write_epb c f p)"
    using a(1) by (simp add: write_pkt_def pcap_write_xpb_def wr_then_def ng_wfit_def)
  then have "wrote (ng_packet False sp (stamp e c) p) f (write_pkt c f p)"
    using write_ng [of f p c] a by (simp add: ng_wfit_def)
  then show "wrote (ng_packet False sp (stamp e c) p) f (write_pkt c f p) \<and> ng_wfit sp e (snd (write_pkt c f p))"
    using wrote_snd a(1) by (auto simp: ng_wfit_def)
qed

section \<open>Whole files\<close>

text \<open>An empty file on a medium of \<open>lim\<close> bytes; a file of given content read from the start.\<close>

definition empty_stream :: "nat \<Rightarrow> stream" where
  "empty_stream lim = \<lparr>st_data = [], st_pos = 0, st_limit = lim, st_err = False, st_eof = False, st_errno = 0\<rparr>"

definition file_stream :: "byte list \<Rightarrow> stream" where
  "file_stream d = \<lparr>st_data = d, st_pos = 0, st_limit = length d, st_err = False, st_eof = False, st_errno = 0\<rparr>"

definition ready_env :: "pcap_env \<Rightarrow> bool" where
  "ready_env env \<longleftrightarrow> pe_malloc env \<and> pe_real env \<noteq> None \<and> pe_mono env \<noteq> None"

definition reading :: "pcap_flags \<Rightarrow> bool" where
  "reading fl \<longleftrightarrow> fl_read fl \<and> \<not> fl_write fl \<and> \<not> fl_lg fl \<and> \<not> fl_ng fl"

definition writing :: "pcap_flags \<Rightarrow> bool" where
  "writing fl \<longleftrightarrow> fl_write fl \<and> \<not> fl_read fl \<and> \<not> (fl_lg fl \<and> fl_ng fl)"

lemma setup_ts_ok:
  assumes "ready_env env"
  obtains e where "\<And>f. pcap_setup_ts (pe_real env) (pe_mono env) f = (0, f\<lparr>pf_epoch_usec := e\<rparr>)"
proof -
  obtain r m where "pe_real env = Some r" "pe_mono env = Some m" using assms by (auto simp: ready_env_def)
  then show thesis by (intro that) (simp add: pcap_setup_ts_def)
qed

text \<open>A legacy header in either byte order, with the rest of its fields as they are.\<close>

definition lg_hdr :: "bool \<Rightarrow> u32 \<Rightarrow> byte list \<Rightarrow> byte list" where
  "lg_hdr sw magic x = w32 sw magic @ x"

lemma ld32_w32_raw: "ld32 (w32 sw v @ x) 0 = (if sw then bswap32 v else v)"
  by (simp add: w32_def ld32_le32) (simp add: ld32_def be32_def bswap32_def)

lemma bswap32_usec: "bswap32 PCAP_MAGIC_LE_USEC = PCAP_MAGIC_BE_USEC"
  by (simp add: bswap32_def pcap_consts)

definition known_magic :: "bool \<Rightarrow> u32 \<Rightarrow> bool" where
  "known_magic sw magic \<longleftrightarrow> magic = PCAP_MAGIC_LE_USEC \<or> \<not> sw \<and> magic = PCAP_MAGIC_LE_NSEC"

lemma known_magic_raw:
  assumes "known_magic sw magic"
  shows "pcap_islg (if sw then bswap32 magic else magic)" "pcap_isnative (if sw then bswap32 magic else magic) = (\<not> sw)"
  using assms by (auto simp: known_magic_def pcap_islg_def pcap_isnative_def bswap32_usec) (simp_all add: pcap_consts)

lemma detect_fmt:
  assumes "healthy f" and "rest f = st_data (pf_fp f)" and "rest f = w32 sw v @ r" and "st_pos (pf_fp f) = 0"
  shows "pcap_detect_fmt f = (if pcap_islg (if sw then bswap32 v else v) then Inr FmtLG
      else if pcap_isng (if sw then bswap32 v else v) then Inr FmtNG else Inl (-1), f\<lparr>pf_fp := (pf_fp f)\<lparr>st_eof := False\<rparr>\<rparr>)"
proof -
  have rd: "pcap_read_data 4 f = (0, w32 sw v, at_pos 4 f)" using read_data_rest(1) [OF assms(1,3)] by simp
  have "pf_fp f\<lparr>st_pos := 0, st_eof := False\<rparr> = pf_fp f\<lparr>st_eof := False\<rparr>" using assms(4) by (metis stream.surjective stream.update_convs(2,5) stream.select_convs(2))
  then have "pcap_seek_data 0 SEEK_SET (at_pos 4 f) = (0, f\<lparr>pf_fp := (pf_fp f)\<lparr>st_eof := False\<rparr>\<rparr>)"
    by (simp add: pcap_seek_data_def fseek_def at_pos_def)
  then show ?thesis using rd ld32_w32_raw [of sw v "[]"] by (simp add: pcap_detect_fmt_def)
qed

lemma open_read_lg:
  assumes "ready_env env" and "reading fl" and "pe_file env = Some (file_stream (lg_hdr sw magic x @ r))" and "length x = 20"
    and "known_magic sw magic"
  shows "\<exists>g. pcap_open env fl = Some g \<and> lg_fit sw g \<and> rest g = r"
proof -
  let ?d = "lg_hdr sw magic x @ r"
  let ?f = "zero_file\<lparr>pf_fp := file_stream ?d, pf_trace_rec := fl_trace fl, pf_is_reader := True, pf_use_spb := fl_spb fl\<rparr>"
  have h: "healthy ?f" "rest ?f = ?d" "st_data (pf_fp ?f) = ?d" "st_pos (pf_fp ?f) = 0"
    by (simp_all add: healthy_def rest_def file_stream_def zero_file_def)
  let ?f1 = "?f\<lparr>pf_fp := (pf_fp ?f)\<lparr>st_eof := False\<rparr>\<rparr>"
  have det: "pcap_detect_fmt ?f = (Inr FmtLG, ?f1)"
    using detect_fmt [OF h(1) _ _ h(4), of sw magic "x @ r"] h(2,3) known_magic_raw [OF assms(5)] by (simp add: lg_hdr_def)
  let ?f2 = "?f1\<lparr>pf_fmt := FmtLG\<rparr>"
  have h2: "healthy ?f2" "rest ?f2 = (w32 sw magic @ x) @ r" using h by (simp_all add: healthy_def rest_def lg_hdr_def)
  have rd: "pcap_read_data 24 ?f2 = (0, w32 sw magic @ x, at_pos 24 ?f2)" "healthy (at_pos 24 ?f2)" "rest (at_pos 24 ?f2) = r"
    using read_data_rest [OF h2] assms(4) by simp_all
  let ?f3 = "(at_pos 24 ?f2)\<lparr>pf_must_swap := sw, pf_hdr := hdr_of sw (w32 sw magic @ x)\<rparr>"
  have hdr: "pcap_read_hdr ?f2 = (0, ?f3)"
    using rd known_magic_raw [OF assms(5)] by (simp add: pcap_read_hdr_def ld32_w32_raw Let_def) (simp add: at_pos_def zero_file_def)
  obtain e where e: "\<And>f. pcap_setup_ts (pe_real env) (pe_mono env) f = (0, f\<lparr>pf_epoch_usec := e\<rparr>)"
    using setup_ts_ok [OF assms(1)] by blast
  have "pcap_open env fl = Some (?f3\<lparr>pf_epoch_usec := e\<rparr>)"
    using assms(1-3) det hdr e
    by (simp add: pcap_open_def ready_env_def reading_def pcap_setup_fmt_def wr_then_def pcap_setup_hdr_def)
  moreover have "lg_fit sw (?f3\<lparr>pf_epoch_usec := e\<rparr>)" "rest (?f3\<lparr>pf_epoch_usec := e\<rparr>) = r"
    using rd by (simp_all add: lg_fit_def healthy_def rest_def)
  ultimately show ?thesis by blast
qed

text \<open>C24. Legacy captures in the byte order of the host (microsecond or nanosecond magic) and, for the
  microsecond magic, in the other byte order, are recognised by \<open>pcap_open\<close> without a format flag, and
  the documented read loop delivers exactly the packets of the file, in order, and then stops.
\<close>

theorem pcap_legacy_read:
  assumes "ready_env env" and "reading fl" and "length x = 20" and "known_magic sw magic"
    and "pe_file env = Some (file_stream (lg_hdr sw magic x @ concat (map (\<lambda>(ts, p). lg_block sw ts p) ps)))"
    and "list_all (\<lambda>(ts, p). 0 < length p \<and> length p \<le> len) ps" and "len \<le> length buf" and "len < 2 ^ 31"
  shows "\<exists>file. pcap_open env fl = Some file \<and> pcap_loop (Suc (length ps)) file buf len = Some (map snd ps)"
proof -
  obtain g where g: "pcap_open env fl = Some g" "lg_fit sw g" "rest g = concat (map (\<lambda>(ts, p). lg_block sw ts p) ps)"
    using open_read_lg [OF assms(1,2,5,3,4)] by blast
  have "pcap_loop (Suc (length ps)) g buf len = Some (map (\<lambda>(ts, p). p) ps)"
    by (rule lg.read_all [OF g(2,3)]) (use assms(6-8) in \<open>auto simp: list_all_iff\<close>)
  then show ?thesis using g(1) by (auto simp: snd_def)
qed

text \<open>Opening an empty file for writing puts the header of the format there.\<close>

definition lg_tail :: "byte list" where
  "lg_tail = le16 2 @ le16 4 @ le32 0 @ le32 0 @ le32 PCAP_SNAPLEN @ le32 LINKTYPE_ETHERNET"

lemma open_write_lg:
  assumes "ready_env env" and "writing fl" and "\<not> fl_ng fl" and "pe_file env = Some (empty_stream lim)" and "24 \<le> lim"
  shows "\<exists>e w. pcap_open env fl = Some w \<and> lg_wfit e w \<and> st_data (pf_fp w) = lg_hdr False PCAP_MAGIC_LE_USEC lg_tail \<and> room w = lim - 24"
proof -
  let ?f = "zero_file\<lparr>pf_fp := empty_stream lim, pf_trace_rec := fl_trace fl, pf_is_reader := False, pf_use_spb := fl_spb fl, pf_fmt := FmtLG\<rparr>"
  let ?h = "\<lparr>ph_magic = PCAP_MAGIC_LE_USEC, ph_major = 2, ph_minor = 4, ph_rsvd1 = 0, ph_rsvd2 = 0,
               ph_snap_len = PCAP_SNAPLEN, ph_link_type = LINKTYPE_ETHERNET\<rparr>"
  have f: "writable ?f" "room ?f = lim" "st_data (pf_fp ?f) = []" "pf_fmt ?f = FmtLG"
    by (simp_all add: writable_def room_def empty_stream_def zero_file_def)
  have h: "hdr_bytes ?h = lg_hdr False PCAP_MAGIC_LE_USEC lg_tail" "length (hdr_bytes ?h) = 24"
    by (simp_all add: hdr_bytes_def lg_hdr_def lg_tail_def w32_def)
  have "wrote (hdr_bytes ?h) (?f\<lparr>pf_hdr := ?h\<rparr>) (pcap_write_data (hdr_bytes ?h) (?f\<lparr>pf_hdr := ?h\<rparr>))"
    using f h(2) assms(5) by (intro write_data_wrote) simp_all
  then obtain w where w: "pcap_write_hdr ?f = (0, w)" "writable w" "st_data (pf_fp w) = hdr_bytes ?h" "room w = lim - 24" "pf_fmt w = FmtLG"
    using f h(2) by (auto simp: wrote_def pcap_write_hdr_def Let_def split: prod.splits)
  obtain e where e: "\<And>f. pcap_setup_ts (pe_real env) (pe_mono env) f = (0, f\<lparr>pf_epoch_usec := e\<rparr>)"
    using setup_ts_ok [OF assms(1)] by blast
  have "pcap_open env fl = Some (w\<lparr>pf_epoch_usec := e\<rparr>)"
    using assms(1-4) w(1) e
    by (auto simp: pcap_open_def ready_env_def writing_def pcap_setup_fmt_def wr_then_def pcap_setup_hdr_def zero_file_def)
  then show ?thesis using w h(1) by (intro exI [of _ e] exI [of _ "w\<lparr>pf_epoch_usec := e\<rparr>"]) (simp add: lg_wfit_def writable_def room_def)
qed

text \<open>
  Section headers and interface descriptions of a file in either byte order, with whatever options
  follow; \<open>x\<close> is all of the block after its length.
\<close>

definition shb_block :: "bool \<Rightarrow> byte list \<Rightarrow> byte list" where
  "shb_block sw x = w32 sw PCAP_SHB_TYPE @ w32 sw (of_nat (12 + length x)) @ w32 sw PCAP_BOM_NATIVE @ x"

definition idb_block :: "bool \<Rightarrow> byte list \<Rightarrow> byte list" where
  "idb_block sw x = w32 sw PCAP_IDB_TYPE @ w32 sw (of_nat (8 + length x)) @ x"

lemma bom_raw: "(if sw then bswap32 PCAP_BOM_NATIVE else PCAP_BOM_NATIVE) = (if sw then PCAP_BOM_SWAP else PCAP_BOM_NATIVE)"
  by (simp add: bswap32_def pcap_consts)

lemma bom_differ: "PCAP_BOM_SWAP \<noteq> PCAP_BOM_NATIVE" "PCAP_BOM_NATIVE \<noteq> PCAP_BOM_SWAP"
  by (simp_all add: pcap_consts)

lemma tot_of:
  assumes "length x < 2 ^ 31" and "h \<le> 12"
  shows "unat (of_nat (h + length x) :: u32) = h + length x" "uint (of_nat (h + length x) :: u32) = int h + int (length x)"
proof -
  show "unat (of_nat (h + length x) :: u32) = h + length x" using assms by (intro unat_small) simp
  then show "uint (of_nat (h + length x) :: u32) = int h + int (length x)" by (metis of_nat_add uint_nat)
qed

lemma read_shb_rest:
  assumes "healthy f" and "rest f = shb_block sw x @ r" and "12 \<le> length x" and "length x < 2 ^ 31"
  shows "\<exists>f'. pcap_read_shb f = (0, f') \<and> healthy f' \<and> rest f' = r \<and> pf_must_swap f' = sw \<and> pf_fmt f' = pf_fmt f \<and>
    pf_have_idb f' = pf_have_idb f"
proof -
  obtain t :: u32 where t: "t = of_nat (12 + length x)" "uint t = 12 + int (length x)" "unat t = 12 + length x"
    using tot_of [OF assms(4), of 12] by auto
  obtain b where b: "b = w32 sw PCAP_SHB_TYPE @ w32 sw t @ w32 sw PCAP_BOM_NATIVE @ take 12 x" by simp
  have "rest f = b @ (drop 12 x @ r)" "length b = 24" using assms(2,3) t(1) b by (simp_all add: shb_block_def)
  then obtain f1 where 1: "pcap_read_block 24 f = (0, b, f1)" "healthy f1" "rest f1 = drop 12 x @ r" "pf_fmt f1 = pf_fmt f"
      "pf_have_idb f1 = pf_have_idb f"
    using read_block_rest [OF assms(1), of b "drop 12 x @ r" 24] by metis
  have bom: "ld32 b 8 = (if sw then PCAP_BOM_SWAP else PCAP_BOM_NATIVE)"
    unfolding b bom_raw [symmetric] by (simp add: ld32_skip ld32_w32_raw)
  have ok: "pcap_bom_isng (ld32 b 8)" "pcap_bom_isnative (ld32 b 8) \<longleftrightarrow> \<not> sw"
    unfolding bom by (simp_all add: pcap_bom_isng_def pcap_bom_isnative_def bom_differ)
  have tl: "sh_tot_len (shb_of sw b) = t" using b by (simp add: shb_of_def ld32_skip ld32_w32)
  let ?f2 = "f1\<lparr>pf_have_shb := True, pf_must_swap := sw, pf_shb := shb_of sw b\<rparr>"
  have f2: "healthy ?f2" "rest ?f2 = drop 12 x @ r" using 1(2,3) by (simp_all add: healthy_def rest_def)
  obtain f' where s: "pcap_data_skip (int (length (drop 12 x))) ?f2 = (0, f')" "healthy f'" "rest f' = r" "pf_must_swap f' = sw"
      "pf_fmt f' = pf_fmt f" "pf_have_idb f' = pf_have_idb f"
    using data_skip_rest [OF f2] 1(4,5) by auto
  have "pcap_read_shb f = (0, f')"
    using 1(1) ok tl t(2,3) s(1) assms(3) by (simp add: pcap_read_shb_def Let_def)
  then show ?thesis using s by auto
qed

lemma read_idb_rest:
  assumes "healthy f" and "rest f = idb_block (pf_must_swap f) x @ r" and "8 \<le> length x" and "length x < 2 ^ 31"
  shows "\<exists>f'. pcap_read_idb f = (0, f') \<and> healthy f' \<and> rest f' = r \<and> pf_must_swap f' = pf_must_swap f \<and> pf_fmt f' = pf_fmt f \<and>
    pf_have_idb f'"
proof -
  let ?sw = "pf_must_swap f"
  obtain t :: u32 where t: "t = of_nat (8 + length x)" "uint t = 8 + int (length x)" "unat t = 8 + length x"
    using tot_of [OF assms(4), of 8] by auto
  obtain b where b: "b = w32 ?sw PCAP_IDB_TYPE @ w32 ?sw t @ take 8 x" by simp
  have "rest f = b @ (drop 8 x @ r)" "length b = 16" using assms(2,3) t(1) b by (simp_all add: idb_block_def)
  then obtain f1 where 1: "pcap_read_block 16 f = (0, b, f1)" "healthy f1" "rest f1 = drop 8 x @ r" "pf_fmt f1 = pf_fmt f"
      "pf_must_swap f1 = ?sw"
    using read_block_rest [OF assms(1), of b "drop 8 x @ r" 16] by metis
  have tl: "id_tot_len (idb_of ?sw b) = t" using b by (simp add: idb_of_def ld32_skip ld32_w32)
  let ?f2 = "f1\<lparr>pf_have_idb := True, pf_idb := idb_of ?sw b\<rparr>"
  have f2: "healthy ?f2" "rest ?f2 = drop 8 x @ r" using 1(2,3) by (simp_all add: healthy_def rest_def)
  obtain f' where s: "pcap_data_skip (int (length (drop 8 x))) ?f2 = (0, f')" "healthy f'" "rest f' = r" "pf_must_swap f' = ?sw"
      "pf_fmt f' = pf_fmt f" "pf_have_idb f'"
    using data_skip_rest [OF f2] 1(4,5) by auto
  have "pcap_read_idb f = (0, f')"
    using 1(1,5) tl t(2,3) s(1) assms(3) by (simp add: pcap_read_idb_def Let_def)
  then show ?thesis using s by auto
qed

lemma open_read_ng:
  assumes "ready_env env" and "reading fl" and "pe_file env = Some (file_stream (shb_block sw x @ r))"
    and "12 \<le> length x" and "length x < 2 ^ 31"
  shows "\<exists>g. pcap_open env fl = Some g \<and> healthy g \<and> pf_fmt g = FmtNG \<and> pf_must_swap g = sw \<and> rest g = r"
proof -
  let ?d = "shb_block sw x @ r"
  let ?f = "zero_file\<lparr>pf_fp := file_stream ?d, pf_trace_rec := fl_trace fl, pf_is_reader := True, pf_use_spb := fl_spb fl\<rparr>"
  have h: "healthy ?f" "rest ?f = ?d" "st_data (pf_fp ?f) = ?d" "st_pos (pf_fp ?f) = 0"
    by (simp_all add: healthy_def rest_def file_stream_def zero_file_def)
  let ?f1 = "?f\<lparr>pf_fp := (pf_fp ?f)\<lparr>st_eof := False\<rparr>\<rparr>"
  have shb: "(if sw then bswap32 PCAP_SHB_TYPE else PCAP_SHB_TYPE) = PCAP_SHB_TYPE" by (simp add: bswap32_def pcap_consts)
  have nlg: "\<not> pcap_islg PCAP_SHB_TYPE" "pcap_isng PCAP_SHB_TYPE" by (simp_all add: pcap_islg_def pcap_isng_def pcap_consts)
  have det: "pcap_detect_fmt ?f = (Inr FmtNG, ?f1)"
    using detect_fmt [OF h(1) _ _ h(4), of sw PCAP_SHB_TYPE] h(2,3) nlg unfolding shb by (simp add: shb_block_def)
  let ?f2 = "?f1\<lparr>pf_fmt := FmtNG, pf_is_ng := True\<rparr>"
  have h2: "healthy ?f2" "rest ?f2 = ?d" using h by (simp_all add: healthy_def rest_def)
  obtain g where g: "pcap_read_shb ?f2 = (0, g)" "healthy g" "rest g = r" "pf_must_swap g = sw" "pf_fmt g = FmtNG"
    using read_shb_rest [OF h2 assms(4,5)] by auto
  obtain e where e: "\<And>f. pcap_setup_ts (pe_real env) (pe_mono env) f = (0, f\<lparr>pf_epoch_usec := e\<rparr>)"
    using setup_ts_ok [OF assms(1)] by blast
  have "pcap_open env fl = Some (g\<lparr>pf_epoch_usec := e\<rparr>)"
    using assms(1-3) det g(1) e
    by (simp add: pcap_open_def ready_env_def reading_def pcap_setup_fmt_def wr_then_def pcap_setup_hdr_def)
  then show ?thesis using g by (intro exI [of _ "g\<lparr>pf_epoch_usec := e\<rparr>"]) (simp add: healthy_def rest_def)
qed

lemma wr_then_assoc: "wr_then (wr_then a b) c = wr_then a (\<lambda>f. wr_then (b f) c)"
  by (simp add: wr_then_def split: prod.split)

definition shb_tail :: "byte list" where
  "shb_tail = le16 1 @ le16 0 @ le64 (-1) @ le32 28"

definition idb_tail :: "byte list" where
  "idb_tail = le16 (ucast LINKTYPE_ETHERNET) @ le16 0 @ le32 PCAP_SNAPLEN @ le32 20"

lemma open_write_ng:
  assumes "ready_env env" and "writing fl" and "fl_ng fl" and "pe_file env = Some (empty_stream lim)" and "28 \<le> lim"
  shows "\<exists>w. pcap_open env fl = Some w \<and> writable w \<and> pf_fmt w = FmtNG \<and> \<not> pf_have_idb w \<and> pf_use_spb w = fl_spb fl \<and>
    st_data (pf_fp w) = shb_block False shb_tail \<and> room w = lim - 28"
proof -
  let ?h = "\<lparr>sh_type = PCAP_SHB_TYPE, sh_tot_len = 24 + 4, sh_bom = PCAP_BOM_NATIVE, sh_ver_major = 1, sh_ver_minor = 0, sh_sec_len = -1\<rparr>"
  let ?f = "zero_file\<lparr>pf_fp := empty_stream lim, pf_trace_rec := fl_trace fl, pf_is_reader := False, pf_use_spb := fl_spb fl,
    pf_fmt := FmtNG, pf_is_ng := True\<rparr>"
  let ?g = "?f\<lparr>pf_shb := ?h\<rparr>"
  have f: "writable ?g" "room ?g = lim" "st_data (pf_fp ?g) = []"
    by (simp_all add: writable_def room_def empty_stream_def zero_file_def)
  have h: "shb_bytes ?h @ le32 (sh_tot_len ?h) = shb_block False shb_tail" "length (shb_bytes ?h) = 24"
    by (simp_all add: shb_bytes_def shb_block_def shb_tail_def w32_def)
  have "wrote (shb_bytes ?h @ le32 (sh_tot_len ?h)) ?g (wr_then (pcap_write_block (shb_bytes ?h) ?g) (pcap_write_data (le32 (sh_tot_len ?h))))"
    using f h(2) assms(5) by (intro wrote_then write_block_wrote write_data_wrote) simp_all
  then obtain w where w: "wr_then (pcap_write_block (shb_bytes ?h) ?g) (pcap_write_data (le32 (sh_tot_len ?h))) = (0, w)"
      "writable w" "st_data (pf_fp w) = shb_block False shb_tail" "room w = lim - 28" "pf_fmt w = FmtNG" "pf_use_spb w = fl_spb fl"
    using f h by (auto simp: wrote_def split: prod.splits)
  let ?w = "w\<lparr>pf_have_shb := True, pf_have_idb := False\<rparr>"
  have "pcap_write_shb ?f = wr_then (wr_then (pcap_write_block (shb_bytes ?h) ?g) (pcap_write_data (le32 (sh_tot_len ?h))))
      (\<lambda>f. (0, f\<lparr>pf_have_shb := True, pf_have_idb := False\<rparr>))"
    unfolding wr_then_assoc by (simp add: pcap_write_shb_def Let_def)
  then have ws: "pcap_write_shb ?f = (0, ?w)" unfolding w(1) by (simp add: wr_then_def)
  obtain e where e: "\<And>f. pcap_setup_ts (pe_real env) (pe_mono env) f = (0, f\<lparr>pf_epoch_usec := e\<rparr>)"
    using setup_ts_ok [OF assms(1)] by blast
  have "pcap_open env fl = Some (?w\<lparr>pf_epoch_usec := e\<rparr>)"
    using assms(1-4) ws e
    by (auto simp: pcap_open_def ready_env_def writing_def pcap_setup_fmt_def wr_then_def pcap_setup_hdr_def zero_file_def)
  then show ?thesis using w by (intro exI [of _ "?w\<lparr>pf_epoch_usec := e\<rparr>"]) (simp add: writable_def room_def)
qed

text \<open>The first packet of a section is preceded by an interface description; after it the file is in the steady state.\<close>

lemma write_idb_first:
  assumes "writable w" and "pf_fmt w = FmtNG" and "\<not> pf_have_idb w" and "20 \<le> room w"
  shows "\<exists>w1. ng_wfit (pf_use_spb w) (pf_epoch_usec w) w1 \<and> st_data (pf_fp w1) = st_data (pf_fp w) @ idb_block False idb_tail \<and>
    room w1 = room w - 20 \<and> (\<forall>c p. pcap_write c w p = pcap_write c w1 p)"
proof -
  let ?h = "\<lparr>id_type = PCAP_IDB_TYPE, id_tot_len = 16 + 4, id_link_type = ucast LINKTYPE_ETHERNET, id_reserved = 0, id_snap_len = PCAP_SNAPLEN\<rparr>"
  let ?g = "w\<lparr>pf_idb := ?h\<rparr>"
  have h: "idb_bytes ?h @ le32 (id_tot_len ?h) = idb_block False idb_tail" "length (idb_bytes ?h) = 16"
    by (simp_all add: idb_bytes_def idb_block_def idb_tail_def w32_def)
  have "wrote (idb_bytes ?h @ le32 (id_tot_len ?h)) ?g (wr_then (pcap_write_block (idb_bytes ?h) ?g) (pcap_write_data (le32 (id_tot_len ?h))))"
    using assms h(2) by (intro wrote_then write_block_wrote write_data_wrote) simp_all
  then obtain v where v: "wr_then (pcap_write_block (idb_bytes ?h) ?g) (pcap_write_data (le32 (id_tot_len ?h))) = (0, v)"
      "writable v" "st_data (pf_fp v) = st_data (pf_fp w) @ idb_block False idb_tail" "room v = room w - 20" "pf_fmt v = FmtNG"
      "pf_use_spb v = pf_use_spb w" "pf_epoch_usec v = pf_epoch_usec w"
    using assms h by (auto simp: wrote_def split: prod.splits)
  let ?v = "v\<lparr>pf_have_idb := True\<rparr>"
  have "pcap_write_idb w = wr_then (wr_then (pcap_write_block (idb_bytes ?h) ?g) (pcap_write_data (le32 (id_tot_len ?h))))
      (\<lambda>f. (0, f\<lparr>pf_have_idb := True\<rparr>))"
    unfolding wr_then_assoc by (simp add: pcap_write_idb_def Let_def)
  then have "pcap_write_idb w = (0, ?v)" unfolding v(1) by (simp add: wr_then_def)
  then have "pcap_write c w p = pcap_write c ?v p" for c p
    using assms(1-3) v(2,5) by (simp add: pcap_write_def write_pkt_def pcap_write_xpb_def wr_then_def writable_def)
  then show ?thesis using v by (intro exI [of _ ?v]) (simp add: ng_wfit_def)
qed

lemma write_all_same: "(\<And>c p. pcap_write c w p = pcap_write c w1 p) \<Longrightarrow> ps \<noteq> [] \<Longrightarrow> pcap_write_all ps w = pcap_write_all ps w1"
  by (cases ps) auto

lemma read_idb_first:
  assumes "healthy g" and "pf_fmt g = FmtNG" and "rest g = idb_block (pf_must_swap g) x @ r" and "8 \<le> length x" and "length x < 2 ^ 31"
  shows "\<exists>g1. ng_fit (pf_must_swap g) g1 \<and> rest g1 = r \<and> (\<forall>buf len. pcap_read g buf len = pcap_read g1 buf len)"
proof -
  let ?g = "g\<lparr>pf_fp := (pf_fp g)\<lparr>st_eof := False\<rparr>\<rparr>"
  have pk: "pcap_peek_block g = (1, ?g)"
    using peek_rest [OF assms(1), of PCAP_IDB_TYPE] assms(3) by (simp add: idb_block_def PCAP_IDB_TYPE_def)
  obtain g1 where g1: "pcap_read_idb ?g = (0, g1)" "healthy g1" "rest g1 = r" "pf_must_swap g1 = pf_must_swap g" "pf_fmt g1 = FmtNG" "pf_have_idb g1"
    using read_idb_rest [of ?g x r] assms by auto
  have "pcap_read g buf len = pcap_read g1 buf len" for buf len
    using assms(1,2) g1(1,2,5) pk by (simp add: pcap_read_def read_pkt_def pcap_read_xpb.simps [of g] healthy_def pcap_consts)
  then show ?thesis using g1 by (intro exI [of _ g1]) (simp add: ng_fit_def)
qed

lemma loop_same: "(\<And>buf len. pcap_read g buf len = pcap_read g1 buf len) \<Longrightarrow> pcap_loop k g buf len = pcap_loop k g1 buf len"
  by (cases k) auto

text \<open>Whole pcapng files of one kind of packet block.\<close>

interpretation ng: capture_format "ng_fit sw" "ng_packet sw sp" "ng_shown sp" for sw sp
proof (cases sp)
  case True
  then show "capture_format (ng_fit sw) (ng_packet sw sp) (ng_shown sp)"
    using spb.fit_healthy spb.fit_cnt spb.read_one spb.read_end
    by unfold_locales (simp_all add: ng_packet_def ng_shown_def)
next
  case False
  then show "capture_format (ng_fit sw) (ng_packet sw sp) (ng_shown sp)"
    using epb.fit_healthy epb.fit_cnt epb.read_one epb.read_end
    by unfold_locales (simp_all add: ng_packet_def ng_shown_def)
qed

lemma ng_file_loop:
  assumes "ready_env env" and "reading fl" and "12 \<le> length x" and "length x < 2 ^ 31" and "8 \<le> length y" and "length y < 2 ^ 31"
    and "pe_file env = Some (file_stream (shb_block sw x @ idb_block sw y @ concat (map (\<lambda>(ts, p). ng_packet sw sp ts p) ps)))"
    and "list_all (\<lambda>(ts, p). 0 < length p \<and> length (ng_shown sp p) \<le> len) ps" and "len \<le> length buf" and "len < 2 ^ 31"
  shows "\<exists>file. pcap_open env fl = Some file \<and> pcap_loop (Suc (length ps)) file buf len = Some (map (ng_shown sp \<circ> snd) ps)"
proof -
  obtain g where g: "pcap_open env fl = Some g" "healthy g" "pf_fmt g = FmtNG" "pf_must_swap g = sw"
      "rest g = idb_block sw y @ concat (map (\<lambda>(ts, p). ng_packet sw sp ts p) ps)"
    using open_read_ng [OF assms(1,2,7,3,4)] by auto
  obtain g1 where g1: "ng_fit sw g1" "rest g1 = concat (map (\<lambda>(ts, p). ng_packet sw sp ts p) ps)" "\<And>buf len. pcap_read g buf len = pcap_read g1 buf len"
    using read_idb_first [OF g(2,3), of y] g(4,5) assms(5,6) by auto
  have sz: "length p \<le> length (ng_shown sp p)" "0 < length p \<Longrightarrow> 0 < length (ng_shown sp p)" for p by (auto simp: ng_shown_def)
  have "pcap_loop (Suc (length ps)) g1 buf len = Some (map (\<lambda>(ts, p). ng_shown sp p) ps)"
  proof (rule ng.read_all [OF g1(1,2) _ assms(9)])
    fix ts p
    assume "(ts, p) \<in> set ps"
    then have "0 < length p" "length (ng_shown sp p) \<le> len" using assms(8) by (auto simp: list_all_iff)
    then show "length p < 2 ^ 31 \<and> 0 < length (ng_shown sp p) \<and> length (ng_shown sp p) \<le> len"
      using sz [of p] assms(10) by linarith
  qed
  then show ?thesis using g(1) loop_same [of g g1] g1(3) by (auto simp: comp_def case_prod_beta)
qed

text \<open>C25. A pcapng section in either byte order, with any options in its section header and interface
  description, followed by enhanced packet blocks, is recognised by \<open>pcap_open\<close> without a format flag, and
  the read loop delivers exactly the packets of the file, without their padding, and then stops.
\<close>

theorem pcap_ng_read:
  assumes "ready_env env" and "reading fl" and "12 \<le> length x" and "length x < 2 ^ 31" and "8 \<le> length y" and "length y < 2 ^ 31"
    and "pe_file env = Some (file_stream (shb_block sw x @ idb_block sw y @ concat (map (\<lambda>(ts, p). epb_block sw ts p) ps)))"
    and "list_all (\<lambda>(ts, p). 0 < length p \<and> length p \<le> len) ps" and "len \<le> length buf" and "len < 2 ^ 31"
  shows "\<exists>file. pcap_open env fl = Some file \<and> pcap_loop (Suc (length ps)) file buf len = Some (map snd ps)"
  using ng_file_loop [of env fl x y sw False ps len buf] assms by (simp add: ng_packet_def ng_shown_def comp_def)

text \<open>The space a capture of some packets needs.\<close>

definition cap_size :: "pcap_flags \<Rightarrow> (clock \<times> byte list) list \<Rightarrow> nat" where
  "cap_size fl ps = (if fl_ng fl then 48 else 24) +
     (\<Sum>p \<leftarrow> map snd ps. if fl_ng fl then (if fl_spb fl then 16 else 32) + length p + padn (length p) else 16 + length p)"

lemma length_blocks:
  "length (lg_block sw ts p) = 16 + length p" "length (ng_packet sw sp t p) = (if sp then 16 else 32) + length p + padn (length p)"
  by (simp_all add: lg_block_def ng_packet_def spb_block_def epb_block_def pad_def)

lemma lg_write_file:
  assumes "ready_env env" and "writing fl" and "\<not> fl_ng fl" and "pe_file env = Some (empty_stream lim)" and "cap_size fl ps \<le> lim"
    and "list_all (\<lambda>(c, p). length p < 2 ^ 31) ps"
  shows "\<exists>w w' e. pcap_open env fl = Some w \<and> pcap_write_all ps w = (0, w') \<and>
    st_data (pf_fp w') = lg_hdr False PCAP_MAGIC_LE_USEC lg_tail @ concat (map (\<lambda>(ts, p). lg_block False ts p) (map (map_prod (lg_stamp e) id) ps))"
proof -
  obtain e w where w: "pcap_open env fl = Some w" "lg_wfit e w" "st_data (pf_fp w) = lg_hdr False PCAP_MAGIC_LE_USEC lg_tail" "room w = lim - 24"
    using open_write_lg [OF assms(1-4)] assms(3,5) by (auto simp: cap_size_def)
  have fits: "length (concat (map (\<lambda>(c, p). lg_block False (lg_stamp e c) p) ps)) \<le> room w"
    using assms(3,5) w(4) by (simp add: cap_size_def length_concat comp_def case_prod_unfold length_blocks)
  have sz: "length p < 2 ^ 31" if "(c, p) \<in> set ps" for c p using assms(6) that by (auto simp: list_all_iff)
  obtain w' where "pcap_write_all ps w = (0, w')"
      "st_data (pf_fp w') = st_data (pf_fp w) @ concat (map (\<lambda>(c, p). lg_block False (lg_stamp e c) p) ps)"
    using lgw.write_all [OF w(2) _ fits] sz by blast
  then show ?thesis using w 
    by - (rule exI [of _ w], rule exI [of _ w'], rule exI [of _ e], simp add: comp_def case_prod_unfold)
qed

lemma ng_write_file:
  assumes "ready_env env" and "writing fl" and "fl_ng fl" and "pe_file env = Some (empty_stream lim)" and "cap_size fl ps \<le> lim"
    and "list_all (\<lambda>(c, p). length p < 2 ^ 31) ps" and "ps \<noteq> []"
  shows "\<exists>w w' e. pcap_open env fl = Some w \<and> pcap_write_all ps w = (0, w') \<and>
    st_data (pf_fp w') = shb_block False shb_tail @ idb_block False idb_tail @
      concat (map (\<lambda>(ts, p). ng_packet False (fl_spb fl) ts p) (map (map_prod (stamp e) id) ps))"
proof -
  obtain w where w: "pcap_open env fl = Some w" "writable w" "pf_fmt w = FmtNG" "\<not> pf_have_idb w" "pf_use_spb w = fl_spb fl"
      "st_data (pf_fp w) = shb_block False shb_tail" "room w = lim - 28"
    using open_write_ng [OF assms(1-4)] assms(3,5) by (auto simp: cap_size_def)
  have "20 \<le> room w" using assms(3,5) w(7) by (simp add: cap_size_def)
  then obtain w1 where w1: "ng_wfit (fl_spb fl) (pf_epoch_usec w) w1" "st_data (pf_fp w1) = st_data (pf_fp w) @ idb_block False idb_tail"
      "room w1 = room w - 20" "\<And>c p. pcap_write c w p = pcap_write c w1 p"
    using write_idb_first [OF w(2-4)] w(5) by auto
  let ?e = "pf_epoch_usec w"
  have fits: "length (concat (map (\<lambda>(c, p). ng_packet False (fl_spb fl) (stamp ?e c) p) ps)) \<le> room w1"
    using assms(3,5) w(7) w1(3) by (simp add: cap_size_def length_concat comp_def case_prod_unfold length_blocks)
  have sz: "length p < 2 ^ 31" if "(c, p) \<in> set ps" for c p using assms(6) that by (auto simp: list_all_iff)
  obtain w' where "pcap_write_all ps w1 = (0, w')"
      "st_data (pf_fp w') = st_data (pf_fp w1) @ concat (map (\<lambda>(c, p). ng_packet False (fl_spb fl) (stamp ?e c) p) ps)"
    using ngw.write_all [OF w1(1) _ fits] sz by blast
  then show ?thesis using w w1(2) write_all_same [OF w1(4) assms(7)]
    by - (rule exI [of _ w], rule exI [of _ w'], rule exI [of _ ?e], simp add: comp_def case_prod_unfold)
qed

lemma written_read_back:
  assumes "ready_env env" and "writing fl" and "pe_file env = Some (empty_stream lim)" and "cap_size fl ps \<le> lim" and "ps \<noteq> []"
    and "list_all (\<lambda>(c, p). 0 < length p \<and> length (ng_shown (fl_ng fl \<and> fl_spb fl) p) \<le> len) ps"
    and "reading fl'" and "len \<le> length buf" and "len < 2 ^ 31"
  shows "\<exists>w w' file. pcap_open env fl = Some w \<and> pcap_write_all ps w = (0, w') \<and>
    pcap_open (env\<lparr>pe_file := Some (file_stream (st_data (pf_fp w')))\<rparr>) fl' = Some file \<and>
    pcap_loop (Suc (length ps)) file buf len = Some (map (ng_shown (fl_ng fl \<and> fl_spb fl) \<circ> snd) ps)"
proof -
  let ?env = "\<lambda>d. env\<lparr>pe_file := Some (file_stream d)\<rparr>"
  have e: "ready_env (?env d)" for d using assms(1) by (simp add: ready_env_def)
  have sz: "length p \<le> length (ng_shown sp p)" for sp p by (simp add: ng_shown_def)
  have sm: "list_all (\<lambda>(c, p). length p < 2 ^ 31) ps"
    using assms(6,9) by (fastforce simp: list_all_iff intro: le_less_trans [OF order_trans [OF sz]])
  show ?thesis
  proof (cases "fl_ng fl")
    case True
    obtain w w' s where w: "pcap_open env fl = Some w" "pcap_write_all ps w = (0, w')"
        "st_data (pf_fp w') = shb_block False shb_tail @ idb_block False idb_tail @
           concat (map (\<lambda>(ts, p). ng_packet False (fl_spb fl) ts p) (map (map_prod (stamp s) id) ps))"
      using ng_write_file [OF assms(1,2) True assms(3,4) sm assms(5)] by blast
    have "\<exists>file. pcap_open (?env (st_data (pf_fp w'))) fl' = Some file \<and>
        pcap_loop (Suc (length (map (map_prod (stamp s) id) ps))) file buf len = Some (map (ng_shown (fl_spb fl) \<circ> snd) (map (map_prod (stamp s) id) ps))"
      by (rule ng_file_loop [OF e assms(7), where x = shb_tail and y = idb_tail and sw = False])
        (use assms(6,8,9) w(3) True in \<open>simp_all add: shb_tail_def idb_tail_def list_all_iff case_prod_beta\<close>)
    then show ?thesis using w(1,2) True by (auto simp: comp_def)
  next
    case False
    obtain w w' s where w: "pcap_open env fl = Some w" "pcap_write_all ps w = (0, w')"
        "st_data (pf_fp w') = lg_hdr False PCAP_MAGIC_LE_USEC lg_tail @ concat (map (\<lambda>(ts, p). lg_block False ts p) (map (map_prod (lg_stamp s) id) ps))"
      using lg_write_file [OF assms(1,2) False assms(3,4) sm] by blast
    have "\<exists>g. pcap_open (?env (st_data (pf_fp w'))) fl' = Some g \<and> lg_fit False g \<and>
        rest g = concat (map (\<lambda>(ts, p). lg_block False ts p) (map (map_prod (lg_stamp s) id) ps))"
      by (rule open_read_lg [OF e assms(7), where x = lg_tail and magic = PCAP_MAGIC_LE_USEC])
        (simp_all add: w(3) lg_tail_def known_magic_def)
    then obtain g where g: "pcap_open (?env (st_data (pf_fp w'))) fl' = Some g" "lg_fit False g"
        "rest g = concat (map (\<lambda>(ts, p). lg_block False ts p) (map (map_prod (lg_stamp s) id) ps))" by blast
    have "pcap_loop (Suc (length (map (map_prod (lg_stamp s) id) ps))) g buf len = Some (map (\<lambda>(ts, p). p) (map (map_prod (lg_stamp s) id) ps))"
      by (rule lg.read_all [OF g(2,3)]) (use assms(6,8,9) False sm in \<open>auto simp: list_all_iff ng_shown_def\<close>)
    then show ?thesis using w(1,2) g(1) False by (auto simp: comp_def case_prod_beta ng_shown_def)
  qed
qed

text \<open>C15. Write then read. A capture written by \<open>pcap_open\<close> and \<open>pcap_write\<close> in either format, on a medium
  with room for it, is read back by \<open>pcap_open\<close> (which detects the format) and \<open>pcap_read\<close>: all packets in
  order. In the legacy format and with enhanced packet blocks they are the packets written; with simple
  packet blocks each comes back with the padding of its block at the end, since the reader takes the
  length of the block and not \<open>orig_len\<close>.
\<close>

theorem pcap_roundtrip:
  assumes "ready_env env" and "writing fl" and "pe_file env = Some (empty_stream lim)" and "cap_size fl ps \<le> lim" and "ps \<noteq> []"
    and "list_all (\<lambda>(c, p). 0 < length p \<and> length (ng_shown (fl_ng fl \<and> fl_spb fl) p) \<le> len) ps"
    and "reading fl'" and "len \<le> length buf" and "len < 2 ^ 31"
  shows "\<exists>w w' file. pcap_open env fl = Some w \<and> pcap_write_all ps w = (0, w') \<and>
    pcap_open (env\<lparr>pe_file := Some (file_stream (st_data (pf_fp w')))\<rparr>) fl' = Some file \<and>
    pcap_loop (Suc (length ps)) file buf len = Some (map (ng_shown (fl_ng fl \<and> fl_spb fl) \<circ> snd) ps)"
  using assms by (rule written_read_back)

section \<open>Failures\<close>

text \<open>A write that does not fit on the medium: what fits is written, and the error is remembered.\<close>

definition cut :: "byte list \<Rightarrow> pcap_file \<Rightarrow> pcap_file" where
  "cut bs f = f\<lparr>pf_fp := (pf_fp f)\<lparr>st_data := st_data (pf_fp f) @ take (room f) bs, st_pos := st_limit (pf_fp f), st_err := True\<rparr>,
     pf_sys_err := True, pf_sys_errno := st_errno (pf_fp f)\<rparr>"

lemma write_data_cut:
  assumes "writable f" and "room f < length bs"
  shows "pcap_write_data bs f = (-1, cut bs f)"
  using assms
  by (auto simp: pcap_write_data_def fwrite_def writable_def room_def cut_def Let_def min_def pcap_log_errno_rf_def PCAP_FAIL_def
      append_take_drop_id)

lemma cut_cut:
  assumes "room f = room g + length a" and "st_data (pf_fp g) = st_data (pf_fp f) @ a" 
  shows "st_data (pf_fp (cut b g)) = st_data (pf_fp f) @ take (room f) (a @ b)"
  using assms by (simp add: cut_def)

definition stuck :: "pcap_file \<Rightarrow> bool" where
  "stuck f \<longleftrightarrow> (\<forall>c p. pcap_write c f p = (-1, f))"

lemma cut_stuck: "stuck (cut bs f)"
  by (simp add: stuck_def pcap_write_def cut_def)

lemma stuck_cnt: "stuck ((cut bs f)\<lparr>pf_pkt_cnt := n\<rparr>)"
  by (simp add: stuck_def pcap_write_def cut_def)

text \<open>In the legacy format a packet that does not fit on the medium is reported: \<open>pcap_write\<close> fails, the file
  holds the prefix that fitted, and every later write fails without touching the file.
\<close>

theorem pcap_legacy_disk_full:
  assumes "lg_wfit e f" and "room f < length (lg_block False (lg_stamp e c) p)"
  shows "\<exists>f'. pcap_write c f p = (-1, f') \<and> (\<forall>c' p'. pcap_write c' f' p' = (-1, f')) \<and>
    st_data (pf_fp f') = st_data (pf_fp f) @ take (room f) (lg_block False (lg_stamp e c) p)"
proof -
  let ?r = "rec_bytes (mk_rec (stamp e c) p)"
  have b: "lg_block False (lg_stamp e c) p = ?r @ p" by (simp add: lg_block_def lg_stamp_def mk_rec_def lg_rec_bytes)
  have w: "writable f" "\<not> pf_sys_err f" using assms(1) by (auto simp: lg_wfit_def writable_def)
  have pw: "write_pkt c f p = wr_then (pcap_write_block ?r f) (pcap_write_data p)"
    using assms(1) by (simp add: write_pkt_def pcap_write_rec_def lg_wfit_def get_ts_stamp)
  show ?thesis
  proof (cases "room f < length ?r")
    case True
    then have "pcap_write c f p = (-1, cut ?r f)"
      using pw w by (simp add: pcap_write_def pcap_write_block_def write_data_cut wr_then_def)
    then show ?thesis using True cut_stuck [unfolded stuck_def] b by (auto simp: cut_def)
  next
    case False
    let ?g = "(app ?r f)\<lparr>pf_rec_cnt := pf_rec_cnt f + 1\<rparr>"
    have g: "pcap_write_block ?r f = (0, ?g)" "writable ?g" "room f = room ?g + length ?r" "st_data (pf_fp ?g) = st_data (pf_fp f) @ ?r"
      using write_data_ok [OF w(1), of ?r] False by (simp_all add: pcap_write_block_def)
    have "room ?g < length p" using g(3) assms(2) b by simp
    then have "pcap_write c f p = (-1, cut p ?g)"
      using pw w(2) g(1,2) by (simp add: pcap_write_def wr_then_def write_data_cut)
    then show ?thesis using cut_stuck [unfolded stuck_def] cut_cut [OF g(3,4), of p] b by auto
  qed
qed

text \<open>C40. With enhanced packet blocks the failure to write a packet's data is reported as success
  (\<open>if (rc) return 0\<close>): the packet is counted, although the file holds only a prefix of its block. The
  error is noticed by the next write only.
\<close>

theorem pcap_epb_disk_full:
  assumes "ng_wfit False e f" and "28 \<le> room f" and "room f < 28 + length p"
  shows "\<exists>f'. pcap_write c f p = (0, f') \<and> pf_pkt_cnt f' = pf_pkt_cnt f + 1 \<and> (\<forall>c' p'. pcap_write c' f' p' = (-1, f')) \<and>
    st_data (pf_fp f') = st_data (pf_fp f) @ take (room f) (epb_block False (stamp e c) p)"
proof -
  let ?h = "mk_epb (stamp e c) (length p)"
  let ?r = "epb_bytes ?h"
  have w: "writable f" "\<not> pf_sys_err f" using assms(1) by (auto simp: ng_wfit_def writable_def)
  have l: "length ?r = 28" by (simp add: epb_bytes_def)
  let ?g = "(app ?r f)\<lparr>pf_rec_cnt := pf_rec_cnt f + 1\<rparr>"
  have g: "pcap_write_block ?r f = (0, ?g)" "writable ?g" "room f = room ?g + length ?r" "st_data (pf_fp ?g) = st_data (pf_fp f) @ ?r"
    using write_data_ok [OF w(1), of ?r] l assms(2) by (simp_all add: pcap_write_block_def)
  have short: "room ?g < length p" using g(3) assms(3) l by simp
  have "pcap_write c f p = (0, (cut p ?g)\<lparr>pf_pkt_cnt := pf_pkt_cnt f + 1\<rparr>)"
    using assms(1) w(2) g(1) write_data_cut [OF g(2) short]
    by (simp add: pcap_write_def write_pkt_def pcap_write_xpb_def pcap_write_epb_def ng_wfit_def wr_then_def write_body_def get_ts_stamp Let_def)
      (simp add: cut_def app_def)
  moreover have "st_data (pf_fp (cut p ?g)) = st_data (pf_fp f) @ take (room f) (epb_block False (stamp e c) p)"
    using cut_cut [OF g(3,4), of p] g(3) short by (simp add: epb_block_def ng_bytes)
  ultimately show ?thesis using stuck_cnt [unfolded stuck_def] by auto
qed

text \<open>A big-endian nanosecond capture cannot be opened: \<open>PCAP_MAGIC_BE_NSEC\<close> is not the byte-swapped
  \<open>PCAP_MAGIC_LE_NSEC\<close>, so the format is not recognised.
\<close>

theorem pcap_be_nsec_rejected:
  assumes "reading fl" and "pe_file env = Some (file_stream (lg_hdr True PCAP_MAGIC_LE_NSEC x))"
  shows "pcap_open env fl = None"
proof -
  let ?d = "lg_hdr True PCAP_MAGIC_LE_NSEC x"
  let ?f = "zero_file\<lparr>pf_fp := file_stream ?d, pf_trace_rec := fl_trace fl, pf_is_reader := True, pf_use_spb := fl_spb fl\<rparr>"
  have h: "healthy ?f" "rest ?f = ?d" "st_data (pf_fp ?f) = ?d" "st_pos (pf_fp ?f) = 0"
    by (simp_all add: healthy_def rest_def file_stream_def zero_file_def)
  have m: "\<not> pcap_islg (bswap32 PCAP_MAGIC_LE_NSEC)" "\<not> pcap_isng (bswap32 PCAP_MAGIC_LE_NSEC)"
    by (simp_all add: pcap_islg_def pcap_isng_def bswap32_def pcap_consts)
  obtain f' where "pcap_detect_fmt ?f = (Inl (-1), f')"
    using detect_fmt [OF h(1) _ _ h(4), of True PCAP_MAGIC_LE_NSEC x] h(2,3) m by (simp add: lg_hdr_def)
  then show ?thesis using assms
    by (simp add: pcap_open_def reading_def pcap_setup_fmt_def wr_then_def)
qed

text \<open>A pcapng block whose type has its top bit set (the range for local use) is not skipped: its type
  becomes a negative \<open>int\<close>, \<open>pcap_read\<close> returns 0 as at the end of the file, and stays there, with
  neither the error nor the end-of-file mark set.
\<close>

theorem pcap_local_block_ends:
  assumes "healthy f" and "pf_fmt f = FmtNG" and "rest f = w32 (pf_must_swap f) t @ r" and "bit t 31"
  shows "\<exists>f'. pcap_read f buf len = Some (0, buf, f') \<and> \<not> pf_sys_err f' \<and> \<not> pf_have_eof f' \<and> rest f' = rest f"
proof -
  have neg: "sint t < 0" using assms(4) bit_last_iff [of t] by simp
  then show ?thesis using peek_rest [OF assms(1,3)] assms(1,2)
    by (auto simp: pcap_read_def read_pkt_def pcap_read_xpb.simps healthy_def rest_def)
qed

section \<open>Concrete captures\<close>

definition demo_env :: "stream \<Rightarrow> pcap_env" where
  "demo_env s = \<lparr>pe_malloc = True, pe_file = Some s, pe_real = Some (1700000000, 5000), pe_mono = Some (100, 0)\<rparr>"

definition demo_rd :: pcap_flags where
  "demo_rd = \<lparr>fl_read = True, fl_write = False, fl_lg = False, fl_ng = False, fl_trace = False, fl_spb = False\<rparr>"

definition demo_wr :: "bool \<Rightarrow> bool \<Rightarrow> pcap_flags" where
  "demo_wr ng sp = \<lparr>fl_read = False, fl_write = True, fl_lg = False, fl_ng = ng, fl_trace = False, fl_spb = sp\<rparr>"

lemmas demo_defs = demo_env_def demo_rd_def demo_wr_def ready_env_def reading_def writing_def

theorem pcap_legacy_read_witness:
  "\<exists>file. pcap_open (demo_env (file_stream (lg_hdr True PCAP_MAGIC_LE_USEC (replicate 20 0) @
        concat (map (\<lambda>(ts, p). lg_block True ts p) [((7, 8), [1, 2, 3]), ((7, 9), [4, 5])])))) demo_rd = Some file \<and>
    pcap_loop (Suc (length [((7, 8), [1, 2, 3 :: byte]), ((7 :: u32, 9 :: u32), [4, 5])])) file (replicate 8 0) 8 =
      Some (map snd [((7 :: u32, 8 :: u32), [1, 2, 3]), ((7, 9), [4, 5])])"
  by (rule pcap_legacy_read) (simp_all add: demo_defs known_magic_def)

theorem pcap_ng_read_witness:
  "\<exists>file. pcap_open (demo_env (file_stream (shb_block True (replicate 16 0) @ idb_block True (replicate 12 0) @
        concat (map (\<lambda>(ts, p). epb_block True ts p) [(7, [1, 2, 3]), (9, [4, 5])])))) demo_rd = Some file \<and>
    pcap_loop (Suc (length [(7 :: u64, [1, 2, 3 :: byte]), (9, [4, 5])])) file (replicate 8 0) 8 =
      Some (map snd [(7 :: u64, [1, 2, 3]), (9, [4, 5])])"
  by (rule pcap_ng_read) (simp_all add: demo_defs)

theorem pcap_roundtrip_witness:
  "\<exists>w w' file. pcap_open (demo_env (empty_stream 1000)) (demo_wr True True) = Some w \<and>
    pcap_write_all [(Some (200, 0), [1, 2, 3])] w = (0, w') \<and>
    pcap_open ((demo_env (empty_stream 1000))\<lparr>pe_file := Some (file_stream (st_data (pf_fp w')))\<rparr>) demo_rd = Some file \<and>
    pcap_loop (Suc (Suc 0)) file (replicate 8 0) 8 = Some [[1, 2, 3, 0]]"
  using pcap_roundtrip [of "demo_env (empty_stream 1000)" "demo_wr True True" 1000 "[(Some (200, 0), [1, 2, 3])]" 8 demo_rd "replicate 8 0"]
  by (simp add: demo_defs cap_size_def ng_shown_def pad_def padn_def)

definition demo_file :: "pcap_fmt \<Rightarrow> nat \<Rightarrow> pcap_file" where
  "demo_file m lim = zero_file\<lparr>pf_fp := empty_stream lim, pf_fmt := m, pf_have_idb := True\<rparr>"

theorem pcap_legacy_disk_full_witness:
  "\<exists>f'. pcap_write (Some (200, 0)) (demo_file FmtLG 18) [1, 2, 3] = (-1, f') \<and> (\<forall>c' p'. pcap_write c' f' p' = (-1, f')) \<and>
    st_data (pf_fp f') = st_data (pf_fp (demo_file FmtLG 18)) @
      take (room (demo_file FmtLG 18)) (lg_block False (lg_stamp 0 (Some (200, 0))) [1, 2, 3])"
  by (rule pcap_legacy_disk_full)
    (simp_all add: lg_wfit_def writable_def demo_file_def empty_stream_def zero_file_def room_def length_blocks)

theorem pcap_epb_disk_full_witness:
  "\<exists>f'. pcap_write (Some (200, 0)) (demo_file FmtNG 30) [1, 2, 3] = (0, f') \<and> pf_pkt_cnt f' = pf_pkt_cnt (demo_file FmtNG 30) + 1 \<and>
    (\<forall>c' p'. pcap_write c' f' p' = (-1, f')) \<and>
    st_data (pf_fp f') = st_data (pf_fp (demo_file FmtNG 30)) @
      take (room (demo_file FmtNG 30)) (epb_block False (stamp 0 (Some (200, 0))) [1, 2, 3])"
  by (rule pcap_epb_disk_full)
    (simp_all add: ng_wfit_def writable_def demo_file_def empty_stream_def zero_file_def room_def)

theorem pcap_be_nsec_rejected_witness:
  "pcap_open (demo_env (file_stream (lg_hdr True PCAP_MAGIC_LE_NSEC (replicate 20 0)))) demo_rd = None"
  by (rule pcap_be_nsec_rejected) (simp_all add: demo_defs)

theorem pcap_local_block_ends_witness:
  "\<exists>f'. pcap_read (zero_file\<lparr>pf_fp := file_stream (w32 False 0x80000001), pf_fmt := FmtNG\<rparr>) [] 0 = Some (0, [], f') \<and>
     \<not> pf_sys_err f' \<and> \<not> pf_have_eof f' \<and> rest f' = rest (zero_file\<lparr>pf_fp := file_stream (w32 False 0x80000001), pf_fmt := FmtNG\<rparr>)"
  by (rule pcap_local_block_ends [where t = "0x80000001" and r = "[]"])
    (simp_all add: healthy_def rest_def file_stream_def zero_file_def)

end
