(* ===== verification/Insp.thy ===== *)
theory Insp
  imports Dns_Roundtrip Pcap_File
begin

text \<open>
  The packet inspector of \<open>dns_insp.c\<close>: \<open>insp_process_pkt\<close> walks over the Ethernet, VLAN, IP and UDP headers of a
  frame to the DNS message, validates it and counts; \<open>run_readpcap\<close> and \<open>run_tracepcap\<close> feed it, or only
  drain, a capture file. The abstract side is \<open>dns_frame\<close>, the grammar of the frames that carry a DNS
  message; \<open>locate_dns_frame\<close> shows that the pointer arithmetic of the code recognises exactly these.
\<close>

section \<open>Locating the DNS message\<close>

definition is_vlan :: "u16 \<Rightarrow> bool" where
  "is_vlan type \<longleftrightarrow> type \<in> {0x8100, 0x88a8, 0x9100, 0x9200, 0x9300}"

definition u16_dec :: "byte list \<Rightarrow> nat \<Rightarrow> u16 option" where
  "u16_dec buf p = do {
     a \<leftarrow> mem_get buf p;
     b \<leftarrow> mem_get buf (p + 1);
     Some (push_bit 8 (ucast a) OR ucast b) }"

text \<open>
  A layer of \<open>insp_process_pkt\<close>: the outer option is \<open>None\<close> for a read outside the memory of the
  packet, the inner one is \<open>None\<close> for an early \<open>return 0\<close>.
\<close>

function vlan_loop :: "byte list \<Rightarrow> nat \<Rightarrow> u16 \<Rightarrow> nat \<Rightarrow> (u16 \<times> nat) option option" where
  "vlan_loop pkt plen type ptr =
     (if is_vlan type then
        if ptr + 4 > plen then Some None
        else do { type' \<leftarrow> u16_dec pkt (ptr + 2); vlan_loop pkt plen type' (ptr + 4) }
      else Some (Some (type, ptr)))"
  by pat_completeness auto
termination
  by (relation "measure (\<lambda>(pkt, plen, type, ptr). plen - ptr)") auto

declare vlan_loop.simps [simp del]

definition ETH_P_IP :: u16 where "ETH_P_IP = 0x0800"
definition ETH_P_IPV6 :: u16 where "ETH_P_IPV6 = 0x86dd"
definition IPPROTO_UDP :: byte where "IPPROTO_UDP = 17"

text \<open>
  The bit fields of \<open>struct iphdr\<close> and \<open>struct ipv6hdr\<close> on a little-endian host: the low half of the
  first byte is \<open>ihl\<close>, the high half \<open>version\<close>.
\<close>

definition low4 :: "byte \<Rightarrow> nat" where "low4 b = unat b mod 16"
definition high4 :: "byte \<Rightarrow> nat" where "high4 b = unat b div 16"

definition ip_layer :: "byte list \<Rightarrow> nat \<Rightarrow> u16 \<Rightarrow> nat \<Rightarrow> nat option option" where
  "ip_layer pkt plen type ptr =
     (if type = ETH_P_IP then
        if ptr + 20 > plen then Some None
        else do {
          b0 \<leftarrow> mem_get pkt ptr;
          proto \<leftarrow> mem_get pkt (ptr + 9);
          if high4 b0 \<noteq> 4 \<or> low4 b0 < 5 \<or> proto \<noteq> IPPROTO_UDP then Some None
          else if low4 b0 * 4 > plen - ptr then Some None
          else Some (Some (ptr + low4 b0 * 4)) }
      else if type = ETH_P_IPV6 then
        if ptr + 40 > plen then Some None
        else do {
          b0 \<leftarrow> mem_get pkt ptr;
          nexthdr \<leftarrow> mem_get pkt (ptr + 6);
          if high4 b0 \<noteq> 6 \<or> nexthdr \<noteq> IPPROTO_UDP then Some None
          else Some (Some (ptr + 40)) }
      else Some None)"

definition udp_layer :: "byte list \<Rightarrow> nat \<Rightarrow> nat \<Rightarrow> nat option option" where
  "udp_layer pkt plen ptr =
     (if ptr + 8 > plen then Some None
      else do {
        src_port \<leftarrow> u16_dec pkt ptr;
        dst_port \<leftarrow> u16_dec pkt (ptr + 2);
        if src_port \<noteq> 53 \<and> dst_port \<noteq> 53 then Some None else Some (Some (ptr + 8)) })"

definition on_layer :: "'a option option \<Rightarrow> ('a \<Rightarrow> 'b option option) \<Rightarrow> 'b option option" where
  "on_layer m k = do { r \<leftarrow> m; case r of None \<Rightarrow> Some None | Some x \<Rightarrow> k x }"

definition locate_dns :: "byte list \<Rightarrow> nat \<Rightarrow> nat option option" where
  "locate_dns pkt plen =
     (if 14 > plen then Some None
      else do {
        type \<leftarrow> u16_dec pkt 12;
        on_layer (vlan_loop pkt plen type 14) (\<lambda>(type, ptr).
          on_layer (ip_layer pkt plen type ptr) (udp_layer pkt plen)) })"

section \<open>State and the inspection of one packet\<close>

text \<open>
  The part of \<open>struct dns_insp\<close> the inspection uses. The counters are \<open>uint64_t\<close> in the code and unbounded here,
  since a wrap takes 2 to the power of 64 packets. \<open>in_stdout\<close> is what \<open>fputs\<close> has written.
\<close>

record dns_insp =
  in_pcap :: "pcap_file option"
  in_rcv_pkts :: nat
  in_dns_pkts :: nat
  in_dns_okay :: nat
  in_dns_fail :: nat
  in_emsg :: "byte list"
  in_stdout :: "byte list"

definition insp_process_pkt :: "dns_insp \<Rightarrow> byte list \<Rightarrow> nat \<Rightarrow> (int \<times> dns_insp) option" where
  "insp_process_pkt insp pkt plen =
     (let insp1 = insp\<lparr>in_rcv_pkts := in_rcv_pkts insp + 1\<rparr>
      in do {
        loc \<leftarrow> locate_dns pkt plen;
        case loc of
          None \<Rightarrow> Some (0, insp1)
        | Some ptr \<Rightarrow> do {
            (rc, sb) \<leftarrow> dns_validate (drop ptr pkt) (plen - ptr) (in_emsg insp1);
            s \<leftarrow> cstr_at (sb_mem sb) 0;
            Some (rc, insp1\<lparr>in_dns_pkts := in_dns_pkts insp1 + 1,
              in_dns_okay := in_dns_okay insp1 + (if rc < 0 then 0 else 1),
              in_dns_fail := in_dns_fail insp1 + (if rc < 0 then 1 else 0),
              in_emsg := sb_mem sb, in_stdout := in_stdout insp1 @ s\<rparr>) } })"

text \<open>\<open>insp_process_msg\<close>: \<open>pkt_data\<close> is the memory from the start of the buffer on, \<open>mts\<close> what the clock shows when the packet is saved.\<close>

definition insp_process_msg :: "clock \<Rightarrow> dns_insp \<Rightarrow> byte list \<Rightarrow> nat \<Rightarrow> (int \<times> dns_insp) option" where
  "insp_process_msg mts insp pkt_data pkt_len = do {
     insp1 \<leftarrow> (case in_pcap insp of
        None \<Rightarrow> Some insp
      | Some f \<Rightarrow> do { pkt \<leftarrow> mem_read pkt_data 0 pkt_len; Some (insp\<lparr>in_pcap := Some (snd (pcap_write mts f pkt))\<rparr>) });
     (rc, insp2) \<leftarrow> insp_process_pkt insp1 pkt_data pkt_len;
     Some (0, insp2) }"

section \<open>The frames that carry DNS\<close>

inductive tagged :: "byte list \<Rightarrow> u16 \<Rightarrow> byte list \<Rightarrow> bool" where
  untagged: "\<not> is_vlan t \<Longrightarrow> tagged (be16 t @ r) t r"
| tag: "is_vlan t \<Longrightarrow> tagged s u r \<Longrightarrow> tagged (be16 t @ be16 tci @ s) u r"

definition ip4_header :: "byte list \<Rightarrow> bool" where
  "ip4_header h \<longleftrightarrow> 20 \<le> length h \<and> length h = 4 * low4 (h ! 0) \<and> high4 (h ! 0) = 4 \<and> h ! 9 = IPPROTO_UDP"

definition ip6_header :: "byte list \<Rightarrow> bool" where
  "ip6_header h \<longleftrightarrow> length h = 40 \<and> high4 (h ! 0) = 6 \<and> h ! 6 = IPPROTO_UDP"

definition udp53_header :: "byte list \<Rightarrow> bool" where
  "udp53_header u \<longleftrightarrow> length u = 8 \<and> (take 2 u = be16 53 \<or> take 2 (drop 2 u) = be16 53)"

definition dns_frame :: "byte list \<Rightarrow> byte list \<Rightarrow> bool" where
  "dns_frame f msg \<longleftrightarrow> (\<exists>macs s t h u. length macs = 12 \<and> f = macs @ s \<and> tagged s t (h @ u @ msg) \<and>
     (t = ETH_P_IP \<and> ip4_header h \<or> t = ETH_P_IPV6 \<and> ip6_header h) \<and> udp53_header u)"

lemma u16_dec_eq: "u16_dec = dec_u16"
  by (intro ext) (simp add: u16_dec_def dec_u16_def)

lemma be16_append_eq: "be16 t @ x = be16 u @ y \<longleftrightarrow> t = u \<and> x = y"
  using be16.enc_inj by (auto simp: append_eq_append_conv be16.enc_width)

lemma tagged_be16: "tagged (be16 t @ x) u r \<longleftrightarrow> (if is_vlan t then \<exists>tci s. x = be16 tci @ s \<and> tagged s u r else u = t \<and> r = x)"
  by (subst tagged.simps) (auto simp: be16_append_eq)

lemma tagged_length: "tagged s t r \<Longrightarrow> 2 + length r \<le> length s"
  by (induction rule: tagged.induct) (auto simp: be16.enc_width)

lemma two_bytes:
  assumes "2 \<le> length x"
  obtains v where "x = be16 v @ drop 2 x" "dec_u16 x 0 = Some v"
proof -
  obtain v where v: "dec_u16 x 0 = Some v" using be16.dec_total [of 0 x] assms by auto
  then have "take 2 x = be16 v" using be16.dec_inv [of x 0 v] by simp
  then show thesis using that v by (metis append_take_drop_id)
qed

text \<open>Reading in the packet and reading in the frame, the bytes of the packet up to its length.\<close>

lemma dec_u16_frame:
  assumes "n \<le> length m" and "p + 2 \<le> n"
  shows "\<exists>v. dec_u16 m p = Some v \<and> drop p (take n m) = be16 v @ drop (p + 2) (take n m)"
proof -
  have "2 \<le> length (drop p (take n m))" using assms by simp
  then obtain v where v: "drop p (take n m) = be16 v @ drop 2 (drop p (take n m))" by (rule two_bytes)
  then have "take 2 (drop p (take n m)) = be16 v" by (metis append_eq_conv_conj be16.enc_width)
  then have "take 2 (drop p m) = be16 v" using assms by (simp add: drop_take)
  then have "dec_u16 m p = Some v" using assms by (intro be16.dec_enc) auto
  then show ?thesis using v by (auto simp: add.commute)
qed

lemma vlan_loop_tagged:
  assumes "plen \<le> length pkt" and "ptr \<le> plen"
  shows "returns (vlan_loop pkt plen t ptr) (\<lambda>r. \<forall>u rest. tagged (be16 t @ drop ptr (take plen pkt)) u rest \<longleftrightarrow>
    (\<exists>p. r = Some (u, p) \<and> rest = drop p (take plen pkt) \<and> p \<le> plen))"
  using assms
proof (induction pkt plen t ptr rule: vlan_loop.induct)
  case (1 pkt plen t ptr)
  let ?F = "take plen pkt"
  consider (no) "\<not> is_vlan t" | (short) "is_vlan t" "ptr + 4 > plen" | (more) "is_vlan t" "ptr + 4 \<le> plen" by fastforce
  then show ?case
  proof cases
    case no
    then show ?thesis using "1.prems" by (auto simp: vlan_loop.simps [of pkt] tagged_be16)
  next
    case short
    have "\<not> tagged s u r" if "drop ptr ?F = be16 tci @ s" for tci s u r
    proof
      assume "tagged s u r"
      then have "2 \<le> length s" using tagged_length by fastforce
      moreover have "length (drop ptr ?F) = 2 + length s" using that by (simp add: be16.enc_width)
      ultimately show False using short(2) "1.prems" by simp
    qed
    then show ?thesis using short by (auto simp: vlan_loop.simps [of pkt] tagged_be16)
  next
    case more
    have p4: "ptr + 2 + 2 = ptr + 4" by simp
    obtain tci where tci: "drop ptr ?F = be16 tci @ drop (ptr + 2) ?F" using dec_u16_frame [OF "1.prems"(1), of ptr] more by auto
    obtain t' where t': "dec_u16 pkt (ptr + 2) = Some t'" "drop (ptr + 2) ?F = be16 t' @ drop (ptr + 4) ?F"
      using dec_u16_frame [OF "1.prems"(1), of "ptr + 2", unfolded p4] more(2) by blast
    have "returns (vlan_loop pkt plen t' (ptr + 4)) (\<lambda>r. \<forall>u rest. tagged (be16 t' @ drop (ptr + 4) ?F) u rest \<longleftrightarrow>
        (\<exists>p. r = Some (u, p) \<and> rest = drop p ?F \<and> p \<le> plen))"
      using "1.IH" [of t'] more "1.prems" t'(1) by (auto simp: u16_dec_eq)
    moreover have "tagged (be16 t @ drop ptr ?F) u rest \<longleftrightarrow> tagged (be16 t' @ drop (ptr + 4) ?F) u rest" for u rest
      using more(1) by (simp add: tagged_be16 [of t] tci be16_append_eq t'(2) [symmetric] del: add_2_eq_Suc')
    moreover have "vlan_loop pkt plen t ptr = vlan_loop pkt plen t' (ptr + 4)"
      using more t'(1) by (subst vlan_loop.simps) (simp add: u16_dec_eq)
    ultimately show ?thesis by simp
  qed
qed


lemma vlan_loop_le: "vlan_loop pkt plen t ptr = Some (Some (u, p)) \<Longrightarrow> ptr \<le> plen \<Longrightarrow> p \<le> plen"
proof (induction pkt plen t ptr rule: vlan_loop.induct)
  case (1 pkt plen t ptr)
  from "1.prems"(1) show ?case
    by (subst (asm) vlan_loop.simps) (use "1.IH" "1.prems"(2) in \<open>auto split: if_splits bind_splits\<close>)
qed

lemma append_split_iff: "k \<le> length d \<Longrightarrow> d = h @ x \<and> length h = k \<longleftrightarrow> h = take k d \<and> x = drop k d"
  by auto

lemma frame_split:
  assumes "plen \<le> length pkt" and "ptr + k \<le> plen"
  shows "drop ptr (take plen pkt) = h @ x \<and> length h = k \<longleftrightarrow> h = take k (drop ptr (take plen pkt)) \<and> x = drop (ptr + k) (take plen pkt)"
  using append_split_iff [of k "drop ptr (take plen pkt)" h x] assms by (simp add: add.commute)

lemma frame_get: "plen \<le> length pkt \<Longrightarrow> ptr + i < plen \<Longrightarrow> mem_get pkt (ptr + i) = Some (drop ptr (take plen pkt) ! i)"
  by (simp add: mem_get_def)

lemma ip4_split:
  assumes "plen \<le> length pkt" and "ptr + 20 \<le> plen"
  defines "D \<equiv> drop ptr (take plen pkt)" and "F \<equiv> take plen pkt"
  defines "k \<equiv> 4 * low4 (D ! 0)"
  shows "D = h @ x \<and> ip4_header h \<longleftrightarrow>
    (high4 (D ! 0) = 4 \<and> 5 \<le> low4 (D ! 0) \<and> D ! 9 = IPPROTO_UDP \<and> k \<le> plen - ptr) \<and> h = take k D \<and> x = drop (ptr + k) F" (is "_ \<longleftrightarrow> ?ok \<and> _")
proof -
  have len: "length D = plen - ptr" using assms(1,2) by (simp add: D_def)
  have nth: "D ! 0 = h ! 0 \<and> D ! 9 = h ! 9" if "D = h @ x" "20 \<le> length h"
  proof -
    have "0 < length h" "9 < length h" using that(2) by linarith+
    then show ?thesis unfolding that(1) nth_append by simp
  qed
  have split: "D = h @ x \<and> length h = k \<longleftrightarrow> h = take k D \<and> x = drop (ptr + k) F" if "k \<le> plen - ptr"
    using frame_split [OF assms(1), of ptr k h x] that assms(2) by (simp add: D_def F_def)
  show ?thesis
  proof
    assume a: "D = h @ x \<and> ip4_header h"
    then have l: "20 \<le> length h" "length h \<le> plen - ptr" using len arg_cong [of D "h @ x" length] by (auto simp: ip4_header_def)
    then have n: "D ! 0 = h ! 0" "D ! 9 = h ! 9" using a nth by blast+
    then have kh: "length h = k" using a by (simp add: ip4_header_def k_def)
    then have ?ok using a l n by (auto simp: ip4_header_def)
    then show "?ok \<and> h = take k D \<and> x = drop (ptr + k) F" using split a kh by blast
  next
    assume a: "?ok \<and> h = take k D \<and> x = drop (ptr + k) F"
    then have s: "D = h @ x" "length h = k" using split by blast+
    have l: "20 \<le> length h" unfolding s(2) k_def using a by linarith
    then have "D ! 0 = h ! 0" "D ! 9 = h ! 9" using nth [OF s(1)] by blast+
    then show "D = h @ x \<and> ip4_header h" using a s l by (metis ip4_header_def k_def)
  qed
qed

lemma ip4_layer_header:
  assumes "plen \<le> length pkt" and "ptr \<le> plen"
  shows "returns (ip_layer pkt plen ETH_P_IP ptr) (\<lambda>r. \<forall>h x. (drop ptr (take plen pkt) = h @ x \<and> ip4_header h) \<longleftrightarrow>
     (\<exists>p. r = Some p \<and> h = take (p - ptr) (drop ptr (take plen pkt)) \<and> x = drop p (take plen pkt) \<and> ptr \<le> p \<and> p \<le> plen))"
proof (cases "ptr + 20 > plen")
  case True
  have "\<not> ip4_header h" if "drop ptr (take plen pkt) = h @ x" for h x
    using True assms arg_cong [OF that, of length] by (auto simp: ip4_header_def)
  then show ?thesis using True by (auto simp: ip_layer_def)
next
  case False
  let ?D = "drop ptr (take plen pkt)"
  let ?ok = "high4 (?D ! 0) = 4 \<and> 5 \<le> low4 (?D ! 0) \<and> ?D ! 9 = IPPROTO_UDP \<and> 4 * low4 (?D ! 0) \<le> plen - ptr"
  have g: "mem_get pkt ptr = Some (?D ! 0)" "mem_get pkt (ptr + 9) = Some (?D ! 9)"
    using False frame_get [OF assms(1), of ptr 0] frame_get [OF assms(1), of ptr 9] by simp_all
  have r: "ip_layer pkt plen ETH_P_IP ptr = Some (if ?ok then Some (ptr + 4 * low4 (?D ! 0)) else None)"
    using False by (simp add: ip_layer_def g mult.commute)
  have le: "ptr + 20 \<le> plen" using False by simp
  show ?thesis unfolding r using le by (auto simp: ip4_split [OF assms(1) le])
qed

lemma ip6_layer_header:
  assumes "plen \<le> length pkt" and "ptr \<le> plen"
  shows "returns (ip_layer pkt plen ETH_P_IPV6 ptr) (\<lambda>r. \<forall>h x. (drop ptr (take plen pkt) = h @ x \<and> ip6_header h) \<longleftrightarrow>
     (\<exists>p. r = Some p \<and> h = take (p - ptr) (drop ptr (take plen pkt)) \<and> x = drop p (take plen pkt) \<and> ptr \<le> p \<and> p \<le> plen))"
proof -
  have nz: "ETH_P_IPV6 \<noteq> ETH_P_IP" by (simp add: ETH_P_IP_def ETH_P_IPV6_def)
  let ?D = "drop ptr (take plen pkt)"
  show ?thesis
  proof (cases "ptr + 40 > plen")
    case True
    have "\<not> ip6_header h" if "?D = h @ x" for h x using True assms arg_cong [OF that, of length] by (auto simp: ip6_header_def)
    then show ?thesis using True nz by (auto simp: ip_layer_def)
  next
    case False
    let ?ok = "high4 (?D ! 0) = 6 \<and> ?D ! 6 = IPPROTO_UDP"
    have g: "mem_get pkt ptr = Some (?D ! 0)" "mem_get pkt (ptr + 6) = Some (?D ! 6)"
      using False frame_get [OF assms(1), of ptr 0] frame_get [OF assms(1), of ptr 6] by simp_all
    have r: "ip_layer pkt plen ETH_P_IPV6 ptr = Some (if ?ok then Some (ptr + 40) else None)"
      using False nz by (simp add: ip_layer_def g)
    have eq: "?D = h @ x \<and> ip6_header h \<longleftrightarrow> ?ok \<and> h = take 40 ?D \<and> x = drop (ptr + 40) (take plen pkt)" for h x
    proof -
      have "?D ! 0 = h ! 0 \<and> ?D ! 6 = h ! 6" if "?D = h @ x" "length h = 40" using that by (simp add: nth_append)
      then show ?thesis using frame_split [OF assms(1), of ptr 40 h x] False by (auto simp: ip6_header_def)
    qed
    show ?thesis using False unfolding r by (auto simp: eq)
  qed
qed

abbreviation ip_header :: "u16 \<Rightarrow> byte list \<Rightarrow> bool" where
  "ip_header t h \<equiv> t = ETH_P_IP \<and> ip4_header h \<or> t = ETH_P_IPV6 \<and> ip6_header h"

lemma ip_layer_header:
  assumes "plen \<le> length pkt" and "ptr \<le> plen"
  shows "returns (ip_layer pkt plen t ptr) (\<lambda>r. \<forall>h x. (drop ptr (take plen pkt) = h @ x \<and> ip_header t h) \<longleftrightarrow>
     (\<exists>p. r = Some p \<and> h = take (p - ptr) (drop ptr (take plen pkt)) \<and> x = drop p (take plen pkt) \<and> ptr \<le> p \<and> p \<le> plen))"
proof -
  have nz: "ETH_P_IP \<noteq> ETH_P_IPV6" by (simp add: ETH_P_IP_def ETH_P_IPV6_def)
  consider (ip4) "t = ETH_P_IP" | (ip6) "t = ETH_P_IPV6" | (other) "t \<noteq> ETH_P_IP" "t \<noteq> ETH_P_IPV6" by blast
  then show ?thesis
  proof cases
    case other
    then show ?thesis by (simp add: ip_layer_def)
  next
    case ip4
    then show ?thesis using ip4_layer_header [OF assms] nz by simp
  next
    case ip6
    then show ?thesis using ip6_layer_header [OF assms] nz [symmetric] by simp
  qed
qed

lemma udp_layer_header:
  assumes "plen \<le> length pkt" and "ptr \<le> plen"
  shows "returns (udp_layer pkt plen ptr) (\<lambda>r. \<forall>u x. (drop ptr (take plen pkt) = u @ x \<and> udp53_header u) \<longleftrightarrow>
    (\<exists>p. r = Some p \<and> u = take 8 (drop ptr (take plen pkt)) \<and> x = drop p (take plen pkt) \<and> p \<le> plen))"
proof (cases "ptr + 8 > plen")
  case True
  have "length (drop ptr (take plen pkt)) < 8" using True assms by simp
  then have "\<not> udp53_header u" if "drop ptr (take plen pkt) = u @ x" for u x
    using arg_cong [OF that, of length] by (auto simp: udp53_header_def)
  then show ?thesis using True by (auto simp: udp_layer_def)
next
  case False
  let ?F = "take plen pkt" and ?D = "drop ptr (take plen pkt)"
  obtain v where v: "dec_u16 pkt ptr = Some v" "?D = be16 v @ drop (ptr + 2) ?F" using dec_u16_frame [OF assms(1), of ptr] False by auto
  have le: "ptr + 2 + 2 \<le> plen" using False by simp
  obtain w where w: "dec_u16 pkt (ptr + 2) = Some w" "drop (ptr + 2) ?F = be16 w @ drop (ptr + 2 + 2) ?F"
    using dec_u16_frame [OF assms(1) le] by blast
  have p: "take 2 (take 8 ?D) = be16 v" "take 2 (drop 2 (take 8 ?D)) = be16 w"
    by (simp_all add: v(2) w(2) be16.enc_width del: add_2_eq_Suc')
  have r: "udp_layer pkt plen ptr = Some (if v \<noteq> 53 \<and> w \<noteq> 53 then None else Some (ptr + 8))"
    using False v(1) w(1) by (simp add: udp_layer_def u16_dec_eq)
  have eq: "?D = u @ x \<and> udp53_header u \<longleftrightarrow> (v = 53 \<or> w = 53) \<and> u = take 8 ?D \<and> x = drop (ptr + 8) ?F" for u x
  proof -
    have "?D = u @ x \<and> length u = 8 \<longleftrightarrow> u = take 8 ?D \<and> x = drop (ptr + 8) ?F"
      using append_split_iff [of 8 ?D u x] False assms by (simp add: add.commute)
    moreover have "udp53_header u \<longleftrightarrow> v = 53 \<or> w = 53" if "u = take 8 ?D"
      using that p False assms be16.enc_inj [of v 53] be16.enc_inj [of w 53] by (auto simp: udp53_header_def)
    ultimately show ?thesis by (auto simp: udp53_header_def)
  qed
  show ?thesis using False unfolding r by (auto simp: eq)
qed

lemma locate_le: "locate_dns pkt plen = Some (Some p) \<Longrightarrow> p \<le> plen"
  by (auto simp: locate_dns_def on_layer_def udp_layer_def split: if_splits bind_splits option.splits)

lemma no_short_frame:
  assumes "length f < 14"
  shows "\<not> dns_frame f msg"
proof
  assume "dns_frame f msg"
  then obtain macs s t r where f: "f = macs @ s" "length macs = 12" "tagged s t r" unfolding dns_frame_def by metis
  then show False using assms tagged_length [OF f(3)] by simp
qed

text \<open>A frame behind its two MAC addresses; \<open>t\<close> is the first type field.\<close>

lemma dns_frame_type:
  assumes "plen \<le> length pkt" and "14 \<le> plen" and "drop 12 (take plen pkt) = be16 t @ drop 14 (take plen pkt)"
  shows "dns_frame (take plen pkt) msg \<longleftrightarrow> (\<exists>u h x y. tagged (be16 t @ drop 14 (take plen pkt)) u (h @ y) \<and> ip_header u h \<and> y = x @ msg \<and> udp53_header x)"
    (is "_ = ?R")
proof -
  let ?F = "take plen pkt"
  have sp: "?F = macs @ s \<and> length macs = 12 \<longleftrightarrow> macs = take 12 ?F \<and> s = be16 t @ drop 14 ?F" for macs s
    using append_split_iff [of 12 ?F macs s] assms by simp
  show ?thesis
  proof
    assume "dns_frame ?F msg"
    then obtain macs s u h x where f: "?F = macs @ s \<and> length macs = 12" "tagged s u (h @ x @ msg)" "ip_header u h" "udp53_header x"
      unfolding dns_frame_def by blast
    have "s = be16 t @ drop 14 ?F" using f(1) unfolding sp by (rule conjunct2)
    then show ?R using f(2-4) by blast
  next
    assume ?R
    then obtain u h x where f: "tagged (be16 t @ drop 14 ?F) u (h @ x @ msg)" "ip_header u h" "udp53_header x" by blast
    have "?F = take 12 ?F @ (be16 t @ drop 14 ?F) \<and> length (take 12 ?F) = 12" unfolding sp by simp
    then show "dns_frame ?F msg" unfolding dns_frame_def using f by blast
  qed
qed

lemma ip_layer_le: "ip_layer pkt plen t ptr = Some (Some p) \<Longrightarrow> ptr \<le> plen \<Longrightarrow> ptr \<le> p \<and> p \<le> plen"
  by (auto simp: ip_layer_def split: if_splits bind_splits)

text \<open>The layers behind the last type field, which stands before \<open>ptr\<close>.\<close>

lemma layers_locate:
  assumes "plen \<le> length pkt" and "ptr \<le> plen"
  shows "returns (on_layer (ip_layer pkt plen t ptr) (udp_layer pkt plen)) (\<lambda>r. \<forall>msg.
    (\<exists>h x y. drop ptr (take plen pkt) = h @ y \<and> ip_header t h \<and> y = x @ msg \<and> udp53_header x) \<longleftrightarrow>
    (\<exists>p. r = Some p \<and> p \<le> plen \<and> msg = drop p (take plen pkt)))"
proof -
  let ?F = "take plen pkt"
  obtain r2 where r2: "ip_layer pkt plen t ptr = Some r2" "\<And>h x. (drop ptr ?F = h @ x \<and> ip_header t h) \<longleftrightarrow>
      (\<exists>p. r2 = Some p \<and> h = take (p - ptr) (drop ptr ?F) \<and> x = drop p ?F \<and> ptr \<le> p \<and> p \<le> plen)"
    using ip_layer_header [OF assms, of t] by (auto simp: returns_iff)
  have fr: "(\<exists>h x y. drop ptr ?F = h @ y \<and> ip_header t h \<and> y = x @ msg \<and> udp53_header x) \<longleftrightarrow>
      (\<exists>p x. r2 = Some p \<and> ptr \<le> p \<and> p \<le> plen \<and> drop p ?F = x @ msg \<and> udp53_header x)" (is "?A \<longleftrightarrow> ?B") for msg
  proof -
    have "?A \<longleftrightarrow> (\<exists>h x y. (drop ptr ?F = h @ y \<and> ip_header t h) \<and> y = x @ msg \<and> udp53_header x)" by blast
    also have "\<dots> \<longleftrightarrow> ?B" unfolding r2(2) by blast
    finally show ?thesis .
  qed
  show ?thesis
  proof (cases r2)
    case None
    then show ?thesis unfolding fr using r2(1) by (simp add: on_layer_def)
  next
    case (Some p2)
    have p2: "ptr \<le> p2" "p2 \<le> plen" using ip_layer_le [OF r2(1) [unfolded Some] assms(2)] by simp_all
    obtain r3 where "udp_layer pkt plen p2 = Some r3" "\<And>u x. (drop p2 ?F = u @ x \<and> udp53_header u) \<longleftrightarrow>
        (\<exists>p. r3 = Some p \<and> u = take 8 (drop p2 ?F) \<and> x = drop p ?F \<and> p \<le> plen)"
      using udp_layer_header [OF assms(1) p2(2)] by (auto simp: returns_iff)
    then show ?thesis unfolding fr using r2(1) Some p2 by (auto simp: on_layer_def)
  qed
qed

lemma locate_dns_frame:
  assumes "plen \<le> length pkt"
  shows "returns (locate_dns pkt plen) (\<lambda>r. \<forall>msg. dns_frame (take plen pkt) msg \<longleftrightarrow>
    (\<exists>p. r = Some p \<and> p \<le> plen \<and> msg = drop p (take plen pkt)))"
proof (cases "plen < 14")
  case True
  then show ?thesis using no_short_frame [of "take plen pkt"] assms by (simp add: locate_dns_def)
next
  case False
  let ?F = "take plen pkt"
  obtain t where t: "dec_u16 pkt 12 = Some t" "drop 12 ?F = be16 t @ drop (12 + 2) ?F" using dec_u16_frame [OF assms, of 12] False by auto
  have fr: "dns_frame ?F msg \<longleftrightarrow> (\<exists>u h x y. tagged (be16 t @ drop 14 ?F) u (h @ y) \<and> ip_header u h \<and> y = x @ msg \<and> udp53_header x)" for msg
    using dns_frame_type [OF assms, of t msg] False t(2) by simp
  obtain r1 where r1: "vlan_loop pkt plen t 14 = Some r1" "\<And>u rest. tagged (be16 t @ drop 14 ?F) u rest \<longleftrightarrow>
      (\<exists>p. r1 = Some (u, p) \<and> rest = drop p ?F \<and> p \<le> plen)"
    using vlan_loop_tagged [OF assms, of 14 t] False by (auto simp: returns_iff)
  show ?thesis
  proof (cases r1)
    case None
    then show ?thesis using False t(1) r1 fr by (simp add: locate_dns_def u16_dec_eq on_layer_def)
  next
    case (Some up)
    obtain u p1 where up: "up = (u, p1)" by (cases up)
    have le: "p1 \<le> plen" using vlan_loop_le [OF r1(1) [unfolded Some up]] False by simp
    have tg: "tagged (be16 t @ drop 14 ?F) u' rest \<longleftrightarrow> u' = u \<and> drop p1 ?F = rest" for u' rest using r1(2) Some up le by auto
    have "locate_dns pkt plen = on_layer (ip_layer pkt plen u p1) (udp_layer pkt plen)"
      using False t(1) r1(1) Some up by (simp add: locate_dns_def u16_dec_eq on_layer_def)
    then show ?thesis unfolding fr tg using layers_locate [OF assms le, of u] by simp
  qed
qed

section \<open>Reading a capture file\<close>

lemma moved_less:
  assumes "moved n f f'" and "0 < n" and "st_pos (pf_fp f) + n \<le> length (st_data (pf_fp f))"
  shows "bytes_left f' < bytes_left f"
  using assms by (auto simp: moved_def bytes_left_def)

lemma read_block_progress:
  assumes "pcap_read_block n f = (0, bs, f1)" and "0 < n" and "moved 0 f1 f2"
  shows "bytes_left f2 < bytes_left f"
proof (rule moved_less [where n = n])
  show "moved n f f2" using moved_trans [OF read_block_moved [OF assms(1)] assms(3)] by simp
  show "st_pos (pf_fp f) + n \<le> length (st_data (pf_fp f))"
    using assms(1,2) by (cases rule: read_data_cases [of n f]) (auto simp: pcap_read_block_def)
qed fact

lemma read_data_moved: "pcap_read_data n f = (rc, bs, f') \<Longrightarrow> moved 0 f f'"
  by (cases rule: read_data_cases [of n f]) (auto simp: moved_def)

lemma read_body_moved: "read_body cap sk f buf = Some (n, buf', f') \<Longrightarrow> moved 0 f f'"
  by (auto simp: read_body_def split: prod.splits bind_splits if_splits dest!: read_data_moved data_skip_moved
      intro: moved_trans [where a = 0 and b = 0, simplified])

lemma moved_refl [simp]: "moved 0 f f"
  by (simp add: moved_def)

text \<open>Every call that delivers a packet moves the position.\<close>

lemma read_rec_progress: "pcap_read_rec f buf len = Some (n, buf', f') \<Longrightarrow> 0 < n \<Longrightarrow> bytes_left f' < bytes_left f"
proof -
  assume a: "pcap_read_rec f buf len = Some (n, buf', f')" "0 < n"
  obtain rc bs f1 where b: "pcap_read_block 16 f = (rc, bs, f1)" by (cases "pcap_read_block 16 f")
  have neg: "rc \<le> 0" using b
    by (cases rule: read_data_cases [of 16 f]) (auto simp: pcap_read_block_def split: if_splits)
  have rc: "rc = 0" using a b neg by (auto simp: pcap_read_rec_def split: if_splits)
  have "moved 0 f1 f'" using a b rc
    by (auto simp: pcap_read_rec_def Let_def split: prod.splits bind_splits if_splits dest!: read_data_moved)
  then show ?thesis using read_block_progress b rc by simp
qed

lemma read_block_then:
  fixes n :: int
  assumes "(case pcap_read_block k f of (rc, bs, f1) \<Rightarrow> if rc \<noteq> 0 then Some (0, buf, f1) else body bs f1) = Some (n, buf', f')"
    and "0 < n" and "0 < k" and "\<And>bs f1. body bs f1 = Some (n, buf', f') \<Longrightarrow> moved 0 f1 f'"
  shows "bytes_left f' < bytes_left f"
proof -
  obtain rc bs f1 where b: "pcap_read_block k f = (rc, bs, f1)" by (cases "pcap_read_block k f")
  then have "rc = 0" "body bs f1 = Some (n, buf', f')" using assms(1,2) by (auto split: if_splits)
  then show ?thesis using read_block_progress b assms(3,4) by blast
qed

lemma read_spb_progress: "pcap_read_spb f buf len = Some (n, buf', f') \<Longrightarrow> 0 < n \<Longrightarrow> bytes_left f' < bytes_left f"
  unfolding pcap_read_spb_def
  by (cases "pf_have_idb f") (auto elim!: read_block_then simp: Let_def split: if_splits intro: read_body_moved)

lemma read_epb_progress: "pcap_read_epb f buf len = Some (n, buf', f') \<Longrightarrow> 0 < n \<Longrightarrow> bytes_left f' < bytes_left f"
  unfolding pcap_read_epb_def
  by (cases "pf_have_idb f") (auto elim!: read_block_then simp: Let_def split: if_splits intro: read_body_moved)

lemma read_dsb_progress: "pcap_read_dsb f buf len = Some (n, buf', f') \<Longrightarrow> 0 < n \<Longrightarrow> bytes_left f' < bytes_left f"
  unfolding pcap_read_dsb_def
  by (cases "pf_have_shb f") (auto elim!: read_block_then simp: Let_def split: if_splits intro: read_body_moved)

lemma read_xpb_progress: "pcap_read_xpb f buf len = Some (n, buf', f') \<Longrightarrow> 0 < n \<Longrightarrow> bytes_left f' < bytes_left f"
proof (induction f buf len rule: pcap_read_xpb.induct)
  case (1 pf buf len)
  obtain t f where p: "pcap_peek_block pf = (t, f)" by (cases "pcap_peek_block pf")
  obtain r1 f1 where shb: "pcap_read_shb f = (r1, f1)" by (cases "pcap_read_shb f")
  obtain r2 f2 where idb: "pcap_read_idb f = (r2, f2)" by (cases "pcap_read_idb f")
  obtain r3 f3 where skp: "pcap_skip_block f = (r3, f3)" by (cases "pcap_skip_block f")
  note ih = "1.IH" [OF p [symmetric]]
  note ih1 = ih(1) [OF _ _ shb [symmetric]] and ih2 = ih(2) [OF _ _ _ idb [symmetric]] and ih3 = ih(3) [OF _ _ _ _ _ _ skp [symmetric]]
  note eq = "1.prems"(1) [unfolded pcap_read_xpb.simps [of pf] p shb idb skp prod.case]
  have t: "0 \<le> t" using eq "1.prems"(2) by (auto split: if_splits)
  have same: "bytes_left f = bytes_left pf" using peek_block_ok [OF p t] by (simp add: bytes_left_def)
  have less: "0 < k \<Longrightarrow> moved k f g \<Longrightarrow> bytes_left g < bytes_left pf" for k g using peek_moved_less [OF p t] by blast
  consider (shb) "t = uint PCAP_SHB_TYPE" | (idb) "t \<noteq> uint PCAP_SHB_TYPE" "t = uint PCAP_IDB_TYPE"
    | (spb) "t \<noteq> uint PCAP_SHB_TYPE" "t \<noteq> uint PCAP_IDB_TYPE" "t = uint PCAP_SPB_TYPE"
    | (epb) "t \<noteq> uint PCAP_SHB_TYPE" "t \<noteq> uint PCAP_IDB_TYPE" "t \<noteq> uint PCAP_SPB_TYPE" "t = uint PCAP_EPB_TYPE"
    | (dsb) "t \<noteq> uint PCAP_SHB_TYPE" "t \<noteq> uint PCAP_IDB_TYPE" "t \<noteq> uint PCAP_SPB_TYPE" "t \<noteq> uint PCAP_EPB_TYPE" "t = uint PCAP_DSB_TYPE"
    | (oth) "t \<noteq> uint PCAP_SHB_TYPE" "t \<noteq> uint PCAP_IDB_TYPE" "t \<noteq> uint PCAP_SPB_TYPE" "t \<noteq> uint PCAP_EPB_TYPE" "t \<noteq> uint PCAP_DSB_TYPE" by blast
  then show ?case
  proof cases
    case shb': shb
    then have r: "r1 = 0" "pcap_read_xpb f1 buf len = Some (n, buf', f')" using eq t "1.prems"(2) by (auto split: if_splits)
    then have "bytes_left f' < bytes_left f1" using ih1 t shb' "1.prems"(2) by auto
    then show ?thesis using less [of 24 f1] read_shb_moved shb r(1) by simp
  next
    case idb': idb
    then have r: "r2 = 0" "pcap_read_xpb f2 buf len = Some (n, buf', f')" using eq t "1.prems"(2) by (auto split: if_splits)
    then have "bytes_left f' < bytes_left f2" using ih2 t idb' "1.prems"(2) by auto
    then show ?thesis using less [of 16 f2] read_idb_moved idb r(1) by simp
  next
    case spb
    then have "pcap_read_spb f buf len = Some (n, buf', f')" using eq t by simp
    from read_spb_progress [OF this "1.prems"(2)] show ?thesis using same by simp
  next
    case epb
    then have "pcap_read_epb f buf len = Some (n, buf', f')" using eq t by simp
    from read_epb_progress [OF this "1.prems"(2)] show ?thesis using same by simp
  next
    case dsb
    then have "pcap_read_dsb f buf len = Some (n, buf', f')" using eq t by simp
    from read_dsb_progress [OF this "1.prems"(2)] show ?thesis using same by simp
  next
    case oth
    then have r: "r3 = 0" "pcap_read_xpb f3 buf len = Some (n, buf', f')" using eq t "1.prems"(2) by (auto split: if_splits)
    then have "bytes_left f' < bytes_left f3" using ih3 t oth "1.prems"(2) by auto
    then show ?thesis using less [of 8 f3] skip_block_moved skp r(1) by simp
  qed
qed

lemma pcap_read_progress: "pcap_read f buf len = Some (n, buf', f') \<Longrightarrow> 0 < n \<Longrightarrow> bytes_left f' < bytes_left f"
  by (auto simp: pcap_read_def read_pkt_def bytes_left_def [symmetric] split: if_splits bind_splits pcap_fmt.splits
      dest!: read_rec_progress read_xpb_progress) (simp_all add: bytes_left_def)

definition PKT_MAXSIZE :: nat where "PKT_MAXSIZE = 2048"

function readpcap_loop :: "dns_insp \<Rightarrow> pcap_file \<Rightarrow> byte list \<Rightarrow> (int \<times> dns_insp) option" where
  "readpcap_loop insp pcap buf = do {
     (pkt_len, buf', pcap') \<leftarrow> pcap_read pcap buf PKT_MAXSIZE;
     if 0 < pkt_len then do {
       (rc, insp') \<leftarrow> insp_process_pkt (insp\<lparr>in_pcap := Some pcap'\<rparr>) buf' pkt_len;
       if rc \<noteq> 0 then Some (rc, insp') else readpcap_loop insp' pcap' buf' }
     else Some (0, insp\<lparr>in_pcap := Some pcap'\<rparr>) }"
  by pat_completeness auto
termination
  by (relation "measure (\<lambda>(insp, pcap, buf). bytes_left pcap)") (auto dest!: pcap_read_progress)

declare readpcap_loop.simps [simp del]

definition run_readpcap :: "dns_insp \<Rightarrow> byte list \<Rightarrow> (int \<times> dns_insp) option" where
  "run_readpcap insp buf = do { pcap \<leftarrow> in_pcap insp; readpcap_loop insp pcap buf }"

function tracepcap_loop :: "pcap_file \<Rightarrow> byte list \<Rightarrow> pcap_file option" where
  "tracepcap_loop pcap buf = do {
     (pkt_len, buf', pcap') \<leftarrow> pcap_read pcap buf PKT_MAXSIZE;
     if 0 < pkt_len then tracepcap_loop pcap' buf' else Some pcap' }"
  by pat_completeness auto
termination
  by (relation "measure (\<lambda>(pcap, buf). bytes_left pcap)") (auto dest!: pcap_read_progress)

declare tracepcap_loop.simps [simp del]

definition run_tracepcap :: "dns_insp \<Rightarrow> byte list \<Rightarrow> (int \<times> dns_insp) option" where
  "run_tracepcap insp buf = do {
     pcap \<leftarrow> in_pcap insp;
     pcap' \<leftarrow> tracepcap_loop pcap buf;
     Some (0, insp\<lparr>in_pcap := Some pcap'\<rparr>) }"

end
