(* ===== verification/Cbpf.thy ===== *)
theory Cbpf
  imports Insp
begin

text \<open>
  The classic BPF program \<open>dns_filter\<close> of \<open>dns_insp.c\<close>, an interpreter for the instructions it uses, and the
  proof that the table computes the condition \<open>captured\<close>.
\<close>

section \<open>The classic BPF filter\<close>

text \<open>
  The instructions of classic BPF the filter uses, as the kernel's documentation of socket filters
  defines them: loads of a byte or a half word at a fixed or indexed position, the length of an IPv4
  header, two conditional jumps, return. A load outside the packet ends the program with 0. Jumps are
  forward only, so every program ends.
\<close>

record sock_filter =
  sf_code :: u16
  sf_jt :: nat
  sf_jf :: nat
  sf_k :: u32

definition ins :: "u16 \<Rightarrow> nat \<Rightarrow> nat \<Rightarrow> u32 \<Rightarrow> sock_filter" where
  "ins c jt jf k = \<lparr>sf_code = c, sf_jt = jt, sf_jf = jf, sf_k = k\<rparr>"

definition ldb :: "byte list \<Rightarrow> nat \<Rightarrow> u32 option" where
  "ldb pkt i = (if i < length pkt then Some (ucast (pkt ! i)) else None)"

definition ldh :: "byte list \<Rightarrow> nat \<Rightarrow> u32 option" where
  "ldh pkt i = map_option ucast (u16_dec pkt i)"

function cbpf :: "sock_filter list \<Rightarrow> byte list \<Rightarrow> nat \<Rightarrow> u32 \<Rightarrow> u32 \<Rightarrow> u32 option" where
  "cbpf prog pkt pc a x =
     (if pc \<ge> length prog then None
      else let i = prog ! pc; k = sf_k i
           in if sf_code i = 0x28 then (case ldh pkt (unat k) of None \<Rightarrow> Some 0 | Some v \<Rightarrow> cbpf prog pkt (pc + 1) v x)
              else if sf_code i = 0x30 then (case ldb pkt (unat k) of None \<Rightarrow> Some 0 | Some v \<Rightarrow> cbpf prog pkt (pc + 1) v x)
              else if sf_code i = 0x48 then (case ldh pkt (unat (x + k)) of None \<Rightarrow> Some 0 | Some v \<Rightarrow> cbpf prog pkt (pc + 1) v x)
              else if sf_code i = 0xb1 then (case ldb pkt (unat k) of None \<Rightarrow> Some 0 | Some v \<Rightarrow> cbpf prog pkt (pc + 1) a (4 * (v AND 0xf)))
              else if sf_code i = 0x15 then (if a = k then cbpf prog pkt (pc + 1 + sf_jt i) a x else cbpf prog pkt (pc + 1 + sf_jf i) a x)
              else if sf_code i = 0x45 then (if a AND k \<noteq> 0 then cbpf prog pkt (pc + 1 + sf_jt i) a x else cbpf prog pkt (pc + 1 + sf_jf i) a x)
              else if sf_code i = 0x06 then Some k
              else None)"
  by pat_completeness auto
termination
  by (relation "measure (\<lambda>(prog, pkt, pc, a, x). length prog - pc)") auto

declare cbpf.simps [simp del]

definition dns_filter :: "sock_filter list" where
  "dns_filter = [
    ins 0x28 0 0 0x0000000c,
    ins 0x15 0 6 0x000086dd,
    ins 0x30 0 0 0x00000014,
    ins 0x15 0 15 0x00000011,
    ins 0x28 0 0 0x00000036,
    ins 0x15 12 0 0x00000035,
    ins 0x28 0 0 0x00000038,
    ins 0x15 10 11 0x00000035,
    ins 0x15 0 10 0x00000800,
    ins 0x30 0 0 0x00000017,
    ins 0x15 0 8 0x00000011,
    ins 0x28 0 0 0x00000014,
    ins 0x45 6 0 0x00001fff,
    ins 0xb1 0 0 0x0000000e,
    ins 0x48 0 0 0x0000000e,
    ins 0x15 2 0 0x00000035,
    ins 0x48 0 0 0x00000010,
    ins 0x15 0 1 0x00000035,
    ins 0x6 0 0 0x00040000,
    ins 0x6 0 0 0x00000000]"

text \<open>
  The condition the filter computes: no tag, UDP, for IPv4 the first fragment, and port 53 on either
  side. The fields are read in the order of the program; a missing field is a refusal.
\<close>

definition port53 :: "byte list \<Rightarrow> nat \<Rightarrow> bool" where
  "port53 pkt i \<longleftrightarrow> u16_dec pkt i \<noteq> None \<and> (u16_dec pkt i = Some 53 \<or> u16_dec pkt (i + 2) = Some 53)"

definition captured :: "byte list \<Rightarrow> bool" where
  "captured pkt \<longleftrightarrow>
     u16_dec pkt 12 = Some ETH_P_IPV6 \<and> mem_get pkt 20 = Some IPPROTO_UDP \<and> port53 pkt 54 \<or>
     u16_dec pkt 12 = Some ETH_P_IP \<and> mem_get pkt 23 = Some IPPROTO_UDP \<and>
       (\<exists>v b. u16_dec pkt 20 = Some v \<and> v AND 0x1fff = 0 \<and> mem_get pkt 14 = Some b \<and> port53 pkt (14 + 4 * low4 b))"

lemma ldh_simps:
  "u16_dec pkt i = None \<Longrightarrow> ldh pkt i = None" "u16_dec pkt i = Some v \<Longrightarrow> ldh pkt i = Some (ucast v)"
  by (simp_all add: ldh_def)

lemma ldb_mem_get: "ldb pkt i = map_option ucast (mem_get pkt i)"
  by (simp add: ldb_def mem_get_def)

lemma unat_ucast_u16: "unat (ucast v :: u32) = unat v" for v :: u16
  using unat_u16_less [of v] by (simp add: unsigned_ucast_eq take_bit_eq_mod)

lemma ucast_u16_eq: "(ucast v :: u32) = ucast w \<longleftrightarrow> v = w" for v w :: u16
  by (metis unat_ucast_u16 word_unat_eq_iff)

lemma ucast_u8_eq: "(ucast v :: u32) = ucast w \<longleftrightarrow> v = w" for v w :: u8
  by (metis unat_ucast_u8_u32 word_unat_eq_iff)

lemma filter_consts:
  "(ucast (v :: u16) :: u32) = 0x35 \<longleftrightarrow> v = 53" "(ucast v :: u32) = 0x800 \<longleftrightarrow> v = ETH_P_IP"
  "(ucast v :: u32) = 0x86dd \<longleftrightarrow> v = ETH_P_IPV6" "(ucast (b :: byte) :: u32) = 0x11 \<longleftrightarrow> b = IPPROTO_UDP"
  using ucast_u16_eq [of v 53] ucast_u16_eq [of v "0x800"] ucast_u16_eq [of v "0x86dd"] ucast_u8_eq [of b 17]
  by (simp_all add: ETH_P_IP_def ETH_P_IPV6_def IPPROTO_UDP_def)

lemma frag_ucast: "(ucast (v :: u16) :: u32) AND 0x1fff = 0 \<longleftrightarrow> v AND 0x1fff = 0"
  using ucast_u16_eq [of "v AND 0x1fff" 0] by (simp add: unsigned_and_eq)

lemma ihl_ucast: "unat (4 * (ucast (b :: byte) AND 0xf) :: u32) = 4 * low4 b"
proof -
  have "(ucast b :: u32) AND 0xf = take_bit 4 (ucast b)" by (simp add: take_bit_eq_mask mask_eq_exp_minus_1)
  then have "unat ((ucast b :: u32) AND 0xf) = low4 b"
    by (simp add: take_bit_eq_mod unat_mod unat_ucast_u8_u32 low4_def)
  moreover have "low4 b < 16" by (simp add: low4_def)
  ultimately show ?thesis by (subst unat_mult_lem [THEN iffD1]) simp_all
qed


lemma filter_len: "length dns_filter = 20"
  by (simp add: dns_filter_def)

lemma filter_nth:
  "dns_filter ! 0 = \<lparr>sf_code = 0x28, sf_jt = 0, sf_jf = 0, sf_k = 0xc\<rparr>"
  "dns_filter ! (Suc 0) = \<lparr>sf_code = 0x15, sf_jt = 0, sf_jf = 6, sf_k = 0x86dd\<rparr>"
  "dns_filter ! 2 = \<lparr>sf_code = 0x30, sf_jt = 0, sf_jf = 0, sf_k = 0x14\<rparr>"
  "dns_filter ! 3 = \<lparr>sf_code = 0x15, sf_jt = 0, sf_jf = 15, sf_k = 0x11\<rparr>"
  "dns_filter ! 4 = \<lparr>sf_code = 0x28, sf_jt = 0, sf_jf = 0, sf_k = 0x36\<rparr>"
  "dns_filter ! 5 = \<lparr>sf_code = 0x15, sf_jt = 12, sf_jf = 0, sf_k = 0x35\<rparr>"
  "dns_filter ! 6 = \<lparr>sf_code = 0x28, sf_jt = 0, sf_jf = 0, sf_k = 0x38\<rparr>"
  "dns_filter ! 7 = \<lparr>sf_code = 0x15, sf_jt = 10, sf_jf = 11, sf_k = 0x35\<rparr>"
  "dns_filter ! 8 = \<lparr>sf_code = 0x15, sf_jt = 0, sf_jf = 10, sf_k = 0x800\<rparr>"
  "dns_filter ! 9 = \<lparr>sf_code = 0x30, sf_jt = 0, sf_jf = 0, sf_k = 0x17\<rparr>"
  "dns_filter ! 10 = \<lparr>sf_code = 0x15, sf_jt = 0, sf_jf = 8, sf_k = 0x11\<rparr>"
  "dns_filter ! 11 = \<lparr>sf_code = 0x28, sf_jt = 0, sf_jf = 0, sf_k = 0x14\<rparr>"
  "dns_filter ! 12 = \<lparr>sf_code = 0x45, sf_jt = 6, sf_jf = 0, sf_k = 0x1fff\<rparr>"
  "dns_filter ! 13 = \<lparr>sf_code = 0xb1, sf_jt = 0, sf_jf = 0, sf_k = 0xe\<rparr>"
  "dns_filter ! 14 = \<lparr>sf_code = 0x48, sf_jt = 0, sf_jf = 0, sf_k = 0xe\<rparr>"
  "dns_filter ! 15 = \<lparr>sf_code = 0x15, sf_jt = 2, sf_jf = 0, sf_k = 0x35\<rparr>"
  "dns_filter ! 16 = \<lparr>sf_code = 0x48, sf_jt = 0, sf_jf = 0, sf_k = 0x10\<rparr>"
  "dns_filter ! 17 = \<lparr>sf_code = 0x15, sf_jt = 0, sf_jf = 1, sf_k = 0x35\<rparr>"
  "dns_filter ! 18 = \<lparr>sf_code = 0x6, sf_jt = 0, sf_jf = 0, sf_k = 0x40000\<rparr>"
  "dns_filter ! 19 = \<lparr>sf_code = 0x6, sf_jt = 0, sf_jf = 0, sf_k = 0x0\<rparr>"
  by (simp_all add: dns_filter_def ins_def)

text \<open>The program, instruction by instruction.\<close>

lemma filter_steps:
  "cbpf dns_filter pkt 0 a x = (case ldh pkt 12 of None \<Rightarrow> Some 0 | Some v \<Rightarrow> cbpf dns_filter pkt (Suc 0) v x)"
  "cbpf dns_filter pkt (Suc 0) a x = (if a = 0x86dd then cbpf dns_filter pkt 2 a x else cbpf dns_filter pkt 8 a x)"
  "cbpf dns_filter pkt 2 a x = (case ldb pkt 20 of None \<Rightarrow> Some 0 | Some v \<Rightarrow> cbpf dns_filter pkt 3 v x)"
  "cbpf dns_filter pkt 3 a x = (if a = 0x11 then cbpf dns_filter pkt 4 a x else cbpf dns_filter pkt 19 a x)"
  "cbpf dns_filter pkt 4 a x = (case ldh pkt 54 of None \<Rightarrow> Some 0 | Some v \<Rightarrow> cbpf dns_filter pkt 5 v x)"
  "cbpf dns_filter pkt 5 a x = (if a = 0x35 then cbpf dns_filter pkt 18 a x else cbpf dns_filter pkt 6 a x)"
  "cbpf dns_filter pkt 6 a x = (case ldh pkt 56 of None \<Rightarrow> Some 0 | Some v \<Rightarrow> cbpf dns_filter pkt 7 v x)"
  "cbpf dns_filter pkt 7 a x = (if a = 0x35 then cbpf dns_filter pkt 18 a x else cbpf dns_filter pkt 19 a x)"
  "cbpf dns_filter pkt 8 a x = (if a = 0x800 then cbpf dns_filter pkt 9 a x else cbpf dns_filter pkt 19 a x)"
  "cbpf dns_filter pkt 9 a x = (case ldb pkt 23 of None \<Rightarrow> Some 0 | Some v \<Rightarrow> cbpf dns_filter pkt 10 v x)"
  "cbpf dns_filter pkt 10 a x = (if a = 0x11 then cbpf dns_filter pkt 11 a x else cbpf dns_filter pkt 19 a x)"
  "cbpf dns_filter pkt 11 a x = (case ldh pkt 20 of None \<Rightarrow> Some 0 | Some v \<Rightarrow> cbpf dns_filter pkt 12 v x)"
  "cbpf dns_filter pkt 12 a x = (if a AND 0x1fff \<noteq> 0 then cbpf dns_filter pkt 19 a x else cbpf dns_filter pkt 13 a x)"
  "cbpf dns_filter pkt 13 a x = (case ldb pkt 14 of None \<Rightarrow> Some 0 | Some v \<Rightarrow> cbpf dns_filter pkt 14 a (4 * (v AND 0xf)))"
  "cbpf dns_filter pkt 14 a x = (case ldh pkt (unat (x + 14)) of None \<Rightarrow> Some 0 | Some v \<Rightarrow> cbpf dns_filter pkt 15 v x)"
  "cbpf dns_filter pkt 15 a x = (if a = 0x35 then cbpf dns_filter pkt 18 a x else cbpf dns_filter pkt 16 a x)"
  "cbpf dns_filter pkt 16 a x = (case ldh pkt (unat (x + 16)) of None \<Rightarrow> Some 0 | Some v \<Rightarrow> cbpf dns_filter pkt 17 v x)"
  "cbpf dns_filter pkt 17 a x = (if a = 0x35 then cbpf dns_filter pkt 18 a x else cbpf dns_filter pkt 19 a x)"
  "cbpf dns_filter pkt 18 a x = Some 0x40000"
  "cbpf dns_filter pkt 19 a x = Some 0"
  subgoal by (subst cbpf.simps) (simp add: filter_nth filter_len Let_def cong: option.case_cong)
  subgoal by (subst cbpf.simps, simp add: filter_nth filter_len Let_def, simp add: numeral_2_eq_2)
  subgoal by (subst cbpf.simps) (simp add: filter_nth filter_len Let_def cong: option.case_cong)
  subgoal by (subst cbpf.simps) (simp add: filter_nth filter_len Let_def cong: option.case_cong)
  subgoal by (subst cbpf.simps) (simp add: filter_nth filter_len Let_def cong: option.case_cong)
  subgoal by (subst cbpf.simps) (simp add: filter_nth filter_len Let_def cong: option.case_cong)
  subgoal by (subst cbpf.simps) (simp add: filter_nth filter_len Let_def cong: option.case_cong)
  subgoal by (subst cbpf.simps) (simp add: filter_nth filter_len Let_def cong: option.case_cong)
  subgoal by (subst cbpf.simps) (simp add: filter_nth filter_len Let_def cong: option.case_cong)
  subgoal by (subst cbpf.simps) (simp add: filter_nth filter_len Let_def cong: option.case_cong)
  subgoal by (subst cbpf.simps) (simp add: filter_nth filter_len Let_def cong: option.case_cong)
  subgoal by (subst cbpf.simps) (simp add: filter_nth filter_len Let_def cong: option.case_cong)
  subgoal by (subst cbpf.simps) (simp add: filter_nth filter_len Let_def cong: option.case_cong)
  subgoal by (subst cbpf.simps) (simp add: filter_nth filter_len Let_def cong: option.case_cong)
  subgoal by (subst cbpf.simps) (simp add: filter_nth filter_len Let_def cong: option.case_cong)
  subgoal by (subst cbpf.simps) (simp add: filter_nth filter_len Let_def cong: option.case_cong)
  subgoal by (subst cbpf.simps) (simp add: filter_nth filter_len Let_def cong: option.case_cong)
  subgoal by (subst cbpf.simps) (simp add: filter_nth filter_len Let_def cong: option.case_cong)
  subgoal by (subst cbpf.simps) (simp add: filter_nth filter_len Let_def cong: option.case_cong)
  subgoal by (subst cbpf.simps) (simp add: filter_nth filter_len Let_def cong: option.case_cong)
  done


lemma ip6_ports:
  "cbpf dns_filter pkt 4 a x = Some (if port53 pkt 54 then 0x40000 else 0)"
proof -
  have 6: "cbpf dns_filter pkt 6 b x = Some (if u16_dec pkt 56 = Some 53 then 0x40000 else 0)" for b
    by (cases "u16_dec pkt 56") (simp_all add: filter_steps ldh_simps filter_consts)
  show ?thesis
    by (cases "u16_dec pkt 54") (simp_all add: filter_steps(5,6,19) 6 ldh_simps filter_consts port53_def)
qed

lemma ip4_ports:
  assumes "unat x = n" and "n < 2 ^ 16"
  shows "cbpf dns_filter pkt 14 a x = Some (if port53 pkt (14 + n) then 0x40000 else 0)"
proof -
  have o: "unat (x + 14) = 14 + n" "unat (x + 16) = 14 + n + 2"
    using assms by (simp_all add: unat_plus_if' )
  have 16: "cbpf dns_filter pkt 16 b x = Some (if u16_dec pkt (14 + n + 2) = Some 53 then 0x40000 else 0)" for b
    by (cases "u16_dec pkt (14 + n + 2)") (simp_all add: filter_steps o ldh_simps filter_consts)
  show ?thesis
    by (cases "u16_dec pkt (14 + n)") (simp_all add: filter_steps(15,16,19) 16 o ldh_simps filter_consts port53_def)
qed

lemma ip4_part:
  "cbpf dns_filter pkt 9 a x = Some (if mem_get pkt 23 = Some IPPROTO_UDP \<and> (\<exists>v b. u16_dec pkt 20 = Some v \<and> v AND 0x1fff = 0 \<and>
     mem_get pkt 14 = Some b \<and> port53 pkt (14 + 4 * low4 b)) then 0x40000 else 0)"
proof -
  have 13: "cbpf dns_filter pkt 13 b x = Some (if \<exists>b. mem_get pkt 14 = Some b \<and> port53 pkt (14 + 4 * low4 b) then 0x40000 else 0)" for b
  proof (cases "mem_get pkt 14")
    case None
    then show ?thesis by (simp add: filter_steps(14) ldb_mem_get)
  next
    case (Some c)
    have "low4 c < 16" by (simp add: low4_def)
    then show ?thesis using Some ip4_ports [OF ihl_ucast [of c]] by (simp add: filter_steps(14) ldb_mem_get)
  qed
  have 11: "cbpf dns_filter pkt 11 b x = Some (if \<exists>v b. u16_dec pkt 20 = Some v \<and> v AND 0x1fff = 0 \<and>
     mem_get pkt 14 = Some b \<and> port53 pkt (14 + 4 * low4 b) then 0x40000 else 0)" for b
    by (cases "u16_dec pkt 20") (auto simp: filter_steps(12,13,20) 13 ldh_simps frag_ucast)
  show ?thesis
    by (cases "mem_get pkt 23") (simp_all add: filter_steps(10,11,20) 11 ldb_mem_get filter_consts)
qed

lemma cbpf_exact: "cbpf dns_filter pkt 0 a x = Some (if captured pkt then 0x40000 else 0)"
proof -
  have ne: "ETH_P_IP \<noteq> ETH_P_IPV6" by (simp add: ETH_P_IP_def ETH_P_IPV6_def)
  have 2: "cbpf dns_filter pkt 2 b x = Some (if mem_get pkt 20 = Some IPPROTO_UDP \<and> port53 pkt 54 then 0x40000 else 0)" for b
    by (cases "mem_get pkt 20") (simp_all add: filter_steps(3,4,20) ip6_ports ldb_mem_get filter_consts)
  show ?thesis
  proof (cases "u16_dec pkt 12")
    case None
    then show ?thesis by (simp add: filter_steps(1) ldh_simps captured_def)
  next
    case (Some t)
    consider "t = ETH_P_IPV6" | "t = ETH_P_IP" | "t \<noteq> ETH_P_IP" "t \<noteq> ETH_P_IPV6" by blast
    then show ?thesis
      by cases (simp_all add: Some filter_steps(1,2,9,20) ldh_simps filter_consts captured_def 2 ip4_part ne ne [symmetric])
  qed
qed

text \<open>C19. The classic BPF program attached to the raw and mmap sockets, run on any packet and from any content of
  the two registers, ends and accepts (with a snap length of 0x40000) exactly the packets that satisfy
  \<open>captured\<close>: untagged IPv6 whose next header is UDP, or untagged IPv4 whose protocol is UDP and which is not
  a later fragment, with port 53 as source or destination.\<close>

theorem cbpf_filter_exact: "cbpf dns_filter pkt 0 a x = Some (if captured pkt then 0x40000 else 0)"
  by (rule cbpf_exact)

end
