(* ===== verification/Ebpf.thy ===== *)
theory Ebpf
  imports Cbpf
begin

text \<open>
  The XDP filter twice: the C source \<open>ebpf/filter.c\<close> and the bytecode table \<open>bpf_filter\<close> of \<open>dns_insp.c\<close> that the loader
  patches and sends to the kernel, with an interpreter for the instructions the table uses.
  The bytecode refines the source.
\<close>

section \<open>The eBPF filter: source\<close>

definition XDP_DROP :: int where "XDP_DROP = 1"

text \<open>
  \<open>dns_insp\<close> of \<open>ebpf/filter.c\<close>. \<open>redirect\<close> is the kernel's \<open>bpf_redirect_map\<close>, a parameter, with the map,
  the queue index and the flags; its result is truncated to \<open>int\<close>. A pointer into the packet is an
  offset from \<open>ctx->data\<close>, \<open>ctx->data_end\<close> is the length. The result of the address layer is \<open>Inl\<close> of a
  verdict or \<open>Inr\<close> of the pointer \<open>udp\<close>, \<open>None\<close> for \<open>NULL\<close>.
\<close>

type_synonym redirect = "int \<Rightarrow> u64 \<Rightarrow> u64 \<Rightarrow> u64"

definition xdp_ip_layer :: "byte list \<Rightarrow> u16 \<Rightarrow> (int + nat option) option" where
  "xdp_ip_layer pkt h_proto =
     (if h_proto = ETH_P_IP then
        if 14 + 20 > length pkt then Some (Inl XDP_DROP)
        else do {
          b0 \<leftarrow> mem_get pkt 14;
          if low4 b0 < 5 then Some (Inl XDP_DROP)
          else if 14 + low4 b0 * 4 > length pkt then Some (Inl XDP_DROP)
          else do {
            protocol \<leftarrow> mem_get pkt (14 + 9);
            Some (Inr (if protocol = IPPROTO_UDP then Some (14 + low4 b0 * 4) else None)) } }
      else if h_proto = ETH_P_IPV6 then
        if 14 + 40 > length pkt then Some (Inl XDP_DROP)
        else do {
          nexthdr \<leftarrow> mem_get pkt (14 + 6);
          Some (Inr (if nexthdr = IPPROTO_UDP then Some (14 + 40) else None)) }
      else Some (Inr None))"

definition xdp_dns_insp :: "redirect \<Rightarrow> int \<Rightarrow> u32 \<Rightarrow> byte list \<Rightarrow> int option" where
  "xdp_dns_insp redirect xsk_map rx_queue_index pkt =
     (if 14 > length pkt then Some XDP_DROP
      else do {
        h_proto \<leftarrow> u16_dec pkt 12;
        r \<leftarrow> xdp_ip_layer pkt h_proto;
        case r of
          Inl verdict \<Rightarrow> Some verdict
        | Inr None \<Rightarrow> Some XDP_DROP
        | Inr (Some udp) \<Rightarrow>
            if udp + 8 \<le> length pkt then do {
              dest \<leftarrow> u16_dec pkt (udp + 2);
              source \<leftarrow> u16_dec pkt udp;
              if dest = 53 \<or> source = 53
              then Some (sint (ucast (redirect xsk_map (ucast rx_queue_index) (word_of_int XDP_DROP)) :: u32))
              else Some XDP_DROP }
            else Some XDP_DROP })"

section \<open>The eBPF filter: bytecode\<close>

text \<open>
  The program of \<open>dns_insp.c\<close> as the loader sends it, and the part of the eBPF instruction set it uses.
  Registers hold typed values, as the kernel's verifier sees them: numbers, pointers into the packet
  (offsets), the context, the map. A packet load outside the packet, an instruction with operands of
  the wrong type and a jump out of the program are errors (\<open>None\<close>). The encoding is the documented one:
  opcode, two register numbers, a signed 16-bit offset and a signed 32-bit immediate.
\<close>

definition bpf_filter :: "u64 list" where
  "bpf_filter = [
    0x0000000000041361,
    0x0000000000001061,
    0x00000000000002bf,
    0x0000000e00000207,
    0x00000000000623ad,
    0x00000000000d0571,
    0x0000000800000567,
    0x00000000000c0471,
    0x000000000000454f,
    0x0000000800030516,
    0x0000dd86001e0516,
    0x00000001000000b7,
    0x0000000000000095,
    0x00000000000002bf,
    0x0000002200000207,
    0x00000000fffb23ad,
    0x00000000000e0461,
    0x0000000f00000457,
    0x00000004fff804b6,
    0x0000000200000467,
    0x0000000e00000407,
    0x00000000000005bf,
    0x000000000000450f,
    0x00000000fff353ad,
    0x0000000000170071,
    0x00000011fff10055,
    0x00000000000052bf,
    0x0000000800000207,
    0x00000000ffee23ad,
    0x0000000000025369,
    0x0000350000020315,
    0x0000000000005569,
    0x00003500ffea0555,
    0x00000001000003b7,
    0x0000000000101261,
    0x0000000000000118,
    0x0000000000000000,
    0x0000003300000085,
    0x0000002000000067,
    0x00000020000000c7,
    0x0000000000000095,
    0x00000000000005bf,
    0x0000003600000507,
    0x00000000ffdf53ad,
    0x0000000000140071,
    0x00000011ffdd0055,
    0x00000000ffeb0005]"

text \<open>\<open>bpf_patch_map\<close>: every \<open>lddw\<close> gets the map's descriptor; the second half of the
  instruction is skipped. \<open>map_fd\<close> is an \<open>int\<close>, here its 32 bits; the conversion to \<open>uint64_t\<close> extends its sign.\<close>

definition patch_insn :: "u32 \<Rightarrow> u64 \<Rightarrow> u64" where
  "patch_insn map_fd insn = ((insn OR push_bit 12 1) AND 0x00000000FFFFFFFF) OR push_bit 32 (scast map_fd)"

fun bpf_patch_map :: "u32 \<Rightarrow> u64 list \<Rightarrow> bool \<times> u64 list" where
  "bpf_patch_map map_fd [] = (False, [])"
| "bpf_patch_map map_fd (insn # bpf) =
     (if insn AND 0xFF \<noteq> 0x18 then (case bpf_patch_map map_fd bpf of (p, bpf') \<Rightarrow> (p, insn # bpf'))
      else case bpf of
        [] \<Rightarrow> (True, [patch_insn map_fd insn])
      | hi # bpf1 \<Rightarrow> (case bpf_patch_map map_fd bpf1 of (p, bpf2) \<Rightarrow> (True, patch_insn map_fd insn # hi # bpf2)))"

record insn =
  in_op :: nat
  in_dst :: nat
  in_src :: nat
  in_off :: int
  in_imm :: int

definition decode_insn :: "u64 \<Rightarrow> insn" where
  "decode_insn w = \<lparr>in_op = unat (w AND 0xff), in_dst = unat (drop_bit 8 w AND 0xf), in_src = unat (drop_bit 12 w AND 0xf),
     in_off = sint (ucast (drop_bit 16 w) :: u16), in_imm = sint (ucast (drop_bit 32 w) :: u32)\<rparr>"

datatype bval = Num u64 | Pkt nat | Ctx | MapRef int

text \<open>Little-endian loads of 1, 2 and 4 bytes of the packet, and the fields of the context.\<close>

definition ld_pkt :: "nat \<Rightarrow> byte list \<Rightarrow> int \<Rightarrow> u64 option" where
  "ld_pkt sz pkt a =
     (if a < 0 \<or> length pkt < nat a + sz then None
      else if sz = 1 then Some (ucast (pkt ! nat a))
      else if sz = 2 then Some (push_bit 8 (ucast (pkt ! (nat a + 1))) OR ucast (pkt ! nat a))
      else Some (ucast (ld32 pkt (nat a))))"

definition ld_ctx :: "byte list \<Rightarrow> u32 \<Rightarrow> int \<Rightarrow> bval option" where
  "ld_ctx pkt queue off =
     (if off = 0 then Some (Pkt 0) else if off = 4 then Some (Pkt (length pkt)) else if off = 16 then Some (Num (ucast queue)) else None)"

definition ld_val :: "nat \<Rightarrow> byte list \<Rightarrow> u32 \<Rightarrow> bval \<Rightarrow> int \<Rightarrow> bval option" where
  "ld_val sz pkt queue base off =
     (case base of
        Pkt p \<Rightarrow> map_option Num (ld_pkt sz pkt (int p + off))
      | Ctx \<Rightarrow> if sz = 4 then ld_ctx pkt queue off else None
      | _ \<Rightarrow> None)"

definition add_val :: "bval \<Rightarrow> u64 \<Rightarrow> bval option" where
  "add_val v n = (case v of Num m \<Rightarrow> Some (Num (m + n)) | Pkt p \<Rightarrow> Some (Pkt (p + unat n)) | _ \<Rightarrow> None)"

fun num_of :: "bval \<Rightarrow> u64 option" where
  "num_of (Num n) = Some n"
| "num_of v = None"

fun less_val :: "bval \<Rightarrow> bval \<Rightarrow> bool option" where
  "less_val (Num m) (Num n) = Some (m < n)"
| "less_val (Pkt p) (Pkt q) = Some (p < q)"
| "less_val v w = None"

text \<open>
  One instruction: the registers and the next position, or \<open>Inl\<close> of the value returned. The program
  holds no other opcodes.
\<close>

type_synonym regs = "nat \<Rightarrow> bval"

definition jump :: "bool \<Rightarrow> nat \<Rightarrow> insn \<Rightarrow> nat" where
  "jump taken pc i = nat (int pc + 1 + (if taken then in_off i else 0))"

definition exec_insn :: "redirect \<Rightarrow> byte list \<Rightarrow> u32 \<Rightarrow> insn \<Rightarrow> nat \<Rightarrow> regs \<Rightarrow> (bval + nat \<times> regs) option" where
  "exec_insn redirect pkt queue i pc r =
     (let d = r (in_dst i); s = r (in_src i); imm = word_of_int (in_imm i);
          set = (\<lambda>v. Inr (pc + 1, r(in_dst i := v)));
          alu = (\<lambda>f. do { n \<leftarrow> num_of d; Some (set (Num (f n))) });
          br = (\<lambda>c. do { b \<leftarrow> c; Some (Inr (jump b pc i, r)) });
          cmp = (\<lambda>p. do { n \<leftarrow> num_of d; Some (p n) })
      in if in_op i = 0x61 then map_option set (ld_val 4 pkt queue s (in_off i))
         else if in_op i = 0x69 then map_option set (ld_val 2 pkt queue s (in_off i))
         else if in_op i = 0x71 then map_option set (ld_val 1 pkt queue s (in_off i))
         else if in_op i = 0xbf then Some (set s)
         else if in_op i = 0xb7 then Some (set (Num imm))
         else if in_op i = 0x07 then map_option set (add_val d imm)
         else if in_op i = 0x0f then do { n \<leftarrow> num_of s; map_option set (add_val d n) }
         else if in_op i = 0x67 then alu (\<lambda>n. push_bit (nat (in_imm i)) n)
         else if in_op i = 0xc7 then alu (\<lambda>n. signed_drop_bit (nat (in_imm i)) n)
         else if in_op i = 0x57 then alu (\<lambda>n. n AND imm)
         else if in_op i = 0x4f then do { m \<leftarrow> num_of s; alu (\<lambda>n. n OR m) }
         else if in_op i = 0x05 then Some (Inr (jump True pc i, r))
         else if in_op i = 0xad then br (less_val d s)
         else if in_op i = 0x15 then br (cmp (\<lambda>n. n = imm))
         else if in_op i = 0x55 then br (cmp (\<lambda>n. n \<noteq> imm))
         else if in_op i = 0x16 then br (cmp (\<lambda>n. (ucast n :: u32) = word_of_int (in_imm i)))
         else if in_op i = 0xb6 then br (cmp (\<lambda>n. (ucast n :: u32) \<le> word_of_int (in_imm i)))
         else if in_op i = 0x18 then Some (Inr (pc + 2, r(in_dst i := (if in_src i = 1 then MapRef (in_imm i) else Num imm))))
         else if in_op i = 0x85 then
           (case (r 1, r 2, r 3) of
              (MapRef m, Num k, Num f) \<Rightarrow> if in_imm i = 51 then Some (Inr (pc + 1, r(0 := Num (redirect m k f)))) else None
            | _ \<Rightarrow> None)
         else if in_op i = 0x95 then Some (Inl (r 0))
         else None)"

fun ebpf_run :: "nat \<Rightarrow> redirect \<Rightarrow> byte list \<Rightarrow> u32 \<Rightarrow> u64 list \<Rightarrow> nat \<Rightarrow> regs \<Rightarrow> bval option" where
  "ebpf_run 0 redirect pkt queue prog pc r = None"
| "ebpf_run (Suc fuel) redirect pkt queue prog pc r =
     (if pc < length prog then
        do {
          st \<leftarrow> exec_insn redirect pkt queue (decode_insn (prog ! pc)) pc r;
          case st of Inl v \<Rightarrow> Some v | Inr (pc', r') \<Rightarrow> ebpf_run fuel redirect pkt queue prog pc' r' }
      else None)"

definition start_regs :: regs where
  "start_regs = (\<lambda>i. if i = 1 then Ctx else Num 0)"


section \<open>The bytecode implements the source\<close>

lemma filter_words_len: "length bpf_filter = 47"
  by (simp add: bpf_filter_def)

lemma filter_insns:
  "decode_insn (bpf_filter ! 0) = \<lparr>in_op = 0x61, in_dst = 3, in_src = 1, in_off = 4, in_imm = 0\<rparr>"
  "decode_insn (bpf_filter ! 1) = \<lparr>in_op = 0x61, in_dst = 0, in_src = 1, in_off = 0, in_imm = 0\<rparr>"
  "decode_insn (bpf_filter ! 2) = \<lparr>in_op = 0xbf, in_dst = 2, in_src = 0, in_off = 0, in_imm = 0\<rparr>"
  "decode_insn (bpf_filter ! 3) = \<lparr>in_op = 0x7, in_dst = 2, in_src = 0, in_off = 0, in_imm = 14\<rparr>"
  "decode_insn (bpf_filter ! 4) = \<lparr>in_op = 0xad, in_dst = 3, in_src = 2, in_off = 6, in_imm = 0\<rparr>"
  "decode_insn (bpf_filter ! 5) = \<lparr>in_op = 0x71, in_dst = 5, in_src = 0, in_off = 13, in_imm = 0\<rparr>"
  "decode_insn (bpf_filter ! 6) = \<lparr>in_op = 0x67, in_dst = 5, in_src = 0, in_off = 0, in_imm = 8\<rparr>"
  "decode_insn (bpf_filter ! 7) = \<lparr>in_op = 0x71, in_dst = 4, in_src = 0, in_off = 12, in_imm = 0\<rparr>"
  "decode_insn (bpf_filter ! 8) = \<lparr>in_op = 0x4f, in_dst = 5, in_src = 4, in_off = 0, in_imm = 0\<rparr>"
  "decode_insn (bpf_filter ! 9) = \<lparr>in_op = 0x16, in_dst = 5, in_src = 0, in_off = 3, in_imm = 8\<rparr>"
  "decode_insn (bpf_filter ! 10) = \<lparr>in_op = 0x16, in_dst = 5, in_src = 0, in_off = 30, in_imm = 56710\<rparr>"
  "decode_insn (bpf_filter ! 11) = \<lparr>in_op = 0xb7, in_dst = 0, in_src = 0, in_off = 0, in_imm = 1\<rparr>"
  "decode_insn (bpf_filter ! 12) = \<lparr>in_op = 0x95, in_dst = 0, in_src = 0, in_off = 0, in_imm = 0\<rparr>"
  "decode_insn (bpf_filter ! 13) = \<lparr>in_op = 0xbf, in_dst = 2, in_src = 0, in_off = 0, in_imm = 0\<rparr>"
  "decode_insn (bpf_filter ! 14) = \<lparr>in_op = 0x7, in_dst = 2, in_src = 0, in_off = 0, in_imm = 34\<rparr>"
  "decode_insn (bpf_filter ! 15) = \<lparr>in_op = 0xad, in_dst = 3, in_src = 2, in_off = -5, in_imm = 0\<rparr>"
  "decode_insn (bpf_filter ! 16) = \<lparr>in_op = 0x61, in_dst = 4, in_src = 0, in_off = 14, in_imm = 0\<rparr>"
  "decode_insn (bpf_filter ! 17) = \<lparr>in_op = 0x57, in_dst = 4, in_src = 0, in_off = 0, in_imm = 15\<rparr>"
  "decode_insn (bpf_filter ! 18) = \<lparr>in_op = 0xb6, in_dst = 4, in_src = 0, in_off = -8, in_imm = 4\<rparr>"
  "decode_insn (bpf_filter ! 19) = \<lparr>in_op = 0x67, in_dst = 4, in_src = 0, in_off = 0, in_imm = 2\<rparr>"
  "decode_insn (bpf_filter ! 20) = \<lparr>in_op = 0x7, in_dst = 4, in_src = 0, in_off = 0, in_imm = 14\<rparr>"
  "decode_insn (bpf_filter ! 21) = \<lparr>in_op = 0xbf, in_dst = 5, in_src = 0, in_off = 0, in_imm = 0\<rparr>"
  "decode_insn (bpf_filter ! 22) = \<lparr>in_op = 0xf, in_dst = 5, in_src = 4, in_off = 0, in_imm = 0\<rparr>"
  "decode_insn (bpf_filter ! 23) = \<lparr>in_op = 0xad, in_dst = 3, in_src = 5, in_off = -13, in_imm = 0\<rparr>"
  "decode_insn (bpf_filter ! 24) = \<lparr>in_op = 0x71, in_dst = 0, in_src = 0, in_off = 23, in_imm = 0\<rparr>"
  "decode_insn (bpf_filter ! 25) = \<lparr>in_op = 0x55, in_dst = 0, in_src = 0, in_off = -15, in_imm = 17\<rparr>"
  "decode_insn (bpf_filter ! 26) = \<lparr>in_op = 0xbf, in_dst = 2, in_src = 5, in_off = 0, in_imm = 0\<rparr>"
  "decode_insn (bpf_filter ! 27) = \<lparr>in_op = 0x7, in_dst = 2, in_src = 0, in_off = 0, in_imm = 8\<rparr>"
  "decode_insn (bpf_filter ! 28) = \<lparr>in_op = 0xad, in_dst = 3, in_src = 2, in_off = -18, in_imm = 0\<rparr>"
  "decode_insn (bpf_filter ! 29) = \<lparr>in_op = 0x69, in_dst = 3, in_src = 5, in_off = 2, in_imm = 0\<rparr>"
  "decode_insn (bpf_filter ! 30) = \<lparr>in_op = 0x15, in_dst = 3, in_src = 0, in_off = 2, in_imm = 13568\<rparr>"
  "decode_insn (bpf_filter ! 31) = \<lparr>in_op = 0x69, in_dst = 5, in_src = 5, in_off = 0, in_imm = 0\<rparr>"
  "decode_insn (bpf_filter ! 32) = \<lparr>in_op = 0x55, in_dst = 5, in_src = 0, in_off = -22, in_imm = 13568\<rparr>"
  "decode_insn (bpf_filter ! 33) = \<lparr>in_op = 0xb7, in_dst = 3, in_src = 0, in_off = 0, in_imm = 1\<rparr>"
  "decode_insn (bpf_filter ! 34) = \<lparr>in_op = 0x61, in_dst = 2, in_src = 1, in_off = 16, in_imm = 0\<rparr>"
  "decode_insn (bpf_filter ! 37) = \<lparr>in_op = 0x85, in_dst = 0, in_src = 0, in_off = 0, in_imm = 51\<rparr>"
  "decode_insn (bpf_filter ! 38) = \<lparr>in_op = 0x67, in_dst = 0, in_src = 0, in_off = 0, in_imm = 32\<rparr>"
  "decode_insn (bpf_filter ! 39) = \<lparr>in_op = 0xc7, in_dst = 0, in_src = 0, in_off = 0, in_imm = 32\<rparr>"
  "decode_insn (bpf_filter ! 40) = \<lparr>in_op = 0x95, in_dst = 0, in_src = 0, in_off = 0, in_imm = 0\<rparr>"
  "decode_insn (bpf_filter ! 41) = \<lparr>in_op = 0xbf, in_dst = 5, in_src = 0, in_off = 0, in_imm = 0\<rparr>"
  "decode_insn (bpf_filter ! 42) = \<lparr>in_op = 0x7, in_dst = 5, in_src = 0, in_off = 0, in_imm = 54\<rparr>"
  "decode_insn (bpf_filter ! 43) = \<lparr>in_op = 0xad, in_dst = 3, in_src = 5, in_off = -33, in_imm = 0\<rparr>"
  "decode_insn (bpf_filter ! 44) = \<lparr>in_op = 0x71, in_dst = 0, in_src = 0, in_off = 20, in_imm = 0\<rparr>"
  "decode_insn (bpf_filter ! 45) = \<lparr>in_op = 0x55, in_dst = 0, in_src = 0, in_off = -35, in_imm = 17\<rparr>"
  "decode_insn (bpf_filter ! 46) = \<lparr>in_op = 0x5, in_dst = 0, in_src = 0, in_off = -21, in_imm = 0\<rparr>"
  by (simp_all add: bpf_filter_def decode_insn_def)

definition loaded :: "u32 \<Rightarrow> u64 list" where
  "loaded fd = bpf_filter[35 := patch_insn fd 0x118]"

lemma patch_filter: "bpf_patch_map fd bpf_filter = (True, loaded fd)"
  by (simp add: loaded_def bpf_filter_def)

lemma patched_word: "patch_insn fd 0x118 = 0x1118 OR push_bit 32 (scast fd)"
  by (simp add: patch_insn_def)

lemma bits_1118: "bit (0x1118 :: u64) n \<longleftrightarrow> n \<in> {3, 4, 8, 12}"
proof -
  have "(0x1118 :: u64) = push_bit 3 1 OR push_bit 4 1 OR push_bit 8 1 OR push_bit 12 1" by (simp add: push_bit_eq_mult)
  then show ?thesis by (simp only: bit_or_iff bit_push_bit_iff bit_1_iff) auto
qed

lemma decode_patched:
  "decode_insn (patch_insn fd 0x118) = \<lparr>in_op = 0x18, in_dst = 1, in_src = 1, in_off = 0, in_imm = sint fd\<rparr>"
proof -
  let ?w = "0x1118 OR push_bit 32 (scast fd) :: u64"
  have m: "?w AND mask n = 0x1118 AND mask n" if "n \<le> 32" for n
    using that by (intro bit_word_eqI) (auto simp: bit_simps)
  have d: "drop_bit k ?w AND mask n = drop_bit k 0x1118 AND mask n" if "k + n \<le> 32" for k n
    using that by (intro bit_word_eqI) (auto simp: bit_simps)
  have low: "?w AND 0xff = 0x18" "drop_bit 8 ?w AND 0xf = 1" "drop_bit 12 ?w AND 0xf = 1"
    using m [of 8] d [of 8 4] d [of 12 4] by (simp_all add: mask_eq_exp_minus_1)
  have off: "ucast (drop_bit 16 ?w) = (0 :: u16)"
    by (rule bit_word_eqI) (auto simp: bit_simps bits_1118)
  have imm: "ucast (drop_bit 32 ?w) = fd"
    by (rule bit_word_eqI) (auto simp: bit_simps bits_1118 not_le)
  show ?thesis unfolding patched_word decode_insn_def low off imm by simp
qed

lemma loaded_len: "length (loaded fd) = 47"
  by (simp add: loaded_def filter_words_len)

lemma loaded_nth: "i \<noteq> 35 \<Longrightarrow> loaded fd ! i = bpf_filter ! i"
  "decode_insn (loaded fd ! 35) = \<lparr>in_op = 0x18, in_dst = 1, in_src = 1, in_off = 0, in_imm = sint fd\<rparr>"
  using decode_patched by (simp_all add: loaded_def filter_words_len)

lemma run_plus: "ebpf_run (numeral k + n) red pkt q (loaded fd) pc r =
    (if pc < 47 then do {
       st \<leftarrow> exec_insn red pkt q (decode_insn (loaded fd ! pc)) pc r;
       case st of Inl v \<Rightarrow> Some v | Inr (pc', r') \<Rightarrow> ebpf_run (pred_numeral k + n) red pkt q (loaded fd) pc' r' }
     else None)"
  by (simp only: numeral_eq_Suc [of k] add_Suc ebpf_run.simps loaded_len)

lemmas run_simps = run_plus loaded_len loaded_nth filter_insns exec_insn_def Let_def jump_def add_val_def ld_val_def

lemma run_drop: "ebpf_run (2 + n) red pkt q (loaded fd) 11 r = Some (Num 1)"
  by (simp add: run_simps)

text \<open>Two bytes as one number, in the order of the host and in that of the network.\<close>

lemma pair_bytes:
  "ucast (push_bit 8 (ucast b) OR ucast a :: u64) = (a :: byte)" "ucast (drop_bit 8 (push_bit 8 (ucast b) OR ucast a :: u64)) = (b :: byte)"
  "ucast (push_bit 8 (ucast b) OR ucast a :: u32) = a" "ucast (drop_bit 8 (push_bit 8 (ucast b) OR ucast a :: u32)) = b"
  "ucast (push_bit 8 (ucast b) OR ucast a :: u16) = a" "ucast (drop_bit 8 (push_bit 8 (ucast b) OR ucast a :: u16)) = b"
  by (rule bit_word_eqI; auto simp: bit_simps)+

lemma pair64_inj: "(push_bit 8 (ucast b) OR ucast a :: u64) = push_bit 8 (ucast d) OR ucast c \<longleftrightarrow> b = d \<and> a = c" for a b c d :: byte
  by (metis pair_bytes(1,2))

lemma pair32_inj: "(push_bit 8 (ucast b) OR ucast a :: u32) = push_bit 8 (ucast d) OR ucast c \<longleftrightarrow> b = d \<and> a = c" for a b c d :: byte
  by (metis pair_bytes(3,4))

lemma pair16_inj: "(push_bit 8 (ucast b) OR ucast a :: u16) = push_bit 8 (ucast d) OR ucast c \<longleftrightarrow> b = d \<and> a = c" for a b c d :: byte
  by (metis pair_bytes(5,6))

lemma ucast_pair: "(ucast (push_bit 8 (ucast b) OR ucast a :: u64) :: u32) = push_bit 8 (ucast b) OR ucast a" for a b :: byte
  by (rule bit_word_eqI) (auto simp: bit_simps)

lemma u16_dec_pair: "i + 2 \<le> length pkt \<Longrightarrow> u16_dec pkt i = Some (push_bit 8 (ucast (pkt ! i)) OR ucast (pkt ! (i + 1)))"
  by (simp add: u16_dec_def mem_get_def)

lemma port_53:
  assumes "i + 2 \<le> length pkt"
  shows "(push_bit 8 (ucast (pkt ! Suc i)) OR ucast (pkt ! i) :: u64) = 0x3500 \<longleftrightarrow> u16_dec pkt i = Some 53"
proof -
  have "u16_dec pkt i = Some 53 \<longleftrightarrow> pkt ! i = 0 \<and> pkt ! (i + 1) = 53"
    using pair16_inj [of "pkt ! i" "pkt ! (i + 1)" 0 53] u16_dec_pair [OF assms] by simp
  then show ?thesis using pair64_inj [of "pkt ! Suc i" "pkt ! i" 53 0] by simp blast
qed

lemma eth_type:
  assumes "14 \<le> length pkt"
  shows "(push_bit 8 (ucast (pkt ! 13)) OR ucast (pkt ! 12) :: u32) = 8 \<longleftrightarrow> u16_dec pkt 12 = Some ETH_P_IP"
    "(push_bit 8 (ucast (pkt ! 13)) OR ucast (pkt ! 12) :: u32) = 56710 \<longleftrightarrow> u16_dec pkt 12 = Some ETH_P_IPV6"
  using assms pair16_inj [of "pkt ! 12" "pkt ! 13" 8 0] pair16_inj [of "pkt ! 12" "pkt ! 13" "0x86" "0xdd"]
    pair32_inj [of "pkt ! 13" "pkt ! 12" 0 8] pair32_inj [of "pkt ! 13" "pkt ! 12" "0xdd" "0x86"]
  by (simp_all add: u16_dec_pair ETH_P_IP_def ETH_P_IPV6_def) blast+

lemma sign_extend: "signed_drop_bit 32 (push_bit 32 v :: u64) = word_of_int (sint (ucast v :: u32))"
proof -
  have "signed_drop_bit 32 (push_bit 32 v :: u64) = scast (ucast v :: u32)"
  proof (rule bit_word_eqI)
    fix n
    assume "n < LENGTH(64)"
    then show "bit (signed_drop_bit 32 (push_bit 32 v :: u64)) n = bit (scast (ucast v :: u32) :: u64) n"
      by (cases "n = 31") (auto simp: bit_simps min_def)
  qed
  then show ?thesis by simp
qed

lemma ihl_num:
  shows "unat (ucast (ld32 pkt 14) AND 0xf :: u64) = low4 (pkt ! 14)"
proof -
  have m: "(0xf :: u64) = mask 4" by (simp add: mask_eq_exp_minus_1)
  have "(ucast (ld32 pkt 14) AND 0xf :: u64) = ucast (pkt ! 14) AND mask 4"
    unfolding m by (rule bit_word_eqI) (auto simp: bit_simps ld32_def)
  also have "\<dots> = take_bit 4 (ucast (pkt ! 14))" by (simp add: take_bit_eq_mask)
  finally show ?thesis using unat_u8_less [of "pkt ! 14"] by (simp add: take_bit_eq_mod unat_mod low4_def unsigned_ucast_eq)
qed

lemma ucast_u8_eq64: "(ucast v :: u64) = 17 \<longleftrightarrow> v = 17" for v :: byte
proof -
  have "(ucast (ucast v :: u64) :: byte) = v" by (rule bit_word_eqI) (auto simp: bit_simps)
  moreover have "(ucast (17 :: u64) :: byte) = 17" by simp
  ultimately show ?thesis by force
qed

lemma nat_plus: "nat (int u + numeral k) = u + numeral k"
  by (simp add: nat_add_distrib)

lemma run_ports_short:
  assumes "r 3 = Pkt (length pkt)" and "r 5 = Pkt u" and "r 1 = Ctx" and "u + 8 > length pkt"
  shows "ebpf_run (15 + n) red pkt q (loaded fd) 26 r = Some (Num 1)"
  using assms by (simp add: run_simps)

lemma run_ports:
  assumes "r 3 = Pkt (length pkt)" and "r 5 = Pkt u" and "r 1 = Ctx" and "u + 8 \<le> length pkt"
  shows "ebpf_run (15 + n) red pkt q (loaded fd) 26 r =
    Some (Num (if u16_dec pkt (u + 2) = Some 53 \<or> u16_dec pkt u = Some 53
               then word_of_int (sint (ucast (red (sint fd) (ucast q) 1) :: u32)) else 1))"
  using assms by (simp add: run_simps ld_pkt_def ld_ctx_def nat_plus port_53 sign_extend)


lemma run_udp:
  assumes "r 3 = Pkt (length pkt)" and "r 5 = Pkt u" and "r 1 = Ctx"
  shows "ebpf_run (15 + n) red pkt q (loaded fd) 26 r =
    Some (Num (if u + 8 \<le> length pkt \<and> (u16_dec pkt (u + 2) = Some 53 \<or> u16_dec pkt u = Some 53)
               then word_of_int (sint (ucast (red (sint fd) (ucast q) 1) :: u32)) else 1))"
  using run_ports [of r pkt u] run_ports_short [of r pkt u] assms by (cases "u + 8 \<le> length pkt") simp_all

definition redirected :: "redirect \<Rightarrow> u32 \<Rightarrow> u32 \<Rightarrow> byte list \<Rightarrow> nat \<Rightarrow> bval" where
  "redirected red fd q pkt u = Num (if u + 8 \<le> length pkt \<and> (u16_dec pkt (u + 2) = Some 53 \<or> u16_dec pkt u = Some 53)
     then word_of_int (sint (ucast (red (sint fd) (ucast q) 1) :: u32)) else 1)"

lemma run_ip6:
  assumes "r 3 = Pkt (length pkt)" and "r 0 = Pkt 0" and "r 1 = Ctx"
  shows "ebpf_run (21 + n) red pkt q (loaded fd) 41 r =
    Some (if length pkt < 54 \<or> pkt ! 20 \<noteq> 17 then Num 1 else redirected red fd q pkt 54)"
proof -
  have u8: "(ucast (pkt ! 20) :: u64) = 17 \<longleftrightarrow> pkt ! 20 = 17" by (metis ucast_u8_eq64)
  consider "length pkt < 54" | "54 \<le> length pkt" "pkt ! 20 \<noteq> 17" | "54 \<le> length pkt" "pkt ! 20 = 17" by linarith
  then show ?thesis
  proof cases
    case 3
    then show ?thesis using assms run_udp [of "r(5 := Pkt 54, 0 := Num 17)" pkt 54 n red q fd]
      by (simp add: run_simps ld_pkt_def redirected_def)
  qed (use assms u8 in \<open>simp_all add: run_simps ld_pkt_def\<close>)
qed


lemma ihl_facts:
  fixes pkt :: "byte list"
  defines "w \<equiv> ucast (ld32 pkt 14) AND 0xf :: u64"
  shows "(ucast w :: u32) \<le> 4 \<longleftrightarrow> low4 (pkt ! 14) \<le> 4" "unat (push_bit 2 w + 14) = 14 + 4 * low4 (pkt ! 14)"
proof -
  have w: "unat w = low4 (pkt ! 14)" unfolding w_def by (rule ihl_num)
  have l: "low4 (pkt ! 14) < 16" by (simp add: low4_def)
  have "unat (ucast w :: u32) = low4 (pkt ! 14)" using w l by (simp add: unsigned_ucast_eq take_bit_eq_mod)
  then show "(ucast w :: u32) \<le> 4 \<longleftrightarrow> low4 (pkt ! 14) \<le> 4" by (simp add: word_le_nat_alt)
  have "push_bit 2 w = 4 * w" by (simp add: push_bit_eq_mult mult.commute)
  then have "unat (push_bit 2 w) = 4 * low4 (pkt ! 14)"
    using w l by (simp del: push_bit_numeral) (subst unat_mult_lem [THEN iffD1]; simp)
  then show "unat (push_bit 2 w + 14) = 14 + 4 * low4 (pkt ! 14)"
    using l by (subst unat_add_lem [THEN iffD1]) simp_all
qed

lemma run_ip4:
  assumes "r 3 = Pkt (length pkt)" and "r 0 = Pkt 0" and "r 1 = Ctx"
  shows "ebpf_run (28 + n) red pkt q (loaded fd) 13 r =
    Some (if length pkt < 34 \<or> low4 (pkt ! 14) < 5 \<or> length pkt < 14 + 4 * low4 (pkt ! 14) \<or> pkt ! 23 \<noteq> 17 then Num 1
          else redirected red fd q pkt (14 + 4 * low4 (pkt ! 14)))"
proof -
  let ?w = "ucast (ld32 pkt 14) AND 0xf :: u64" and ?u = "14 + 4 * low4 (pkt ! 14)"
  have u8: "(ucast (pkt ! 23) :: u64) = 17 \<longleftrightarrow> pkt ! 23 = 17" by (rule ucast_u8_eq64)
  note ihl = ihl_facts [of pkt]
  consider (short) "length pkt < 34" | (ihl) "34 \<le> length pkt" "low4 (pkt ! 14) \<le> 4"
    | (cut) "34 \<le> length pkt" "\<not> low4 (pkt ! 14) \<le> 4" "length pkt < ?u"
    | (other) "34 \<le> length pkt" "\<not> low4 (pkt ! 14) \<le> 4" "?u \<le> length pkt" "pkt ! 23 \<noteq> 17"
    | (udp) "34 \<le> length pkt" "\<not> low4 (pkt ! 14) \<le> 4" "?u \<le> length pkt" "pkt ! 23 = 17" by linarith
  then show ?thesis
  proof cases
    case udp
    then show ?thesis using assms ihl run_udp [of "r(2 := Pkt 34, 4 := Num (push_bit 2 ?w + 14), 5 := Pkt ?u, 0 := Num 17)" pkt ?u n red q fd]
      by (simp add: run_simps ld_pkt_def redirected_def)
  qed (use assms u8 ihl in \<open>simp_all add: run_simps ld_pkt_def\<close>)
qed

lemma run_head: "pc < 9 \<Longrightarrow> ebpf_run (numeral k + n) red pkt q (loaded fd) pc r = do {
     st \<leftarrow> exec_insn red pkt q (decode_insn (loaded fd ! pc)) pc r;
     case st of Inl v \<Rightarrow> Some v | Inr (pc', r') \<Rightarrow> ebpf_run (pred_numeral k + n) red pkt q (loaded fd) pc' r' }"
  by (simp add: run_plus)

lemma start_ctx: "start_regs 1 = Ctx"
  by (simp add: start_regs_def)

lemmas insn_simps = loaded_nth filter_insns exec_insn_def Let_def jump_def add_val_def ld_val_def ld_pkt_def ld_ctx_def start_ctx

definition eth_regs :: "byte list \<Rightarrow> regs" where
  "eth_regs pkt = start_regs(3 := Pkt (length pkt), 0 := Pkt 0, 2 := Pkt 14,
     4 := Num (ucast (pkt ! 12)), 5 := Num (push_bit 8 (ucast (pkt ! 13)) OR ucast (pkt ! 12)))"

lemma run_eth: "ebpf_run (48 + n) red pkt q (loaded fd) 0 start_regs =
    (if length pkt < 14 then ebpf_run (43 + n) red pkt q (loaded fd) 11 (start_regs(3 := Pkt (length pkt), 0 := Pkt 0, 2 := Pkt 14))
     else ebpf_run (39 + n) red pkt q (loaded fd) 9 (eth_regs pkt))"
  by (cases "length pkt < 14") (simp_all add: run_head insn_simps eth_regs_def del: One_nat_def)

lemma run_type:
  assumes "r 5 = Num e"
  shows "ebpf_run (39 + n) red pkt q (loaded fd) 9 r =
    (if (ucast e :: u32) = 8 then ebpf_run (38 + n) red pkt q (loaded fd) 13 r
     else if (ucast e :: u32) = 56710 then ebpf_run (37 + n) red pkt q (loaded fd) 41 r else Some (Num 1))"
proof -
  have 10: "ebpf_run (38 + n) red pkt q (loaded fd) 10 r =
      (if (ucast e :: u32) = 56710 then ebpf_run (37 + n) red pkt q (loaded fd) 41 r else ebpf_run (37 + n) red pkt q (loaded fd) 11 r)"
    by (subst run_plus) (simp add: insn_simps assms)
  have 11: "ebpf_run (37 + n) red pkt q (loaded fd) 11 r = Some (Num 1)"
    using run_drop [of "35 + n" red pkt q fd r] by simp
  show ?thesis
    by (subst run_plus) (simp add: insn_simps assms 10 11)
qed

lemma run_filter:
  "ebpf_run (48 + n) red pkt q (loaded fd) 0 start_regs =
    Some (if length pkt < 14 then Num 1
          else if u16_dec pkt 12 = Some ETH_P_IP then
            (if length pkt < 34 \<or> low4 (pkt ! 14) < 5 \<or> length pkt < 14 + 4 * low4 (pkt ! 14) \<or> pkt ! 23 \<noteq> 17 then Num 1
             else redirected red fd q pkt (14 + 4 * low4 (pkt ! 14)))
          else if u16_dec pkt 12 = Some ETH_P_IPV6 then
            (if length pkt < 54 \<or> pkt ! 20 \<noteq> 17 then Num 1 else redirected red fd q pkt 54)
          else Num 1)"
proof (cases "length pkt < 14")
  case True
  then show ?thesis using run_drop [of "41 + n"] by (simp add: run_eth)
next
  case False
  let ?e = "push_bit 8 (ucast (pkt ! 13)) OR ucast (pkt ! 12) :: u64"
  have r: "eth_regs pkt 3 = Pkt (length pkt)" "eth_regs pkt 0 = Pkt 0" "eth_regs pkt 1 = Ctx" "eth_regs pkt 5 = Num ?e"
    by (simp_all add: eth_regs_def start_ctx del: One_nat_def)
  have t: "(ucast ?e :: u32) = 8 \<longleftrightarrow> u16_dec pkt 12 = Some ETH_P_IP" "(ucast ?e :: u32) = 56710 \<longleftrightarrow> u16_dec pkt 12 = Some ETH_P_IPV6"
    unfolding ucast_pair using eth_type [of pkt] False by simp_all
  have a: "38 + n = 28 + (10 + n)" "37 + n = 21 + (16 + n)" by simp_all
  show ?thesis
    using False unfolding run_eth run_type [of "eth_regs pkt", OF r(4)] t unfolding a run_ip4 [of "eth_regs pkt", OF r(1-3)] run_ip6 [of "eth_regs pkt", OF r(1-3)] by simp
qed

definition verdict :: "redirect \<Rightarrow> int \<Rightarrow> u32 \<Rightarrow> byte list \<Rightarrow> nat \<Rightarrow> int" where
  "verdict red m q pkt u = (if u + 8 \<le> length pkt \<and> (u16_dec pkt (u + 2) = Some 53 \<or> u16_dec pkt u = Some 53)
     then sint (ucast (red m (ucast q) 1) :: u32) else XDP_DROP)"

lemma redirected_verdict: "redirected red fd q pkt u = Num (word_of_int (verdict red (sint fd) q pkt u))"
  by (auto simp: redirected_def verdict_def XDP_DROP_def)

lemma xdp_value:
  "xdp_dns_insp red m q pkt =
    Some (if length pkt < 14 then XDP_DROP
          else if u16_dec pkt 12 = Some ETH_P_IP then
            (if length pkt < 34 \<or> low4 (pkt ! 14) < 5 \<or> length pkt < 14 + 4 * low4 (pkt ! 14) \<or> pkt ! 23 \<noteq> 17 then XDP_DROP
             else verdict red m q pkt (14 + 4 * low4 (pkt ! 14)))
          else if u16_dec pkt 12 = Some ETH_P_IPV6 then
            (if length pkt < 54 \<or> pkt ! 20 \<noteq> 17 then XDP_DROP else verdict red m q pkt 54)
          else XDP_DROP)"
proof (cases "length pkt < 14")
  case True
  then show ?thesis by (simp add: xdp_dns_insp_def)
next
  case False
  have ne: "ETH_P_IP \<noteq> ETH_P_IPV6" by (simp add: ETH_P_IP_def ETH_P_IPV6_def)
  obtain t where t: "u16_dec pkt 12 = Some t" using u16_dec_pair [of 12 pkt] False by auto
  have v: "(if u + 8 \<le> length pkt then do {
        dest \<leftarrow> u16_dec pkt (u + 2);
        source \<leftarrow> u16_dec pkt u;
        if dest = 53 \<or> source = 53
        then Some (sint (ucast (red m (ucast q) (word_of_int XDP_DROP)) :: u32)) else Some XDP_DROP }
      else Some XDP_DROP) = Some (verdict red m q pkt u)" for u
    using u16_dec_pair [of "u + 2" pkt] u16_dec_pair [of u pkt] by (simp add: verdict_def XDP_DROP_def)
  have x: "xdp_dns_insp red m q pkt = do { r \<leftarrow> xdp_ip_layer pkt t; case r of Inl v \<Rightarrow> Some v
      | Inr None \<Rightarrow> Some XDP_DROP | Inr (Some udp) \<Rightarrow> Some (verdict red m q pkt udp) }"
    using False t unfolding xdp_dns_insp_def v by simp
  consider "t = ETH_P_IP" | "t = ETH_P_IPV6" | "t \<noteq> ETH_P_IP" "t \<noteq> ETH_P_IPV6" by blast
  then show ?thesis
    by cases (use False t ne in \<open>auto simp: x xdp_ip_layer_def mem_get_def IPPROTO_UDP_def mult.commute\<close>)
qed

text \<open>C18. The 47 instruction words of the table \<open>bpf_filter\<close>, after \<open>bpf_patch_map\<close> has put the descriptor of the socket
  map into them, compute what the C source \<open>ebpf/filter.c\<close> computes, for every packet, receive queue,
  descriptor and behaviour of \<open>bpf_redirect_map\<close>: no instruction reads outside the packet or gets operands of
  the wrong kind, and the program ends within 48 steps although it jumps backwards.\<close>

theorem ebpf_implements_source:
  "\<exists>v. xdp_dns_insp red (sint fd) q pkt = Some v \<and>
    ebpf_run 48 red pkt q (snd (bpf_patch_map fd bpf_filter)) 0 start_regs = Some (Num (word_of_int v))"
proof -
  have one: "Num 1 = Num (word_of_int XDP_DROP)" by (simp add: XDP_DROP_def)
  show ?thesis
    using run_filter [of 0 red pkt q fd] unfolding xdp_value patch_filter redirected_verdict one snd_conv add_0_right by (auto split: if_splits)
qed

end
