(* ===== verification/Insp_Props.thy ===== *)
theory Insp_Props
  imports Ebpf
begin

text \<open>
  What the inspector promises: the message it finds, the counters, the end of its file loops, and how the two kernel
  filters relate to the frames it accepts.
\<close>

lemma process_pkt_spec:
  assumes "plen \<le> length pkt"
  shows "((\<nexists>msg. dns_frame (take plen pkt) msg) \<longrightarrow>
      insp_process_pkt insp pkt plen = Some (0, insp\<lparr>in_rcv_pkts := in_rcv_pkts insp + 1\<rparr>)) \<and>
    (\<forall>msg. dns_frame (take plen pkt) msg \<longrightarrow>
      insp_process_pkt insp pkt plen = do {
        (rc, sb) \<leftarrow> dns_validate (msg @ drop plen pkt) (length msg) (in_emsg insp);
        s \<leftarrow> cstr_at (sb_mem sb) 0;
        Some (rc, insp\<lparr>in_rcv_pkts := in_rcv_pkts insp + 1, in_dns_pkts := in_dns_pkts insp + 1,
          in_dns_okay := in_dns_okay insp + (if rc < 0 then 0 else 1),
          in_dns_fail := in_dns_fail insp + (if rc < 0 then 1 else 0),
          in_emsg := sb_mem sb, in_stdout := in_stdout insp @ s\<rparr>) })"
proof -
  obtain r where r: "locate_dns pkt plen = Some r"
      "\<And>msg. dns_frame (take plen pkt) msg \<longleftrightarrow> (\<exists>p. r = Some p \<and> p \<le> plen \<and> msg = drop p (take plen pkt))"
    using locate_dns_frame [OF assms] by (auto simp: returns_iff)
  show ?thesis
  proof (cases r)
    case None
    then show ?thesis using r by (simp add: insp_process_pkt_def)
  next
    case (Some p)
    have le: "p \<le> plen" using locate_le r(1) Some by blast
    have fr: "dns_frame (take plen pkt) msg \<longleftrightarrow> msg = drop p (take plen pkt)" for msg using r(2) Some le by simp
    have "drop p pkt = drop p (take plen pkt) @ drop plen pkt"
      using assms le by (metis append_take_drop_id drop_append diff_is_0_eq drop0 length_take min.absorb2)
    moreover have "plen - p = length (drop p (take plen pkt))" using assms by simp
    ultimately show ?thesis using r(1) Some unfolding fr by (simp add: insp_process_pkt_def)
  qed
qed

text \<open>C17. \<open>insp_process_pkt\<close> on a packet of \<open>plen\<close> bytes: a frame that is not a DNS frame only counts as received; a DNS
  frame with message \<open>msg\<close>, behind any number of VLAN tags and any IPv4 options, is handed to \<open>dns_validate\<close> with exactly
  the message, the verdict goes to the right counter and the report to the output.\<close>

theorem insp_process_pkt_correct:
  assumes "plen \<le> length pkt"
  shows "((\<nexists>msg. dns_frame (take plen pkt) msg) \<longrightarrow>
      insp_process_pkt insp pkt plen = Some (0, insp\<lparr>in_rcv_pkts := in_rcv_pkts insp + 1\<rparr>)) \<and>
    (\<forall>msg. dns_frame (take plen pkt) msg \<longrightarrow>
      insp_process_pkt insp pkt plen = do {
        (rc, sb) \<leftarrow> dns_validate (msg @ drop plen pkt) (length msg) (in_emsg insp);
        s \<leftarrow> cstr_at (sb_mem sb) 0;
        Some (rc, insp\<lparr>in_rcv_pkts := in_rcv_pkts insp + 1, in_dns_pkts := in_dns_pkts insp + 1,
          in_dns_okay := in_dns_okay insp + (if rc < 0 then 0 else 1),
          in_dns_fail := in_dns_fail insp + (if rc < 0 then 1 else 0),
          in_emsg := sb_mem sb, in_stdout := in_stdout insp @ s\<rparr>) })"
  using assms by (rule process_pkt_spec)


theorem insp_process_pkt_correct_witness:
  "\<nexists>msg. dns_frame (take 3 [1, 2, 3]) msg"
  using insp_process_pkt_correct [of 3 "[1, 2, 3]" "\<lparr>in_pcap = None, in_rcv_pkts = 0, in_dns_pkts = 0, in_dns_okay = 0, in_dns_fail = 0, in_emsg = [], in_stdout = []\<rparr>"]
  by (auto simp: insp_process_pkt_def locate_dns_def dns_validate_def mem_write_def)

section \<open>Counters\<close>

definition insp_wf :: "dns_insp \<Rightarrow> bool" where
  "insp_wf insp \<longleftrightarrow> in_dns_pkts insp = in_dns_okay insp + in_dns_fail insp \<and> in_dns_pkts insp \<le> in_rcv_pkts insp"

lemma process_pkt_wf: "insp_process_pkt insp pkt plen = Some (rc, insp') \<Longrightarrow> insp_wf insp \<Longrightarrow> insp_wf insp'"
  by (auto simp: insp_process_pkt_def insp_wf_def Let_def split: bind_splits option.splits)

lemma process_msg_wf: "insp_process_msg c insp pkt n = Some (rc, insp') \<Longrightarrow> insp_wf insp \<Longrightarrow> insp_wf insp'"
  by (auto simp: insp_process_msg_def Let_def insp_wf_def split: bind_splits option.splits dest!: process_pkt_wf)

lemma readpcap_loop_wf: "readpcap_loop insp pcap buf = Some (rc, insp') \<Longrightarrow> insp_wf insp \<Longrightarrow> insp_wf insp'"
proof (induction insp pcap buf rule: readpcap_loop.induct)
  case (1 insp pcap buf)
  have wf: "insp_wf (insp\<lparr>in_pcap := Some p\<rparr>)" for p using "1.prems"(2) by (simp add: insp_wf_def)
  from "1.prems"(1) show ?case
    by (subst (asm) readpcap_loop.simps) (use "1.IH" wf in \<open>fastforce split: bind_splits if_splits dest!: process_pkt_wf\<close>)
qed

lemma process_pkt_rcv: "insp_process_pkt insp pkt plen = Some (rc, insp') \<Longrightarrow> in_rcv_pkts insp' = in_rcv_pkts insp + 1"
  by (auto simp: insp_process_pkt_def Let_def split: bind_splits option.splits)

lemma readpcap_loop_rcv:
  "readpcap_loop insp pcap buf = Some (rc, insp') \<Longrightarrow> pcap_loop k pcap buf PKT_MAXSIZE = Some ps \<Longrightarrow>
   in_rcv_pkts insp' \<le> in_rcv_pkts insp + length ps \<and> (rc = 0 \<longrightarrow> in_rcv_pkts insp' = in_rcv_pkts insp + length ps)"
proof (induction insp pcap buf arbitrary: k ps rule: readpcap_loop.induct)
  case (1 insp pcap buf)
  obtain k' where k: "k = Suc k'" using "1.prems"(2) by (cases k) auto
  obtain n buf' f where r: "pcap_read pcap buf PKT_MAXSIZE = Some (n, buf', f)" using "1.prems"(2) k by (auto split: bind_splits)
  note eq = "1.prems"(1) [unfolded readpcap_loop.simps [of insp] r]
  show ?case
  proof (cases "0 < n")
    case True
    obtain qs where qs: "ps = take n buf' # qs" "pcap_loop k' f buf' PKT_MAXSIZE = Some qs"
      using "1.prems"(2) k r True by (auto split: bind_splits)
    obtain rc1 insp1 where p: "insp_process_pkt (insp\<lparr>in_pcap := Some f\<rparr>) buf' n = Some (rc1, insp1)"
      using eq True by (auto split: bind_splits)
    have c: "in_rcv_pkts insp1 = in_rcv_pkts insp + 1" using process_pkt_rcv [OF p] by simp
    show ?thesis
    proof (cases "rc1 = 0")
      case zero: True
      then have "readpcap_loop insp1 f buf' = Some (rc, insp')" using eq True p by simp
      then show ?thesis using "1.IH" [OF r _ _ True p] zero qs c by auto
    next
      case False
      then show ?thesis using eq True p qs(1) c by simp
    qed
  next
    case False
    then show ?thesis using eq "1.prems"(2) k r by auto
  qed
qed


definition demo_insp :: dns_insp where
  "demo_insp = \<lparr>in_pcap = Some (zero_file\<lparr>pf_fp := file_stream []\<rparr>), in_rcv_pkts = 0, in_dns_pkts = 0, in_dns_okay = 0,
     in_dns_fail = 0, in_emsg = [], in_stdout = []\<rparr>"


lemma tracepcap_total: "length buf = PKT_MAXSIZE \<Longrightarrow> \<exists>pcap'. tracepcap_loop pcap buf = Some pcap'"
proof (induction pcap buf rule: tracepcap_loop.induct)
  case (1 pcap buf)
  obtain n buf' f where r: "pcap_read pcap buf PKT_MAXSIZE = Some (n, buf', f)" "length buf' = length buf"
    using pcap_read_returns [of PKT_MAXSIZE buf pcap] "1.prems" by auto
  then show ?case using "1.IH" [OF r(1)] "1.prems" by (subst tracepcap_loop.simps) auto
qed

text \<open>C34. \<open>run_tracepcap\<close> ends for every file content and returns 0; only the position in the file changes.\<close>

theorem run_tracepcap_ends:
  assumes "in_pcap insp = Some pcap" and "length buf = PKT_MAXSIZE"
  shows "\<exists>pcap'. run_tracepcap insp buf = Some (0, insp\<lparr>in_pcap := Some pcap'\<rparr>)"
  using tracepcap_total [OF assms(2), of pcap] assms(1) by (auto simp: run_tracepcap_def)

theorem run_tracepcap_ends_witness:
  "\<exists>pcap'. run_tracepcap demo_insp (replicate PKT_MAXSIZE 0) = Some (0, demo_insp\<lparr>in_pcap := Some pcap'\<rparr>)"
  by (rule run_tracepcap_ends [where pcap = "zero_file\<lparr>pf_fp := file_stream []\<rparr>"]) (simp_all add: demo_insp_def)

section \<open>The filters and the inspector\<close>

lemma untagged_located:
  assumes "dns_frame f msg" and "u16_dec f 12 = Some t" and "\<not> is_vlan t"
  obtains p where "ip_layer f (length f) t 14 = Some (Some p)" "udp_layer f (length f) p = Some (Some (p + 8))" "14 \<le> length f"
proof -
  obtain p where l: "locate_dns f (length f) = Some (Some p)"
    using locate_dns_frame [of "length f" f] assms(1) by (auto simp: returns_iff)
  have v: "vlan_loop f (length f) t 14 = Some (Some (t, 14))" using assms(3) by (subst vlan_loop.simps) simp
  have 14: "14 \<le> length f" using l by (auto simp: locate_dns_def split: if_splits)
  have "on_layer (ip_layer f (length f) t 14) (udp_layer f (length f)) = Some (Some p)"
    using l assms(2) v 14 by (simp add: locate_dns_def on_layer_def split: if_splits)
  then obtain p1 where "ip_layer f (length f) t 14 = Some (Some p1)" "udp_layer f (length f) p1 = Some (Some p)"
    by (auto simp: on_layer_def split: bind_splits option.splits)
  moreover from this(2) have "p = p1 + 8" by (auto simp: udp_layer_def split: if_splits bind_splits)
  ultimately show thesis using that 14 by blast
qed

lemma udp_layer_ports:
  assumes "udp_layer f (length f) p = Some (Some p')"
  shows "p + 8 \<le> length f" "port53 f p" "u16_dec f p = Some 53 \<or> u16_dec f (p + 2) = Some 53"
  using assms by (auto simp: udp_layer_def port53_def split: if_splits bind_splits)

text \<open>C20. No untagged DNS frame is lost before the inspector: a frame with a DNS message, whose first type field is no tag
  and which is not a later IPv4 fragment, is accepted by the classic filter and redirected to the socket by
  the XDP filter.\<close>

theorem dns_frames_pass_filters:
  assumes "dns_frame f msg" and "u16_dec f 12 = Some t" and "\<not> is_vlan t"
    and "t = ETH_P_IP \<longrightarrow> (\<exists>v. u16_dec f 20 = Some v \<and> v AND 0x1fff = 0)"
  shows "cbpf dns_filter f 0 0 0 = Some 0x40000 \<and>
    xdp_dns_insp red m q f = Some (sint (ucast (red m (ucast q) 1) :: u32))"
proof -
  obtain p where p: "ip_layer f (length f) t 14 = Some (Some p)" "udp_layer f (length f) p = Some (Some (p + 8))" "14 \<le> length f"
    by (rule untagged_located [OF assms(1-3)])
  note u = udp_layer_ports [OF p(2)]
  have ne: "ETH_P_IP \<noteq> ETH_P_IPV6" by (simp add: ETH_P_IP_def ETH_P_IPV6_def)
  have v: "verdict red m q f p = sint (ucast (red m (ucast q) 1) :: u32)" using u by (auto simp: verdict_def)
  consider "t = ETH_P_IP" | "t = ETH_P_IPV6" using p(1) by (auto simp: ip_layer_def split: if_splits)
  then show ?thesis
  proof cases
    case 1
    have f: "34 \<le> length f" "5 \<le> low4 (f ! 14)" "f ! 23 = IPPROTO_UDP" "p = 14 + 4 * low4 (f ! 14)"
      using p(1) 1 by (auto simp: ip_layer_def mem_get_def split: if_splits)
    have "captured f" using assms(2,4) 1 f u(2) by (auto simp: captured_def mem_get_def)
    then show ?thesis using 1 assms(2) f u(1) v by (simp add: cbpf_exact xdp_value IPPROTO_UDP_def)
  next
    case 2
    have f: "54 \<le> length f" "f ! 20 = IPPROTO_UDP" "p = 54"
      using p(1) 2 ne by (auto simp: ip_layer_def mem_get_def split: if_splits)
    have "captured f" using assms(2) 2 f u(2) by (auto simp: captured_def mem_get_def)
    then show ?thesis using 2 assms(2) f u(1) v ne by (simp add: cbpf_exact xdp_value IPPROTO_UDP_def)
  qed
qed

text \<open>C37. A frame that starts with a VLAN tag is refused by the classic filter and dropped by the XDP filter, whatever follows:
  the tags that \<open>insp_process_pkt\<close> skips are never seen in a live capture.\<close>

theorem tagged_frames_filtered:
  assumes "u16_dec f 12 = Some t" and "is_vlan t"
  shows "cbpf dns_filter f 0 0 0 = Some 0 \<and> xdp_dns_insp red m q f = Some XDP_DROP"
proof -
  have "t \<noteq> ETH_P_IP" "t \<noteq> ETH_P_IPV6" using assms(2) by (auto simp: is_vlan_def ETH_P_IP_def ETH_P_IPV6_def)
  then show ?thesis using assms(1) by (simp add: cbpf_exact captured_def xdp_value)
qed


text \<open>An Ethernet frame with an empty UDP datagram from port 53, and the same frame with a tag.\<close>

definition demo_net :: "byte list" where
  "demo_net = [0x45, 0, 0, 28, 0, 0, 0, 0, 255, 17, 0, 0, 0, 0, 0, 0, 0, 0, 0, 0] @ [0, 53, 1, 0, 0, 8, 0, 0]"

definition demo_macs :: "byte list" where
  "demo_macs = [0, 0, 0, 0, 0, 1, 0, 0, 0, 0, 0, 2]"

definition demo_frame :: "byte list" where
  "demo_frame = demo_macs @ [8, 0] @ demo_net"

definition demo_tagged :: "byte list" where
  "demo_tagged = demo_macs @ [0x81, 0, 0, 1, 8, 0] @ demo_net"

lemma demo_frame_dns: "dns_frame demo_frame []"
proof -
  have e: "be16 ETH_P_IP = [8, 0]" by (simp add: be16_def ETH_P_IP_def)
  have "tagged (be16 ETH_P_IP @ demo_net) ETH_P_IP demo_net" by (rule untagged) (simp add: is_vlan_def ETH_P_IP_def)
  then have "tagged ([8, 0] @ demo_net) ETH_P_IP
      ([0x45, 0, 0, 28, 0, 0, 0, 0, 255, 17, 0, 0, 0, 0, 0, 0, 0, 0, 0, 0] @ [0, 53, 1, 0, 0, 8, 0, 0] @ [])"
    by (simp add: demo_net_def e)
  moreover have "ip4_header [0x45, 0, 0, 28, 0, 0, 0, 0, 255, 17, 0, 0, 0, 0, 0, 0, 0, 0, 0, 0]"
    by (simp add: ip4_header_def low4_def high4_def IPPROTO_UDP_def)
  moreover have "udp53_header [0, 53, 1, 0, 0, 8, 0, 0]" by (simp add: udp53_header_def be16_def)
  moreover have "length demo_macs = 12" by (simp add: demo_macs_def)
  ultimately show ?thesis unfolding dns_frame_def demo_frame_def
    by (intro exI [of _ "demo_macs"] exI [of _ "[8, 0] @ demo_net"]) (auto simp del: append.simps)
qed

theorem dns_frames_pass_filters_witness:
  "cbpf dns_filter demo_frame 0 0 0 = Some 0x40000 \<and>
    xdp_dns_insp (\<lambda>m k fl. 4) 7 0 demo_frame = Some (sint (ucast (4 :: u64) :: u32))"
  by (rule dns_frames_pass_filters [OF demo_frame_dns, where t = ETH_P_IP])
    (simp_all add: demo_frame_def demo_macs_def demo_net_def u16_dec_def mem_get_def is_vlan_def ETH_P_IP_def)

theorem tagged_frames_filtered_witness:
  "cbpf dns_filter demo_tagged 0 0 0 = Some 0 \<and> xdp_dns_insp (\<lambda>m k fl. 4) 7 0 demo_tagged = Some XDP_DROP"
  by (rule tagged_frames_filtered [where t = "0x8100"])
    (simp_all add: demo_tagged_def demo_macs_def demo_net_def u16_dec_def mem_get_def is_vlan_def)

end
