(* ===== verification/Xsk.thy ===== *)
theory Xsk
  imports Insp_Props "HOL-Library.Multiset"
begin

text \<open>
  The AF_XDP capture of \<open>dns_insp.c\<close>: the rings shared with the kernel (\<open>ring_init\<close>, \<open>xsk_ring_fill\<close>) and the loop of
  \<open>capture_xdp\<close> as a step relation that interleaves with the kernel. The kernel is a parameter constrained by
  \<open>kernel_contract\<close>, what the documentation of AF_XDP promises. The loads, the store of a descriptor and
  the two stores of indices of the loop are separate steps; memory is sequentially consistent, which the barrier in the
  code and the order of its stores provide. The locale \<open>pow2_ring\<close> is the arithmetic of masked, wrapping indices,
  interpreted on the size of the program's rings.
\<close>

section \<open>Rings\<close>

definition PKT_NUMSLOT :: nat where "PKT_NUMSLOT = 4096"

record 'a xsk_ring =
  rg_producer :: u32
  rg_consumer :: u32
  rg_descs :: "'a list"
  rg_max_size :: u32
  rg_num_slot :: u32
  rg_mask :: u32

record xdp_desc =
  xd_addr :: u64
  xd_len :: u32

definition ring_init :: "u32 \<Rightarrow> u32 \<Rightarrow> 'a list \<Rightarrow> nat \<Rightarrow> nat \<Rightarrow> 'a xsk_ring" where
  "ring_init producer consumer descs num_slot max_size =
     \<lparr>rg_producer = producer, rg_consumer = consumer, rg_descs = descs, rg_max_size = of_nat max_size, rg_num_slot = of_nat num_slot,
      rg_mask = of_nat num_slot - 1\<rparr>"

definition put_desc :: "u32 \<Rightarrow> 'a \<Rightarrow> 'a xsk_ring \<Rightarrow> 'a xsk_ring option" where
  "put_desc idx v ring =
     (let i = unat (idx AND rg_mask ring)
      in if i < length (rg_descs ring) then Some (ring\<lparr>rg_descs := (rg_descs ring)[i := v]\<rparr>) else None)"

definition get_desc :: "u32 \<Rightarrow> 'a xsk_ring \<Rightarrow> 'a option" where
  "get_desc idx ring =
     (let i = unat (idx AND rg_mask ring) in if i < length (rg_descs ring) then Some (rg_descs ring ! i) else None)"

fun fill_loop :: "nat \<Rightarrow> u64 \<Rightarrow> u32 \<Rightarrow> u64 xsk_ring \<Rightarrow> (u32 \<times> u64 xsk_ring) option" where
  "fill_loop 0 offset idx ring = Some (idx, ring)"
| "fill_loop (Suc n) offset idx ring = do {
     ring' \<leftarrow> put_desc idx offset ring;
     fill_loop n (offset + ucast (rg_max_size ring)) (idx + 1) ring' }"

definition xsk_ring_fill :: "u64 xsk_ring \<Rightarrow> u64 xsk_ring option" where
  "xsk_ring_fill ring = do {
     (idx, ring') \<leftarrow> fill_loop (unat (rg_num_slot ring)) 0 0 ring;
     Some (ring'\<lparr>rg_producer := idx\<rparr>) }"

section \<open>Windows\<close>

text \<open>The descriptors between two indices that wrap around at the width of the index and of the ring.\<close>

definition ring_window :: "'a xsk_ring \<Rightarrow> u32 \<Rightarrow> u32 \<Rightarrow> 'a list" where
  "ring_window r a b = map (\<lambda>i. rg_descs r ! unat ((a + of_nat i) AND rg_mask r)) [0..<unat (b - a)]"

text \<open>Distances between indices that wrap.\<close>

lemma unat_dist: "n < 2 ^ 32 \<Longrightarrow> unat (b - a) = n \<longleftrightarrow> b = a + of_nat n" for a b :: u32
proof
  assume "unat (b - a) = n"
  then show "b = a + of_nat n" by auto
next
  assume "n < 2 ^ 32" "b = a + of_nat n"
  then show "unat (b - a) = n" by (simp add: unat_of_nat)
qed

lemma dist_of: "b = a + of_nat (unat (b - a))" for a b :: u32
  by simp

lemma dist_Suc: "unat (b - a) < 2 ^ 32 - 1 \<Longrightarrow> unat (b + 1 - a) = Suc (unat (b - a))" for a b :: u32
  using dist_of [of b a] by (subst unat_dist) (simp_all add: algebra_simps)

lemma dist_pop: "a \<noteq> b \<Longrightarrow> unat (b - (a + 1)) = unat (b - a) - 1" for a b :: u32
proof -
  assume "a \<noteq> b"
  then obtain n where n: "unat (b - a) = Suc n" by (cases "unat (b - a)") (auto simp: unat_eq_0)
  then have "n < 2 ^ 32" using unsigned_less [of "b - a", where ?'a = nat] by simp
  then show ?thesis using dist_of [of b a] unfolding n by (subst unat_dist) (simp_all add: algebra_simps)
qed

lemma dist_zero [simp]: "unat (b - a) = 0 \<longleftrightarrow> a = b" for a b :: u32
  by (auto simp: unat_eq_0)

lemma length_window [simp]: "length (ring_window r a b) = unat (b - a)"
  by (simp add: ring_window_def)

lemma window_empty [simp]: "ring_window r a a = []"
  by (simp add: ring_window_def)

lemma window_cong: "rg_descs r = rg_descs r' \<Longrightarrow> rg_mask r = rg_mask r' \<Longrightarrow> ring_window r a b = ring_window r' a b"
  by (simp add: ring_window_def)

text \<open>The geometry the index arithmetic needs: as many slots as the mask can name.\<close>

definition ring_geo :: "u32 \<Rightarrow> nat \<Rightarrow> 'a xsk_ring \<Rightarrow> bool" where
  "ring_geo m k r \<longleftrightarrow> rg_mask r = m \<and> length (rg_descs r) = 2 ^ k"

locale pow2_ring =
  fixes m :: u32 and k :: nat
  assumes mask: "m = mask k" and width: "k < 32"
begin

lemma slot_eq: "ring_geo m k r \<Longrightarrow> unat (x AND rg_mask r) = unat x mod 2 ^ k"
  unfolding ring_geo_def mask by (metis take_bit_eq_mask unsigned_take_bit_eq take_bit_eq_mod)

lemma dvd_width: "(2 :: nat) ^ k dvd 2 ^ 32"
  using width by (intro le_imp_power_dvd) simp

lemma slot_add: "ring_geo m k r \<Longrightarrow> unat ((a + of_nat i) AND rg_mask r) = (unat a + i) mod 2 ^ k"
proof -
  assume g: "ring_geo m k r"
  have "(unat a + i mod 2 ^ 32) mod 2 ^ 32 mod 2 ^ k = (unat a + i) mod 2 ^ k"
    unfolding mod_add_right_eq using dvd_width by (rule mod_mod_cancel)
  then show ?thesis unfolding slot_eq [OF g] by (simp add: unat_word_ariths unat_of_nat)
qed

lemma slot_in: "ring_geo m k r \<Longrightarrow> unat (x AND rg_mask r) < length (rg_descs r)"
  using slot_eq [of r x] by (simp add: ring_geo_def)

lemma get_defined: "ring_geo m k r \<Longrightarrow> get_desc x r = Some (rg_descs r ! unat (x AND rg_mask r))"
  using slot_in [of r x] by (simp add: get_desc_def)

lemma put_defined:
  assumes "ring_geo m k r"
  shows "put_desc x v r = Some (r\<lparr>rg_descs := (rg_descs r)[unat (x AND rg_mask r) := v]\<rparr>)"
  using slot_in [OF assms] by (simp add: put_desc_def)

lemma window_pop:
  assumes "ring_geo m k r" and "a \<noteq> b"
  shows "\<exists>v. get_desc a r = Some v \<and> ring_window r a b = v # ring_window r (a + 1) b"
proof -
  obtain n where n: "unat (b - a) = Suc n" using assms(2) by (cases "unat (b - a)") auto
  then have "unat (b - (a + 1)) = n" using dist_pop [OF assms(2)] by simp
  then show ?thesis
    using n get_defined [OF assms(1), of a] by (simp add: ring_window_def upt_conv_Cons map_Suc_upt [symmetric] o_def add.assoc del: upt_Suc)
qed

lemma window_push:
  assumes "ring_geo m k r" and "put_desc b v r = Some r'" and "unat (b - a) < 2 ^ k"
  shows "ring_window r' a (b + 1) = ring_window r a b @ [v] \<and> ring_geo m k r' \<and> rg_producer r' = rg_producer r \<and>
    rg_consumer r' = rg_consumer r \<and> unat (b + 1 - a) = Suc (unat (b - a))"
proof -
  let ?n = "unat (b - a)"
  have r': "r' = r\<lparr>rg_descs := (rg_descs r)[unat (b AND rg_mask r) := v]\<rparr>" using assms(2) put_defined [OF assms(1)] by simp
  have len: "length (rg_descs r) = 2 ^ k" using assms(1) by (simp add: ring_geo_def)
  have "2 ^ k \<le> (2 :: nat) ^ 31" using width by (intro power_increasing) simp_all
  then have d: "unat (b + 1 - a) = Suc ?n" using assms(3) by (intro dist_Suc) simp
  have b: "unat (b AND rg_mask r) = (unat a + ?n) mod 2 ^ k" using slot_add [OF assms(1), of a ?n] dist_of [of b a] by simp
  have ne: "(unat a + i) mod 2 ^ k \<noteq> (unat a + ?n) mod 2 ^ k" if "i < ?n" for i
  proof
    assume "(unat a + i) mod 2 ^ k = (unat a + ?n) mod 2 ^ k"
    then have "2 ^ k dvd ?n - i" using that by (metis add_diff_cancel_left le_add1 mod_eq_dvd_iff_nat nat_add_left_cancel_le order_less_imp_le)
    then show False using that assms(3) by (auto dest!: dvd_imp_le)
  qed
  have "ring_window r' a (b + 1) = ring_window r a b @ [v]" unfolding ring_window_def d r'
    using slot_add [OF assms(1), of a] ne [symmetric] b by (auto simp: len)
  then show ?thesis using r' d assms(1) by (simp add: ring_geo_def)
qed

end

interpretation xr: pow2_ring "of_nat PKT_NUMSLOT - 1" 12
  by unfold_locales (simp_all add: PKT_NUMSLOT_def mask_eq_exp_minus_1)

section \<open>The capture loop and the kernel\<close>

text \<open>
  The state of \<open>capture_xdp\<close>, with the position in the loop: waiting in \<open>poll\<close>, working on a batch, or
  between the two stores that publish it. The last four fields are no data of the program: the chunks
  the kernel has taken from the fill ring and not yet handed back, the frames it has handed over, the
  frames the program has passed to \<open>insp_process_pkt\<close>, and whether the loop has ended.
\<close>

datatype phase = Polling | Batch | Publishing | Ended

record xsk =
  xk_insp :: dns_insp
  xk_umem :: "byte list"
  xk_fill :: "u64 xsk_ring"
  xk_rx :: "xdp_desc xsk_ring"
  xk_phase :: phase
  xk_ridx :: u32
  xk_widx :: u32
  xk_fidx :: u32
  xk_held :: "nat multiset"
  xk_posted :: "byte list list"
  xk_seen :: "byte list list"

definition rx_frame :: "byte list \<Rightarrow> xdp_desc \<Rightarrow> byte list" where
  "rx_frame umem d = take (unat (xd_len d)) (drop (unat (xd_addr d)) umem)"

definition rx_packet :: "xsk \<Rightarrow> xsk option" where
  "rx_packet s = do {
     d \<leftarrow> get_desc (xk_ridx s) (xk_rx s);
     (rc, insp) \<leftarrow> insp_process_pkt (xk_insp s) (drop (unat (xd_addr d)) (xk_umem s)) (unat (xd_len d));
     fill \<leftarrow> put_desc (xk_fidx s) (xd_addr d) (xk_fill s);
     Some (s\<lparr>xk_insp := insp, xk_fill := fill, xk_fidx := xk_fidx s + 1, xk_ridx := xk_ridx s + 1,
       xk_seen := xk_seen s @ [rx_frame (xk_umem s) d]\<rparr>) }"

inductive capture_step :: "xsk \<Rightarrow> xsk \<Rightarrow> bool" where
  ready: "xk_phase s = Polling \<Longrightarrow>
    capture_step s (s\<lparr>xk_phase := Batch, xk_ridx := rg_consumer (xk_rx s), xk_widx := rg_producer (xk_rx s), xk_fidx := rg_producer (xk_fill s)\<rparr>)"
| stop: "xk_phase s = Polling \<Longrightarrow> capture_step s (s\<lparr>xk_phase := Ended\<rparr>)"
| packet: "xk_phase s = Batch \<Longrightarrow> xk_ridx s \<noteq> xk_widx s \<Longrightarrow> rx_packet s = Some s' \<Longrightarrow> capture_step s s'"
| publish: "xk_phase s = Batch \<Longrightarrow> xk_ridx s = xk_widx s \<Longrightarrow>
    capture_step s (s\<lparr>xk_phase := Publishing, xk_fill := (xk_fill s)\<lparr>rg_producer := xk_fidx s\<rparr>\<rparr>)"
| release: "xk_phase s = Publishing \<Longrightarrow>
    capture_step s (s\<lparr>xk_phase := Polling, xk_rx := (xk_rx s)\<lparr>rg_consumer := xk_ridx s\<rparr>\<rparr>)"

text \<open>
  What the kernel's documentation of AF_XDP promises. Addresses lie in chunks of the registered size, in
  aligned mode the low bits of an address in the fill ring are ignored. The kernel takes an address from
  the fill ring, stores into chunks it has taken, and hands a taken chunk over with a frame
  inside it when the receive ring has room.
\<close>

definition chunk_of :: "u64 \<Rightarrow> nat" where "chunk_of a = unat a div PKT_MAXSIZE"

definition kernel_take :: "xsk \<Rightarrow> xsk \<Rightarrow> bool" where
  "kernel_take s s' \<longleftrightarrow> rg_consumer (xk_fill s) \<noteq> rg_producer (xk_fill s) \<and>
     (case get_desc (rg_consumer (xk_fill s)) (xk_fill s) of None \<Rightarrow> False
      | Some a \<Rightarrow> s' = s\<lparr>xk_fill := (xk_fill s)\<lparr>rg_consumer := rg_consumer (xk_fill s) + 1\<rparr>, xk_held := add_mset (chunk_of a) (xk_held s)\<rparr>)"

definition kernel_store :: "xsk \<Rightarrow> xsk \<Rightarrow> bool" where
  "kernel_store s s' \<longleftrightarrow> length (xk_umem s') = length (xk_umem s) \<and>
     (\<forall>i < length (xk_umem s). i div PKT_MAXSIZE \<notin># xk_held s \<longrightarrow> xk_umem s' ! i = xk_umem s ! i) \<and>
     s' = s\<lparr>xk_umem := xk_umem s'\<rparr>"

definition kernel_post :: "xsk \<Rightarrow> xsk \<Rightarrow> bool" where
  "kernel_post s s' \<longleftrightarrow> unat (rg_producer (xk_rx s) - rg_consumer (xk_rx s)) < PKT_NUMSLOT \<and>
     (\<exists>d rx. chunk_of (xd_addr d) \<in># xk_held s \<and> unat (xd_addr d) mod PKT_MAXSIZE + unat (xd_len d) \<le> PKT_MAXSIZE \<and>
       put_desc (rg_producer (xk_rx s)) d (xk_rx s) = Some rx \<and>
       s' = s\<lparr>xk_rx := rx\<lparr>rg_producer := rg_producer (xk_rx s) + 1\<rparr>, xk_held := xk_held s - {#chunk_of (xd_addr d)#},
         xk_posted := xk_posted s @ [rx_frame (xk_umem s) d]\<rparr>)"

definition kernel_contract :: "(xsk \<Rightarrow> xsk \<Rightarrow> bool) \<Rightarrow> bool" where
  "kernel_contract K \<longleftrightarrow> (\<forall>s s'. K s s' \<longrightarrow> kernel_take s s' \<or> kernel_store s s' \<or> kernel_post s s')"

inductive xdp_run :: "(xsk \<Rightarrow> xsk \<Rightarrow> bool) \<Rightarrow> xsk \<Rightarrow> xsk \<Rightarrow> bool" for K s where
  start: "xdp_run K s s"
| user: "xdp_run K s t \<Longrightarrow> capture_step t u \<Longrightarrow> xdp_run K s u"
| kernel: "xdp_run K s t \<Longrightarrow> K t u \<Longrightarrow> xdp_run K s u"

text \<open>The state after \<open>setup_xdp\<close> and \<open>xsk_ring_fill\<close>: the kernel's rings are empty and start at index 0.\<close>

definition xdp_start :: "dns_insp \<Rightarrow> byte list \<Rightarrow> u64 list \<Rightarrow> xdp_desc list \<Rightarrow> xsk option" where
  "xdp_start insp umem fr_descs rx_descs = do {
     fill \<leftarrow> xsk_ring_fill (ring_init 0 0 fr_descs PKT_NUMSLOT PKT_MAXSIZE);
     Some \<lparr>xk_insp = insp, xk_umem = umem, xk_fill = fill, xk_rx = ring_init 0 0 rx_descs PKT_NUMSLOT PKT_MAXSIZE,
       xk_phase = Polling, xk_ridx = 0, xk_widx = 0, xk_fidx = rg_producer fill, xk_held = {#}, xk_posted = [], xk_seen = []\<rparr> }"

section \<open>Ownership of the chunks\<close>

abbreviation geo :: "'a xsk_ring \<Rightarrow> bool" where
  "geo \<equiv> ring_geo (of_nat PKT_NUMSLOT - 1) 12"

definition fill_chunks :: "xsk \<Rightarrow> nat list" where
  "fill_chunks s = map chunk_of (ring_window (xk_fill s) (rg_consumer (xk_fill s)) (xk_fidx s))"

definition rx_pending :: "xsk \<Rightarrow> xdp_desc list" where
  "rx_pending s = ring_window (xk_rx s) (xk_ridx s) (rg_producer (xk_rx s))"

definition rx_chunks :: "xsk \<Rightarrow> nat list" where
  "rx_chunks s = map (\<lambda>d. chunk_of (xd_addr d)) (rx_pending s)"

definition conserved :: "xsk \<Rightarrow> bool" where
  "conserved s \<longleftrightarrow> mset (fill_chunks s) + xk_held s + mset (rx_chunks s) = mset [0..<PKT_NUMSLOT]"

definition desc_ok :: "xdp_desc \<Rightarrow> bool" where
  "desc_ok d \<longleftrightarrow> unat (xd_addr d) mod PKT_MAXSIZE + unat (xd_len d) \<le> PKT_MAXSIZE"

text \<open>The indices of the two rings, the batch and the frames still to be seen.\<close>

definition indices_ok :: "xsk \<Rightarrow> bool" where
  "indices_ok s \<longleftrightarrow>
     unat (rg_producer (xk_fill s) - rg_consumer (xk_fill s)) + unat (xk_fidx s - rg_producer (xk_fill s)) =
       unat (xk_fidx s - rg_consumer (xk_fill s)) \<and>
     unat (xk_ridx s - rg_consumer (xk_rx s)) + unat (rg_producer (xk_rx s) - xk_ridx s) =
       unat (rg_producer (xk_rx s) - rg_consumer (xk_rx s)) \<and>
     unat (rg_producer (xk_rx s) - rg_consumer (xk_rx s)) \<le> PKT_NUMSLOT \<and>
     (xk_phase s = Batch \<longrightarrow> unat (xk_widx s - xk_ridx s) \<le> unat (rg_producer (xk_rx s) - xk_ridx s)) \<and>
     (xk_phase s \<noteq> Batch \<longrightarrow> xk_fidx s = rg_producer (xk_fill s)) \<and>
     (xk_phase s \<in> {Polling, Ended} \<longrightarrow> xk_ridx s = rg_consumer (xk_rx s))"

definition xsk_inv :: "xsk \<Rightarrow> bool" where
  "xsk_inv s \<longleftrightarrow> geo (xk_fill s) \<and> geo (xk_rx s) \<and> length (xk_umem s) = PKT_NUMSLOT * PKT_MAXSIZE \<and> conserved s \<and>
     indices_ok s \<and> list_all desc_ok (rx_pending s) \<and>
     xk_posted s = xk_seen s @ map (rx_frame (xk_umem s)) (rx_pending s)"

lemmas view_defs = fill_chunks_def rx_pending_def rx_chunks_def conserved_def

lemma dist_pos: "a \<noteq> b \<Longrightarrow> 0 < unat (b - a)" for a b :: u32
  using dist_zero [of b a] by (simp add: neq0_conv [symmetric] del: dist_zero neq0_conv)

lemma conserved_count: "conserved s \<Longrightarrow> length (fill_chunks s) + size (xk_held s) + length (rx_pending s) = PKT_NUMSLOT"
  by (metis conserved_def length_map rx_chunks_def size_mset size_union length_upt diff_zero)

text \<open>The pending packets of a batch: one is left, and the fill ring has room for its chunk.\<close>

lemma batch_pending:
  assumes "xsk_inv s" and "xk_phase s = Batch" and "xk_ridx s \<noteq> xk_widx s"
  shows "xk_ridx s \<noteq> rg_producer (xk_rx s)" "unat (xk_fidx s - rg_consumer (xk_fill s)) < PKT_NUMSLOT"
proof -
  have "0 < unat (xk_widx s - xk_ridx s)" using assms(3) by (rule dist_pos)
  then have "0 < unat (rg_producer (xk_rx s) - xk_ridx s)" using assms(1,2) by (auto simp: xsk_inv_def indices_ok_def)
  then show "xk_ridx s \<noteq> rg_producer (xk_rx s)" "unat (xk_fidx s - rg_consumer (xk_fill s)) < PKT_NUMSLOT"
    using conserved_count [of s] assms(1) by (auto simp: xsk_inv_def fill_chunks_def rx_pending_def)
qed

lemma ready_inv:
  assumes "xsk_inv s" and "xk_phase s = Polling"
  shows "xsk_inv (s\<lparr>xk_phase := Batch, xk_ridx := rg_consumer (xk_rx s), xk_widx := rg_producer (xk_rx s), xk_fidx := rg_producer (xk_fill s)\<rparr>)"
  using assms by (auto simp: xsk_inv_def indices_ok_def view_defs)

lemma stop_inv: "xsk_inv s \<Longrightarrow> xk_phase s = Polling \<Longrightarrow> xsk_inv (s\<lparr>xk_phase := Ended\<rparr>)"
  by (auto simp: xsk_inv_def indices_ok_def view_defs)

lemma publish_inv:
  assumes "xsk_inv s" and "xk_phase s = Batch"
  shows "xsk_inv (s\<lparr>xk_phase := Publishing, xk_fill := (xk_fill s)\<lparr>rg_producer := xk_fidx s\<rparr>\<rparr>)"
  using assms window_cong [of "(xk_fill s)\<lparr>rg_producer := xk_fidx s\<rparr>" "xk_fill s"]
  by (auto simp: xsk_inv_def indices_ok_def view_defs ring_geo_def)

lemma release_inv:
  assumes "xsk_inv s" and "xk_phase s = Publishing"
  shows "xsk_inv (s\<lparr>xk_phase := Polling, xk_rx := (xk_rx s)\<lparr>rg_consumer := xk_ridx s\<rparr>\<rparr>)"
  using assms window_cong [of "(xk_rx s)\<lparr>rg_consumer := xk_ridx s\<rparr>" "xk_rx s"]
  by (auto simp: xsk_inv_def indices_ok_def view_defs ring_geo_def)

lemma packet_inv:
  assumes inv: "xsk_inv s" and ph: "xk_phase s = Batch" "xk_ridx s \<noteq> xk_widx s" and st: "rx_packet s = Some s'"
  shows "xsk_inv s'"
proof -
  note pend = batch_pending [OF inv ph]
  have g: "geo (xk_fill s)" "geo (xk_rx s)" using inv by (auto simp: xsk_inv_def)
  obtain d where d: "get_desc (xk_ridx s) (xk_rx s) = Some d"
      "rx_pending s = d # ring_window (xk_rx s) (xk_ridx s + 1) (rg_producer (xk_rx s))"
    using xr.window_pop [OF g(2) pend(1)] by (auto simp: rx_pending_def)
  obtain insp fill where f: "put_desc (xk_fidx s) (xd_addr d) (xk_fill s) = Some fill"
      and s': "s' = s\<lparr>xk_insp := insp, xk_fill := fill, xk_fidx := xk_fidx s + 1, xk_ridx := xk_ridx s + 1,
        xk_seen := xk_seen s @ [rx_frame (xk_umem s) d]\<rparr>"
    using st d(1) by (auto simp: rx_packet_def split: bind_splits)
  have lt: "unat (xk_fidx s - rg_consumer (xk_fill s)) < 2 ^ 12" using pend(2) by (simp add: PKT_NUMSLOT_def)
  note w = xr.window_push [OF g(1) f lt]
  have ix: "indices_ok s" using inv by (simp add: xsk_inv_def)
  have fp: "unat (xk_fidx s + 1 - rg_producer (xk_fill s)) = Suc (unat (xk_fidx s - rg_producer (xk_fill s)))"
    using ix lt by (intro dist_Suc) (auto simp: indices_ok_def)
  have rp: "unat (rg_producer (xk_rx s) - (xk_ridx s + 1)) = unat (rg_producer (xk_rx s) - xk_ridx s) - 1"
    by (rule dist_pop [OF pend(1)])
  have pos: "0 < unat (rg_producer (xk_rx s) - xk_ridx s)" using pend(1) by (rule dist_pos)
  have rc: "unat (xk_ridx s + 1 - rg_consumer (xk_rx s)) = Suc (unat (xk_ridx s - rg_consumer (xk_rx s)))"
    using ix pos by (intro dist_Suc) (auto simp: indices_ok_def PKT_NUMSLOT_def)
  have wr: "unat (xk_widx s - (xk_ridx s + 1)) = unat (xk_widx s - xk_ridx s) - 1" by (rule dist_pop [OF ph(2)])
  have "indices_ok s'" using ix w fp rp rc wr pos ph(1) unfolding indices_ok_def s' by auto
  moreover have "conserved s'" using inv d(2) w unfolding xsk_inv_def s' by (auto simp: view_defs)
  ultimately show ?thesis using inv d(2) w unfolding xsk_inv_def s' by (auto simp: rx_pending_def)
qed

inductive_cases capture_stepE: "capture_step s s'"

lemma capture_step_inv: "capture_step s s' \<Longrightarrow> xsk_inv s \<Longrightarrow> xsk_inv s'"
  by (erule capture_stepE) (auto intro: ready_inv stop_inv publish_inv release_inv packet_inv)

lemma take_inv:
  assumes inv: "xsk_inv s" and st: "kernel_take s s'"
  shows "xsk_inv s'"
proof -
  have ne: "rg_consumer (xk_fill s) \<noteq> rg_producer (xk_fill s)" using st by (simp add: kernel_take_def)
  have ix: "indices_ok s" and g: "geo (xk_fill s)" using inv by (simp_all add: xsk_inv_def)
  have pos: "0 < unat (rg_producer (xk_fill s) - rg_consumer (xk_fill s))" using ne by (rule dist_pos)
  have "unat (rg_producer (xk_fill s) - rg_consumer (xk_fill s)) + unat (xk_fidx s - rg_producer (xk_fill s)) =
       unat (xk_fidx s - rg_consumer (xk_fill s))" using ix by (simp add: indices_ok_def)
  then have "unat (xk_fidx s - rg_consumer (xk_fill s)) \<noteq> 0" using pos by linarith
  then have ne': "rg_consumer (xk_fill s) \<noteq> xk_fidx s" by simp
  obtain a where a: "get_desc (rg_consumer (xk_fill s)) (xk_fill s) = Some a"
      "ring_window (xk_fill s) (rg_consumer (xk_fill s)) (xk_fidx s) = a # ring_window (xk_fill s) (rg_consumer (xk_fill s) + 1) (xk_fidx s)"
    using xr.window_pop [OF g ne'] by auto
  have s': "s' = s\<lparr>xk_fill := (xk_fill s)\<lparr>rg_consumer := rg_consumer (xk_fill s) + 1\<rparr>, xk_held := add_mset (chunk_of a) (xk_held s)\<rparr>"
    using st a(1) by (simp add: kernel_take_def)
  have w: "ring_window ((xk_fill s)\<lparr>rg_consumer := c\<rparr>) = ring_window (xk_fill s)" for c
    by (intro ext window_cong) simp_all
  have "indices_ok s'" using ix pos unfolding indices_ok_def s' by (simp add: dist_pop [OF ne] dist_pop [OF ne'])
  moreover have "conserved s'" using inv a(2) unfolding xsk_inv_def s' by (simp add: view_defs w)
  ultimately show ?thesis using inv unfolding xsk_inv_def s' by (simp add: rx_pending_def ring_geo_def)
qed

text \<open>A frame lies inside its chunk.\<close>

lemma chunk_split: "a mod PKT_MAXSIZE + k < PKT_MAXSIZE \<Longrightarrow> (a + k) div PKT_MAXSIZE = a div PKT_MAXSIZE"
proof -
  assume k: "a mod PKT_MAXSIZE + k < PKT_MAXSIZE"
  have "a + k = (a mod PKT_MAXSIZE + k) + PKT_MAXSIZE * (a div PKT_MAXSIZE)" by simp
  then show ?thesis using k by (simp only: div_mult_self2 [of PKT_MAXSIZE]) (simp add: PKT_MAXSIZE_def)
qed

lemma rx_frame_eq:
  assumes "desc_ok d" and "length u' = length u" and "\<And>i. i < length u \<Longrightarrow> i div PKT_MAXSIZE = chunk_of (xd_addr d) \<Longrightarrow> u' ! i = u ! i"
  shows "rx_frame u' d = rx_frame u d"
proof (rule nth_equalityI)
  show "length (rx_frame u' d) = length (rx_frame u d)" using assms(2) by (simp add: rx_frame_def)
next
  fix i assume "i < length (rx_frame u' d)"
  then have i: "i < unat (xd_len d)" "unat (xd_addr d) + i < length u" using assms(2) by (auto simp: rx_frame_def)
  then have "(unat (xd_addr d) + i) div PKT_MAXSIZE = chunk_of (xd_addr d)"
    using assms(1) unfolding chunk_of_def desc_ok_def by (intro chunk_split) simp
  then show "rx_frame u' d ! i = rx_frame u d ! i" using i assms(2,3) by (simp add: rx_frame_def)
qed

lemma store_inv:
  assumes inv: "xsk_inv s" and st: "kernel_store s s'"
  shows "xsk_inv s'"
proof -
  have s': "s' = s\<lparr>xk_umem := xk_umem s'\<rparr>" and len: "length (xk_umem s') = length (xk_umem s)"
    and same: "\<And>i. i < length (xk_umem s) \<Longrightarrow> i div PKT_MAXSIZE \<notin># xk_held s \<Longrightarrow> xk_umem s' ! i = xk_umem s ! i"
    using st unfolding kernel_store_def by blast+
  have free: "chunk_of (xd_addr d) \<notin># xk_held s" if "d \<in> set (rx_pending s)" for d
  proof
    assume "chunk_of (xd_addr d) \<in># xk_held s"
    then have "0 < count (xk_held s) (chunk_of (xd_addr d))" by simp
    moreover have "chunk_of (xd_addr d) \<in># mset (rx_chunks s)" using that by (auto simp: rx_chunks_def)
    then have "0 < count (mset (rx_chunks s)) (chunk_of (xd_addr d))" by (simp only: count_greater_zero_iff)
    ultimately have "2 \<le> count (mset (fill_chunks s) + xk_held s + mset (rx_chunks s)) (chunk_of (xd_addr d))"
      by (simp only: count_union) 
    moreover have "count (mset [0..<PKT_NUMSLOT]) x \<le> 1" for x by (simp add: count_mset_set')
    ultimately show False using inv by (metis Suc_1 conserved_def not_less_eq_eq xsk_inv_def)
  qed
  have "map (rx_frame (xk_umem s')) (rx_pending s) = map (rx_frame (xk_umem s)) (rx_pending s)"
  proof (rule map_cong [OF refl])
    fix d assume d: "d \<in> set (rx_pending s)"
    then have "desc_ok d" using inv by (auto simp: xsk_inv_def list_all_iff)
    then show "rx_frame (xk_umem s') d = rx_frame (xk_umem s) d"
      using len free [OF d] same by (intro rx_frame_eq) auto
  qed
  moreover have "rx_pending s' = rx_pending s" "indices_ok s' = indices_ok s" "conserved s' = conserved s"
    by (subst s', simp add: view_defs indices_ok_def)+
  moreover have "xk_posted s' = xk_posted s" "xk_seen s' = xk_seen s" "xk_fill s' = xk_fill s" "xk_rx s' = xk_rx s"
    by (subst s', simp)+
  ultimately show ?thesis using inv len by (simp add: xsk_inv_def)
qed

lemma post_inv:
  assumes inv: "xsk_inv s" and st: "kernel_post s s'"
  shows "xsk_inv s'"
proof -
  let ?p = "rg_producer (xk_rx s)"
  obtain d rx where d: "chunk_of (xd_addr d) \<in># xk_held s" "desc_ok d" and put: "put_desc ?p d (xk_rx s) = Some rx"
      and s': "s' = s\<lparr>xk_rx := rx\<lparr>rg_producer := ?p + 1\<rparr>, xk_held := xk_held s - {#chunk_of (xd_addr d)#},
         xk_posted := xk_posted s @ [rx_frame (xk_umem s) d]\<rparr>"
      and room: "unat (?p - rg_consumer (xk_rx s)) < PKT_NUMSLOT"
    using st unfolding kernel_post_def desc_ok_def by blast
  have ix: "indices_ok s" and g: "geo (xk_rx s)" using inv by (simp_all add: xsk_inv_def)
  have lt: "unat (?p - xk_ridx s) < 2 ^ 12" "unat (?p - rg_consumer (xk_rx s)) < 2 ^ 12"
    using ix room by (auto simp: indices_ok_def PKT_NUMSLOT_def)
  note w = xr.window_push [OF g put lt(1)]
  note w' = xr.window_push [OF g put lt(2)]
  have win: "ring_window (rx\<lparr>rg_producer := c\<rparr>) = ring_window rx" for c by (intro ext window_cong) simp_all
  have pend: "rx_pending s' = rx_pending s @ [d]" using w by (simp add: s' rx_pending_def win)
  have "indices_ok s'" using ix room w w' unfolding indices_ok_def s' by auto
  moreover obtain h where h: "xk_held s = add_mset (chunk_of (xd_addr d)) h" using d(1) by (metis mset_add)
  have "conserved s" using inv by (simp add: xsk_inv_def)
  then have "conserved s'" unfolding conserved_def rx_chunks_def pend by (simp add: s' h fill_chunks_def)
  ultimately show ?thesis using inv pend d(2) w unfolding xsk_inv_def by (simp add: s' ring_geo_def)
qed

lemma kernel_inv: "kernel_contract K \<Longrightarrow> K s s' \<Longrightarrow> xsk_inv s \<Longrightarrow> xsk_inv s'"
  unfolding kernel_contract_def using take_inv store_inv post_inv by blast

lemma run_inv: "xdp_run K s t \<Longrightarrow> kernel_contract K \<Longrightarrow> xsk_inv s \<Longrightarrow> xsk_inv t"
  by (induction rule: xdp_run.induct) (auto intro: capture_step_inv kernel_inv)

section \<open>The start\<close>

lemma max_size_wide: "ucast (of_nat PKT_MAXSIZE :: u32) = (of_nat PKT_MAXSIZE :: u64)"
  by (simp add: PKT_MAXSIZE_def)

lemma fill_loop_window:
  assumes "geo r" and "i + n \<le> PKT_NUMSLOT" and "rg_max_size r = of_nat PKT_MAXSIZE"
    and "ring_window r 0 (of_nat i) = map (\<lambda>j. of_nat (j * PKT_MAXSIZE)) [0..<i]"
  shows "\<exists>r'. fill_loop n (of_nat (i * PKT_MAXSIZE)) (of_nat i) r = Some (of_nat (i + n), r') \<and> geo r' \<and>
    rg_consumer r' = rg_consumer r \<and> ring_window r' 0 (of_nat (i + n)) = map (\<lambda>j. of_nat (j * PKT_MAXSIZE)) [0..<i + n]"
  using assms
proof (induction n arbitrary: i r)
  case 0
  then show ?case by simp
next
  case (Suc n)
  let ?v = "of_nat (i * PKT_MAXSIZE) :: u64"
  obtain r1 where p: "put_desc (of_nat i) ?v r = Some r1" using xr.put_defined [OF Suc.prems(1)] by blast
  have "unat (of_nat i - 0 :: u32) < 2 ^ 12" using Suc.prems(2) by (simp add: unat_of_nat PKT_NUMSLOT_def)
  note w = xr.window_push [OF Suc.prems(1) p this]
  have s: "of_nat i + 1 = (of_nat (Suc i) :: u32)" by (simp add: add.commute)
  have o: "?v + ucast (rg_max_size r) = of_nat (Suc i * PKT_MAXSIZE)"
    unfolding Suc.prems(3) max_size_wide mult_Suc of_nat_add by (rule add.commute)
  have m: "rg_max_size r1 = rg_max_size r" using p by (auto simp: put_desc_def Let_def split: if_splits)
  have "ring_window r1 0 (of_nat (Suc i)) = map (\<lambda>j. of_nat (j * PKT_MAXSIZE)) [0..<Suc i]"
    using w Suc.prems(4) unfolding s by simp
  from Suc.IH [OF _ _ _ this] w m Suc.prems(2,3) show ?case
    unfolding fill_loop.simps p bind.bind_lunit o s by (simp only: add_Suc_right add_Suc)
qed

lemma chunk_of_start: "j < PKT_NUMSLOT \<Longrightarrow> chunk_of (of_nat (j * PKT_MAXSIZE)) = j"
  unfolding chunk_of_def unat_of_nat by (simp add: PKT_NUMSLOT_def PKT_MAXSIZE_def)

lemma ring_fill_window:
  assumes "length descs = PKT_NUMSLOT"
  shows "\<exists>r. xsk_ring_fill (ring_init 0 0 descs PKT_NUMSLOT PKT_MAXSIZE) = Some r \<and> geo r \<and> rg_consumer r = 0 \<and>
    rg_producer r = of_nat PKT_NUMSLOT \<and> ring_window r 0 (rg_producer r) = map (\<lambda>j. of_nat (j * PKT_MAXSIZE)) [0..<PKT_NUMSLOT]"
proof -
  let ?r = "ring_init 0 0 descs PKT_NUMSLOT PKT_MAXSIZE"
  have g: "geo ?r" using assms by (simp add: ring_geo_def ring_init_def PKT_NUMSLOT_def)
  have n: "unat (rg_num_slot ?r) = PKT_NUMSLOT" by (simp add: ring_init_def PKT_NUMSLOT_def)
  have m: "rg_max_size ?r = of_nat PKT_MAXSIZE" by (simp add: ring_init_def)
  have c: "rg_consumer ?r = 0" by (simp add: ring_init_def)
  obtain r where r: "fill_loop PKT_NUMSLOT 0 0 ?r = Some (of_nat PKT_NUMSLOT, r)" "geo r" "rg_consumer r = 0"
      "ring_window r 0 (of_nat PKT_NUMSLOT) = map (\<lambda>j. of_nat (j * PKT_MAXSIZE)) [0..<PKT_NUMSLOT]"
    using fill_loop_window [OF g, of 0 PKT_NUMSLOT] m c by auto
  have "ring_window (r\<lparr>rg_producer := p\<rparr>) = ring_window r" for p by (intro ext window_cong) simp_all
  then show ?thesis using r unfolding xsk_ring_fill_def n by (simp add: ring_geo_def)
qed

lemma xdp_start_inv:
  assumes "length umem = PKT_NUMSLOT * PKT_MAXSIZE" and "length fr = PKT_NUMSLOT" and "length rx = PKT_NUMSLOT"
  shows "\<exists>s. xdp_start insp umem fr rx = Some s \<and> xsk_inv s"
proof -
  obtain r where r: "xsk_ring_fill (ring_init 0 0 fr PKT_NUMSLOT PKT_MAXSIZE) = Some r" "geo r" "rg_consumer r = 0"
      "rg_producer r = of_nat PKT_NUMSLOT" "ring_window r 0 (rg_producer r) = map (\<lambda>j. of_nat (j * PKT_MAXSIZE)) [0..<PKT_NUMSLOT]"
    using ring_fill_window [OF assms(2)] by blast
  obtain s where s: "xdp_start insp umem fr rx = Some s" "xk_umem s = umem" "xk_fill s = r" "xk_ridx s = 0" "xk_fidx s = rg_producer r"
      "xk_rx s = ring_init 0 0 rx PKT_NUMSLOT PKT_MAXSIZE" "xk_phase s = Polling" "xk_held s = {#}" "xk_posted s = []" "xk_seen s = []"
    using r(1) by (auto simp: xdp_start_def)
  have geo: "geo (xk_rx s)" "rg_consumer (xk_rx s) = 0" "rg_producer (xk_rx s) = 0"
    using assms(3) by (simp_all add: s ring_geo_def ring_init_def PKT_NUMSLOT_def)
  have p: "rx_pending s = []" using geo s by (simp add: rx_pending_def)
  have "fill_chunks s = map chunk_of (map (\<lambda>j. of_nat (j * PKT_MAXSIZE)) [0..<PKT_NUMSLOT])"
    using r s by (simp add: fill_chunks_def)
  also have "\<dots> = map (\<lambda>j. j) [0..<PKT_NUMSLOT]" unfolding map_map by (rule map_cong [OF refl]) (simp only: o_apply chunk_of_start set_upt atLeastLessThan_iff)
  finally have f: "fill_chunks s = [0..<PKT_NUMSLOT]" by simp
  have "conserved s" using f p s by (simp add: conserved_def rx_chunks_def)
  moreover have "indices_ok s" using s geo r by (simp add: indices_ok_def)
  ultimately show ?thesis using assms(1) s geo r p by (simp add: xsk_inv_def)
qed

text \<open>C10. Under every interleaving of \<open>capture_xdp\<close> with a kernel that keeps the AF_XDP contract, each of the 4096 chunks has
  exactly one owner: the fill ring, the kernel or the receive ring. Whenever the program is about to process a packet, the
  packet lies inside the UMEM, its chunk is neither with the kernel nor offered to it, and the slot the program writes
  next in the fill ring is free, although the code never looks at the kernel's index.\<close>

theorem xdp_chunks_conserved:
  assumes "kernel_contract K" and "length umem = PKT_NUMSLOT * PKT_MAXSIZE" and "length fr = PKT_NUMSLOT" and "length rx = PKT_NUMSLOT"
    and "xdp_start insp umem fr rx = Some s" and "xdp_run K s t"
  shows "mset (fill_chunks t) + xk_held t + mset (rx_chunks t) = mset [0..<PKT_NUMSLOT] \<and>
    (xk_phase t = Batch \<and> xk_ridx t \<noteq> xk_widx t \<longrightarrow>
      (\<exists>d. get_desc (xk_ridx t) (xk_rx t) = Some d \<and> unat (xd_addr d) + unat (xd_len d) \<le> length (xk_umem t) \<and>
        chunk_of (xd_addr d) \<notin># xk_held t + mset (fill_chunks t) \<and>
        unat (xk_fidx t - rg_consumer (xk_fill t)) < PKT_NUMSLOT))"
proof -
  have inv: "xsk_inv t" using run_inv [OF assms(6,1)] xdp_start_inv [OF assms(2-4), of insp] assms(5) by auto
  have c: "mset (fill_chunks t) + xk_held t + mset (rx_chunks t) = mset [0..<PKT_NUMSLOT]"
    using inv by (simp add: xsk_inv_def conserved_def)
  have "\<exists>d. get_desc (xk_ridx t) (xk_rx t) = Some d \<and> unat (xd_addr d) + unat (xd_len d) \<le> length (xk_umem t) \<and>
      chunk_of (xd_addr d) \<notin># xk_held t + mset (fill_chunks t) \<and> unat (xk_fidx t - rg_consumer (xk_fill t)) < PKT_NUMSLOT"
    if ph: "xk_phase t = Batch" "xk_ridx t \<noteq> xk_widx t"
  proof -
    note pend = batch_pending [OF inv ph]
    have g: "geo (xk_rx t)" using inv by (simp add: xsk_inv_def)
    obtain d ds where d: "get_desc (xk_ridx t) (xk_rx t) = Some d" "rx_pending t = d # ds"
      using xr.window_pop [OF g pend(1)] by (auto simp: rx_pending_def)
    have "chunk_of (xd_addr d) \<in> set [0..<PKT_NUMSLOT]" unfolding set_mset_mset [symmetric] c [symmetric] by (simp add: rx_chunks_def d(2))
    then have b: "chunk_of (xd_addr d) < PKT_NUMSLOT" by simp
    have "unat (xd_addr d) mod PKT_MAXSIZE + unat (xd_len d) \<le> PKT_MAXSIZE" using inv d(2) by (simp add: xsk_inv_def desc_ok_def)
    then have "unat (xd_addr d) + unat (xd_len d) \<le> (chunk_of (xd_addr d) + 1) * PKT_MAXSIZE"
      using div_mult_mod_eq [of "unat (xd_addr d)" PKT_MAXSIZE] unfolding chunk_of_def add_mult_distrib mult_1 by linarith
    also have "\<dots> \<le> PKT_NUMSLOT * PKT_MAXSIZE" using b by (intro mult_le_mono1) simp
    also have "\<dots> = length (xk_umem t)" using inv by (simp add: xsk_inv_def)
    finally have len: "unat (xd_addr d) + unat (xd_len d) \<le> length (xk_umem t)" .
    have "count (mset [0..<PKT_NUMSLOT]) (chunk_of (xd_addr d)) \<le> 1" by (simp add: count_mset_set')
    then have "chunk_of (xd_addr d) \<notin># xk_held t + mset (fill_chunks t)"
      unfolding c [symmetric] by (auto simp: rx_chunks_def d(2) count_greater_zero_iff [symmetric] simp del: count_greater_zero_iff)
    then show ?thesis using d(1) len pend(2) by blast
  qed
  then show ?thesis using c by blast
qed

text \<open>C12. Under every such interleaving the two rings and the UMEM are a queue: the frames passed to \<open>insp_process_pkt\<close> followed
  by the contents of the pending descriptors are exactly the frames the kernel has handed over, in order
  and unchanged; when the receive ring is empty the program has seen every frame.\<close>

theorem xdp_delivers_in_order:
  assumes "kernel_contract K" and "length umem = PKT_NUMSLOT * PKT_MAXSIZE" and "length fr = PKT_NUMSLOT" and "length rx = PKT_NUMSLOT"
    and "xdp_start insp umem fr rx = Some s" and "xdp_run K s t"
  shows "xk_posted t = xk_seen t @ map (rx_frame (xk_umem t)) (rx_pending t) \<and>
    (xk_phase t = Polling \<and> rg_consumer (xk_rx t) = rg_producer (xk_rx t) \<longrightarrow> xk_seen t = xk_posted t)"
proof -
  have "xsk_inv t" using run_inv [OF assms(6,1)] xdp_start_inv [OF assms(2-4), of insp] assms(5) by auto
  then show ?thesis by (auto simp: xsk_inv_def indices_ok_def rx_pending_def)
qed

text \<open>A kernel that meets the contract, and a first frame of six bytes.\<close>

definition demo_kernel :: "xsk \<Rightarrow> xsk \<Rightarrow> bool" where
  "demo_kernel s s' \<longleftrightarrow> kernel_take s s' \<or> kernel_store s s' \<or> kernel_post s s'"

definition demo_ring :: "dns_insp \<Rightarrow> xsk option" where
  "demo_ring insp = xdp_start insp (replicate (PKT_NUMSLOT * PKT_MAXSIZE) 0) (replicate PKT_NUMSLOT 0)
     (replicate PKT_NUMSLOT \<lparr>xd_addr = 0, xd_len = 0\<rparr>)"

lemma demo_kernel_contract: "kernel_contract demo_kernel"
  by (simp add: kernel_contract_def demo_kernel_def)

lemma demo_first_frame:
  "\<exists>s t d. demo_ring insp = Some s \<and> xdp_run demo_kernel s t \<and> xk_phase t = Polling \<and> xk_seen t = [] \<and> length (xk_posted t) = 1 \<and>
     xk_insp t = insp \<and> rx_pending t = [d] \<and> unat (xd_len d) = 6 \<and> unat (xd_addr d) mod PKT_MAXSIZE = 0"
proof -
  let ?fr = "replicate PKT_NUMSLOT (0 :: u64)"
  obtain r where r: "xsk_ring_fill (ring_init 0 0 ?fr PKT_NUMSLOT PKT_MAXSIZE) = Some r" "geo r" "rg_consumer r = 0"
      "rg_producer r = of_nat PKT_NUMSLOT"
    using ring_fill_window [of ?fr] by auto
  define s where "s = the (demo_ring insp)"
  have s: "demo_ring insp = Some s" "xk_insp s = insp" "xk_ridx s = 0" "xk_fill s = r" "xk_phase s = Polling" "xk_seen s = []" "xk_posted s = []" "xk_held s = {#}"
      "xk_rx s = ring_init 0 0 (replicate PKT_NUMSLOT \<lparr>xd_addr = 0, xd_len = 0\<rparr>) PKT_NUMSLOT PKT_MAXSIZE"
    using r(1) by (simp_all add: s_def demo_ring_def xdp_start_def)
  obtain a where a: "get_desc 0 r = Some a" using xr.get_defined [OF r(2), of 0] by blast
  define s1 where "s1 = s\<lparr>xk_fill := r\<lparr>rg_consumer := 1\<rparr>, xk_held := {#chunk_of a#}\<rparr>"
  have k1: "kernel_take s s1" using a r s by (simp add: kernel_take_def s1_def PKT_NUMSLOT_def)
  define d where "d = \<lparr>xd_addr = of_nat (chunk_of a * PKT_MAXSIZE), xd_len = 6\<rparr>"
  have "chunk_of a * PKT_MAXSIZE \<le> unat a" by (simp add: chunk_of_def)
  then have ad: "unat (xd_addr d) = chunk_of a * PKT_MAXSIZE"
    using unsigned_less [of a, where ?'a = nat] by (simp add: d_def unat_of_nat del: of_nat_mult)
  then have d: "chunk_of (xd_addr d) = chunk_of a" "unat (xd_addr d) mod PKT_MAXSIZE + unat (xd_len d) \<le> PKT_MAXSIZE"
    by (simp_all add: chunk_of_def d_def PKT_MAXSIZE_def del: of_nat_mult)
  have g: "geo (xk_rx s1)" by (simp add: s1_def s ring_geo_def ring_init_def PKT_NUMSLOT_def)
  obtain rx where rx: "put_desc (rg_producer (xk_rx s1)) d (xk_rx s1) = Some rx" using xr.put_defined [OF g] by blast
  define t where "t = s1\<lparr>xk_rx := rx\<lparr>rg_producer := rg_producer (xk_rx s1) + 1\<rparr>, xk_held := xk_held s1 - {#chunk_of (xd_addr d)#},
         xk_posted := xk_posted s1 @ [rx_frame (xk_umem s1) d]\<rparr>"
  have "kernel_post s1 t" unfolding kernel_post_def using d rx t_def s
    by (intro conjI exI [of _ d] exI [of _ rx]) (simp_all add: s1_def ring_init_def PKT_NUMSLOT_def)
  then have "demo_kernel s s1" "demo_kernel s1 t" using k1 by (simp_all add: demo_kernel_def)
  then have "xdp_run demo_kernel s t" using xdp_run.kernel xdp_run.start by metis
  moreover have "rx_pending t = [d]"
  proof -
    have z: "xk_ridx s1 = 0" "rg_producer (xk_rx s1) = 0" by (simp_all add: s1_def s ring_init_def)
    have "ring_window rx 0 1 = [d]" using xr.window_push [OF g rx, of 0] by (simp add: z)
    then show ?thesis using window_cong [of "rx\<lparr>rg_producer := 1\<rparr>" rx 0 1] by (simp add: rx_pending_def t_def z)
  qed
  moreover have "unat (xd_len d) = 6" "unat (xd_addr d) mod PKT_MAXSIZE = 0" using ad by (simp_all add: d_def)
  ultimately show ?thesis using s by (intro exI [of _ s] exI [of _ t] exI [of _ d]) (simp add: t_def s1_def)
qed

theorem xdp_chunks_conserved_witness:
  "\<exists>s t. demo_ring demo_insp = Some s \<and> xdp_run demo_kernel s t \<and> length (xk_posted t) = 1 \<and>
    mset (fill_chunks t) + xk_held t + mset (rx_chunks t) = mset [0..<PKT_NUMSLOT]"
proof -
  obtain s t where t: "demo_ring demo_insp = Some s" "xdp_run demo_kernel s t" "length (xk_posted t) = 1" using demo_first_frame [of demo_insp] by blast
  then show ?thesis
    using xdp_chunks_conserved [OF demo_kernel_contract _ _ _ t(1) [unfolded demo_ring_def] t(2)] by auto
qed

theorem xdp_delivers_in_order_witness:
  "\<exists>s t. demo_ring demo_insp = Some s \<and> xdp_run demo_kernel s t \<and> xk_posted t = map (rx_frame (xk_umem t)) (rx_pending t) \<and> length (rx_pending t) = 1"
proof -
  obtain s t where t: "demo_ring demo_insp = Some s" "xdp_run demo_kernel s t" "xk_seen t = []" "length (xk_posted t) = 1"
    using demo_first_frame [of demo_insp] by blast
  then show ?thesis
    using xdp_delivers_in_order [OF demo_kernel_contract _ _ _ t(1) [unfolded demo_ring_def] t(2)] by auto
qed

end
