(* ===== verification/Cmd_Line.thy ===== *)
theory Cmd_Line
  imports Str_Util Sbuf
begin

text \<open>
  The command line of both programs: \<open>src/src/util.c\<close> and \<open>util.h\<close>.

  An argument is the list of its bytes before the NUL, \<open>argc\<close> is the length of \<open>argv\<close>, and a log message leaves
  nothing but the value that is returned after it. \<open>strdup\<close>, the processes that \<open>run_cmd\<close> starts and \<open>sigaction\<close> are
  parameters. Shown are that the option loop means \<open>parse_args\<close>, a structural reading of the arguments, and that \<open>run_cmd\<close>
  cuts its command string into the words that the program then sees.
\<close>

section \<open>String helpers of \<open>util.h\<close>\<close>

definition get_basename :: "byte list option \<Rightarrow> byte list option" where
  "get_basename path = (case path of None \<Rightarrow> None
     | Some p \<Rightarrow> if 47 \<in> set p then Some (rev (takeWhile (\<lambda>b. b \<noteq> 47) (rev p))) else Some p)"

text \<open>\<open>vsnprintf\<close> with the expansion \<open>text\<close>, or a failure of it (\<open>None\<close>).\<close>

definition gen_str :: "byte list \<Rightarrow> nat \<Rightarrow> nat \<Rightarrow> byte list option \<Rightarrow> (int \<times> byte list) option" where
  "gen_str m buf len expansion =
     (case expansion of None \<Rightarrow> Some (-1, m)
      | Some t \<Rightarrow> do { (rc, m') \<leftarrow> snprintf_at m buf len t; Some (if rc \<ge> len then -1 else 0, m') })"

section \<open>Numbers on the command line\<close>

text \<open>\<open>strtol\<close> and \<open>strtoul\<close> with base 0: white space, a sign, a prefix that selects the base, digits; the result
  saturates at the limits of \<open>long\<close>.\<close>

definition is_space :: "byte \<Rightarrow> bool" where
  "is_space b \<longleftrightarrow> b = 32 \<or> (9 \<le> b \<and> b \<le> 13)"

definition digit_val :: "byte \<Rightarrow> nat option" where
  "digit_val b =
     (if 48 \<le> b \<and> b \<le> 57 then Some (unat b - 48)
      else if 97 \<le> b \<and> b \<le> 122 then Some (unat b - 87)
      else if 65 \<le> b \<and> b \<le> 90 then Some (unat b - 55) else None)"

fun digits_num :: "nat \<Rightarrow> nat \<Rightarrow> byte list \<Rightarrow> nat" where
  "digits_num base n [] = n"
| "digits_num base n (b # s) =
     (case digit_val b of
        Some d \<Rightarrow> if d < base then digits_num base (n * base + d) s else n
      | None \<Rightarrow> n)"

definition is_digit_of :: "nat \<Rightarrow> byte \<Rightarrow> bool" where
  "is_digit_of base b = (case digit_val b of Some d \<Rightarrow> d < base | None \<Rightarrow> False)"

definition magnitude :: "byte list \<Rightarrow> nat" where
  "magnitude s =
     (case s of
        [] \<Rightarrow> 0
      | c # t \<Rightarrow>
          if c \<noteq> 48 then digits_num 10 0 s
          else (case t of
                  x # h # u \<Rightarrow> if (x = 120 \<or> x = 88) \<and> is_digit_of 16 h then digits_num 16 0 (h # u) else digits_num 8 0 s
                | _ \<Rightarrow> digits_num 8 0 s))"

definition signed_text :: "byte list \<Rightarrow> bool \<times> nat" where
  "signed_text s0 =
     (let s = dropWhile is_space s0
      in case s of
           [] \<Rightarrow> (False, 0)
         | c # t \<Rightarrow> if c = 45 then (True, magnitude t) else if c = 43 then (False, magnitude t) else (False, magnitude s))"

definition strtol :: "byte list \<Rightarrow> int" where
  "strtol s = (case signed_text s of (neg, n) \<Rightarrow>
     if neg then max (- (2 ^ 63)) (- int n) else min (2 ^ 63 - 1) (int n))"

definition strtoul :: "byte list \<Rightarrow> u64" where
  "strtoul s = (case signed_text s of (neg, n) \<Rightarrow>
     if n \<ge> 2 ^ 64 then - 1 else if neg then - of_nat n else of_nat n)"

section \<open>Setters\<close>

text \<open>\<open>dup\<close> is \<open>strdup\<close>: the copy, or NULL when there is no memory.\<close>

type_synonym strdup = "byte list \<Rightarrow> byte list option"

definition str_setval :: "strdup \<Rightarrow> byte list \<Rightarrow> int \<times> byte list option" where
  "str_setval dup val_str = (case dup val_str of None \<Rightarrow> (-1, None) | Some s \<Rightarrow> (0, Some s))"

definition int_setval :: "int \<Rightarrow> byte list \<Rightarrow> int \<times> int" where
  "int_setval ival val_str = (let val = to_int (strtol val_str) in if val < 0 then (-1, ival) else (0, val))"

definition uint_setval :: "byte list \<Rightarrow> int \<times> u32" where
  "uint_setval val_str = (0, ucast (strtoul val_str))"

section \<open>Options\<close>

definition OPT_EOF :: int where "OPT_EOF = -2"
definition OPT_UNSUPP :: int where "OPT_UNSUPP = -3"
definition OPT_MISSVAL :: int where "OPT_MISSVAL = -4"

lemmas opt_codes = OPT_EOF_def OPT_UNSUPP_def OPT_MISSVAL_def

record cmd_opt =
  opt_name :: string
  opt_desc :: string
  opt_def :: "string option"
  opt_has_arg :: bool
  opt_code :: int

text \<open>An entry of a table without a default\<close>

definition cmd_opt_of :: "string \<Rightarrow> string \<Rightarrow> bool \<Rightarrow> int \<Rightarrow> cmd_opt" where
  "cmd_opt_of name dsc arg code = \<lparr>opt_name = name, opt_desc = dsc, opt_def = None, opt_has_arg = arg, opt_code = code\<rparr>"

text \<open>The parser: \<open>argc\<close> is the length of \<open>argv\<close>, \<open>opt\<close> is \<open>opts + opt_idx\<close>.\<close>

record cmd_argv =
  ca_argv :: "byte list list"
  ca_opts :: "cmd_opt list"
  ca_argv_idx :: nat
  ca_opt_idx :: int
  ca_name :: "byte list option"
  ca_value :: "byte list option"

definition cmd_argv_start :: "byte list list \<Rightarrow> cmd_opt list \<Rightarrow> nat \<Rightarrow> cmd_argv" where
  "cmd_argv_start argv opts idx = \<lparr>ca_argv = argv, ca_opts = opts, ca_argv_idx = idx, ca_opt_idx = 0, ca_name = None, ca_value = None\<rparr>"

fun find_loop :: "byte list \<Rightarrow> cmd_opt list \<Rightarrow> int \<Rightarrow> int" where
  "find_loop name [] i = -1"
| "find_loop name (opt # opts) i = (if name = str (opt_name opt) then i else find_loop name opts (i + 1))"

definition find_opt :: "byte list \<Rightarrow> cmd_opt list \<Rightarrow> int" where
  "find_opt name opts = find_loop name opts 0"

definition cmd_argv_next :: "cmd_argv \<Rightarrow> int \<times> cmd_argv" where
  "cmd_argv_next parse0 =
     (let parse = (if ca_argv_idx parse0 = 0 then parse0\<lparr>ca_argv_idx := 1\<rparr> else parse0);
          argv = ca_argv parse; i = ca_argv_idx parse
      in if i \<ge> length argv then (OPT_EOF, parse)
         else
           let name = argv ! i; k = find_opt name (ca_opts parse);
               p1 = parse\<lparr>ca_name := Some name, ca_argv_idx := i + 1, ca_opt_idx := k\<rparr>
           in if k = -1 then (OPT_UNSUPP, p1)
              else
                let opt = ca_opts parse ! nat k;
                    code = (if opt_code opt \<noteq> 0 then opt_code opt else k);
                    p2 = p1\<lparr>ca_value := None\<rparr>
                in if \<not> opt_has_arg opt then (code, p2)
                   else if i + 1 \<ge> length argv then (OPT_MISSVAL, p2)
                   else if str_startswith (argv ! (i + 1)) 45 then (OPT_MISSVAL, p2)
                   else (code, p2\<lparr>ca_value := Some (argv ! (i + 1)), ca_argv_idx := i + 2\<rparr>))"

lemma cmd_argv_next_progress:
  "cmd_argv_next p = (rc, q) \<Longrightarrow> 0 \<le> rc \<Longrightarrow>
     ca_argv q = ca_argv p \<and> ca_argv_idx p < length (ca_argv p) \<and> ca_argv_idx p < ca_argv_idx q"
  by (auto simp: cmd_argv_next_def Let_def opt_codes split: if_splits)

text \<open>The loop of both programs: every option is handed to \<open>handle\<close>, which answers with a negative code to stop.\<close>

function opts_loop :: "('s \<Rightarrow> int \<Rightarrow> cmd_argv \<Rightarrow> (int \<times> 's) option) \<Rightarrow> 's \<Rightarrow> cmd_argv \<Rightarrow> (int \<times> 's) option" where
  "opts_loop handle s parse =
     (case cmd_argv_next parse of (rc, parse') \<Rightarrow>
        if rc < 0 then Some (rc, s)
        else do {
          (rc, s) \<leftarrow> handle s rc parse';
          if rc < 0 then Some (rc, s) else opts_loop handle s parse' })"
  by pat_completeness auto
termination
  apply (relation "measure (\<lambda>(h, s, p). length (ca_argv p) - ca_argv_idx p)")
   apply simp
  apply (drule sym)
  using cmd_argv_next_progress by force

declare opts_loop.simps [simp del]

text \<open>The setters on the value of the matched option\<close>

definition opt_setstr :: "strdup \<Rightarrow> cmd_argv \<Rightarrow> (int \<times> byte list option) option" where
  "opt_setstr dup parse = do { v \<leftarrow> ca_value parse; Some (str_setval dup v) }"

definition opt_setint :: "int \<Rightarrow> cmd_argv \<Rightarrow> (int \<times> int) option" where
  "opt_setint ival parse = do { v \<leftarrow> ca_value parse; Some (int_setval ival v) }"

definition opt_setuint :: "cmd_argv \<Rightarrow> (int \<times> u32) option" where
  "opt_setuint parse = do { v \<leftarrow> ca_value parse; Some (uint_setval v) }"

section \<open>Running a command\<close>

definition RUN_MAXARG :: nat where "RUN_MAXARG = 32"
definition RUN_CAPS :: nat where "RUN_CAPS = 1"
definition RUN_NULL :: nat where "RUN_NULL = 2"

text \<open>
  The loop that cuts the command string at its spaces, in place: \<open>args\<close> are the pointers stored so far, \<open>None\<close> is
  the error that there are too many.
\<close>

function args_loop :: "byte list \<Rightarrow> slice \<Rightarrow> nat list \<Rightarrow> (nat list option \<times> byte list) option" where
  "args_loop m s args =
     (if sl_len s = 0 then Some (Some args, m)
      else if length args \<ge> RUN_MAXARG then Some (None, m)
      else do {
        (arg, s') \<leftarrow> slice_splitch m s 32;
        ptr \<leftarrow> sl_ptr arg;
        m' \<leftarrow> mem_write m (ptr + sl_len arg) [0];
        args_loop m' s' (args @ [ptr]) })"
  by pat_completeness auto
termination by (relation "measure (\<lambda>(m, s, args). RUN_MAXARG - length args)") auto

declare args_loop.simps [simp del]

text \<open>The strings a vector of pointers shows to \<open>execvp\<close>.\<close>

fun argv_strs :: "byte list \<Rightarrow> nat list \<Rightarrow> byte list list option" where
  "argv_strs m [] = Some []"
| "argv_strs m (p # ps) = do { s \<leftarrow> cstr_at m p; ss \<leftarrow> argv_strs m ps; Some (s # ss) }"

text \<open>
  \<open>spawn w flags argv\<close> is what fork, exec and waitpid do with the command: the wait status, or \<open>None\<close> for an error
  of \<open>waitpid\<close>, and the state of the system after it.
\<close>

type_synonym 'w spawn = "'w \<Rightarrow> nat \<Rightarrow> byte list list \<Rightarrow> int option \<times> 'w"

definition exit_code :: "int option \<Rightarrow> int" where
  "exit_code status =
     (case status of None \<Rightarrow> -1
      | Some st \<Rightarrow> if st = -1 then -1
                   else if st AND 0x7f \<noteq> 0 then -1
                   else if drop_bit 8 st AND 0xff \<noteq> 0 then drop_bit 8 st AND 0xff else 0)"

definition run_cmd :: "'w spawn \<Rightarrow> 'w \<Rightarrow> sbuf \<Rightarrow> nat \<Rightarrow> byte list option \<Rightarrow> (int \<times> 'w \<times> sbuf) option" where
  "run_cmd spawn w buf flags expansion =
     (let avail = sbuf_rem buf; cmd_str = 0
      in case expansion of
           None \<Rightarrow> Some (-1, w, buf)
         | Some t \<Rightarrow> do {
             (rc, m) \<leftarrow> snprintf_at (sb_mem buf) cmd_str avail t;
             let buf1 = buf\<lparr>sb_mem := m\<rparr>;
             if rc \<ge> avail then Some (-1, w, buf1)
             else do {
               s \<leftarrow> slice_make_cstr m (Some cmd_str);
               (args, m) \<leftarrow> args_loop m s [];
               let buf2 = buf\<lparr>sb_mem := m\<rparr>;
               case args of
                 None \<Rightarrow> Some (-1, w, buf2)
               | Some ps \<Rightarrow>
                   if length ps \<ge> RUN_MAXARG then Some (-1, w, buf2)
                   else if ps = [] then Some (-1, w, buf2)
                   else do {
                     argv \<leftarrow> argv_strs m ps;
                     let (status, w) = spawn w flags argv;
                     Some (exit_code status, w, buf2) } } })"

text \<open>
  \<open>raise_ambient_caps\<close>, which the child runs: \<open>caps\<close> is what \<open>capget\<close> reports (two sets of effective, permitted and inheritable bits, None for an error), \<open>ok\<close> whether
  a call succeeds. The second result are the calls that change the process.
\<close>

datatype cap_call = Capset "(u32 \<times> u32 \<times> u32) list" | Raise_Ambient nat

definition CAP_NET_ADMIN :: nat where "CAP_NET_ADMIN = 12"
definition CAP_NET_RAW :: nat where "CAP_NET_RAW = 13"

definition raise_ambient_caps :: "(u32 \<times> u32 \<times> u32) list option \<Rightarrow> (cap_call \<Rightarrow> bool) \<Rightarrow> bool \<times> cap_call list" where
  "raise_ambient_caps caps ok =
     (case caps of
        None \<Rightarrow> (False, [])
      | Some data \<Rightarrow>
          let set = Capset (map (\<lambda>(e, p, i). (e, p, p)) data); adm = Raise_Ambient CAP_NET_ADMIN; raw = Raise_Ambient CAP_NET_RAW
          in if \<not> ok set then (False, [set])
             else if \<not> ok adm then (False, [set, adm])
             else (ok raw, [set, adm, raw]))"

section \<open>Signals\<close>

record simple_sig =
  sig_run :: int
  sig_signo :: int
  sig_uid :: nat
  sig_pid :: int

text \<open>\<open>info\<close>: the code, pid and uid the kernel reports, when it reports any.\<close>

definition handle_signal :: "simple_sig option \<Rightarrow> int \<Rightarrow> (int \<times> int \<times> nat) option \<Rightarrow> simple_sig option" where
  "handle_signal glob_sig signo info =
     (case glob_sig of None \<Rightarrow> None
      | Some s \<Rightarrow>
          let s1 = s\<lparr>sig_signo := signo, sig_pid := 0, sig_uid := 0\<rparr>;
              s2 = (case info of
                      Some (code, pid, uid) \<Rightarrow> if code \<le> 0 then s1\<lparr>sig_pid := pid, sig_uid := uid\<rparr> else s1
                    | None \<Rightarrow> s1)
          in Some (s2\<lparr>sig_run := 0\<rparr>))"

datatype disposition = Sig_Default | Sig_Handler | Sig_Ignore

definition SIGINT :: nat where "SIGINT = 2"
definition SIGPIPE :: nat where "SIGPIPE = 13"
definition SIGTERM :: nat where "SIGTERM = 15"

text \<open>\<open>sigact n\<close> tells whether \<open>sigaction\<close> accepts a disposition for signal \<open>n\<close>. The second result is \<open>glob_sig\<close>.\<close>

definition setup_signals :: "(nat \<Rightarrow> bool) \<Rightarrow> (nat \<Rightarrow> disposition) \<Rightarrow> simple_sig option \<Rightarrow> simple_sig option \<Rightarrow>
    int \<times> simple_sig option \<times> (nat \<Rightarrow> disposition)" where
  "setup_signals sigact disp glob_sig sig =
     (case sig of
        None \<Rightarrow> (-1, glob_sig, disp)
      | Some s \<Rightarrow>
          if \<not> sigact SIGINT then (-1, glob_sig, disp)
          else let d1 = disp(SIGINT := Sig_Handler)
               in if \<not> sigact SIGTERM then (-1, glob_sig, d1)
                  else let d2 = d1(SIGTERM := Sig_Handler)
                       in if \<not> sigact SIGPIPE then (-1, glob_sig, d2)
                          else (0, Some (s\<lparr>sig_run := 1\<rparr>), d2(SIGPIPE := Sig_Ignore)))"

section \<open>Modes and usage texts\<close>

text \<open>\<open>cm_mode\<close> stands for the function pointer \<open>run\<close> too.\<close>

record cmd_mode =
  cm_mode :: nat
  cm_opts :: "cmd_opt list"
  cm_name :: string
  cm_desc :: string

fun cmd_mode_find :: "byte list \<Rightarrow> cmd_mode list \<Rightarrow> cmd_mode option" where
  "cmd_mode_find mode [] = None"
| "cmd_mode_find mode (m # ms) = (if mode = str (cm_name m) then Some m else cmd_mode_find mode ms)"

definition opts_width :: "cmd_opt list \<Rightarrow> nat" where
  "opts_width opts = foldl (\<lambda>max_width opt. let len = length (opt_name opt) in if len > max_width then len else max_width) 0 opts"

definition modes_width :: "cmd_mode list \<Rightarrow> nat" where
  "modes_width modes = foldl (\<lambda>max_width m. let len = length (cm_name m) in if len > max_width then len else max_width) 0 modes"

text \<open>\<open>%-*s\<close>: padded on the right to the width\<close>

definition pad_right :: "nat \<Rightarrow> byte list \<Rightarrow> byte list" where
  "pad_right w s = s @ replicate (w - length s) 32"

definition newline :: "byte list" where "newline = [10]"

definition opt_line :: "byte list \<Rightarrow> nat \<Rightarrow> cmd_opt \<Rightarrow> byte list" where
  "opt_line indent w opt =
     indent @ pad_right w (str (opt_name opt)) @ str '' '' @ str (opt_desc opt) @
     (case opt_def opt of None \<Rightarrow> [] | Some d \<Rightarrow> str '' (default='' @ str d @ str '')'') @ newline"

definition base_or_null :: "byte list option \<Rightarrow> byte list" where
  "base_or_null prog_name = (case get_basename prog_name of Some s \<Rightarrow> s | None \<Rightarrow> str ''<null>'')"

definition example_line :: "byte list \<Rightarrow> string \<Rightarrow> byte list" where
  "example_line name e = str ''  '' @ name @ str '' '' @ str e @ newline"

definition prog_usage :: "byte list option \<Rightarrow> cmd_opt list \<Rightarrow> string list \<Rightarrow> byte list" where
  "prog_usage prog_name opts examples =
     (let name = base_or_null prog_name; w = opts_width opts
      in str ''Usage: '' @ name @ str '' [OPTIONS]'' @ newline @ newline @ str ''Options:'' @ newline @ newline @
         concat (map (opt_line (str '' '') w) opts) @
         (if examples = [] then []
          else newline @ str ''Examples:'' @ newline @ concat (map (example_line name) examples)))"

definition mode_usage :: "byte list option \<Rightarrow> cmd_mode list \<Rightarrow> string list \<Rightarrow> byte list" where
  "mode_usage prog_name modes examples =
     (let name = base_or_null prog_name; w = modes_width modes
      in str ''Usage: '' @ name @ str '' [MODE] [OPTIONS]'' @ newline @ newline @ str ''Modes:'' @ newline @ newline @
         concat (map (\<lambda>m. str ''  '' @ pad_right w (str (cm_name m)) @ str '' '' @ str (cm_desc m) @ newline) modes) @ newline @
         concat (map (\<lambda>m. str (cm_name m) @ str '' options:'' @ newline @ newline @
           concat (map (opt_line (str ''  '') (opts_width (cm_opts m))) (cm_opts m)) @ newline) modes) @
         (if examples = [] then []
          else str ''Examples:'' @ newline @ newline @ concat (map (example_line name) examples)))"

section \<open>What the arguments mean\<close>

fun opt_index :: "byte list \<Rightarrow> cmd_opt list \<Rightarrow> nat option" where
  "opt_index name [] = None"
| "opt_index name (opt # opts) = (if str (opt_name opt) = name then Some 0 else map_option Suc (opt_index name opts))"

definition opt_result :: "cmd_opt list \<Rightarrow> nat \<Rightarrow> int" where
  "opt_result opts i = (if opt_code (opts ! i) \<noteq> 0 then opt_code (opts ! i) else int i)"

text \<open>What a list of arguments means: the options with their values in order, and how the list ends.\<close>

fun parse_args :: "cmd_opt list \<Rightarrow> byte list list \<Rightarrow> (int \<times> byte list \<times> byte list option) list \<times> int" where
  "parse_args opts [] = ([], OPT_EOF)"
| "parse_args opts (a # as) =
     (case opt_index a opts of
        None \<Rightarrow> ([], OPT_UNSUPP)
      | Some i \<Rightarrow>
          if \<not> opt_has_arg (opts ! i)
          then (case parse_args opts as of (xs, e) \<Rightarrow> ((opt_result opts i, a, None) # xs, e))
          else case as of
                 [] \<Rightarrow> ([], OPT_MISSVAL)
               | v # as' \<Rightarrow>
                   if str_startswith v 45 then ([], OPT_MISSVAL)
                   else (case parse_args opts as' of (xs, e) \<Rightarrow> ((opt_result opts i, a, Some v) # xs, e)))"

text \<open>Handling the options in order, up to the first negative answer.\<close>

fun handle_all :: "('s \<Rightarrow> int \<Rightarrow> byte list \<Rightarrow> byte list option \<Rightarrow> (int \<times> 's) option) \<Rightarrow> 's \<Rightarrow>
    (int \<times> byte list \<times> byte list option) list \<Rightarrow> int \<Rightarrow> (int \<times> 's) option" where
  "handle_all h s [] e = Some (e, s)"
| "handle_all h s ((rc, name, v) # xs) e =
     do { (rc, s) \<leftarrow> h s rc name v; if rc < 0 then Some (rc, s) else handle_all h s xs e }"

lemma find_loop_index:
  "find_loop name opts k = (case opt_index name opts of None \<Rightarrow> -1 | Some i \<Rightarrow> k + int i)"
  by (induction opts arbitrary: k) (auto split: option.splits)

lemma opt_index_less: "opt_index name opts = Some i \<Longrightarrow> i < length opts"
  by (induction opts arbitrary: i) (auto split: if_splits)

lemma opt_result_nonneg: "list_all (\<lambda>x. 0 \<le> opt_code x) opts \<Longrightarrow> i < length opts \<Longrightarrow> 0 \<le> opt_result opts i"
  by (simp add: opt_result_def list_all_length)


lemma drop_nth:
  assumes "drop i xs = a # as"
  shows "i < length xs" "xs ! i = a" "drop (Suc i) xs = as"
proof -
  show "i < length xs" using assms by (metis drop_eq_Nil list.discI not_less)
  show "xs ! i = a" using assms by (rule nth_via_drop)
  show "drop (Suc i) xs = as" using assms by (metis drop_Suc list.sel(3) tl_drop)
qed

lemma next_args:
  assumes "0 < ca_argv_idx p"
  shows "drop (ca_argv_idx p) (ca_argv p) = [] \<Longrightarrow> cmd_argv_next p = (OPT_EOF, p)"
    and "drop (ca_argv_idx p) (ca_argv p) = a # as \<Longrightarrow> opt_index a (ca_opts p) = None \<Longrightarrow> fst (cmd_argv_next p) = OPT_UNSUPP"
    and "drop (ca_argv_idx p) (ca_argv p) = a # as \<Longrightarrow> opt_index a (ca_opts p) = Some i \<Longrightarrow> \<not> opt_has_arg (ca_opts p ! i) \<Longrightarrow>
      cmd_argv_next p = (opt_result (ca_opts p) i,
        p\<lparr>ca_name := Some a, ca_argv_idx := ca_argv_idx p + 1, ca_opt_idx := int i, ca_value := None\<rparr>)"
    and "drop (ca_argv_idx p) (ca_argv p) = a # as \<Longrightarrow> opt_index a (ca_opts p) = Some i \<Longrightarrow> opt_has_arg (ca_opts p ! i) \<Longrightarrow>
      as = [] \<or> as = v # as' \<and> str_startswith v 45 \<Longrightarrow> fst (cmd_argv_next p) = OPT_MISSVAL"
    and "drop (ca_argv_idx p) (ca_argv p) = a # v # as' \<Longrightarrow> opt_index a (ca_opts p) = Some i \<Longrightarrow> opt_has_arg (ca_opts p ! i) \<Longrightarrow>
      \<not> str_startswith v 45 \<Longrightarrow> cmd_argv_next p = (opt_result (ca_opts p) i,
        p\<lparr>ca_name := Some a, ca_argv_idx := ca_argv_idx p + 2, ca_opt_idx := int i, ca_value := Some v\<rparr>)"
proof -
  show "drop (ca_argv_idx p) (ca_argv p) = [] \<Longrightarrow> cmd_argv_next p = (OPT_EOF, p)"
    using assms by (simp add: cmd_argv_next_def)
next
  assume "drop (ca_argv_idx p) (ca_argv p) = a # as" "opt_index a (ca_opts p) = None"
  then show "fst (cmd_argv_next p) = OPT_UNSUPP"
    using assms drop_nth [of "ca_argv_idx p" "ca_argv p" a as] by (simp add: cmd_argv_next_def find_opt_def find_loop_index)
next
  assume "drop (ca_argv_idx p) (ca_argv p) = a # as" "opt_index a (ca_opts p) = Some i" "\<not> opt_has_arg (ca_opts p ! i)"
  then show "cmd_argv_next p = (opt_result (ca_opts p) i,
        p\<lparr>ca_name := Some a, ca_argv_idx := ca_argv_idx p + 1, ca_opt_idx := int i, ca_value := None\<rparr>)"
    using assms drop_nth [of "ca_argv_idx p" "ca_argv p" a as]
    by (simp add: cmd_argv_next_def find_opt_def find_loop_index opt_result_def Let_def)
next
  assume d: "drop (ca_argv_idx p) (ca_argv p) = a # as" "opt_index a (ca_opts p) = Some i" "opt_has_arg (ca_opts p ! i)"
    "as = [] \<or> as = v # as' \<and> str_startswith v 45"
  show "fst (cmd_argv_next p) = OPT_MISSVAL"
    using assms d drop_nth [OF d(1)] drop_nth [of "Suc (ca_argv_idx p)" "ca_argv p" v as']
    by (auto simp: cmd_argv_next_def find_opt_def find_loop_index Let_def)
next
  assume d: "drop (ca_argv_idx p) (ca_argv p) = a # v # as'" "opt_index a (ca_opts p) = Some i" "opt_has_arg (ca_opts p ! i)"
    "\<not> str_startswith v 45"
  show "cmd_argv_next p = (opt_result (ca_opts p) i,
        p\<lparr>ca_name := Some a, ca_argv_idx := ca_argv_idx p + 2, ca_opt_idx := int i, ca_value := Some v\<rparr>)"
    using assms d drop_nth [OF d(1)] drop_nth [of "Suc (ca_argv_idx p)" "ca_argv p" v as']
    by (simp add: cmd_argv_next_def find_opt_def find_loop_index opt_result_def Let_def)
qed

lemma loop_stops: "fst (cmd_argv_next p) < 0 \<Longrightarrow> opts_loop handle s p = Some (fst (cmd_argv_next p), s)"
  by (subst opts_loop.simps) (auto split: prod.splits)

lemma opts_loop_args:
  assumes "list_all (\<lambda>x. 0 \<le> opt_code x) (ca_opts p)" and "0 < ca_argv_idx p"
    and "\<And>s rc q. handle s rc q = h s rc (the (ca_name q)) (ca_value q)"
  shows "opts_loop handle s p =
     (case parse_args (ca_opts p) (drop (ca_argv_idx p) (ca_argv p)) of (xs, e) \<Rightarrow> handle_all h s xs e)"
  using assms(1,2)
proof (induction "length (ca_argv p) - ca_argv_idx p" arbitrary: s p rule: less_induct)
  case less
  let ?i = "ca_argv_idx p" and ?argv = "ca_argv p" and ?opts = "ca_opts p"
  note ok = less.prems
  have go: "opts_loop handle s p = (h s (opt_result ?opts i) a v \<bind>
        (\<lambda>(rc, s). if rc < 0 then Some (rc, s) else case parse_args ?opts as of (xs, e) \<Rightarrow> handle_all h s xs e))"
    if q: "cmd_argv_next p = (opt_result ?opts i, p\<lparr>ca_name := Some a, ca_argv_idx := k, ca_opt_idx := j, ca_value := v\<rparr>)"
      and i: "i < length ?opts" and k: "?i < k" "?i < length ?argv" "drop k ?argv = as" for i a v k j as
  proof -
    have "opts_loop handle s' (p\<lparr>ca_name := Some a, ca_argv_idx := k, ca_opt_idx := j, ca_value := v\<rparr>) =
        (case parse_args ?opts as of (xs, e) \<Rightarrow> handle_all h s' xs e)" for s'
      using less.hyps [of "p\<lparr>ca_name := Some a, ca_argv_idx := k, ca_opt_idx := j, ca_value := v\<rparr>" s'] ok k by simp
    then show ?thesis
      using q opt_result_nonneg [OF ok(1) i]
      by (subst opts_loop.simps) (simp add: assms(3) not_less cong: if_cong)
  qed
  show ?case
  proof (cases "drop ?i ?argv")
    case Nil
    then show ?thesis using ok loop_stops [of p handle s] next_args(1) [OF ok(2) Nil] by (simp add: opt_codes)
  next
    case (Cons a as)
    note nth = drop_nth [OF Cons]
    show ?thesis
    proof (cases "opt_index a ?opts")
      case None
      then show ?thesis using loop_stops [of p handle s] next_args(2) [OF ok(2) Cons] Cons by (simp add: opt_codes)
    next
      case (Some i)
      note il = opt_index_less [OF Some]
      show ?thesis
      proof (cases "opt_has_arg (?opts ! i)")
        case False
        show ?thesis using go [OF next_args(3) [OF ok(2) Cons Some False] il _ nth(1)] nth Cons Some False
          by (cases "parse_args ?opts as") (simp cong: if_cong)
      next
        case arg: True
        show ?thesis
        proof (cases "as = [] \<or> str_startswith (hd as) 45")
          case True
          then have "fst (cmd_argv_next p) = OPT_MISSVAL"
            using next_args(4) [OF ok(2) Cons Some arg, of "hd as" "tl as"] by (cases as) auto
          then show ?thesis using loop_stops [of p handle s] True Cons Some arg by (cases as) (simp_all add: opt_codes)
        next
          case False
          then obtain v as' where as: "as = v # as'" "\<not> str_startswith v 45" by (cases as) auto
          have "drop (?i + 2) ?argv = as'" using nth(3) as(1) drop_nth(3) [of "Suc ?i" ?argv v as'] by simp
          then show ?thesis using go [OF next_args(5) [OF ok(2) _ Some arg as(2)] il _ nth(1), of as'] Cons as Some arg
            by (cases "parse_args ?opts as'") (simp cong: if_cong)
        qed
      qed
    qed
  qed
qed

lemma parse_args_vals:
  "(rc, n, v) \<in> set (fst (parse_args opts args)) \<Longrightarrow> \<exists>i<length opts. rc = opt_result opts i \<and> (v = None \<longrightarrow> \<not> opt_has_arg (opts ! i))"
proof (induction opts args rule: parse_args.induct)
  case (2 opts a as)
  show ?case
  proof (cases "opt_index a opts")
    case None
    then show ?thesis using "2.prems" by simp
  next
    case (Some i)
    then have i: "i < length opts" by (rule opt_index_less)
    show ?thesis
    proof (cases "opt_has_arg (opts ! i)")
      case False
      then show ?thesis using "2.prems" "2.IH"(1) [OF Some] Some i by (auto split: prod.splits)
    next
      case arg: True
      then show ?thesis using "2.prems" "2.IH"(2) [OF Some] Some i by (cases as) (auto split: prod.splits if_splits)
    qed
  qed
qed simp

lemma parse_args_end: "snd (parse_args opts args) < 0"
proof (induction opts args rule: parse_args.induct)
  case (2 opts a as)
  show ?case
  proof (cases "opt_index a opts")
    case (Some i)
    then show ?thesis using "2.IH"(1) [OF Some] "2.IH"(2) [OF Some]
      by (cases "opt_has_arg (opts ! i)"; cases as) (simp_all add: opt_codes case_prod_unfold)
  qed (simp add: opt_codes)
qed (simp add: opt_codes)

lemma handle_all_keeps:
  assumes "\<And>s rc n v. P s \<Longrightarrow> (rc, n, v) \<in> set xs \<Longrightarrow> \<exists>rc' s'. h s rc n v = Some (rc', s') \<and> P s'" and "P s" and "e < 0"
  shows "\<exists>rc s'. handle_all h s xs e = Some (rc, s') \<and> P s' \<and> rc < 0"
  using assms
proof (induction xs arbitrary: s)
  case (Cons x xs)
  obtain rc n v where x: "x = (rc, n, v)" by (cases x)
  obtain rc' s' where r: "h s rc n v = Some (rc', s')" "P s'" using Cons.prems(1) [OF Cons.prems(2), of rc n v] x by auto
  have "\<exists>rc s''. handle_all h s' xs e = Some (rc, s'') \<and> P s'' \<and> rc < 0" by (rule Cons.IH [OF Cons.prems(1) r(2)]) (use assms(3) in simp_all)
  then show ?case using r x by (cases "rc' < 0") simp_all
qed simp

section \<open>The words of a command\<close>

text \<open>The words of a command string, as the program that is run sees them: an empty word for a second space.\<close>

function cmd_words :: "byte list \<Rightarrow> byte list list" where
  "cmd_words t = (if t = [] then [] else takeWhile (\<lambda>b. b \<noteq> 32) t # cmd_words (drop 1 (dropWhile (\<lambda>b. b \<noteq> 32) t)))"
  by pat_completeness auto
termination
proof (relation "measure length", goal_cases)
  case (2 t)
  then show ?case using length_dropWhile_le [of "\<lambda>b. b \<noteq> 32" t] by (cases t) auto
qed simp

declare cmd_words.simps [simp del]

lemma cmd_words_length: "length (cmd_words t) \<le> Suc (count_list t 32)"
proof (induction t rule: cmd_words.induct)
  case (1 t)
  show ?case
  proof (cases "t = []")
    case False
    let ?r = "dropWhile (\<lambda>b. b \<noteq> 32) t"
    have c: "count_list t 32 = count_list (takeWhile (\<lambda>b. b \<noteq> 32) t) 32 + count_list ?r 32" by (metis count_list_append takeWhile_dropWhile_id)
    have z: "count_list (takeWhile (\<lambda>b. b \<noteq> 32) t) 32 = 0" by (auto simp: count_list_0_iff dest: set_takeWhileD)
    have w: "cmd_words t = takeWhile (\<lambda>b. b \<noteq> 32) t # cmd_words (drop 1 ?r)" using False by (subst cmd_words.simps) simp
    show ?thesis
    proof (cases ?r)
      case Nil
      then show ?thesis using w unfolding Nil by (simp add: cmd_words.simps [of "[]"])
    next
      case (Cons x xs)
      then have "x = 32" using hd_dropWhile [of "\<lambda>b. b \<noteq> 32" t] by simp
      then show ?thesis using "1.IH" [OF False] w c z Cons by simp
    qed
  qed (simp add: cmd_words.simps)
qed

lemma memchr_found:
  assumes "c \<notin> set s"
  shows "memchr (pre @ s @ c # post) (length pre) c (length s + 1 + n) = Some (Some (length pre + length s))"
  using assms
proof (induction s arbitrary: pre n)
  case (Cons x s)
  show ?case using Cons.IH [of "pre @ [x]" n] Cons.prems by (auto simp: mem_get_def nth_append)
qed (simp add: mem_get_def)

lemma memchr_missing:
  assumes "c \<notin> set s"
  shows "memchr (pre @ s @ post) (length pre) c (length s) = Some None"
  using assms
proof (induction s arbitrary: pre)
  case (Cons x s)
  show ?case using Cons.IH [of "pre @ [x]"] Cons.prems by (auto simp: mem_get_def nth_append)
qed simp

lemma args_loop_words:
  assumes "0 \<notin> set t" and "length args + length (cmd_words t) \<le> RUN_MAXARG"
  shows "\<exists>ps u. args_loop (pre @ t @ 0 # post) (slice_make (if t = [] then q else Some (length pre)) (length t)) args =
      Some (Some (args @ ps), pre @ u @ 0 # post) \<and> length u = length t \<and> length ps = length (cmd_words t) \<and>
      argv_strs (pre @ u @ 0 # post) ps = Some (cmd_words t)"
  using assms
proof (induction t arbitrary: pre args q rule: cmd_words.induct)
  case (1 t)
  show ?case
  proof (cases "t = []")
    case True
    then show ?thesis by (auto simp: args_loop.simps slice_make_def cmd_words.simps)
  next
    case ne: False
    let ?a = "takeWhile (\<lambda>b. b \<noteq> 32) t" and ?r = "dropWhile (\<lambda>b. b \<noteq> 32) t"
    have w: "cmd_words t = ?a # cmd_words (drop 1 ?r)" using ne by (subst cmd_words.simps) simp
    have na: "32 \<notin> set ?a" "0 \<notin> set ?a" using "1.prems"(1) by (auto dest: set_takeWhileD)
    have room: "length args < RUN_MAXARG" using "1.prems"(2) w by simp
    show ?thesis
    proof (cases ?r)
      case Nil
      then have "?a = t" by (metis append_Nil2 takeWhile_dropWhile_id)
      then have "32 \<notin> set t" using na by metis
      then have "args_loop (pre @ t @ 0 # post) (slice_make (Some (length pre)) (length t)) args =
          Some (Some (args @ [length pre]), pre @ t @ 0 # post)"
        using ne room memchr_missing [of 32 t pre "0 # post"]
        by (simp add: args_loop.simps [of _ _ args] slice_make_def slice_splitch_def mem_write_def args_loop.simps [of _ _ "args @ [length pre]"])
      moreover have "cmd_words t = [t]" using w \<open>?a = t\<close> unfolding Nil by (simp add: cmd_words.simps [of "[]"])
      ultimately show ?thesis using ne "1.prems"(1)
        by (intro exI [of _ "[length pre]"] exI [of _ t]) (simp add: cstr_at_def cstr_of_append_nul)
    next
      case (Cons c r)
      have c: "c = 32" using hd_dropWhile [of "\<lambda>b. b \<noteq> 32" t] Cons by simp
      have t: "t = ?a @ 32 # r" using takeWhile_dropWhile_id [of "\<lambda>b. b \<noteq> 32" t] Cons c by simp
      have nr: "0 \<notin> set r" using "1.prems"(1) t by (metis Un_iff list.set_intros(2) set_append)
      obtain ps u where ih: "args_loop ((pre @ ?a @ [0]) @ r @ 0 # post)
            (slice_make (if r = [] then Some (length (pre @ ?a @ [0])) else Some (length (pre @ ?a @ [0]))) (length r)) (args @ [length pre]) =
          Some (Some ((args @ [length pre]) @ ps), (pre @ ?a @ [0]) @ u @ 0 # post)" "length u = length r" "length ps = length (cmd_words r)"
          "argv_strs ((pre @ ?a @ [0]) @ u @ 0 # post) ps = Some (cmd_words r)"
        using "1.IH" [OF ne, of "args @ [length pre]" "pre @ ?a @ [0]" "Some (length (pre @ ?a @ [0]))"] nr "1.prems"(2) w Cons by auto
      have "slice_splitch (pre @ t @ 0 # post) (slice_make (Some (length pre)) (length t)) 32 =
          Some (slice_make (Some (length pre)) (length ?a), slice_make (Some (length pre + length ?a + 1)) (length r))"
        using memchr_found [OF na(1), of pre "r @ 0 # post" "length r"] arg_cong [OF t, of length]
        by (subst (1 2) t) (simp add: slice_splitch_def slice_make_def)
      moreover have "mem_write (pre @ t @ 0 # post) (length pre + length ?a) [0] = Some ((pre @ ?a @ [0]) @ r @ 0 # post)"
        by (subst t) (simp add: mem_write_def)
      ultimately have "args_loop (pre @ t @ 0 # post) (slice_make (Some (length pre)) (length t)) args =
          Some (Some (args @ length pre # ps), pre @ (?a @ 0 # u) @ 0 # post)"
        using ne room ih(1) by (subst args_loop.simps) (simp add: slice_make_def)
      moreover have "argv_strs (pre @ (?a @ 0 # u) @ 0 # post) (length pre # ps) = Some (cmd_words t)"
        using ih(4) w Cons na(2) by (simp add: cstr_at_def cstr_of_append_nul)
      ultimately show ?thesis using ne ih w Cons arg_cong [OF t, of length]
        by (intro exI [of _ "length pre # ps"] exI [of _ "?a @ 0 # u"]) simp
    qed
  qed
qed


lemma run_cmd_spec:
  assumes "0 \<notin> set t" and "length t < sbuf_rem buf" and "sb_pos buf \<le> length (sb_mem buf)"
    and "t \<noteq> []" and "length (cmd_words t) < RUN_MAXARG"
  shows "\<exists>m. run_cmd spawn w buf flags (Some t) =
      Some (exit_code (fst (spawn w flags (cmd_words t))), snd (spawn w flags (cmd_words t)), buf\<lparr>sb_mem := m\<rparr>) \<and>
      length m = length (sb_mem buf)"
proof -
  let ?post = "drop (length t + 1) (sb_mem buf)"
  have len: "length t < length (sb_mem buf)" using assms(2,3) by (simp add: sbuf_rem_def)
  have w: "snprintf_at (sb_mem buf) 0 (sbuf_rem buf) t = Some (length t, t @ 0 # ?post)"
    using assms(2) len by (simp add: snprintf_at_def mem_write_def)
  have s: "slice_make_cstr (t @ 0 # ?post) (Some 0) = Some (slice_make (Some 0) (length t))"
    using assms(1) by (simp add: slice_make_cstr_def cstr_at_def cstr_of_append_nul)
  obtain ps u where a: "args_loop (t @ 0 # ?post) (slice_make (Some 0) (length t)) [] = Some (Some ps, u @ 0 # ?post)"
      "length u = length t" "length ps = length (cmd_words t)" "argv_strs (u @ 0 # ?post) ps = Some (cmd_words t)"
    using args_loop_words [OF assms(1), of "[]" "[]" ?post] assms(4,5) by auto
  have "cmd_words t \<noteq> []" using assms(4) by (subst cmd_words.simps) simp
  then have "ps \<noteq> []" using a(3) by auto
  then show ?thesis
    using w s a assms(2,5) len by (intro exI [of _ "u @ 0 # ?post"]) (simp add: run_cmd_def Let_def case_prod_unfold)
qed

section \<open>Contract of an option table\<close>

text \<open>
  A table whose codes are not negative can be handed to the loop: its options are then handled in the order of the
  arguments. The programs' tables are interpretations.
\<close>

locale option_table =
  fixes opts :: "cmd_opt list"
  assumes codes: "list_all (\<lambda>x. 0 \<le> opt_code x) opts"
begin

lemma loop_args:
  "opts_loop (\<lambda>s rc q. h s rc (the (ca_name q)) (ca_value q)) s (cmd_argv_start argv opts (Suc n)) =
     (case parse_args opts (drop (Suc n) argv) of (xs, e) \<Rightarrow> handle_all h s xs e)"
  using opts_loop_args [of "cmd_argv_start argv opts (Suc n)" "\<lambda>s rc q. h s rc (the (ca_name q)) (ca_value q)" h s] codes
  by (simp add: cmd_argv_start_def)

lemma loop_total:
  assumes "\<And>s rc name v. h s rc name v \<noteq> None"
  shows "opts_loop (\<lambda>s rc q. h s rc (the (ca_name q)) (ca_value q)) s (cmd_argv_start argv opts (Suc n)) \<noteq> None"
proof -
  have "handle_all h s xs e \<noteq> None" for s xs e
    using assms by (induction h s xs e rule: handle_all.induct) (auto split: Option.bind_splits)
  then show ?thesis by (simp add: loop_args case_prod_unfold)
qed

end

section \<open>Properties\<close>

text \<open>C23. The option loop of both programs does what the arguments mean: for every table of options with codes that are not
  negative, every argument vector and every handler that looks at the option's code, name and value, the loop over
  \<open>cmd_argv_next\<close> from argument 2 on runs the handler on the options of the arguments in their order, stops
  at the first negative answer, and otherwise ends with the code for the end of the arguments, an unknown option or a
  missing value.\<close>

theorem opts_loop_refines:
  assumes "list_all (\<lambda>x. 0 \<le> opt_code x) opts"
  shows "opts_loop (\<lambda>s rc q. h s rc (the (ca_name q)) (ca_value q)) s (cmd_argv_start argv opts 2) =
    (case parse_args opts (drop 2 argv) of (xs, e) \<Rightarrow> handle_all h s xs e)"
  using option_table.loop_args [OF option_table.intro [OF assms], where n = 1] by (simp add: numeral_2_eq_2)

definition demo_opts :: "cmd_opt list" where
  "demo_opts = [\<lparr>opt_name = ''--name'', opt_desc = [], opt_def = None, opt_has_arg = True, opt_code = 1\<rparr>,
     \<lparr>opt_name = ''--tcp'', opt_desc = [], opt_def = None, opt_has_arg = False, opt_code = 7\<rparr>]"

theorem opts_loop_refines_witness:
  "opts_loop (\<lambda>s rc q. Some (0, s @ [(rc, ca_value q)])) [] (cmd_argv_start [[97], [98], str ''--tcp'', str ''--name'', [99]] demo_opts 2) =
    Some (OPT_EOF, [(7, None), (1, Some [99])])"
  using opts_loop_refines [of demo_opts "\<lambda>s rc n v. Some (0, s @ [(rc, v)])" "[]" "[[97], [98], str ''--tcp'', str ''--name'', [99]]"]
  by (simp add: demo_opts_def opt_result_def str_startswith_def str_def)

end
