(* ===== verification/Dns_Print.thy ===== *)
theory Dns_Print
  imports Dns_Encode
begin

text \<open>
  Printing of questions, records and sections: \<open>dns_qd_tostr\<close>, \<open>dns_rr_tostr\<close>, \<open>dns_sect_tostr\<close> and \<open>dns_sects_tostr\<close>
  of \<open>src/src/dns_proto.c\<close>. The static rows of \<open>u32_tostr\<close> are part of the printer's state. Records without numbers are
  printed as the text \<open>rr_line\<close>; the first number a process prints is an access outside the rows.
\<close>

section \<open>Records\<close>

text \<open>The state of a printer: the rows of \<open>u32_tostr\<close> and the buffer. The results of the \<open>sbuf\<close> calls are not looked at.\<close>

type_synonym printer = "tostr_bufs \<times> sbuf"

definition pr_m :: "byte list \<Rightarrow> printer \<Rightarrow> printer option" where
  "pr_m mem st = do { (n, b) \<leftarrow> sbuf_putm (snd st) mem; Some (fst st, b) }"

definition pr_cm :: "byte list \<Rightarrow> printer \<Rightarrow> printer option" where
  "pr_cm mem st = do { (n, b) \<leftarrow> sbuf_putcm (snd st) 32 mem; Some (fst st, b) }"

definition pr_s :: "dns_msg \<Rightarrow> nat option \<Rightarrow> printer \<Rightarrow> printer option" where
  "pr_s msg p st = do { s \<leftarrow> rr_str msg p; (n, b) \<leftarrow> sbuf_puts (snd st) s; Some (fst st, b) }"

definition pr_cs :: "dns_msg \<Rightarrow> nat option \<Rightarrow> printer \<Rightarrow> printer option" where
  "pr_cs msg p st = do { s \<leftarrow> rr_str msg p; (n, b) \<leftarrow> sbuf_putcs (snd st) 32 s; Some (fst st, b) }"

definition pr_n :: "u32 \<Rightarrow> printer \<Rightarrow> printer option" where
  "pr_n num st = do { (n, b, t) \<leftarrow> sbuf_putn (fst st) (snd st) num; Some (t, b) }"

definition pr_cn :: "u32 \<Rightarrow> printer \<Rightarrow> printer option" where
  "pr_cn num st = do { (n, b, t) \<leftarrow> sbuf_putcn (fst st) (snd st) 32 num; Some (t, b) }"

text \<open>An address is written behind the text by its own printer, then the space is taken.\<close>

definition pr_addr :: "(byte list \<Rightarrow> nat \<Rightarrow> nat \<Rightarrow> (nat \<times> byte list) option) \<Rightarrow> printer \<Rightarrow> printer option" where
  "pr_addr encode st =
     (let buf = snd st in do {
        (len, m) \<leftarrow> encode (sb_mem buf) (sb_pos buf) (sbuf_rem buf);
        Some (fst st, snd (sbuf_mksp (buf\<lparr>sb_mem := m\<rparr>) len)) })"

fun pr_txt :: "dns_msg \<Rightarrow> nat option list \<Rightarrow> printer \<Rightarrow> printer option" where
  "pr_txt msg [] st = Some st"
| "pr_txt msg (p # ps) st = do { st \<leftarrow> pr_m (str '' txt='') st; st \<leftarrow> pr_s msg p st; pr_txt msg ps st }"

definition pr_soa :: "dns_msg \<Rightarrow> nat rdata \<Rightarrow> printer \<Rightarrow> printer option" where
  "pr_soa msg rd st = do {
     (mname, rname, serial, refresh, retry, expire, min_ttl) \<leftarrow> rd_soa rd;
     st \<leftarrow> pr_m (str ''MNAME='') st;
     st \<leftarrow> pr_s msg mname st;
     st \<leftarrow> pr_cm (str ''RNAME='') st;
     st \<leftarrow> pr_s msg rname st;
     st \<leftarrow> pr_cn serial st;
     st \<leftarrow> pr_cn refresh st;
     st \<leftarrow> pr_cn retry st;
     st \<leftarrow> pr_cn expire st;
     pr_cn min_ttl st }"

definition pr_srv :: "dns_msg \<Rightarrow> nat rdata \<Rightarrow> printer \<Rightarrow> printer option" where
  "pr_srv msg rd st = do {
     (prior, weight, port, name) \<leftarrow> rd_srv rd;
     st \<leftarrow> pr_m (str ''Priority'') st;
     st \<leftarrow> pr_cn (ucast prior) st;
     st \<leftarrow> pr_cm (str ''Weight'') st;
     st \<leftarrow> pr_cn (ucast weight) st;
     st \<leftarrow> pr_cm (str ''Port'') st;
     st \<leftarrow> pr_cn (ucast port) st;
     st \<leftarrow> pr_cm (str ''Srv'') st;
     pr_cs msg name st }"

definition pr_opt :: "nat rdata \<Rightarrow> printer \<Rightarrow> printer option" where
  "pr_opt rd st = do {
     (udp_size, ext_rcode, edns_ver, do_bit, z_bits) \<leftarrow> rd_opt rd;
     st \<leftarrow> pr_m (str ''udp-size:'') st;
     st \<leftarrow> pr_cn (ucast udp_size) st;
     st \<leftarrow> pr_cm (str ''Ext-RCODE:'') st;
     st \<leftarrow> pr_cn (ucast ext_rcode) st;
     st \<leftarrow> pr_cm (str ''EDNS0:'') st;
     st \<leftarrow> pr_cn (ucast edns_ver) st;
     st \<leftarrow> pr_cm (str ''DNSEC-OK:'') st;
     pr_cn (if do_bit then 1 else 0) st }"

definition pr_rdata :: "dns_msg \<Rightarrow> u16 \<Rightarrow> nat rdata \<Rightarrow> printer \<Rightarrow> printer option" where
  "pr_rdata msg t rd st =
     (if t = DNS_TYPE_A then do { a \<leftarrow> rd_a rd; pr_addr (ip4_str_encode a) st }
      else if t = DNS_TYPE_NS then do { p \<leftarrow> rd_name rd; pr_s msg p st }
      else if t = DNS_TYPE_CNAME then do { p \<leftarrow> rd_name rd; pr_s msg p st }
      else if t = DNS_TYPE_SOA then pr_soa msg rd st
      else if t = DNS_TYPE_PTR then do { p \<leftarrow> rd_name rd; pr_s msg p st }
      else if t = DNS_TYPE_HINFO then do {
        (cpu, os) \<leftarrow> rd_hinfo rd;
        st \<leftarrow> pr_m (str ''cpu='') st;
        st \<leftarrow> pr_s msg cpu st;
        st \<leftarrow> pr_cm (str ''os='') st;
        pr_s msg os st }
      else if t = DNS_TYPE_MX then do {
        (pref, name) \<leftarrow> rd_mx rd;
        st \<leftarrow> pr_m (str ''Pref='') st;
        st \<leftarrow> pr_n (ucast pref) st;
        pr_cs msg name st }
      else if t = DNS_TYPE_TXT then do {
        (n, strs) \<leftarrow> rd_txt rd;
        if n \<le> length strs then pr_txt msg (take n strs) st else None }
      else if t = DNS_TYPE_AAAA then do { a \<leftarrow> rd_aaaa rd; pr_addr (ip6_str_encode a 0) st }
      else if t = DNS_TYPE_SRV then pr_srv msg rd st
      else if t = DNS_TYPE_OPT then pr_opt rd st
      else Some st)"

definition dns_rr_tostr :: "dns_msg \<Rightarrow> msg_rr option \<Rightarrow> tostr_bufs \<Rightarrow> byte list \<Rightarrow> (int \<times> tostr_bufs \<times> byte list) option" where
  "dns_rr_tostr msg rr tb mem =
     (case rr of None \<Rightarrow> Some (0, tb, mem)
      | Some r \<Rightarrow> do {
          name \<leftarrow> rr_str msg (rr_name r);
          st \<leftarrow> pr_m (str ''  '') (tb, sbuf_init mem);
          st \<leftarrow> pr_m (str_def name (str ''<null>'')) st;
          st \<leftarrow> pr_cm (dns_class_tostr (uint (rr_class r))) st;
          st \<leftarrow> pr_cm (dns_type_tostr (uint (rr_type r))) st;
          st \<leftarrow> pr_m (str '' '') st;
          (tb, buf) \<leftarrow> pr_rdata msg (rr_type r) (rr_rdata r) st;
          buf \<leftarrow> sbuf_endz buf;
          Some (int (sb_pos buf), tb, sb_mem buf) })"

text \<open>
  \<open>snprintf\<close> in \<open>dns_qd_tostr\<close>: the result is the length of the whole text, whatever fits.
\<close>

definition dns_qd_tostr :: "dns_msg \<Rightarrow> dns_qd \<Rightarrow> byte list \<Rightarrow> (int \<times> byte list) option" where
  "dns_qd_tostr msg qd buf = do {
     qname \<leftarrow> rr_str msg (qd_name qd);
     let text = str_def qname (str ''<null>'') @ [32] @ dns_class_tostr (uint (qd_class qd)) @ [32] @
                dns_type_tostr (uint (qd_type qd)) @ [32];
     (rc, buf) \<leftarrow> snprintf_at buf 0 (length buf) text;
     Some (int rc, buf) }"

section \<open>Sections\<close>

fun sect_print :: "dns_msg \<Rightarrow> msg_rr list \<Rightarrow> bool \<Rightarrow> nat \<Rightarrow> tostr_bufs \<Rightarrow> byte list \<Rightarrow> (int \<times> tostr_bufs \<times> byte list) option" where
  "sect_print msg [] first nw tb buf = Some (int nw, tb, buf)"
| "sect_print msg (rr # rrs) first nw tb buf =
     (if \<not> first \<and> nw = length buf then Some (-1, tb, buf)
      else do {
        (nw, buf) \<leftarrow> (if first then Some (nw, buf) else do { b \<leftarrow> mem_write buf nw [10]; Some (nw + 1, b) });
        (rc, tb, part) \<leftarrow> dns_rr_tostr msg (Some rr) tb (drop nw buf);
        let buf = take nw buf @ part;
        if rc < 0 then Some (rc, tb, buf) else sect_print msg rrs False (nw + nat rc) tb buf })"

definition dns_sect_tostr :: "dns_msg \<Rightarrow> sect \<Rightarrow> tostr_bufs \<Rightarrow> byte list \<Rightarrow> (int \<times> tostr_bufs \<times> byte list) option" where
  "dns_sect_tostr msg sc tb buf =
     (if sect_count sc msg \<le> length (sect_base sc msg)
      then sect_print msg (take (sect_count sc msg) (sect_base sc msg)) True 0 tb buf else None)"

text \<open>Every section is printed at the start of the buffer, and \<open>nw\<close> is added to itself.\<close>

definition dns_sects_tostr :: "dns_msg \<Rightarrow> tostr_bufs \<Rightarrow> byte list \<Rightarrow> (int \<times> tostr_bufs \<times> byte list) option" where
  "dns_sects_tostr msg tb buf = do {
     (rc, tb, buf) \<leftarrow> dns_sect_tostr msg SectAN tb buf;
     if rc < 0 then Some (rc, tb, buf)
     else do {
       (rc, tb, buf) \<leftarrow> dns_sect_tostr msg SectNS tb buf;
       if rc < 0 then Some (rc, tb, buf)
       else do {
         (rc, tb, buf) \<leftarrow> dns_sect_tostr msg SectAR tb buf;
         if rc < 0 then Some (rc, tb, buf) else Some (0, tb, buf) } } }"

section \<open>The text of records without numbers\<close>

definition str_of :: "dns_msg \<Rightarrow> nat option \<Rightarrow> byte list" where
  "str_of msg p = (case rr_str msg p of Some (Some s) \<Rightarrow> s | _ \<Rightarrow> [])"

definition readable :: "dns_msg \<Rightarrow> nat option \<Rightarrow> bool" where
  "readable msg p \<longleftrightarrow> rr_str msg p \<noteq> None"

text \<open>\<open>plain_text msg t rd txt\<close>: record data \<open>rd\<close> of type \<open>t\<close> holds strings of the message or an address and reads \<open>txt\<close>.\<close>

inductive plain_text :: "dns_msg \<Rightarrow> u16 \<Rightarrow> nat rdata \<Rightarrow> byte list \<Rightarrow> bool" where
  "plain_text msg DNS_TYPE_A (RD_A a) (ip4_text a)"
| "readable msg p \<Longrightarrow> plain_text msg DNS_TYPE_NS (RD_NS p) (str_of msg p)"
| "readable msg p \<Longrightarrow> plain_text msg DNS_TYPE_CNAME (RD_CNAME p) (str_of msg p)"
| "readable msg p \<Longrightarrow> plain_text msg DNS_TYPE_PTR (RD_PTR p) (str_of msg p)"
| "readable msg c \<Longrightarrow> readable msg x \<Longrightarrow>
     plain_text msg DNS_TYPE_HINFO (RD_HINFO c x) (str ''cpu='' @ str_of msg c @ str '' os='' @ str_of msg x)"
| "n \<le> length ss \<Longrightarrow> list_all (readable msg) (take n ss) \<Longrightarrow>
     plain_text msg DNS_TYPE_TXT (RD_TXT n ss) (concat (map (\<lambda>p. str '' txt='' @ str_of msg p) (take n ss)))"

text \<open>What a printer adds when its text and 16 bytes more fit.\<close>

definition grown :: "printer \<Rightarrow> byte list \<Rightarrow> printer \<Rightarrow> bool" where
  "grown st bs st' \<longleftrightarrow> fst st' = fst st \<and> sbuf_inv (snd st') \<and> sbuf_len (snd st') = sbuf_len (snd st) \<and>
     sbuf_text (snd st') = sbuf_text (snd st) @ bs"

definition prints :: "byte list \<Rightarrow> (printer \<Rightarrow> printer option) \<Rightarrow> bool" where
  "prints bs f \<longleftrightarrow> (\<forall>t b. sbuf_inv b \<longrightarrow> sb_pos b + length bs + 16 \<le> sbuf_len b \<longrightarrow> returns (f (t, b)) (grown (t, b) bs))"

lemma text_pos: "sbuf_inv b \<Longrightarrow> sbuf_inv b' \<Longrightarrow> sbuf_text b' = sbuf_text b @ bs \<Longrightarrow> sb_pos b' = sb_pos b + length bs"
  by (metis length_append length_sbuf_text)

lemma printsD: "prints bs f \<Longrightarrow> sbuf_inv b \<Longrightarrow> sb_pos b + length bs + 16 \<le> sbuf_len b \<Longrightarrow> returns (f (t, b)) (grown (t, b) bs)"
  by (simp add: prints_def)

lemma printsI: "(\<And>t b. sbuf_inv b \<Longrightarrow> sb_pos b + length bs + 16 \<le> sbuf_len b \<Longrightarrow> returns (f (t, b)) (grown (t, b) bs)) \<Longrightarrow> prints bs f"
  by (simp add: prints_def)

lemma prints_then:
  assumes "prints a f" and "prints c g"
  shows "prints (a @ c) (\<lambda>st. f st \<bind> g)"
proof (rule printsI)
  fix t b
  assume st: "sbuf_inv b" "sb_pos b + length (a @ c) + 16 \<le> sbuf_len b"
  show "returns (f (t, b) \<bind> g) (grown (t, b) (a @ c))"
  proof (rule returns_bindI [OF printsD [OF assms(1) st(1)]])
    show "sb_pos b + length a + 16 \<le> sbuf_len b" using st(2) by simp
  next
    fix s
    assume s: "grown (t, b) a s"
    then have "sb_pos (snd s) = sb_pos b + length a" using text_pos [of b "snd s" a] st(1) by (simp add: grown_def)
    then have "returns (g (fst s, snd s)) (grown (fst s, snd s) c)"
      using s st by (intro printsD [OF assms(2)]) (simp_all add: grown_def)
    then show "returns (g s) (grown (t, b) (a @ c))" using s by (auto simp: grown_def elim!: returns_mono)
  qed
qed

lemma appended:
  assumes "appends b bs r" and "sbuf_inv b" and "sb_pos b + length bs \<le> sbuf_len b"
  shows "returns (do { (n, b') \<leftarrow> r; Some (t, b') }) (grown (t, b) bs)"
  using assms length_sbuf_text [OF assms(2)] by (auto simp: appends_def text_append_def returns_iff grown_def)

lemma prints_m: "prints bs (pr_m bs)"
  by (rule printsI) (simp add: pr_m_def appended [OF putm_appends])

lemma prints_cm: "prints (32 # bs) (pr_cm bs)"
  by (rule printsI) (simp add: pr_cm_def appended [OF putcm_appends])

lemma prints_s: "readable msg p \<Longrightarrow> prints (str_of msg p) (pr_s msg p)"
  by (rule printsI) (auto simp: pr_s_def readable_def str_of_def sbuf_puts_def appended [OF putm_appends] grown_def split: option.splits)

lemma prints_nil: "prints [] Some"
  by (simp add: prints_def grown_def)

lemma prints_ip4: "prints (ip4_text a) (pr_addr (ip4_str_encode a))"
proof (rule printsI)
  fix t b
  assume b: "sbuf_inv b" "sb_pos b + length (ip4_text a) + 16 \<le> sbuf_len b"
  then have r: "sbuf_rem b = sbuf_len b - sb_pos b" "\<not> sbuf_rem b < 16" by (simp_all add: sbuf_len_def)
  show "returns (pr_addr (ip4_str_encode a) (t, b)) (grown (t, b) (ip4_text a))"
    using b r length_ip4_text [of a]
    by (simp add: pr_addr_def ip4_str_encode_def mem_write_SomeI sbuf_mksp_def sbuf_rem_def sbuf_inv_def sbuf_len_def sbuf_text_def grown_def Let_def)
       linarith
qed

lemma prints_txt: "list_all (readable msg) ps \<Longrightarrow> prints (concat (map (\<lambda>p. str '' txt='' @ str_of msg p) ps)) (pr_txt msg ps)"
proof (induction ps)
  case Nil
  then show ?case by (simp add: prints_def grown_def)
next
  case (Cons p ps)
  then have "prints (str '' txt='' @ str_of msg p @ concat (map (\<lambda>p. str '' txt='' @ str_of msg p) ps))
      (\<lambda>st. pr_m (str '' txt='') st \<bind> (\<lambda>st. pr_s msg p st \<bind> pr_txt msg ps))"
    by (intro prints_then prints_m prints_s) simp_all
  then show ?case by (simp add: prints_def)
qed

lemma prints_rdata: "plain_text msg t rd bs \<Longrightarrow> prints bs (pr_rdata msg t rd)"
proof (induction rule: plain_text.induct)
  case (5 msg c x)
  have "prints (str ''cpu='' @ str_of msg c @ (32 # str ''os='') @ str_of msg x)
    (\<lambda>st. pr_m (str ''cpu='') st \<bind> (\<lambda>st. pr_s msg c st \<bind> (\<lambda>st. pr_cm (str ''os='') st \<bind> pr_s msg x)))"
    using 5 by (intro prints_then prints_m prints_s prints_cm)
  then show ?case by (simp add: pr_rdata_def dns_types prints_def str_Cons)
qed (simp_all add: pr_rdata_def dns_types prints_ip4 prints_s prints_txt)

definition rr_line :: "dns_msg \<Rightarrow> msg_rr \<Rightarrow> byte list \<Rightarrow> byte list" where
  "rr_line msg r bs = str ''  '' @ str_def (the (rr_str msg (rr_name r))) (str ''<null>'') @ [32] @
     dns_class_tostr (uint (rr_class r)) @ [32] @ dns_type_tostr (uint (rr_type r)) @ [32] @ bs"

lemma dns_rr_tostr_text:
  assumes "plain_text msg (rr_type r) (rr_rdata r) bs" and "readable msg (rr_name r)"
    and "length (rr_line msg r bs) + 16 \<le> length mem"
  shows "\<exists>mem'. dns_rr_tostr msg (Some r) tb mem = Some (int (length (rr_line msg r bs)), tb, mem') \<and>
    length mem' = length mem \<and> take (length (rr_line msg r bs) + 1) mem' = rr_line msg r bs @ [0]"
proof -
  let ?name = "str_def (the (rr_str msg (rr_name r))) (str ''<null>'')" and ?L = "rr_line msg r bs"
  let ?f = "\<lambda>st. pr_m (str ''  '') st \<bind> (\<lambda>st. pr_m ?name st \<bind> (\<lambda>st. pr_cm (dns_class_tostr (uint (rr_class r))) st \<bind>
     (\<lambda>st. pr_cm (dns_type_tostr (uint (rr_type r))) st \<bind> (\<lambda>st. pr_m (str '' '') st \<bind> pr_rdata msg (rr_type r) (rr_rdata r)))))"
  have "prints (str ''  '' @ ?name @ (32 # dns_class_tostr (uint (rr_class r))) @ (32 # dns_type_tostr (uint (rr_type r))) @ str '' '' @ bs) ?f"
    by (intro prints_then prints_m prints_cm prints_rdata assms(1))
  then have "prints ?L ?f" by (simp add: rr_line_def str_Cons prints_def)
  moreover have "sbuf_inv (sbuf_init mem)" "sbuf_text (sbuf_init mem) = []" "sbuf_len (sbuf_init mem) = length mem" "sb_pos (sbuf_init mem) = 0"
    by (simp_all add: sbuf_inv_def sbuf_text_def sbuf_init_def sbuf_len_def)
  ultimately obtain b where b: "?f (tb, sbuf_init mem) = Some (tb, b)" "sbuf_inv b" "sbuf_len b = length mem" "sbuf_text b = ?L"
    using assms(3) printsD [of ?L ?f "sbuf_init mem" tb] by (auto simp: returns_iff grown_def)
  have pos: "sb_pos b = length ?L" using length_sbuf_text [OF b(2)] b(4) by simp
  then have lt: "sb_pos b < length (sb_mem b)" using b(3) assms(3) by (simp add: sbuf_len_def)
  have z: "sbuf_endz b = Some (b\<lparr>sb_mem := (sb_mem b)[sb_pos b := 0]\<rparr>)"
    using lt by (simp add: sbuf_endz_def mem_write_one)
  have "take (Suc (sb_pos b)) ((sb_mem b)[sb_pos b := 0]) = ?L @ [0]"
    using lt b(4) by (simp add: sbuf_text_def take_Suc_conv_app_nth)
  then show ?thesis
    using assms(2) b z pos by (auto simp: dns_rr_tostr_def readable_def sbuf_len_def bind_assoc split: Option.bind_splits)
qed

section \<open>Numbers and sections\<close>

lemma pr_keeps_rows:
  "pr_m bs st = Some st' \<Longrightarrow> fst st' = fst st" "pr_cm bs st = Some st' \<Longrightarrow> fst st' = fst st" "pr_s msg p st = Some st' \<Longrightarrow> fst st' = fst st"
  by (auto simp: pr_m_def pr_cm_def pr_s_def split: Option.bind_splits)

lemma pr_n_row0: "tb_idx (fst st) = 0 \<Longrightarrow> pr_n num st = None"
  by (simp add: pr_n_def sbuf_putn_def u32_tostr_row0)

text \<open>The first number a process prints is written before the rows of \<open>u32_tostr\<close>: printing an MX record first is undefined.\<close>

lemma dns_rr_tostr_mx_first:
  assumes "rr_type r = DNS_TYPE_MX" and "tb_idx tb = 0"
  shows "dns_rr_tostr msg (Some r) tb mem = None"
proof -
  have "pr_rdata msg (rr_type r) (rr_rdata r) st = None" if "fst st = tb" for st
    using assms that by (auto simp: pr_rdata_def dns_types pr_n_row0 dest: pr_keeps_rows split: Option.bind_splits)
  then show ?thesis by (auto simp: dns_rr_tostr_def dest!: pr_keeps_rows split: Option.bind_splits)
qed

text \<open>\<open>dns_sects_tostr\<close> never reports how much it has written.\<close>

lemma dns_sects_tostr_count: "dns_sects_tostr msg tb buf = Some (rc, tb', buf') \<Longrightarrow> rc \<le> 0"
  by (auto simp: dns_sects_tostr_def split: Option.bind_splits if_splits)

section \<open>The text of a section\<close>

text \<open>\<open>shown_as msg r l\<close>: record \<open>r\<close> is printed as the line \<open>l\<close>. The lines of a section are separated by line ends.\<close>

definition shown_as :: "dns_msg \<Rightarrow> msg_rr \<Rightarrow> byte list \<Rightarrow> bool" where
  "shown_as msg r l \<longleftrightarrow> readable msg (rr_name r) \<and> (\<exists>bs. plain_text msg (rr_type r) (rr_rdata r) bs \<and> l = rr_line msg r bs)"

definition lines_text :: "byte list list \<Rightarrow> byte list" where
  "lines_text ls = (case ls of [] \<Rightarrow> [] | l # ls \<Rightarrow> l @ concat (map ((#) 10) ls))"

lemma shown_tostr:
  assumes "shown_as msg r l" and "length l + 16 \<le> length mem"
  shows "\<exists>R. dns_rr_tostr msg (Some r) tb mem = Some (int (length l), tb, l @ 0 # R) \<and> length mem = length (l @ 0 # R)"
proof -
  obtain bs where bs: "plain_text msg (rr_type r) (rr_rdata r) bs" "l = rr_line msg r bs" "readable msg (rr_name r)" using assms(1) by (auto simp: shown_as_def)
  obtain m where m: "dns_rr_tostr msg (Some r) tb mem = Some (int (length l), tb, m)" "length m = length mem" "take (length l + 1) m = l @ [0]"
    using dns_rr_tostr_text [OF bs(1,3), of mem tb] assms(2) bs(2) by auto
  have "m = l @ 0 # drop (length l + 1) m" using m(3) append_take_drop_id [of "length l + 1" m] by (metis append.assoc append_Cons append_Nil)
  then show ?thesis using m by metis
qed

lemma sect_print_rest:
  assumes "list_all2 (shown_as msg) rrs ls" and "length A + length (concat (map ((#) 10) ls)) + 16 \<le> length (A @ 0 # R)"
  shows "\<exists>R'. sect_print msg rrs False (length A) tb (A @ 0 # R) =
      Some (int (length A + length (concat (map ((#) 10) ls))), tb, A @ concat (map ((#) 10) ls) @ 0 # R') \<and>
    length (A @ 0 # R) = length (A @ concat (map ((#) 10) ls) @ 0 # R')"
  using assms
proof (induction rrs ls arbitrary: A R rule: list_all2_induct)
  case Nil
  then show ?case by simp
next
  case (Cons r rrs l ls)
  obtain R2 where R2: "dns_rr_tostr msg (Some r) tb R = Some (int (length l), tb, l @ 0 # R2)" "length R = length (l @ 0 # R2)"
    using shown_tostr [OF Cons.hyps(1), of R tb] Cons.prems by auto
  have w: "mem_write (A @ 0 # R) (length A) [10] = Some (A @ 10 # R)" by (simp add: mem_write_def)
  have "\<exists>R'. sect_print msg rrs False (length (A @ 10 # l)) tb ((A @ 10 # l) @ 0 # R2) =
      Some (int (length (A @ 10 # l) + length (concat (map ((#) 10) ls))), tb, (A @ 10 # l) @ concat (map ((#) 10) ls) @ 0 # R') \<and>
    length ((A @ 10 # l) @ 0 # R2) = length ((A @ 10 # l) @ concat (map ((#) 10) ls) @ 0 # R')"
    using Cons.prems R2(2) by (intro Cons.IH) simp
  then show ?case using R2 w by (auto simp: add.assoc)
qed

definition demo_print :: dns_msg where
  "demo_print = zero_msg\<lparr>m_names := str ''a.b'' @ 0 # str ''c.d'' @ [0], m_names_len := 8, m_an_len := 2,
     m_an := [\<lparr>rr_name = Some 0, rr_type = DNS_TYPE_CNAME, rr_class = 1, rr_ttl = 60, rr_rdlen = 0, rr_rdata = RD_CNAME (Some 4)\<rparr>,
              \<lparr>rr_name = Some 4, rr_type = DNS_TYPE_A, rr_class = 1, rr_ttl = 60, rr_rdlen = 4, rr_rdata = RD_A [192, 0, 2, 1]\<rparr>]\<rparr>"

lemma demo_names: "rr_str demo_print (Some 0) = Some (Some (str ''a.b''))" "rr_str demo_print (Some 4) = Some (Some (str ''c.d''))"
  by (simp_all add: rr_str_def demo_print_def cstr_at_def cstr_of_def str_Cons)

lemma demo_rrs:
  "m_an demo_print = [\<lparr>rr_name = Some 0, rr_type = DNS_TYPE_CNAME, rr_class = 1, rr_ttl = 60, rr_rdlen = 0, rr_rdata = RD_CNAME (Some 4)\<rparr>,
     \<lparr>rr_name = Some 4, rr_type = DNS_TYPE_A, rr_class = 1, rr_ttl = 60, rr_rdlen = 4, rr_rdata = RD_A [192, 0, 2, 1]\<rparr>]"
  "m_an_len demo_print = 2"
  by (simp_all add: demo_print_def)

text \<open>C28. A section whose records hold names, strings or IPv4 addresses is printed as its lines: \<open>dns_sect_tostr\<close> writes the text of the records in order, one line each, with the
  owner, class, type and data, and a terminator behind it, stays inside the buffer, and returns the length of the text.\<close>

theorem dns_sect_tostr_lines:
  assumes "sect_count sc msg \<le> length (sect_base sc msg)" and "list_all2 (shown_as msg) (take (sect_count sc msg) (sect_base sc msg)) ls"
    and "ls \<noteq> []" and "length (lines_text ls) + 16 \<le> length buf"
  shows "\<exists>R. dns_sect_tostr msg sc tb buf = Some (int (length (lines_text ls)), tb, lines_text ls @ 0 # R) \<and> length buf = length (lines_text ls @ 0 # R)"
proof -
  obtain l ls' where ls: "ls = l # ls'" using assms(3) by (cases ls) auto
  obtain r rrs where rrs: "take (sect_count sc msg) (sect_base sc msg) = r # rrs" "shown_as msg r l" "list_all2 (shown_as msg) rrs ls'"
    using assms(2) ls by (auto simp: list_all2_Cons2)
  obtain R where R: "dns_rr_tostr msg (Some r) tb buf = Some (int (length l), tb, l @ 0 # R)" "length buf = length (l @ 0 # R)"
    using shown_tostr [OF rrs(2), of buf tb] assms(4) ls by (auto simp: lines_text_def)
  obtain R' where "sect_print msg rrs False (length l) tb (l @ 0 # R) = Some (int (length l + length (concat (map ((#) 10) ls'))), tb, l @ concat (map ((#) 10) ls') @ 0 # R')"
      "length (l @ 0 # R) = length (l @ concat (map ((#) 10) ls') @ 0 # R')"
    using sect_print_rest [OF rrs(3), of l R tb] assms(4) R(2) ls by (auto simp: lines_text_def)
  then show ?thesis using assms(1) rrs(1) R ls by (auto simp: dns_sect_tostr_def lines_text_def)
qed

theorem dns_sect_tostr_lines_witness:
  "\<exists>R. dns_sect_tostr demo_print SectAN tostr_init (replicate 100 0) =
     Some (39, tostr_init, str ''  a.b IN CNAME c.d'' @ 10 # str ''  c.d IN A 192.0.2.1'' @ 0 # R)"
proof -
  let ?ls = "[str ''  a.b IN CNAME c.d'', str ''  c.d IN A 192.0.2.1'']"
  have texts: "plain_text demo_print DNS_TYPE_CNAME (RD_CNAME (Some 4)) (str ''c.d'')" "plain_text demo_print DNS_TYPE_A (RD_A [192, 0, 2, 1]) (str ''192.0.2.1'')"
    using plain_text.intros(3) [of demo_print "Some 4"] plain_text.intros(1) [of demo_print "[192, 0, 2, 1]"]
    by (simp_all add: readable_def str_of_def demo_names ip4_text_def uint8_toa_def str_Cons)
  have "list_all2 (shown_as demo_print) (m_an demo_print) ?ls"
    using texts by (auto simp: demo_rrs shown_as_def readable_def demo_names rr_line_def dns_class_tostr_def dns_type_tostr_def dns_types str_Cons Str_Util.str_def_def)
  then have "list_all2 (shown_as demo_print) (take (sect_count SectAN demo_print) (sect_base SectAN demo_print)) ?ls"
    by (simp add: demo_rrs)
  then show ?thesis
    using dns_sect_tostr_lines [of SectAN demo_print ?ls "replicate 100 0" tostr_init] by (auto simp: demo_rrs lines_text_def str_Cons)
qed

end
