(* ===== verification/Dns_Gen.thy ===== *)
theory Dns_Gen
  imports Insp_Props Cmd_Line Dns_Print
begin

text \<open>
  The generator \<open>dns-gen\<close>: \<open>src/src/dns_gen.c\<close>.

  Frames and captures, messages over a socket, fuzzed messages, the options of the three modes and \<open>main\<close>. The packet
  buffer and the name are memories of the program's sizes, so a write outside them is None. The network (\<open>net\<close>), the
  file behind the output name, the clocks, \<open>strdup\<close> and \<open>rand\<close> are parameters. What is printed on the way to a result is left
  out, except for the text of an answer.
\<close>

section \<open>State\<close>

definition MODE_QUERY :: nat where "MODE_QUERY = 1"
definition MODE_RESP :: nat where "MODE_RESP = 2"
definition MODE_FUZZ :: nat where "MODE_FUZZ = 3"

definition FUZZ_HDR_TRUNC :: u16 where "FUZZ_HDR_TRUNC = 1"
definition FUZZ_HDR_OPCODE :: u16 where "FUZZ_HDR_OPCODE = 2"
definition FUZZ_HDR_RCODE :: u16 where "FUZZ_HDR_RCODE = 3"
definition FUZZ_HDR_QDCNT :: u16 where "FUZZ_HDR_QDCNT = 4"
definition FUZZ_QD_CMPLOOP :: u16 where "FUZZ_QD_CMPLOOP = 5"
definition FUZZ_QD_BADJMP :: u16 where "FUZZ_QD_BADJMP = 6"

lemmas fuzz_codes = FUZZ_HDR_TRUNC_def FUZZ_HDR_OPCODE_def FUZZ_HDR_RCODE_def FUZZ_HDR_QDCNT_def FUZZ_QD_CMPLOOP_def FUZZ_QD_BADJMP_def

definition ETHIPUDP_LEN :: nat where "ETHIPUDP_LEN = 14 + 20 + 8"

text \<open>
  \<open>struct dns_gen\<close> without its time stamps and the file it has open. \<open>gn_rows\<close> is not a field of it but the static
  rows of \<open>u32_tostr\<close>, which printing an answer uses.
\<close>

record dns_gen =
  gn_cmd :: "cmd_mode option"
  gn_dns_name :: "byte list"
  gn_dns_type :: u16
  gn_dns_class :: u16
  gn_dns_flags :: u16
  gn_server :: "byte list option"
  gn_id :: u16
  gn_ttl :: u32
  gn_output :: "byte list option"
  gn_msg :: dns_msg
  gn_timeout :: u32
  gn_fuzz_type :: u16
  gn_pkt_buf :: "byte list"
  gn_emsg :: "byte list"
  gn_tid_sent :: u16
  gn_pkt_len :: nat
  gn_msg_len :: nat
  gn_sock_fd :: int
  gn_use_tcp :: bool
  gn_log_msg :: bool
  gn_use_pcapng :: bool
  gn_rows :: tostr_bufs

definition gen_create :: dns_gen where
  "gen_create = \<lparr>gn_cmd = None, gn_dns_name = replicate 256 0, gn_dns_type = 0, gn_dns_class = 0, gn_dns_flags = 0,
     gn_server = None, gn_id = 0, gn_ttl = 0, gn_output = None, gn_msg = zero_msg, gn_timeout = 0, gn_fuzz_type = 0,
     gn_pkt_buf = replicate DNS_MAX_PDUSIZE 0, gn_emsg = replicate 4096 0, gn_tid_sent = 0, gn_pkt_len = 0, gn_msg_len = 0,
     gn_sock_fd = -1, gn_use_tcp = False, gn_log_msg = False, gn_use_pcapng = False, gn_rows = tostr_init\<rparr>"

section \<open>Frames\<close>

text \<open>\<open>ip_checksum\<close>: the sum of 16-bit words, the byte that is left over, and the folding of the carries.\<close>

fun sum_words :: "byte list \<Rightarrow> u32 \<Rightarrow> u32" where
  "sum_words (a # b # bs) tot = sum_words bs (tot + ucast ((push_bit 8 (ucast a) OR ucast b) :: u16))"
| "sum_words [a] tot = tot + ucast a"
| "sum_words [] tot = tot"

function fold_sum :: "u32 \<Rightarrow> u32" where
  "fold_sum tot = (if drop_bit 16 tot \<noteq> 0 then fold_sum ((tot AND 0xffff) + drop_bit 16 tot) else tot)"
  by pat_completeness auto

lemma unat_fold_step:
  "unat ((tot AND 0xffff) + drop_bit 16 tot :: u32) = unat tot mod 65536 + unat tot div 65536"
proof -
  have "tot AND 0xffff = take_bit 16 tot" by (simp add: take_bit_eq_mask mask_eq_exp_minus_1)
  then have "unat (tot AND 0xffff) = take_bit 16 (unat tot)" by (simp only: unsigned_take_bit_eq)
  then have m: "unat (tot AND 0xffff) = unat tot mod 65536" by (simp add: take_bit_eq_mod)
  have d: "unat (drop_bit 16 tot) = unat tot div 65536" by (simp add: unat_drop_bit)
  have "unat tot mod 65536 + unat tot div 65536 < 2 ^ 32" using unat_u32_less [of tot] by simp
  then show ?thesis using m d by (subst unat_add_lem [THEN iffD1]) simp_all
qed

lemma drop16_zero: "drop_bit 16 tot = 0 \<longleftrightarrow> unat tot < 65536" for tot :: u32
proof -
  have "drop_bit 16 tot = 0 \<longleftrightarrow> unat (drop_bit 16 tot) = 0" by (simp only: unat_eq_zero)
  then show ?thesis by (simp only: unat_drop_bit) (simp add: div_eq_0_iff)
qed

termination fold_sum
proof (relation "measure unat", goal_cases)
  case (2 tot)
  then have "65536 \<le> unat tot" using drop16_zero [of tot] by simp
  then have "unat tot div 65536 > 0" by (simp add: div_greater_zero_iff)
  then have "unat tot mod 65536 + unat tot div 65536 < unat tot"
    using mult_div_mod_eq [of 65536 "unat tot"] by linarith
  then show ?case by (simp only: in_measure unat_fold_step)
qed simp

declare fold_sum.simps [simp del]

definition ip_checksum :: "byte list \<Rightarrow> u16" where
  "ip_checksum addr = NOT (ucast (fold_sum (sum_words addr 0)))"

definition pcap_start_pkt :: "dns_gen \<Rightarrow> dns_gen" where
  "pcap_start_pkt gen = gen\<lparr>gn_pkt_len := ETHIPUDP_LEN\<rparr>"

text \<open>The three headers as they lie in memory; \<open>htons\<close> makes the 16-bit fields big-endian.\<close>

definition udp_bytes :: "u16 \<Rightarrow> byte list" where
  "udp_bytes msg_len = be16 53 @ be16 53 @ be16 (8 + msg_len) @ be16 0"

definition ip_bytes :: "u16 \<Rightarrow> u16 \<Rightarrow> byte list" where
  "ip_bytes msg_len check = [0x45, 0] @ be16 (msg_len + 8 + 20) @ be16 0 @ be16 0 @ [255, IPPROTO_UDP] @ be16 check @
     replicate 4 0 @ replicate 4 0"

definition eth_bytes :: "byte list" where
  "eth_bytes = [0, 0, 0, 0, 0, 2] @ [0, 0, 0, 0, 0, 1] @ be16 ETH_P_IP"

definition pcap_end_pkt :: "dns_gen \<Rightarrow> dns_gen option" where
  "pcap_end_pkt gen =
     (let msg_len = of_nat (size_sub (gn_pkt_len gen) ETHIPUDP_LEN) :: u16;
          check = ip_checksum (ip_bytes msg_len 0)
      in do {
        b \<leftarrow> mem_write (gn_pkt_buf gen) (ETHIPUDP_LEN - 8) (udp_bytes msg_len);
        b \<leftarrow> mem_write b (ETHIPUDP_LEN - 28) (ip_bytes msg_len check);
        b \<leftarrow> mem_write b (ETHIPUDP_LEN - 42) eth_bytes;
        Some (gen\<lparr>gn_pkt_buf := b\<rparr>) })"

text \<open>
  \<open>gen_pcap_file\<close>: \<open>env\<close> and \<open>mts\<close> are the file behind \<open>gen->output\<close> and the clocks; the result includes the closed
  file. \<open>PCAP_WRITE\<close> is set, \<open>PCAP_FMTNG\<close> when asked for.
\<close>

definition gen_flags :: "dns_gen \<Rightarrow> pcap_flags" where
  "gen_flags gen = \<lparr>fl_read = False, fl_write = True, fl_lg = False, fl_ng = gn_use_pcapng gen, fl_trace = False, fl_spb = False\<rparr>"

definition gen_pcap_file :: "pcap_env \<Rightarrow> clock \<Rightarrow> bool \<Rightarrow> dns_gen \<Rightarrow> (int \<times> pcap_file option) option" where
  "gen_pcap_file env mts fclose_ok gen =
     (case pcap_open env (gen_flags gen) of
        None \<Rightarrow> Some (-1, None)
      | Some file \<Rightarrow> do {
          pkt \<leftarrow> mem_read (gn_pkt_buf gen) 0 (gn_pkt_len gen);
          let (rc, file) = pcap_write mts file pkt;
          if rc \<noteq> 0 then Some (rc, Some file)
          else Some (fst (pcap_close fclose_ok file), Some file) })"

section \<open>Sending and receiving\<close>

text \<open>
  The network: \<open>'w\<close> is the state of the system. \<open>read\<close> answers with a count and the bytes it has stored; the functions
  that only succeed or fail answer with a boolean.
\<close>

record 'w net =
  nt_pton :: "byte list \<Rightarrow> bool"
  nt_socket :: "'w \<Rightarrow> bool \<Rightarrow> int \<times> 'w"
  nt_connect :: "'w \<Rightarrow> int \<Rightarrow> byte list \<Rightarrow> bool \<times> 'w"
  nt_timeo :: "'w \<Rightarrow> int \<Rightarrow> bool \<Rightarrow> u32 \<times> u32 \<Rightarrow> bool \<times> 'w"
  nt_write :: "'w \<Rightarrow> int \<Rightarrow> byte list \<Rightarrow> int \<times> 'w"
  nt_read :: "'w \<Rightarrow> int \<Rightarrow> nat \<Rightarrow> (int \<times> byte list) \<times> 'w"
  nt_rand :: "'w \<Rightarrow> nat \<times> 'w"

text \<open>The error text that is printed, if any: \<open>errno = EINTR\<close> is an assignment, so a failed call is never reported.\<close>

definition gen_io_err :: "int \<Rightarrow> int \<times> byte list option" where
  "gen_io_err rc = (-1, if rc > 0 then Some (str ''truncated'') else if rc = 0 then Some (str ''closed'') else None)"

definition gen_con_server :: "'w net \<Rightarrow> 'w \<Rightarrow> dns_gen \<Rightarrow> (int \<times> 'w \<times> dns_gen) option" where
  "gen_con_server net w gen = do {
     server \<leftarrow> gn_server gen;
     if \<not> nt_pton net server then Some (-1, w, gen)
     else
       let (fd, w) = nt_socket net w (gn_use_tcp gen); gen = gen\<lparr>gn_sock_fd := fd\<rparr>
       in if fd = -1 then Some (-1, w, gen)
          else
            let (ok, w) = nt_connect net w fd server
            in if \<not> ok then Some (-1, w, gen)
               else
                 let tv = (gn_timeout gen div 1000, (gn_timeout gen mod 1000) * 1000);
                     (ok, w) = nt_timeo net w fd False tv
                 in if \<not> ok then Some (-1, w, gen)
                    else let (ok, w) = nt_timeo net w fd True tv
                         in if \<not> ok then Some (-1, w, gen) else Some (0, w, gen) }"

definition gen_rcv_dnspkt :: "'w net \<Rightarrow> 'w \<Rightarrow> dns_gen \<Rightarrow> (int \<times> 'w \<times> dns_gen) option" where
  "gen_rcv_dnspkt net w gen =
     (let rest = (\<lambda>rptr rlen w gen. do {
            let ((nr, bs), w) = nt_read net w (gn_sock_fd gen) rlen;
            if nr \<le> 0 then Some (-1, w, gen)
            else do {
              b \<leftarrow> mem_write (gn_pkt_buf gen) rptr bs;
              Some (0, w, gen\<lparr>gn_pkt_buf := b, gn_pkt_len := gn_pkt_len gen + nat nr\<rparr>) } })
      in if gn_use_tcp gen then do {
           let ((nr, bs), w) = nt_read net w (gn_sock_fd gen) 2;
           b \<leftarrow> mem_write (gn_pkt_buf gen) 0 bs;
           let gen = gen\<lparr>gn_pkt_buf := b\<rparr>;
           if nr \<noteq> 2 then Some (-1, w, gen)
           else do {
             rlen \<leftarrow> dec_u16 b 0;
             let gen = gen\<lparr>gn_pkt_len := gn_pkt_len gen + 2\<rparr>;
             if 2 + unat rlen > DNS_MAX_PDUSIZE then Some (-1, w, gen)
             else rest 2 (unat rlen) w gen } }
         else rest 0 DNS_MAX_PDUSIZE w gen)"

definition gen_snd_dnspkt :: "'w net \<Rightarrow> 'w \<Rightarrow> dns_gen \<Rightarrow> (int \<times> 'w) option" where
  "gen_snd_dnspkt net w gen = do {
     pkt \<leftarrow> mem_read (gn_pkt_buf gen) 0 (gn_pkt_len gen);
     let (nw, w) = nt_write net w (gn_sock_fd gen) pkt;
     Some (if nw \<noteq> int (gn_pkt_len gen) then -1 else 0, w) }"

section \<open>Messages\<close>

definition gen_dec_dnsmsg :: "dns_gen \<Rightarrow> (int \<times> dns_gen) option" where
  "gen_dec_dnsmsg gen =
     (let off = (if gn_use_tcp gen then 2 else 0); len = size_sub (gn_pkt_len gen) off
      in do {
        (rc, msg) \<leftarrow> dns_msg_decode (gn_msg gen) (drop off (gn_pkt_buf gen)) len;
        Some (rc, gen\<lparr>gn_msg_len := len, gn_msg := msg\<rparr>) })"

definition gen_enc_dnsmsg :: "dns_gen \<Rightarrow> (int \<times> dns_gen) option" where
  "gen_enc_dnsmsg gen =
     (let buf = gn_pkt_len gen; pre = (if gn_use_tcp gen then 2 else 0);
          wbuf = buf + pre; space = size_sub (size_sub DNS_MAX_PDUSIZE buf) pre
      in do {
        (len, part, msg) \<leftarrow> dns_msg_encode (gn_msg gen) (drop wbuf (gn_pkt_buf gen)) space;
        let b = take wbuf (gn_pkt_buf gen) @ part;
        let gen = gen\<lparr>gn_pkt_buf := b, gn_msg := msg\<rparr>;
        if len \<le> 0 then Some (-1, gen)
        else do {
          let gen = gen\<lparr>gn_msg_len := nat len, gn_pkt_len := gn_pkt_len gen + nat len\<rparr>;
          if gn_use_tcp gen then do {
            (p, b) \<leftarrow> enc_u16 (gn_pkt_buf gen) buf (of_int len);
            Some (0, gen\<lparr>gn_pkt_buf := b, gn_pkt_len := gn_pkt_len gen + 2\<rparr>) }
          else Some (0, gen) } })"

text \<open>\<open>gen_log_answer\<close>: the text after the time it took is the second result.\<close>

definition rr_at :: "dns_msg \<Rightarrow> (sect \<times> nat) option \<Rightarrow> msg_rr option" where
  "rr_at msg q = (case q of None \<Rightarrow> None | Some (s, i) \<Rightarrow> Some (sect_base s msg ! i))"

definition gen_log_answer :: "dns_gen \<Rightarrow> (int \<times> byte list \<times> dns_gen) option" where
  "gen_log_answer gen =
     (let msg = gn_msg gen; num_rr = dns_cnt_rr msg
      in if num_rr = 0 then Some (0, str ''<None>'', gen)
         else if num_rr = 1 then do {
           (rc, rows, m) \<leftarrow> dns_rr_tostr msg (rr_at msg (dns_get_rr msg)) (gn_rows gen) (gn_emsg gen);
           m \<leftarrow> (if rc \<le> 0 then mem_write m 0 [0] else Some m);
           s \<leftarrow> cstr_at m 0;
           Some (0, dropWhile (\<lambda>b. b = 32) s, gen\<lparr>gn_emsg := m, gn_rows := rows\<rparr>) }
         else do {
           m \<leftarrow> mem_write (gn_emsg gen) 0 [0];
           (rc, rows, m) \<leftarrow> dns_sects_tostr msg (gn_rows gen) m;
           s \<leftarrow> cstr_at m 0;
           Some (0, newline @ s, gen\<lparr>gn_emsg := m, gn_rows := rows\<rparr>) })"

definition gen_chk_dnsrsp :: "dns_gen \<Rightarrow> int" where
  "gen_chk_dnsrsp gen =
     (let hdr = m_hdr (gn_msg gen)
      in if hd_flags hdr AND DNS_FLAGS_QR = 0 then 1
         else if hd_id hdr \<noteq> gn_tid_sent gen then 2
         else if hd_flags hdr AND DNS_FLAGS_RCODE \<noteq> 0 then 3 else 0)"

definition gen_set_query :: "'w net \<Rightarrow> 'w \<Rightarrow> dns_gen \<Rightarrow> (int \<times> 'w \<times> dns_gen) option" where
  "gen_set_query net w gen = do {
     let (r, w) = nt_rand net w;
     let tid = (of_nat (r mod 65536) :: u16);
     name \<leftarrow> cstr_at (gn_dns_name gen) 0;
     (rc, msg) \<leftarrow> dns_add_qd (dns_msg_init (gn_msg gen) tid (gn_dns_flags gen)) (Some name) (gn_dns_type gen) (gn_dns_class gen);
     Some (rc, w, gen\<lparr>gn_tid_sent := tid, gn_msg := msg\<rparr>) }"

definition gen_rcv_resp :: "'w net \<Rightarrow> 'w \<Rightarrow> dns_gen \<Rightarrow> (int \<times> byte list \<times> 'w \<times> dns_gen) option" where
  "gen_rcv_resp net w gen = do {
     (rc, w, gen) \<leftarrow> gen_rcv_dnspkt net w gen;
     if rc \<noteq> 0 then Some (rc, [], w, gen)
     else do {
       (rc, gen) \<leftarrow> gen_dec_dnsmsg gen;
       if rc \<noteq> 0 then Some (rc, [], w, gen)
       else if gen_chk_dnsrsp gen \<noteq> 0 then Some (gen_chk_dnsrsp gen, [], w, gen)
       else do { (rc, t, gen) \<leftarrow> gen_log_answer gen; Some (rc, t, w, gen) } } }"

definition gen_snd_query :: "'w net \<Rightarrow> 'w \<Rightarrow> dns_gen \<Rightarrow> (int \<times> 'w \<times> dns_gen) option" where
  "gen_snd_query net w gen = do {
     (rc, w, gen) \<leftarrow> gen_set_query net w gen;
     if rc \<noteq> 0 then Some (rc, w, gen)
     else do {
       (rc, gen) \<leftarrow> gen_enc_dnsmsg gen;
       if rc \<noteq> 0 then Some (rc, w, gen)
       else do { (rc, w) \<leftarrow> gen_snd_dnspkt net w gen; Some (rc, w, gen) } } }"

definition run_query :: "'w net \<Rightarrow> 'w \<Rightarrow> dns_gen \<Rightarrow> (int \<times> byte list \<times> 'w \<times> dns_gen) option" where
  "run_query net w gen = do {
     (rc, w, gen) \<leftarrow> gen_con_server net w gen;
     if rc \<noteq> 0 then Some (rc, [], w, gen)
     else do {
       (rc, w, gen) \<leftarrow> gen_snd_query net w gen;
       if rc \<noteq> 0 then Some (rc, [], w, gen)
       else gen_rcv_resp net w gen } }"

definition run_resp :: "pcap_env \<Rightarrow> clock \<Rightarrow> bool \<Rightarrow> dns_gen \<Rightarrow> (int \<times> pcap_file option \<times> dns_gen) option" where
  "run_resp env mts fclose_ok gen0 =
     (let gen = pcap_start_pkt (gen0\<lparr>gn_msg := (gn_msg gen0)\<lparr>m_hdr := dns_hdr_init (m_hdr (gn_msg gen0)) (gn_id gen0) DNS_FLAGS_QR\<rparr>\<rparr>)
      in do {
        (rc, gen) \<leftarrow> gen_enc_dnsmsg gen;
        if rc \<noteq> 0 then Some (rc, None, gen)
        else do {
          gen \<leftarrow> pcap_end_pkt gen;
          (rc, file) \<leftarrow> gen_pcap_file env mts fclose_ok gen;
          Some (rc, file, gen) } })"

section \<open>Fuzzing\<close>

definition hdr_net :: "dns_hdr \<Rightarrow> byte list" where
  "hdr_net h = be16 (hd_id h) @ be16 (hd_flags h) @ be16 (qd_count h) @ be16 (an_count h) @ be16 (ns_count h) @ be16 (ar_count h)"

text \<open>\<open>gen_enc_badhdr\<close> gives the bytes that are copied; \<open>tid_sent\<close> becomes the id.\<close>

definition gen_enc_badhdr :: "dns_gen \<Rightarrow> dns_hdr \<Rightarrow> byte list \<times> dns_gen" where
  "gen_enc_badhdr gen hdr = (hdr_net (hdr\<lparr>hd_id := gn_id gen\<rparr>), gen\<lparr>gn_tid_sent := gn_id gen\<rparr>)"

definition bad_question :: "byte \<Rightarrow> byte list" where
  "bad_question jmp = [0xc0, jmp] @ be16 DNS_TYPE_A @ be16 1"

definition gen_enc_badmsg :: "dns_gen \<Rightarrow> (int \<times> dns_gen) option" where
  "gen_enc_badmsg gen =
     (let start = gn_pkt_len gen; t = gn_fuzz_type gen;
          put = (\<lambda>hdr tail. let (bs, gen) = gen_enc_badhdr gen hdr in do {
            b \<leftarrow> mem_write (gn_pkt_buf gen) start (bs @ tail);
            Some (0, gen\<lparr>gn_pkt_buf := b, gn_pkt_len := start + length (bs @ tail)\<rparr>) })
      in if t = FUZZ_HDR_TRUNC then Some (0, gen\<lparr>gn_pkt_len := start + 10\<rparr>)
         else if t = FUZZ_HDR_OPCODE then put (dns_hdr_reset\<lparr>hd_flags := push_bit 11 6\<rparr>) []
         else if t = FUZZ_HDR_RCODE then put (dns_hdr_reset\<lparr>hd_flags := DNS_FLAGS_QR OR 11\<rparr>) []
         else if t = FUZZ_HDR_QDCNT then put (dns_hdr_reset\<lparr>qd_count := 0xffff\<rparr>) []
         else if t = FUZZ_QD_CMPLOOP then put (dns_hdr_reset\<lparr>qd_count := 1\<rparr>) (bad_question 0x0c)
         else if t = FUZZ_QD_BADJMP then put (dns_hdr_reset\<lparr>qd_count := 1\<rparr>) (bad_question 0)
         else Some (0, gen))"

definition fuzz_pcap :: "pcap_env \<Rightarrow> clock \<Rightarrow> bool \<Rightarrow> dns_gen \<Rightarrow> (int \<times> pcap_file option \<times> dns_gen) option" where
  "fuzz_pcap env mts fclose_ok gen = do {
     (rc, gen) \<leftarrow> gen_enc_badmsg (pcap_start_pkt gen);
     if rc \<noteq> 0 then Some (rc, None, gen)
     else do {
       gen \<leftarrow> pcap_end_pkt gen;
       (rc, file) \<leftarrow> gen_pcap_file env mts fclose_ok gen;
       Some (rc, file, gen) } }"

definition fuzz_send :: "'w net \<Rightarrow> 'w \<Rightarrow> dns_gen \<Rightarrow> (int \<times> byte list \<times> 'w \<times> dns_gen) option" where
  "fuzz_send net w gen = do {
     (rc, gen) \<leftarrow> gen_enc_badmsg gen;
     if rc \<noteq> 0 then Some (rc, [], w, gen)
     else do {
       (rc, w, gen) \<leftarrow> gen_con_server net w gen;
       if rc \<noteq> 0 then Some (rc, [], w, gen)
       else do {
         (rc, w) \<leftarrow> gen_snd_dnspkt net w gen;
         if rc \<noteq> 0 then Some (rc, [], w, gen) else gen_rcv_resp net w gen } } }"

definition run_fuzz :: "pcap_env \<Rightarrow> clock \<Rightarrow> bool \<Rightarrow> 'w net \<Rightarrow> 'w \<Rightarrow> dns_gen \<Rightarrow>
    (int \<times> pcap_file option \<times> byte list \<times> 'w \<times> dns_gen) option" where
  "run_fuzz env mts fclose_ok net w gen =
     (if gn_output gen \<noteq> None
      then do { (rc, file, gen) \<leftarrow> fuzz_pcap env mts fclose_ok gen; Some (rc, file, [], w, gen) }
      else do { (rc, t, w, gen) \<leftarrow> fuzz_send net w gen; Some (rc, None, t, w, gen) })"

section \<open>Command line of dns-gen\<close>

definition query_opts :: "cmd_opt list" where
  "query_opts = [
     cmd_opt_of ''--name'' ''<NAME> domain name to lookup'' True 1,
     cmd_opt_of ''--type'' ''<A|NS|CNAME|SOA|PTR|HINFO|MX|TXT|AAAA|SRV> query type'' True 2,
     cmd_opt_of ''--class'' ''<IN|CS|CH|HS|ANY> query class'' True 3,
     cmd_opt_of ''--flags'' ''<AD|CD|RD> list of query flags e.g AD:0|RD:1'' True 4,
     cmd_opt_of ''--server'' ''<ADDR> server IP address'' True 5,
     cmd_opt_of ''--timeout'' ''<TimeOut> Response timeout in ms'' True 6,
     cmd_opt_of ''--tcp'' ''Use TCP to send msg (instead of UDP)'' False 7,
     cmd_opt_of ''--log'' ''Log DNS message that are sent'' False 8]"

definition resp_opts :: "cmd_opt list" where
  "resp_opts = [
     cmd_opt_of ''--id'' ''<ID> A DNS header id'' True 9,
     cmd_opt_of ''--name'' ''<NAME> A DNS name'' True 10,
     cmd_opt_of ''--flags'' ''<FLAGS> Query flags name:value name=AD|CD|RD and val=0|1'' True 11,
     cmd_opt_of ''--answer'' ''<ANS>  answer record'' True 12,
     cmd_opt_of ''--authority'' ''<AUTH> auth record'' True 13,
     cmd_opt_of ''--additional'' ''<ADD>  add record'' True 14,
     cmd_opt_of ''--output'' ''<FILE> pcap file name'' True 16,
     cmd_opt_of ''--pcapng'' ''Use pcapng file fmt'' False 17]"

definition fuzz_opts :: "cmd_opt list" where
  "fuzz_opts = [
     cmd_opt_of ''--type'' ''<hdr-trunc|hdr-opcode|hdr-rcode|hdr-qdcnt|qd-cmploop|qd-badjmp> fuzz type'' True 18,
     cmd_opt_of ''--id'' ''<ID> A DNS header id'' True 19,
     cmd_opt_of ''--server'' ''<ADDR> Server address to send pdu to'' True 20,
     cmd_opt_of ''--output'' ''<FILE> pcap file name'' True 21,
     cmd_opt_of ''--pcapng'' ''Use pcapng file fmt'' False 22]"

definition gen_cmds :: "cmd_mode list" where
  "gen_cmds = [
     \<lparr>cm_mode = MODE_QUERY, cm_opts = query_opts, cm_name = ''query'', cm_desc = ''Send DNS query to a server''\<rparr>,
     \<lparr>cm_mode = MODE_RESP, cm_opts = resp_opts, cm_name = ''resp'', cm_desc = ''Generate a DNS response''\<rparr>,
     \<lparr>cm_mode = MODE_FUZZ, cm_opts = fuzz_opts, cm_name = ''fuzz'', cm_desc = ''Send fuzzed DNS message to server or pcap''\<rparr>]"

text \<open>\<open>strncasecmp(str, lit, strlen(lit)) == 0\<close>: a prefix is enough.\<close>

definition has_prefix :: "byte list \<Rightarrow> string \<Rightarrow> bool" where
  "has_prefix s lit \<longleftrightarrow> strcaseeq (take (length lit) s) (str lit)"

definition get_fuzz_type :: "byte list \<Rightarrow> int" where
  "get_fuzz_type s =
     (if has_prefix s ''hdr-trunc'' then 1 else if has_prefix s ''hdr-opcode'' then 2
      else if has_prefix s ''hdr-rcode'' then 3 else if has_prefix s ''hdr-qdcnt'' then 4
      else if has_prefix s ''qd-cmploop'' then 5 else if has_prefix s ''qd-badjmp'' then 6 else 0)"

definition get_dns_flag :: "byte list \<Rightarrow> slice \<Rightarrow> int option" where
  "get_dns_flag m s = do { b \<leftarrow> slice_read m (s\<lparr>sl_len := min 9 (sl_len s)\<rparr>); Some (dns_get_flag (cstr_of b)) }"

definition get_flag_val :: "byte list \<Rightarrow> slice \<Rightarrow> int option" where
  "get_flag_val m s =
     (if sl_len s \<noteq> 1 then Some 0
      else do { p \<leftarrow> sl_ptr s; b \<leftarrow> mem_get m p; Some (if b = 48 then 1 else if b = 49 then 2 else 0) })"

definition set_dns_name :: "dns_gen \<Rightarrow> byte list \<Rightarrow> (int \<times> dns_gen) option" where
  "set_dns_name gen v =
     (if length v \<ge> DNS_NAME_MAXSTR then Some (-1, gen)
      else do { b \<leftarrow> mem_write (gn_dns_name gen) 0 (v @ [0]); Some (0, gen\<lparr>gn_dns_name := b\<rparr>) })"

text \<open>\<open>set_type_str\<close>: the looked up code as \<open>uint16_t\<close>, or an error for 0\<close>

definition set_type_str :: "(byte list \<Rightarrow> int) \<Rightarrow> byte list \<Rightarrow> u16 option" where
  "set_type_str lookup v = (let code = lookup v in if code = 0 then None else Some (of_int code))"

lemma splitch_less: "slice_splitch m s ch = Some (tok, s') \<Longrightarrow> sl_ptr s = Some p \<Longrightarrow> sl_len s \<noteq> 0 \<Longrightarrow> sl_len s' < sl_len s"
  by (auto simp: slice_splitch_def slice_make_def Let_def split: Option.bind_splits option.splits)

function flags_loop :: "byte list \<Rightarrow> slice \<Rightarrow> u16 \<Rightarrow> u16 option option" where
  "flags_loop m s flags =
     (if sl_len s = 0 then Some (Some flags)
      else do {
        p \<leftarrow> sl_ptr s;
        (flag, s') \<leftarrow> slice_splitch m s 124;
        flag \<leftarrow> slice_trim m flag;
        (onoff, flag) \<leftarrow> slice_rsplit m flag 58;
        onoff \<leftarrow> slice_trim m onoff;
        mask \<leftarrow> get_dns_flag m flag;
        let mask = of_int mask;
        if mask = 0 then Some None
        else do {
          val \<leftarrow> get_flag_val m onoff;
          if val = 0 then Some None
          else flags_loop m s' (if val = 1 then flags AND NOT mask else flags OR mask) } })"
  by pat_completeness auto
termination
  by (relation "measure (\<lambda>(m, s, flags). sl_len s)") (auto dest: splitch_less)

declare flags_loop.simps [simp del]

definition set_dns_flags :: "dns_gen \<Rightarrow> byte list \<Rightarrow> (int \<times> dns_gen) option" where
  "set_dns_flags gen v = do {
     let m = v @ [0];
     s \<leftarrow> slice_make_cstr m (Some 0);
     r \<leftarrow> flags_loop m s 0;
     Some (case r of None \<Rightarrow> (-1, gen) | Some flags \<Rightarrow> (0, gen\<lparr>gn_dns_flags := flags\<rparr>)) }"

definition set_id :: "dns_gen \<Rightarrow> byte list \<Rightarrow> int \<times> dns_gen" where
  "set_id gen v = (let val = strtol v in if val < 0 \<or> val > 0xffff then (-1, gen) else (0, gen\<lparr>gn_id := of_int val\<rparr>))"

text \<open>\<open>atol\<close>: \<open>strtol\<close> with base 10\<close>

definition atol :: "byte list \<Rightarrow> int" where
  "atol s0 =
     (let s = dropWhile is_space s0
      in case s of
           [] \<Rightarrow> 0
         | c # t \<Rightarrow> if c = 45 then max (- (2 ^ 63)) (- int (digits_num 10 0 t))
                    else min (2 ^ 63 - 1) (int (digits_num 10 0 (if c = 43 then t else s))))"

text \<open>\<open>ipstr_decode\<close>: the type and what is in \<open>dst\<close> after it. The error value -1 of \<open>ip4_str_decode\<close>, returned at a fourth digit, is not zero.\<close>

definition ipstr_decode :: "byte list \<Rightarrow> slice \<Rightarrow> byte list \<Rightarrow> nat \<Rightarrow> (u16 \<times> byte list) option" where
  "ipstr_decode m s dst len = do {
     t \<leftarrow> slice_read m s;
     (n4, dst) \<leftarrow> ip4_str_decode t dst 0;
     if n4 \<noteq> 0 then Some (DNS_TYPE_A, dst)
     else do {
       (n6, dst) \<leftarrow> ip6_str_decode t dst;
       if n6 \<noteq> 0 then Some (DNS_TYPE_AAAA, dst)
       else do {
         (ok, dst) \<leftarrow> slice_tocstr m s dst 0 len;
         Some (if ok then DNS_TYPE_CNAME else 0, dst) } } }"

function attr_loop :: "byte list \<Rightarrow> slice \<Rightarrow> byte list dns_rr \<Rightarrow> byte list dns_rr option" where
  "attr_loop m s rr =
     (if sl_len s = 0 then Some rr
      else do {
        p \<leftarrow> sl_ptr s;
        (attr, s') \<leftarrow> slice_splitch m s 32;
        attr \<leftarrow> slice_trim m attr;
        b \<leftarrow> slice_read m (attr\<lparr>sl_len := min (sl_len attr) 15\<rparr>);
        let dns_class = dns_get_class (cstr_of b);
        if dns_class \<noteq> 0 then attr_loop m s' (rr\<lparr>rr_class := of_int dns_class\<rparr>)
        else do {
          num \<leftarrow> slice_isnumeric m attr;
          if num then do {
            q \<leftarrow> sl_ptr attr;
            t \<leftarrow> cstr_at m q;
            attr_loop m s' (rr\<lparr>rr_ttl := of_int (atol t)\<rparr>) }
          else attr_loop m s' rr } })"
  by pat_completeness auto
termination
  by (relation "measure (\<lambda>(m, s, rr). sl_len s)") (auto dest: splitch_less)

declare attr_loop.simps [simp del]

text \<open>\<open>junk\<close> is what the 256 bytes of the local array \<open>tmp\<close> hold before it is written.\<close>

definition add_sect :: "byte list \<Rightarrow> dns_gen \<Rightarrow> int \<Rightarrow> byte list \<Rightarrow> (int \<times> dns_gen) option" where
  "add_sect junk gen sc v = do {
     let m = v @ [0];
     rest_str \<leftarrow> slice_make_cstr m (Some 0);
     (name, rest_str) \<leftarrow> slice_splitch m rest_str 32;
     name \<leftarrow> slice_trim m name;
     if sl_len name > DNS_NAME_MAXSTR then Some (-1, gen)
     else do {
       (t, tmp) \<leftarrow> ipstr_decode m name junk 256;
       rd \<leftarrow> (if t = DNS_TYPE_A then do { a \<leftarrow> mem_read tmp 0 4; Some (RD_A a) }
              else if t = DNS_TYPE_AAAA then do { a \<leftarrow> mem_read tmp 0 16; Some (RD_AAAA a) }
              else if t = DNS_TYPE_CNAME then do { s \<leftarrow> cstr_at tmp 0; Some (RD_CNAME (Some s)) }
              else Some RD_Zero);
       rr \<leftarrow> attr_loop m rest_str \<lparr>rr_name = None, rr_type = t, rr_class = 0, rr_ttl = 0, rr_rdlen = 0, rr_rdata = rd\<rparr>;
       dname \<leftarrow> cstr_at (gn_dns_name gen) 0;
       let rr = rr\<lparr>rr_name := Some dname\<rparr>;
       let rr = (if rr_class rr = 0 then rr\<lparr>rr_class := gn_dns_class gen\<rparr> else rr);
       let rr = (if rr_ttl rr = 0 then rr\<lparr>rr_ttl := gn_ttl gen\<rparr> else rr);
       (rc, msg) \<leftarrow> dns_add_rr (gn_msg gen) sc (Some rr);
       Some (rc, gen\<lparr>gn_msg := msg\<rparr>) } }"

text \<open>The switch over the option codes. An option that has a value is only handled with one.\<close>

definition set_str :: "strdup \<Rightarrow> (byte list option \<Rightarrow> dns_gen) \<Rightarrow> byte list \<Rightarrow> (int \<times> dns_gen) option" where
  "set_str dup put v = (case str_setval dup v of (rc, s) \<Rightarrow> Some (rc, put s))"

definition set_code :: "dns_gen \<Rightarrow> u16 option \<Rightarrow> (u16 \<Rightarrow> dns_gen) \<Rightarrow> (int \<times> dns_gen) option" where
  "set_code gen code put = Some (case code of None \<Rightarrow> (-1, gen) | Some c \<Rightarrow> (0, put c))"

definition gen_option :: "strdup \<Rightarrow> byte list \<Rightarrow> dns_gen \<Rightarrow> int \<Rightarrow> byte list \<Rightarrow> byte list option \<Rightarrow> (int \<times> dns_gen) option" where
  "gen_option dup junk gen code name value =
     (if code = 7 then Some (code, gen\<lparr>gn_use_tcp := True\<rparr>)
      else if code = 8 then Some (code, gen\<lparr>gn_log_msg := True\<rparr>)
      else if code = 17 \<or> code = 22 then Some (code, gen\<lparr>gn_use_pcapng := True\<rparr>)
      else do {
        v \<leftarrow> value;
        if code = 1 \<or> code = 10 then set_dns_name gen v
        else if code = 2 then set_code gen (set_type_str dns_get_type v) (\<lambda>c. gen\<lparr>gn_dns_type := c\<rparr>)
        else if code = 3 then set_code gen (set_type_str dns_get_class v) (\<lambda>c. gen\<lparr>gn_dns_class := c\<rparr>)
        else if code = 4 \<or> code = 11 then set_dns_flags gen v
        else if code = 5 \<or> code = 20 then set_str dup (\<lambda>s. gen\<lparr>gn_server := s\<rparr>) v
        else if code = 6 \<or> code = 15 then (case uint_setval v of (rc, n) \<Rightarrow> Some (rc, gen\<lparr>gn_timeout := n\<rparr>))
        else if code = 9 \<or> code = 19 then Some (set_id gen v)
        else if code = 12 then add_sect junk gen 1 v
        else if code = 13 then add_sect junk gen 2 v
        else if code = 14 then add_sect junk gen 3 v
        else if code = 16 \<or> code = 21 then set_str dup (\<lambda>s. gen\<lparr>gn_output := s\<rparr>) v
        else if code = 18 then set_code gen (set_type_str get_fuzz_type v) (\<lambda>c. gen\<lparr>gn_fuzz_type := c\<rparr>)
        else Some (code, gen) })"

text \<open>The defaults of a mode (\<open>r\<close> is what \<open>rand\<close> gives) and the checks after the options.\<close>

definition gen_defaults :: "nat \<Rightarrow> nat \<Rightarrow> dns_gen \<Rightarrow> dns_gen" where
  "gen_defaults r mode gen =
     (if mode = MODE_QUERY then gen\<lparr>gn_dns_flags := DNS_FLAGS_RD, gn_dns_class := 1\<rparr>
      else if mode = MODE_RESP then gen\<lparr>gn_dns_class := 1\<rparr>
      else if mode = MODE_FUZZ then gen\<lparr>gn_id := of_nat (r mod 65536)\<rparr> else gen)"

definition gen_final :: "nat \<Rightarrow> dns_gen \<Rightarrow> int" where
  "gen_final mode gen =
     (if mode = MODE_QUERY then
        (if gn_dns_name gen ! 0 = 0 \<or> gn_server gen = None \<or> gn_dns_type gen = 0 then -1 else 0)
      else if mode = MODE_RESP then
        (if gn_dns_name gen ! 0 = 0 \<or> dns_cnt_rr (gn_msg gen) = 0 \<or> gn_output gen = None then -1 else 0)
      else if mode = MODE_FUZZ then
        (if gn_fuzz_type gen = 0 \<or> gn_server gen = None \<and> gn_output gen = None then -1 else 0)
      else 0)"

text \<open>\<open>Inl\<close>: the program has printed its usage and ended with \<open>exit(0)\<close>.\<close>

definition gen_parse_argv :: "strdup \<Rightarrow> byte list \<Rightarrow> nat \<Rightarrow> byte list list \<Rightarrow> dns_gen \<Rightarrow> (unit + int \<times> dns_gen) option" where
  "gen_parse_argv dup junk r argv gen =
     (if length argv < 2 \<or> argv ! 1 = str ''--help'' then Some (Inl ())
      else case cmd_mode_find (argv ! 1) gen_cmds of
        None \<Rightarrow> Some (Inr (-1, gen\<lparr>gn_cmd := None\<rparr>))
      | Some cmd \<Rightarrow>
          let gen = gen\<lparr>gn_cmd := Some cmd\<rparr>
          in if length argv = 2 then Some (Inl ())
             else do {
               let gen = gen_defaults r (cm_mode cmd) gen;
               (rc, gen) \<leftarrow> opts_loop (\<lambda>gen code q. gen_option dup junk gen code (the (ca_name q)) (ca_value q)) gen
                              (cmd_argv_start argv (cm_opts cmd) 2);
               if rc \<noteq> OPT_EOF then Some (Inr (rc, gen))
               else Some (Inr (gen_final (cm_mode cmd) gen, gen)) })"

text \<open>\<open>gen->cmd->run\<close>\<close>

definition gen_run :: "pcap_env \<Rightarrow> clock \<Rightarrow> bool \<Rightarrow> 'w net \<Rightarrow> 'w \<Rightarrow> dns_gen \<Rightarrow> int option" where
  "gen_run env mts fclose_ok net w gen = do {
     cmd \<leftarrow> gn_cmd gen;
     if cm_mode cmd = MODE_QUERY then do { (rc, t, w, gen) \<leftarrow> run_query net w gen; Some rc }
     else if cm_mode cmd = MODE_RESP then do { (rc, cf, gen) \<leftarrow> run_resp env mts fclose_ok gen; Some rc }
     else do { (rc, cf, t, w, gen) \<leftarrow> run_fuzz env mts fclose_ok net w gen; Some rc } }"

text \<open>The exit codes of \<open>main\<close>: 1 for the state, 2 for the arguments, 3 for the signals, 4 for the run.\<close>

definition gen_main :: "strdup \<Rightarrow> byte list \<Rightarrow> nat \<Rightarrow> bool \<Rightarrow> bool \<Rightarrow> (dns_gen \<Rightarrow> int option) \<Rightarrow> byte list list \<Rightarrow> int option" where
  "gen_main dup junk r malloc_ok signals_ok run argv =
     (if \<not> malloc_ok then Some 1
      else do {
        p \<leftarrow> gen_parse_argv dup junk r argv gen_create;
        case p of
          Inl _ \<Rightarrow> Some 0
        | Inr (rc, gen) \<Rightarrow>
            if rc \<noteq> 0 then Some 2
            else if \<not> signals_ok then Some 3
            else do { rc \<leftarrow> run gen; Some (if rc \<noteq> 0 then 4 else 0) } })"

text \<open>What \<open>gen_free\<close> gives back; \<open>pcap\<close> is the file that a failed write has left open. The server name is not freed.\<close>

datatype gen_release = Close_Socket int | Free_Output "byte list" | Close_Capture

definition gen_free :: "dns_gen \<Rightarrow> pcap_file option \<Rightarrow> gen_release list" where
  "gen_free gen pcap =
     (if gn_sock_fd gen \<noteq> -1 then [Close_Socket (gn_sock_fd gen)] else []) @
     (case gn_output gen of None \<Rightarrow> [] | Some f \<Rightarrow> [Free_Output f]) @
     (if pcap \<noteq> None then [Close_Capture] else [])"

text \<open>The apostrophes of the second example are characters with code 39.\<close>

definition gen_examples :: "string list" where
  "gen_examples = [
     ''query --name example.com --type A --server 8.8.8.8'',
     ''query --name example.com --type A --server 8.8.8.8 --flags '' @ [CHR 0x27] @ ''AD:0|CD:0|RD:1'' @ [CHR 0x27],
     ''query --name example.com --type MX --server 8.8.8.8 --tcp'',
     ''resp --id 0x1234 --name test.local --answer 192.168.1.1 --output packet.bin'',
     ''fuzz --type qd-cmploop --server 127.0.0.1'',
     ''fuzz --type qd-badjmp --output f.pcapng --pcapng'']"

text \<open>What \<open>gen_parse_argv\<close> prints before \<open>exit(0)\<close>\<close>

definition gen_usage :: "byte list \<Rightarrow> byte list" where
  "gen_usage prog = mode_usage (Some prog) gen_cmds gen_examples"

section \<open>Tables\<close>

interpretation query_table: option_table query_opts
  by unfold_locales (simp add: query_opts_def cmd_opt_of_def)

interpretation resp_table: option_table resp_opts
  by unfold_locales (simp add: resp_opts_def cmd_opt_of_def)

interpretation fuzz_table: option_table fuzz_opts
  by unfold_locales (simp add: fuzz_opts_def cmd_opt_of_def)

end
