(* ===== verification/Gen_Props.thy ===== *)
theory Gen_Props
  imports Dns_Gen Dns_Overflow Dns_Roundtrip
begin

text \<open>
  What \<open>dns-gen\<close> writes: checksums that a receiver accepts, frames that \<open>dns-insp\<close> takes for DNS, queries that decode to the
  question of the arguments, and fuzzed messages that the validator rejects.
\<close>

section \<open>The checksum\<close>

lemma fold_sum_nat: "unat (fold_sum tot) = (if tot = 0 then 0 else (unat tot - 1) mod 65535 + 1)"
proof (induction tot rule: fold_sum.induct)
  case (1 tot)
  show ?case
  proof (cases "drop_bit 16 tot = 0")
    case True
    then have "unat tot < 65536" by (simp only: drop16_zero)
    moreover have "fold_sum tot = tot" using True by (subst fold_sum.simps) simp
    moreover have "tot \<noteq> 0 \<Longrightarrow> 0 < unat tot" by (simp add: unat_gt_0)
    ultimately show ?thesis by (auto simp: mod_less)
  next
    case False
    let ?x = "unat tot" and ?y = "(tot AND 0xffff) + drop_bit 16 tot"
    have big: "65536 \<le> ?x" using False drop16_zero [of tot] by simp
    then have q: "0 < ?x div 65536" by (simp add: div_greater_zero_iff)
    have y: "unat ?y = ?x mod 65536 + ?x div 65536" by (rule unat_fold_step)
    then have ny: "?y \<noteq> 0" using q by (metis add_is_0 less_not_refl unat_0)
    have "?x - 1 = (unat ?y - 1) + 65535 * (?x div 65536)" using mult_div_mod_eq [of 65536 ?x] y q by linarith
    then have "(?x - 1) mod 65535 = (unat ?y - 1) mod 65535" by simp
    moreover have "fold_sum tot = fold_sum ?y" using False by (subst fold_sum.simps) simp
    moreover have "tot \<noteq> 0" using big by auto
    ultimately show ?thesis using "1.IH" [OF False] ny by simp
  qed
qed

lemma sum_be16: "sum_words (be16 v @ bs) tot = sum_words bs (tot + ucast v)"
  by (simp only: be16_def append_Cons append_Nil sum_words.simps be16_rebuild)

lemma ip_bytes_words:
  "ip_bytes len c = be16 0x4500 @ be16 (len + 8 + 20) @ be16 0 @ be16 0 @ be16 0xff11 @ be16 c @ be16 0 @ be16 0 @ be16 0 @ be16 0 @ []"
proof -
  have "replicate 4 (0 :: byte) = [0, 0, 0, 0]" by (simp add: numeral_eq_Suc)
  then show ?thesis by (simp add: ip_bytes_def be16_def IPPROTO_UDP_def)
qed

lemma sum_ip_bytes: "unat (sum_words (ip_bytes len c) 0) = 0x4500 + unat (len + 8 + 20) + 0xff11 + unat c"
proof -
  have "sum_words (ip_bytes len c) 0 = 0x4500 + ucast (len + 8 + 20) + 0xff11 + ucast c"
    unfolding ip_bytes_words by (simp only: sum_be16 sum_words.simps) simp
  moreover have "unat (ucast (len + 8 + 20) :: u32) = unat (len + 8 + 20)" "unat (ucast c :: u32) = unat c"
    by (simp_all add: Cbpf.unat_ucast_u16)
  ultimately show ?thesis
    using unat_u16_less [of "len + 8 + 20"] unat_u16_less [of c]
    by (simp add: unat_word_ariths)
qed

text \<open>A header with its checksum sums up to zero: what RFC 1071 asks of a receiver to check.\<close>

lemma ip_checksum_verifies: "ip_checksum (ip_bytes len (ip_checksum (ip_bytes len 0))) = 0"
proof -
  define n where "n = 0x4500 + unat (len + 8 + 20) + 0xff11"
  define f where "f = (n - 1) mod 65535 + 1"
  have f: "f \<le> 65535" "0 < n" using mod_less_divisor [of 65535 "n - 1"] by (simp_all add: f_def n_def Suc_leI)
  have not: "unat (NOT v) = 65535 - unat v" for v :: u16
  proof -
    have "NOT v = - 1 - v" by (simp add: not_eq_complement)
    then have "unat (NOT v) = unat (- 1 :: u16) - unat v" by (simp only: unat_sub [OF word_order.extremum])
    moreover have "unat (- 1 :: u16) = 65535" by (simp add: unsigned_minus_1_eq_mask mask_eq_exp_minus_1)
    ultimately show ?thesis by simp
  qed
  have sum: "unat (fold_sum (sum_words (ip_bytes len c) 0)) = (n + unat c - 1) mod 65535 + 1" for c
  proof -
    have "sum_words (ip_bytes len c) 0 \<noteq> 0" using sum_ip_bytes [of len c] by (metis add_is_0 unat_0 zero_neq_numeral)
    then show ?thesis using sum_ip_bytes [of len c] by (simp add: fold_sum_nat n_def)
  qed
  have low: "unat (ucast x :: u16) = unat x" if "unat x \<le> 65535" for x :: u32
    using that by (simp add: unsigned_ucast_eq take_bit_eq_mod)
  have "unat (fold_sum (sum_words (ip_bytes len c) 0)) \<le> 65535" for c
    unfolding sum using mod_less_divisor [of 65535 "n + unat c - 1"] by (simp add: Suc_leI)
  then have chk: "unat (ip_checksum (ip_bytes len c)) = 65535 - ((n + unat c - 1) mod 65535 + 1)" for c
    unfolding ip_checksum_def not by (subst low) (simp_all only: sum)
  have "unat (ip_checksum (ip_bytes len 0)) = 65535 - f" using chk [of 0] by (simp add: f_def)
  moreover have "(n + (65535 - f) - 1) mod 65535 = 65534"
  proof -
    obtain q r where qr: "n - 1 = 65535 * q + r" "r < 65535" "f = r + 1"
      using f_def mult_div_mod_eq [of 65535 "n - 1"] mod_less_divisor [of 65535 "n - 1"] by (metis zero_less_numeral)
    then have "n + (65535 - f) - 1 = 65534 + 65535 * q" using f(2) by linarith
    then show ?thesis by simp
  qed
  ultimately have "unat (ip_checksum (ip_bytes len (ip_checksum (ip_bytes len 0)))) = 0" by (simp add: chk)
  then show ?thesis by (simp only: unat_eq_zero)
qed

section \<open>Frames\<close>

definition frame_of :: "byte list \<Rightarrow> byte list" where
  "frame_of m = (let len = of_nat (length m) in eth_bytes @ ip_bytes len (ip_checksum (ip_bytes len 0)) @ udp_bytes len @ m)"

lemma length_headers [simp]: "length eth_bytes = 14" "length (ip_bytes l c) = 20" "length (udp_bytes l) = 8"
  by (simp_all add: eth_bytes_def ip_bytes_words udp_bytes_def be16_def)

lemma length_frame_of [simp]: "length (frame_of m) = 42 + length m"
  by (simp add: frame_of_def Let_def)

lemma frame_of_dns: "dns_frame (frame_of m) m"
proof -
  let ?l = "of_nat (length m) :: u16"
  let ?h = "ip_bytes ?l (ip_checksum (ip_bytes ?l 0))"
  have "\<not> is_vlan ETH_P_IP" by (simp add: is_vlan_def ETH_P_IP_def)
  then have "tagged (be16 ETH_P_IP @ ?h @ udp_bytes ?l @ m) ETH_P_IP (?h @ udp_bytes ?l @ m)" by (rule untagged)
  moreover have "ip4_header ?h" by (simp add: ip4_header_def) (simp add: ip_bytes_def low4_def high4_def be16_def)
  moreover have "udp53_header (udp_bytes ?l)" by (simp add: udp53_header_def) (simp add: udp_bytes_def be16_def)
  ultimately show ?thesis unfolding dns_frame_def frame_of_def Let_def eth_bytes_def
    by (intro exI [of _ "[0, 0, 0, 0, 0, 2] @ [0, 0, 0, 0, 0, 1]"] exI) auto
qed

lemma pcap_end_frame:
  assumes "length (gn_pkt_buf gen) = DNS_MAX_PDUSIZE" and "gn_pkt_len gen = ETHIPUDP_LEN + length m"
    and "take (length m) (drop ETHIPUDP_LEN (gn_pkt_buf gen)) = m" and "ETHIPUDP_LEN + length m \<le> DNS_MAX_PDUSIZE"
  shows "\<exists>b. pcap_end_pkt gen = Some (gen\<lparr>gn_pkt_buf := b\<rparr>) \<and> length b = DNS_MAX_PDUSIZE \<and> take (gn_pkt_len gen) b = frame_of m"
proof -
  let ?b = "gn_pkt_buf gen" and ?l = "of_nat (length m) :: u16"
  have len: "42 + length m \<le> length ?b" using assms by (simp add: ETHIPUDP_LEN_def)
  let ?c = "ip_checksum (ip_bytes ?l 0)"
  let ?b3 = "eth_bytes @ ip_bytes ?l ?c @ udp_bytes ?l @ drop 42 ?b"
  have b1: "mem_write ?b 34 (udp_bytes ?l) = Some (take 34 ?b @ udp_bytes ?l @ drop 42 ?b)" using len by (simp add: mem_write_SomeI)
  have b2: "mem_write (take 34 ?b @ udp_bytes ?l @ drop 42 ?b) 14 (ip_bytes ?l ?c) = Some (take 14 ?b @ ip_bytes ?l ?c @ udp_bytes ?l @ drop 42 ?b)"
    using len by (simp add: mem_write_SomeI)
  have b3: "mem_write (take 14 ?b @ ip_bytes ?l ?c @ udp_bytes ?l @ drop 42 ?b) 0 eth_bytes = Some ?b3"
    using len by (simp add: mem_write_SomeI)
  have "pcap_end_pkt gen = Some (gen\<lparr>gn_pkt_buf := ?b3\<rparr>)"
    using b1 b2 b3 assms(2) by (simp add: pcap_end_pkt_def ETHIPUDP_LEN_def Let_def)
  moreover have "take (gn_pkt_len gen) ?b3 = frame_of m"
    using assms(2,3) by (simp add: frame_of_def Let_def ETHIPUDP_LEN_def)
  ultimately show ?thesis using len assms(1) by (intro exI [of _ ?b3]) simp
qed

section \<open>Rejected queries\<close>

lemma wmsg_errs: "dns_wmsg dec s = Some (rc, dec') \<Longrightarrow> d_errs dec' = d_errs dec"
  by (auto simp: dns_wmsg_def Let_def split: Option.bind_splits if_splits)

lemma dec_err_errs: "dns_dec_err dec g f ec = (rc, dec') \<Longrightarrow> d_errs dec' \<noteq> []"
  by (auto simp: dns_dec_err_def DNS_MAX_EMSG_def split: if_splits)

lemma decode_name_keeps: "decode_name dec q n = Some (rc, dec') \<Longrightarrow> d_errs dec' = d_errs dec \<and> d_load_msg dec' = d_load_msg dec"
  by (auto simp: decode_name_def split: Option.bind_splits)

lemma qd_decode_errs:
  assumes "dns_qd_decode dec msg = Some (rc, dec', msg')" and "d_errs dec \<noteq> []"
  shows "d_errs dec' \<noteq> []"
  using assms
  by (auto simp: dns_qd_decode_def Let_def split: Option.bind_splits if_splits prod.splits
      dest!: decode_name_keeps dest: dec_err_errs wmsg_errs)

lemma qd_loop_errs: "qd_loop n i dec msg = Some (rc, dec', msg') \<Longrightarrow> d_errs dec \<noteq> [] \<Longrightarrow> d_errs dec' \<noteq> []"
proof (induction n arbitrary: i dec msg)
  case (Suc n)
  then show ?case by (auto split: Option.bind_splits if_splits prod.splits dest: dec_err_errs qd_decode_errs)
qed simp

text \<open>A question whose name is not in the wire format, or that the packet cuts off, leaves an error.\<close>

definition bad_name :: "byte list \<Rightarrow> nat \<Rightarrow> nat \<Rightarrow> bool" where
  "bad_name P L p \<longleftrightarrow> (\<nexists>e k t. wire_name P L p e k t)"

lemma qd_loop_bad:
  assumes "val_dec P L M dec" and "bad_name P L (d_offset dec)" and "0 < n" and "qd_loop n i dec msg = Some (rc, dec', msg')"
  shows "d_errs dec' \<noteq> []"
proof -
  obtain k where n: "n = Suc k" using assms(3) by (cases n) auto
  have d: "d_pkt_len dec \<le> length (d_pkt dec)" "0 + DNS_MSG_SIZE \<le> length (d_msg dec)" "d_pkt dec = P" "d_pkt_len dec = L" "\<not> d_load_msg dec"
    using assms(1) by (simp_all add: val_dec_def)
  obtain ec off buf where run: "decode_name dec (Some 0) DNS_MSG_SIZE = Some (ec, dec\<lparr>d_offset := off, d_msg := buf\<rparr>)" "ec < 0"
    by (rule decode_name_spec [OF d(1,2)]) (use assms(2) d in \<open>auto simp: bad_name_def dns_errors\<close>)
  obtain r d2 where q: "dns_qd_decode dec msg = Some (r, d2, msg)" "d_errs d2 \<noteq> []"
    using run d(5) dec_err_errs by (cases "dns_dec_err (dec\<lparr>d_offset := off, d_msg := buf\<rparr>) DNS_QD DNS_NAME ec") (simp add: dns_qd_decode_def)
  then show ?thesis using assms(4) n qd_loop_errs by (auto split: if_splits prod.splits dest: dec_err_errs)
qed

text \<open>The header of a packet is bad when its response code or, in a query, its operation code is unknown.\<close>

definition bad_flags :: "u16 \<Rightarrow> bool" where
  "bad_flags fl \<longleftrightarrow> (if flag_set fl DNS_FLAGS_QR then uint (fl AND DNS_FLAGS_RCODE) > 10 else hdr_opcode fl = 3 \<or> hdr_opcode fl > 5)"

lemma decode_hdr_bad:
  assumes "val_dec P L M dec" and "decode_hdr dec msg = Some (rc, dec', msg')"
    and "L < DNS_HDR_LEN \<or> (\<exists>fl. dec_u16 P 2 = Some fl \<and> bad_flags fl)"
  shows "d_errs dec' \<noteq> []"
proof -
  have d: "d_pkt dec = P" "d_pkt_len dec = L" "d_need_emsg dec" using assms(1) by (simp_all add: val_dec_def)
  show ?thesis
  proof (cases "L < DNS_HDR_LEN")
    case True
    then show ?thesis using assms(2) d
      by (auto simp: decode_hdr_def dns_hdr_decode_def DNS_EHDRLEN_def split: prod.splits dest: dec_err_errs)
  next
    case False
    then obtain fl where fl: "dec_u16 P 2 = Some fl" "bad_flags fl" using assms(3) by auto
    show ?thesis using assms(2) d False fl
      apply (auto simp: decode_hdr_def dns_hdr_decode_def desc_hdr_def Let_def bad_flags_def split: Option.bind_splits prod.splits if_splits dest!: wmsg_errs)
      using dec_err_errs surjective_pairing by metis+
  qed
qed

lemma decode_hdr_good:
  assumes "val_dec P L M dec" and "decode_hdr dec msg = Some (rc, dec', msg')" and "DNS_HDR_LEN \<le> L"
  shows "d_offset dec' = d_offset dec + 12"
  using assms by (auto simp: decode_hdr_def dns_hdr_decode_def desc_hdr_def val_dec_def Let_def DNS_HDR_LEN_def dns_dec_err_def
      dns_wmsg_def split: Option.bind_splits prod.splits if_splits)

definition reject_query :: "byte list \<Rightarrow> nat \<Rightarrow> bool" where
  "reject_query P L \<longleftrightarrow> L < DNS_HDR_LEN \<or>
     dec_u16 P 6 = Some 0 \<and> dec_u16 P 8 = Some 0 \<and> dec_u16 P 10 = Some 0 \<and>
     ((\<exists>fl. dec_u16 P 2 = Some fl \<and> bad_flags fl) \<or> (\<exists>c. dec_u16 P 4 = Some c \<and> c \<noteq> 0) \<and> bad_name P L 12)"

lemma decode_hdr_counts:
  assumes "val_dec P L M dec" and "decode_hdr dec (dns_msg_reset msg) = Some (rc, dec', msg')" and "reject_query P L"
  shows "an_count (m_hdr msg') = 0" "ns_count (m_hdr msg') = 0" "ar_count (m_hdr msg') = 0"
    "DNS_HDR_LEN \<le> L \<Longrightarrow> dec_u16 P 4 = Some (qd_count (m_hdr msg'))"
  using assms by (auto simp: decode_hdr_def dns_hdr_decode_def val_dec_def reject_query_def Let_def dns_msg_reset_def dns_hdr_reset_def DNS_EHDRLEN_def
      split: Option.bind_splits prod.splits if_splits)

lemma validate_rejects:
  assumes "len + 16 \<le> length buf" and "emsg \<noteq> []" and "reject_query buf len"
  shows "\<exists>sb. dns_validate buf len emsg = Some (-1, sb) \<and> emsg_ok (length emsg) sb"
proof -
  let ?d = "dec_init buf len True False (emsg[0 := 0])" and ?m = "dns_msg_reset zero_msg"
  have pl: "plain_records buf len" using assms(3) by (auto simp: reject_query_def plain_records_def)
  obtain rc dec msg sb where r: "decode_msg ?d zero_msg = Some (rc, dec, msg)"
      "dns_validate buf len emsg = Some (if d_errs dec = [] then rc else -1, sb)" "rc = 0 \<or> rc = -1" "emsg_ok (length emsg) sb"
    by (rule validate_run [OF assms(1,2) pl])
  have "0 \<in> set (emsg[0 := 0])" using assms(2) by (cases emsg) simp_all
  then have v: "val_dec buf len (length emsg) ?d" "d_offset ?d = 0"
    using assms(1,2) by (simp_all add: val_dec_def dec_init_def emsg_ok_def sbuf_init_def)
  obtain rc0 dec0 msg0 where h: "decode_hdr ?d ?m = Some (rc0, dec0, msg0)" "val_dec buf len (length emsg) dec0" "rc0 = 0 \<or> rc0 = -1"
    using decode_hdr_ok [OF v(1), of ?m] by (auto elim!: returnsE)
  note cnt = decode_hdr_counts [OF v(1) h(1) assms(3)]
  have j: "rc = -1 \<or> d_errs dec \<noteq> []"
  proof (cases "rc0 = 0")
    case False
    then show ?thesis using r(1) h by (simp add: decode_msg_def seq_rc_def)
  next
    case True
    have "unat (qd_count (m_hdr msg0)) + 0 < 70000" using unat_u16_less [of "qd_count (m_hdr msg0)"] by simp
    then obtain rc1 dec1 where q: "decode_qd dec0 msg0 = Some (rc1, dec1, msg0)" "rc1 = 0 \<or> rc1 = -1"
      using qd_loop_ok [OF h(2), of 0 "unat (qd_count (m_hdr msg0))" msg0] by (auto simp: decode_qd_def elim!: returnsE)
    have e1: "d_errs dec1 \<noteq> []"
    proof (cases "d_errs dec0 = []")
      case False
      then show ?thesis using q(1) qd_loop_errs by (auto simp: decode_qd_def)
    next
      case none: True
      then have "\<not> (len < DNS_HDR_LEN \<or> (\<exists>fl. dec_u16 buf 2 = Some fl \<and> bad_flags fl))" using decode_hdr_bad [OF v(1) h(1)] by blast
      then have L: "DNS_HDR_LEN \<le> len" "bad_name buf len 12" "qd_count (m_hdr msg0) \<noteq> 0"
        using assms(3) cnt(4) by (auto simp: reject_query_def not_less)
      have "d_offset dec0 = 12" using decode_hdr_good [OF v(1) h(1) L(1)] v(2) by simp
      then show ?thesis using qd_loop_bad [OF h(2), of "unat (qd_count (m_hdr msg0))" 0 msg0 rc1 dec1 msg0] L q(1)
        by (simp add: decode_qd_def unat_gt_0)
    qed
    have "rc = rc1 \<and> dec = dec1 \<or> size_check dec1 msg0 = Some (rc, dec, msg)"
      using r(1) h(1) True q cnt by (auto simp: decode_msg_def seq_rc_def decode_an_def decode_ns_def decode_ar_def dns_sect_decode_def)
    then show ?thesis using e1 by (auto simp: size_check_def split: if_splits Option.bind_splits dest: wmsg_errs)
  qed
  then show ?thesis using r by auto
qed

section \<open>The fuzzed messages\<close>

definition fuzz_bytes :: "u16 \<Rightarrow> u16 \<Rightarrow> byte list" where
  "fuzz_bytes t i =
     (if t = FUZZ_HDR_OPCODE then be16 i @ be16 0x3000 @ be16 0 @ be16 0 @ be16 0 @ be16 0
      else if t = FUZZ_HDR_RCODE then be16 i @ be16 0x800b @ be16 0 @ be16 0 @ be16 0 @ be16 0
      else if t = FUZZ_HDR_QDCNT then be16 i @ be16 0 @ be16 0xffff @ be16 0 @ be16 0 @ be16 0
      else be16 i @ be16 0 @ be16 1 @ be16 0 @ be16 0 @ be16 0 @
        bad_question (if t = FUZZ_QD_CMPLOOP then 0x0c else 0))"

lemma self_jump: "wire_name P L q e k t \<Longrightarrow> is_ptr (P ! p) \<Longrightarrow> ptr_target (P ! p) (P ! (p + 1)) = p \<Longrightarrow> q \<noteq> p"
  by (induction rule: wire_name.induct) (auto simp: is_ptr_def)

lemma low_jump: "wire_name P L p e k t \<Longrightarrow> is_ptr (P ! p) \<Longrightarrow> 12 \<le> ptr_target (P ! p) (P ! (p + 1))"
  by (erule wire_name.cases) (auto simp: is_ptr_def)

lemma dec_u16_be16: "dec_u16 (be16 v @ r) 0 = Some v"
  by (simp add: dec_u16_def mem_get_def be16_def be16_rebuild)

lemma dec_u16_tail: "length pre = n \<Longrightarrow> dec_u16 (pre @ r) (n + k) = dec_u16 r k"
  by (auto simp: dec_u16_def mem_get_def nth_append)

lemma fuzz_rejected:
  assumes "t \<in> {FUZZ_HDR_OPCODE, FUZZ_HDR_RCODE, FUZZ_HDR_QDCNT, FUZZ_QD_CMPLOOP, FUZZ_QD_BADJMP}"
  shows "reject_query (fuzz_bytes t i @ slack) (length (fuzz_bytes t i))"
proof -
  have u: "dec_u16 (be16 a @ be16 b @ be16 c @ be16 d @ be16 e @ be16 f @ r) 2 = Some b"
    "dec_u16 (be16 a @ be16 b @ be16 c @ be16 d @ be16 e @ be16 f @ r) 4 = Some c"
    "dec_u16 (be16 a @ be16 b @ be16 c @ be16 d @ be16 e @ be16 f @ r) 6 = Some d"
    "dec_u16 (be16 a @ be16 b @ be16 c @ be16 d @ be16 e @ be16 f @ r) 8 = Some e"
    "dec_u16 (be16 a @ be16 b @ be16 c @ be16 d @ be16 e @ be16 f @ r) 10 = Some f" for a b c d e f r
    by (simp_all add: dec_u16_def mem_get_def be16_def be16_rebuild)
  have flags: "bad_flags 0x3000" "bad_flags 0x800b"
    by (simp_all add: bad_flags_def flag_set_def hdr_opcode_def DNS_FLAGS_QR_def DNS_FLAGS_RCODE_def DNS_FLAGS_OPCODE_def)
  have ptr: "is_ptr 0xc0" "ptr_target 0xc0 0x0c = 12" "ptr_target 0xc0 0 = 0" by (simp_all add: is_ptr_def ptr_target_def)
  have q: "(be16 a @ be16 b @ be16 c @ be16 d @ be16 e @ be16 f @ bad_question j @ r) ! 12 = 0xc0"
    "(be16 a @ be16 b @ be16 c @ be16 d @ be16 e @ be16 f @ bad_question j @ r) ! 13 = j" for a b c d e f j r
    by (simp_all add: be16_def bad_question_def)
  have bad: "bad_name (be16 a @ be16 b @ be16 c @ be16 d @ be16 e @ be16 f @ bad_question j @ r) L 12" if "j \<in> {0x0c, 0}" for a b c d e f j r L
    unfolding bad_name_def using that self_jump [of _ L 12 _ _ _ 12] low_jump [of _ L 12] q [of a b c d e f j r] ptr
    by (auto simp del: append_assoc) fastforce+
  have short: "bad_name P 12 12" for P using wire_name_bound by (fastforce simp: bad_name_def)
  have "length (be16 v) = 2" for v by (simp add: be16_def)
  then show ?thesis
    using assms u flags bad short
    by (auto simp: fuzz_bytes_def fuzz_codes reject_query_def DNS_HDR_LEN_def)
qed

section \<open>From a frame to a file and back\<close>

lemma gen_file_read_back:
  assumes "ready_env env" and "pe_file env = Some (empty_stream lim)" and "length f + 90 \<le> lim"
    and "length (gn_pkt_buf gen) = DNS_MAX_PDUSIZE" and "gn_pkt_len gen \<le> DNS_MAX_PDUSIZE" and "take (gn_pkt_len gen) (gn_pkt_buf gen) = f"
    and "f \<noteq> []" and "reading fl'" and "length buf = PKT_MAXSIZE"
  shows "\<exists>file r. gen_pcap_file env mts True gen = Some (0, Some file) \<and>
    pcap_open (env\<lparr>pe_file := Some (file_stream (st_data (pf_fp file)))\<rparr>) fl' = Some r \<and>
    pcap_loop (Suc (Suc 0)) r buf PKT_MAXSIZE = Some [f]"
proof -
  let ?fl = "gen_flags gen"
  have fl: "writing ?fl" "\<not> fl_spb ?fl" by (simp_all add: writing_def gen_flags_def)
  have n: "length f = gn_pkt_len gen" "0 < gn_pkt_len gen" "length f \<le> PKT_MAXSIZE"
    using assms(4-7) by (auto simp: PKT_MAXSIZE_def DNS_MAX_PDUSIZE_def)
  have "cap_size ?fl [(mts, f)] \<le> lim" using assms(3) padn_less [of "length f"] by (simp add: cap_size_def gen_flags_def)
  then obtain w w' r where w: "pcap_open env ?fl = Some w" "pcap_write_all [(mts, f)] w = (0, w')"
      "pcap_open (env\<lparr>pe_file := Some (file_stream (st_data (pf_fp w')))\<rparr>) fl' = Some r"
      "pcap_loop (Suc (Suc 0)) r buf PKT_MAXSIZE = Some [f]"
    using written_read_back [OF assms(1) fl(1) assms(2) _ _ _ assms(8), of "[(mts, f)]" PKT_MAXSIZE buf] n fl(2) assms(7,9)
    by (auto simp: ng_shown_def PKT_MAXSIZE_def)
  have "pcap_write mts w f = (0, w')" using w(2) by (auto simp: wr_then_def split: prod.splits if_splits)
  moreover have "mem_read (gn_pkt_buf gen) 0 (gn_pkt_len gen) = Some f" using assms(4-6) by (simp add: mem_read_SomeI)
  ultimately have "gen_pcap_file env mts True gen = Some (0, Some w')" using w(1) by (simp add: gen_pcap_file_def pcap_close_def)
  then show ?thesis using w by blast
qed

lemma inspect_rejects:
  assumes "pcap_loop (Suc (Suc 0)) r buf PKT_MAXSIZE = Some [f]" and "length buf = PKT_MAXSIZE" and "length f + 16 \<le> PKT_MAXSIZE"
    and "dns_frame f m" and "in_emsg insp \<noteq> []" and "\<forall>slack. reject_query (m @ slack) (length m)"
  shows "\<exists>insp'. run_readpcap (insp\<lparr>in_pcap := Some r\<rparr>) buf = Some (-1, insp') \<and> in_rcv_pkts insp' = in_rcv_pkts insp + 1 \<and>
    in_dns_pkts insp' = in_dns_pkts insp + 1 \<and> in_dns_okay insp' = in_dns_okay insp \<and> in_dns_fail insp' = in_dns_fail insp + 1"
proof -
  have "PKT_MAXSIZE \<le> length buf" using assms(2) by simp
  then obtain n b r' where rd: "pcap_read r buf PKT_MAXSIZE = Some (n, b, r')" "length b = length buf" "n \<le> PKT_MAXSIZE"
    using pcap_read_returns by blast
  then have n: "0 < n" "take n b = f" using assms(1) by (auto split: Option.bind_splits if_splits)
  have lf: "length f = n" using n(2) rd assms(2) by auto
  have ge: "n \<le> length b" using rd assms(2) by simp
  have "length m \<le> length f" using assms(4) by (auto simp: dns_frame_def) (auto dest!: tagged_length)
  then have "length m + 16 \<le> length (m @ drop n b)" using assms(2,3) rd lf by simp
  then obtain sb where v: "dns_validate (m @ drop n b) (length m) (in_emsg insp) = Some (-1, sb)" "emsg_ok (length (in_emsg insp)) sb"
    using validate_rejects [OF _ assms(5)] assms(6) by blast
  obtain s where "cstr_at (sb_mem sb) 0 = Some s" using v(2) by (auto simp: emsg_ok_def cstr_at_def)
  then show ?thesis
    using rd n v process_pkt_spec [OF ge, of "insp\<lparr>in_pcap := Some r'\<rparr>"] assms(4)
    by (simp add: run_readpcap_def readpcap_loop.simps)
qed

section \<open>Fuzzing\<close>

lemma badmsg_bytes:
  assumes "gn_fuzz_type g \<in> {2, 3, 4, 5, 6}"
  shows "gen_enc_badmsg g = do {
    b \<leftarrow> mem_write (gn_pkt_buf g) (gn_pkt_len g) (fuzz_bytes (gn_fuzz_type g) (gn_id g));
    Some (0, g\<lparr>gn_tid_sent := gn_id g, gn_pkt_buf := b, gn_pkt_len := gn_pkt_len g + length (fuzz_bytes (gn_fuzz_type g) (gn_id g))\<rparr>) }"
proof -
  have "push_bit 11 6 = (0x3000 :: u16)" "DNS_FLAGS_QR OR 11 = 0x800b" by (simp_all add: DNS_FLAGS_QR_def)
  then show ?thesis
    using assms by (elim insertE emptyE)
      (simp_all add: gen_enc_badmsg_def gen_enc_badhdr_def hdr_net_def dns_hdr_reset_def fuzz_bytes_def fuzz_codes Let_def add.assoc)
qed

lemma enc_badmsg:
  assumes "length (gn_pkt_buf gen) = DNS_MAX_PDUSIZE" and "gn_fuzz_type gen \<in> {1, 2, 3, 4, 5, 6}"
  obtains gen' m where "gen_enc_badmsg (pcap_start_pkt gen) = Some (0, gen')" "length (gn_pkt_buf gen') = DNS_MAX_PDUSIZE"
    "gn_pkt_len gen' = ETHIPUDP_LEN + length m" "take (length m) (drop ETHIPUDP_LEN (gn_pkt_buf gen')) = m" "length m \<le> 18"
    "\<forall>slack. reject_query (m @ slack) (length m)"
proof -
  let ?t = "gn_fuzz_type gen" and ?b = "gn_pkt_buf gen" and ?g = "pcap_start_pkt gen"
  have b: "length ?b = 2048" using assms(1) by (simp add: DNS_MAX_PDUSIZE_def)
  show ?thesis
  proof (cases "?t = FUZZ_HDR_TRUNC")
    case True
    then show ?thesis using b
      by (intro that [of "?g\<lparr>gn_pkt_len := 52\<rparr>" "take 10 (drop 42 ?b)"])
        (simp_all add: gen_enc_badmsg_def pcap_start_pkt_def ETHIPUDP_LEN_def DNS_MAX_PDUSIZE_def reject_query_def DNS_HDR_LEN_def)
  next
    case False
    then have u: "?t \<in> {2, 3, 4, 5, 6}" using assms(2) by (auto simp: fuzz_codes)
    then have t: "?t \<in> {FUZZ_HDR_OPCODE, FUZZ_HDR_RCODE, FUZZ_HDR_QDCNT, FUZZ_QD_CMPLOOP, FUZZ_QD_BADJMP}" by (simp add: fuzz_codes)
    let ?m = "fuzz_bytes ?t (gn_id gen)"
    have l: "length ?m \<le> 18" by (simp add: fuzz_bytes_def be16_def bad_question_def)
    let ?b' = "take 42 ?b @ ?m @ drop (42 + length ?m) ?b"
    have w: "mem_write ?b 42 ?m = Some ?b'" using b l by (simp add: mem_write_SomeI)
    have "gen_enc_badmsg ?g = Some (0, ?g\<lparr>gn_tid_sent := gn_id gen, gn_pkt_buf := ?b', gn_pkt_len := 42 + length ?m\<rparr>)"
      using badmsg_bytes [of ?g] u w by (simp add: pcap_start_pkt_def ETHIPUDP_LEN_def)
    then show ?thesis using b l fuzz_rejected [OF t]
      by (intro that [of "?g\<lparr>gn_tid_sent := gn_id gen, gn_pkt_buf := ?b', gn_pkt_len := 42 + length ?m\<rparr>" ?m])
        (simp_all add: ETHIPUDP_LEN_def DNS_MAX_PDUSIZE_def)
  qed
qed

lemma fuzz_run_rejected:
  assumes "gn_fuzz_type gen \<in> {1, 2, 3, 4, 5, 6}" and "gn_output gen \<noteq> None" and "length (gn_pkt_buf gen) = DNS_MAX_PDUSIZE"
    and "ready_env env" and "pe_file env = Some (empty_stream lim)" and "150 \<le> lim"
    and "reading fl" and "length buf = PKT_MAXSIZE" and "in_emsg insp \<noteq> []"
  shows "\<exists>file gen' r insp'. run_fuzz env mts True net w gen = Some (0, Some file, [], w, gen') \<and>
    pcap_open (env\<lparr>pe_file := Some (file_stream (st_data (pf_fp file)))\<rparr>) fl = Some r \<and>
    run_readpcap (insp\<lparr>in_pcap := Some r\<rparr>) buf = Some (-1, insp') \<and> in_rcv_pkts insp' = in_rcv_pkts insp + 1 \<and>
    in_dns_pkts insp' = in_dns_pkts insp + 1 \<and> in_dns_okay insp' = in_dns_okay insp \<and> in_dns_fail insp' = in_dns_fail insp + 1"
proof -
  obtain g m where g: "gen_enc_badmsg (pcap_start_pkt gen) = Some (0, g)" "length (gn_pkt_buf g) = DNS_MAX_PDUSIZE"
    "gn_pkt_len g = ETHIPUDP_LEN + length m" "take (length m) (drop ETHIPUDP_LEN (gn_pkt_buf g)) = m" "length m \<le> 18"
    "\<forall>slack. reject_query (m @ slack) (length m)"
    by (rule enc_badmsg [OF assms(3,1)])
  have fit: "ETHIPUDP_LEN + length m \<le> DNS_MAX_PDUSIZE" using g(5) by (simp add: ETHIPUDP_LEN_def DNS_MAX_PDUSIZE_def)
  obtain b where b: "pcap_end_pkt g = Some (g\<lparr>gn_pkt_buf := b\<rparr>)" "length b = DNS_MAX_PDUSIZE" "take (gn_pkt_len g) b = frame_of m"
    using pcap_end_frame [OF g(2-4) fit] by blast
  have lf: "length (frame_of m) + 90 \<le> lim" "length (frame_of m) + 16 \<le> PKT_MAXSIZE" "frame_of m \<noteq> []"
    using g(5) assms(6) length_frame_of [of m] by (simp_all add: PKT_MAXSIZE_def del: length_frame_of) (metis length_frame_of list.size(3) add_is_0 zero_neq_numeral)
  obtain cf r where f: "gen_pcap_file env mts True (g\<lparr>gn_pkt_buf := b\<rparr>) = Some (0, Some cf)"
      "pcap_open (env\<lparr>pe_file := Some (file_stream (st_data (pf_fp cf)))\<rparr>) fl = Some r"
      "pcap_loop (Suc (Suc 0)) r buf PKT_MAXSIZE = Some [frame_of m]"
    using gen_file_read_back [OF assms(4,5) lf(1), of "g\<lparr>gn_pkt_buf := b\<rparr>" fl buf mts] b(2,3) g(3) fit lf(3) assms(7,8) by auto
  have "run_fuzz env mts True net w gen = Some (0, Some cf, [], w, g\<lparr>gn_pkt_buf := b\<rparr>)"
    using g(1) b(1) f(1) assms(2) by (simp add: run_fuzz_def fuzz_pcap_def)
  then show ?thesis using f(2) inspect_rejects [OF f(3) assms(8) lf(2) frame_of_dns assms(9) g(6)] by blast
qed

section \<open>Responses\<close>

definition response :: "dns_gen \<Rightarrow> dns_msg" where
  "response gen = (gn_msg gen)\<lparr>m_hdr := dns_hdr_init (m_hdr (gn_msg gen)) (gn_id gen) DNS_FLAGS_QR\<rparr>"

lemma start_response: "pcap_start_pkt (gen\<lparr>gn_msg := response gen\<rparr>) = gen\<lparr>gn_msg := response gen, gn_pkt_len := 42\<rparr>"
  by (simp add: pcap_start_pkt_def ETHIPUDP_LEN_def)


section \<open>Queries\<close>

lemma zero_msg_reset: "dns_msg_reset zero_msg = zero_msg"
  by (simp add: dns_msg_reset_def zero_msg_def)

text \<open>C21. \<open>gen_snd_query\<close> writes one packet to the socket: with TCP the length of the message and the message, otherwise the message
  alone. The message decodes to one question for the name, type and class of the arguments under the flags and the random
  id, which is remembered for the answer. The call succeeds when all bytes have been written.\<close>

theorem query_sent:
  assumes "gn_msg gen = zero_msg" and "length (gn_pkt_buf gen) = DNS_MAX_PDUSIZE" and "gn_pkt_len gen = 0"
    and "cstr_at (gn_dns_name gen) 0 = Some name" and "good_name name" and "length name \<le> 253" and "nt_rand net w = (r, w1)"
  shows "\<exists>pkt m part gen'. gen_snd_query net w gen =
      Some (if fst (nt_write net w1 (gn_sock_fd gen) pkt) = int (length pkt) then 0 else -1, snd (nt_write net w1 (gn_sock_fd gen) pkt), gen') \<and>
    pkt = (if gn_use_tcp gen then be16 (of_nat (length m)) else []) @ m \<and> m = take (length m) part \<and>
    gn_tid_sent gen' = of_nat (r mod 65536) \<and>
    (\<exists>msg' p. dns_msg_decode zero_msg part (length m) = Some (0, msg') \<and>
      m_hdr msg' = \<lparr>hd_id = gn_tid_sent gen', hd_flags = gn_dns_flags gen, qd_count = 1, an_count = 0, ns_count = 0, ar_count = 0\<rparr> \<and>
      m_qd_len msg' = 1 \<and> m_qd msg' = [\<lparr>qd_name = Some p, qd_type = gn_dns_type gen, qd_class = gn_dns_class gen\<rparr>] \<and> msg_str msg' p = Some name)"
proof -
  let ?b = "gn_pkt_buf gen" and ?i = "of_nat (r mod 65536) :: u16"
  define pre where "pre = (if gn_use_tcp gen then 2 else 0 :: nat)"
  have b: "length ?b = 2048" "pre \<le> 2" using assms(2) by (simp_all add: DNS_MAX_PDUSIZE_def pre_def)
  have z: "0 \<notin> set name" using assms(4) by (auto simp: cstr_at_def split: if_splits)
  have len: "271 \<le> 2048 - pre" "2048 - pre \<le> length (drop pre ?b)" "2048 - pre \<le> 0x4000" using b by simp_all
  obtain msg n part msg1 msg' p where q: "dns_add_qd (dns_msg_init zero_msg ?i (gn_dns_flags gen)) (Some name) (gn_dns_type gen) (gn_dns_class gen) = Some (0, msg)"
      "dns_msg_encode msg (drop pre ?b) (2048 - pre) = Some (int n, part, msg1)" "0 < n" "n \<le> 2048 - pre" "length part = 2048 - pre"
      "dns_msg_decode zero_msg part n = Some (0, msg')"
      "m_hdr msg' = \<lparr>hd_id = ?i, hd_flags = gn_dns_flags gen, qd_count = 1, an_count = 0, ns_count = 0, ar_count = 0\<rparr>"
      "m_qd_len msg' = 1" "m_qd msg' = [\<lparr>qd_name = Some p, qd_type = gn_dns_type gen, qd_class = gn_dns_class gen\<rparr>]" "msg_str msg' p = Some name"
    using query_returns [OF assms(5,6) z zero_shape zero_shape len, of ?i "gn_dns_flags gen" "gn_dns_type gen" "gn_dns_class gen"] b
    unfolding zero_msg_reset by auto
  let ?m = "take n part"
  have m: "length ?m = n" using q(4,5) by simp
  let ?g = "gen\<lparr>gn_tid_sent := ?i, gn_msg := msg\<rparr>"
  have set: "gen_set_query net w gen = Some (0, w1, ?g)"
    using assms(1,4,7) q(1) by (simp add: gen_set_query_def)
  obtain c where c: "gen_enc_dnsmsg ?g = Some (0, ?g\<lparr>gn_pkt_buf := c, gn_msg := msg1, gn_msg_len := n, gn_pkt_len := n + pre\<rparr>)"
      "take (n + pre) c = (if gn_use_tcp gen then be16 (of_nat n) else []) @ ?m" "length c = 2048"
  proof (cases "gn_use_tcp gen")
    case True
    let ?c = "be16 (of_nat n) @ part"
    have "enc_u16 (take 2 ?b @ part) 0 (of_nat n) = Some (2, ?c)"
      using b by (simp add: enc_u16_def mem_write_def be16_def numeral_2_eq_2)
    then show ?thesis using True q(2-5) assms(3) b
      by (intro that [of ?c]) (simp_all add: gen_enc_dnsmsg_def pre_def Let_def DNS_MAX_PDUSIZE_def be16_def numeral_2_eq_2)
  next
    case False
    then show ?thesis using q(2-5) assms(3) b
      by (intro that [of part]) (simp_all add: gen_enc_dnsmsg_def pre_def Let_def DNS_MAX_PDUSIZE_def)
  qed
  let ?pkt = "(if gn_use_tcp gen then be16 (of_nat n) else []) @ ?m" and ?g1 = "?g\<lparr>gn_pkt_buf := c, gn_msg := msg1, gn_msg_len := n, gn_pkt_len := n + pre\<rparr>"
  have lp: "length ?pkt = n + pre" using m by (simp add: pre_def be16_def)
  have "mem_read c 0 (n + pre) = Some ?pkt" using c(2,3) q(4) b(2) by (simp add: mem_read_SomeI)
  then have "gen_snd_query net w gen =
      Some (if fst (nt_write net w1 (gn_sock_fd gen) ?pkt) = int (length ?pkt) then 0 else -1, snd (nt_write net w1 (gn_sock_fd gen) ?pkt), ?g1)"
    using set c(1) lp by (simp add: gen_snd_query_def gen_snd_dnspkt_def case_prod_unfold Let_def)
  then show ?thesis using q m by (intro exI [of _ ?pkt] exI [of _ ?m] exI [of _ part] exI [of _ ?g1]) auto
qed

section \<open>Fuzzing from the command line\<close>

lemma fuzz_type_range: "set_type_str get_fuzz_type v = Some t \<Longrightarrow> t \<in> {1, 2, 3, 4, 5, 6}"
  by (auto simp: set_type_str_def get_fuzz_type_def Let_def split: if_splits)

text \<open>\<open>dns-gen fuzz --type T --output F\<close>\<close>

lemma fuzz_args:
  assumes "set_type_str get_fuzz_type v = Some t" and "\<not> str_startswith v 45" and "\<not> str_startswith f 45" and "dup f = Some f"
  shows "\<exists>gen. gen_parse_argv dup junk r [prog, str ''fuzz'', str ''--type'', v, str ''--output'', f] gen_create = Some (Inr (0, gen)) \<and>
    gn_fuzz_type gen = t \<and> gn_output gen = Some f \<and> gn_id gen = of_nat (r mod 65536) \<and> gn_pkt_buf gen = replicate DNS_MAX_PDUSIZE 0"
proof -
  have t: "t \<noteq> 0" using fuzz_type_range [OF assms(1)] by auto
  let ?argv = "[prog, str ''fuzz'', str ''--type'', v, str ''--output'', f]"
  let ?g = "gen_create\<lparr>gn_cmd := Some (gen_cmds ! 2), gn_id := of_nat (r mod 65536)\<rparr>"
  have m: "cmd_mode_find (str ''fuzz'') gen_cmds = Some (gen_cmds ! 2)" "cm_opts (gen_cmds ! 2) = fuzz_opts" "cm_mode (gen_cmds ! 2) = MODE_FUZZ"
    by (simp_all add: gen_cmds_def str_def)
  have p: "parse_args fuzz_opts [str ''--type'', v, str ''--output'', f] = ([(18, str ''--type'', Some v), (21, str ''--output'', Some f)], OPT_EOF)"
    using assms(2,3) by (simp add: fuzz_opts_def cmd_opt_of_def opt_result_def str_def)
  have l: "opts_loop (\<lambda>gen code q. gen_option dup junk gen code (the (ca_name q)) (ca_value q)) ?g (cmd_argv_start ?argv fuzz_opts 2) =
      Some (OPT_EOF, ?g\<lparr>gn_fuzz_type := t, gn_output := Some f\<rparr>)"
    using fuzz_table.loop_args [where h = "gen_option dup junk" and n = 1 and argv = ?argv and s = ?g] p assms(1,4)
    by (simp add: numeral_2_eq_2 gen_option_def set_code_def set_str_def str_setval_def)
  show ?thesis using m l t by (simp add: gen_parse_argv_def gen_defaults_def MODE_QUERY_def MODE_RESP_def MODE_FUZZ_def gen_final_def gen_create_def str_def)
qed

text \<open>C8. \<open>dns-gen fuzz --type T --output F\<close> and \<open>dns-insp\<close> fit: for each of the six types the options are accepted, the run writes
  a capture that can be opened again, and reading it finds one packet, takes it for DNS, rejects it and counts the failure,
  whatever the time, the transaction id and the rest of the inspector's state are.\<close>

theorem fuzz_file_rejected:
  assumes "set_type_str get_fuzz_type v = Some t" and "\<not> str_startswith v 45" and "\<not> str_startswith f 45" and "dup f = Some f"
    and "ready_env env" and "pe_file env = Some (empty_stream lim)" and "150 \<le> lim"
    and "reading fl" and "length buf = PKT_MAXSIZE" and "in_emsg insp \<noteq> []"
  shows "\<exists>gen file gen' rd insp'.
    gen_parse_argv dup junk r [prog, str ''fuzz'', str ''--type'', v, str ''--output'', f] gen_create = Some (Inr (0, gen)) \<and>
    run_fuzz env mts True net w gen = Some (0, Some file, [], w, gen') \<and>
    pcap_open (env\<lparr>pe_file := Some (file_stream (st_data (pf_fp file)))\<rparr>) fl = Some rd \<and>
    run_readpcap (insp\<lparr>in_pcap := Some rd\<rparr>) buf = Some (-1, insp') \<and> in_rcv_pkts insp' = in_rcv_pkts insp + 1 \<and>
    in_dns_pkts insp' = in_dns_pkts insp + 1 \<and> in_dns_okay insp' = in_dns_okay insp \<and> in_dns_fail insp' = in_dns_fail insp + 1"
proof -
  obtain gen where g: "gen_parse_argv dup junk r [prog, str ''fuzz'', str ''--type'', v, str ''--output'', f] gen_create = Some (Inr (0, gen))"
      "gn_fuzz_type gen = t" "gn_output gen = Some f" "gn_pkt_buf gen = replicate DNS_MAX_PDUSIZE 0"
    using fuzz_args [where dup = dup and f = f, OF assms(1-4)] by blast
  then show ?thesis using fuzz_run_rejected [OF _ _ _ assms(5-10), of gen mts net w] fuzz_type_range [OF assms(1)] by auto
qed

definition demo_socket :: "byte list net" where
  "demo_socket = \<lparr>nt_pton = (\<lambda>_. True), nt_socket = (\<lambda>w _. (3, w)), nt_connect = (\<lambda>w _ _. (True, w)), nt_timeo = (\<lambda>w _ _ _. (True, w)),
     nt_write = (\<lambda>w _ bs. (int (length bs), w @ bs)), nt_read = (\<lambda>w _ n. ((int (length (take n w)), take n w), drop n w)),
     nt_rand = (\<lambda>w. (7, w))\<rparr>"

theorem fuzz_file_rejected_witness:
  "\<exists>gen file gen' rd insp'.
    gen_parse_argv Some [] 9 [str ''dns-gen'', str ''fuzz'', str ''--type'', str ''qd-cmploop'', str ''--output'', str ''f''] gen_create = Some (Inr (0, gen)) \<and>
    run_fuzz (demo_env (empty_stream 4096)) (Some (200, 0)) True demo_socket [] gen = Some (0, Some file, [], [], gen') \<and>
    pcap_open ((demo_env (empty_stream 4096))\<lparr>pe_file := Some (file_stream (st_data (pf_fp file)))\<rparr>) demo_rd = Some rd \<and>
    run_readpcap ((demo_insp\<lparr>in_emsg := [0]\<rparr>)\<lparr>in_pcap := Some rd\<rparr>) (replicate PKT_MAXSIZE 0) = Some (-1, insp') \<and> in_rcv_pkts insp' = in_rcv_pkts (demo_insp\<lparr>in_emsg := [0]\<rparr>) + 1 \<and>
    in_dns_pkts insp' = in_dns_pkts (demo_insp\<lparr>in_emsg := [0]\<rparr>) + 1 \<and> in_dns_okay insp' = in_dns_okay (demo_insp\<lparr>in_emsg := [0]\<rparr>) \<and> in_dns_fail insp' = in_dns_fail (demo_insp\<lparr>in_emsg := [0]\<rparr>) + 1"
proof -
  have t: "set_type_str get_fuzz_type (str ''qd-cmploop'') = Some 5" "\<not> str_startswith (str ''qd-cmploop'') 45" "\<not> str_startswith (str ''f'') 45"
    by code_simp+
  show ?thesis by (rule fuzz_file_rejected [OF t, where lim = 4096]) (simp_all add: demo_defs)
qed

definition demo_resp :: dns_gen where
  "demo_resp = gen_create\<lparr>gn_id := 0x1234, gn_msg := zero_msg\<lparr>m_an_len := 1, m_an := [\<lparr>rr_name = None, rr_type = DNS_TYPE_A, rr_class = 1,
     rr_ttl = 60, rr_rdlen = 0, rr_rdata = RD_A [192, 168, 1, 1]\<rparr>]\<rparr>\<rparr>"


theorem query_sent_witness:
  "\<exists>pkt m part gen'. gen_snd_query demo_socket [] (gen_create\<lparr>gn_dns_name := str ''www.example.com'' @ [0], gn_use_tcp := True\<rparr>) =
      Some (0, pkt, gen') \<and>
    pkt = be16 (of_nat (length m)) @ m \<and> m = take (length m) part \<and> gn_tid_sent gen' = 7 \<and>
    (\<exists>msg' p. dns_msg_decode zero_msg part (length m) = Some (0, msg') \<and> m_qd_len msg' = 1 \<and> msg_str msg' p = Some (str ''www.example.com''))"
proof -
  let ?g = "gen_create\<lparr>gn_dns_name := str ''www.example.com'' @ [0], gn_use_tcp := True\<rparr>"
  have n: "good_name (str ''www.example.com'')" "cstr_at (str ''www.example.com'' @ [0]) 0 = Some (str ''www.example.com'')" by code_simp+
  have r: "nt_rand demo_socket [] = (7, [])" by (simp add: demo_socket_def)
  from query_sent [of ?g "str ''www.example.com''" demo_socket "[]" 7 "[]", OF _ _ _ _ n(1) _ r] n(2) show ?thesis
    by (simp add: gen_create_def) (simp add: demo_socket_def, blast)
qed

end
