(* ===== verification/Capture.thy ===== *)
theory Capture
  imports Xsk Dns_Overflow
begin

text \<open>
  Live capture in \<open>dns_insp.c\<close> from a packet socket (\<open>capture_raw\<close>) and from a memory-mapped ring (\<open>capture_mmap\<close>); the third way, AF_XDP, is
  \<open>Xsk\<close>.

  The answers of the kernel are data: the rounds of \<open>recvmmsg\<close>, and for the ring the turns of the loop, each with what the kernel has
  done to the ring before it. The lists end when a signal clears \<open>sig.run\<close>. Shown are that all frames are inspected, in order, and that a capture to a file is complete.
\<close>

section \<open>Capture from a packet socket\<close>

definition PKT_MAXRECV :: nat where "PKT_MAXRECV = 10"

text \<open>
  What \<open>recvmmsg\<close> answers: an interruption by a signal, another error, or up to \<open>PKT_MAXRECV\<close> frames. A frame comes with what
  the clock shows when it is saved.
\<close>

datatype recv = Interrupted | Failed | Received "(clock \<times> byte list) list"

text \<open>The kernel stores frame \<open>i\<close> into \<open>bufs[i]\<close>, cut at the length of the buffer, which is \<open>msg_len\<close> then.\<close>

definition msg_len :: "byte list \<Rightarrow> nat" where
  "msg_len p = min (length p) PKT_MAXSIZE"

fun store_msgs :: "nat \<Rightarrow> (clock \<times> byte list) list \<Rightarrow> byte list \<Rightarrow> byte list option" where
  "store_msgs i [] bufs = Some bufs"
| "store_msgs i ((c, p) # ms) bufs = do { bufs \<leftarrow> mem_write bufs (i * PKT_MAXSIZE) (take PKT_MAXSIZE p); store_msgs (i + 1) ms bufs }"

fun process_msgs :: "nat \<Rightarrow> (clock \<times> byte list) list \<Rightarrow> byte list \<Rightarrow> dns_insp \<Rightarrow> (int \<times> dns_insp) option" where
  "process_msgs i [] bufs insp = Some (0, insp)"
| "process_msgs i ((c, p) # ms) bufs insp = do {
     (rc, insp) \<leftarrow> insp_process_msg c insp (drop (i * PKT_MAXSIZE) bufs) (msg_len p);
     if rc \<noteq> 0 then Some (rc, insp) else process_msgs (i + 1) ms bufs insp }"

text \<open>The loop runs through the answers until \<open>sig.run\<close> is cleared, the end of the list. \<open>bufs\<close> are the ten buffers in a row.\<close>

fun capture_raw :: "recv list \<Rightarrow> dns_insp \<Rightarrow> byte list \<Rightarrow> (int \<times> dns_insp \<times> byte list) option" where
  "capture_raw [] insp bufs = Some (0, insp, bufs)"
| "capture_raw (Interrupted # rs) insp bufs = capture_raw rs insp bufs"
| "capture_raw (Failed # rs) insp bufs = Some (-1, insp, bufs)"
| "capture_raw (Received ms # rs) insp bufs = do {
     bufs \<leftarrow> store_msgs 0 ms bufs;
     (rc, insp) \<leftarrow> process_msgs 0 ms bufs insp;
     if rc \<noteq> 0 then Some (rc, insp, bufs) else capture_raw rs insp bufs }"

section \<open>Capture from a memory-mapped ring\<close>

definition BLOCK_SIZE :: nat where "BLOCK_SIZE = 4096 * 128"
definition BLOCK_NR :: nat where "BLOCK_NR = 100"

definition TP_STATUS_KERNEL :: u32 where "TP_STATUS_KERNEL = 0"
definition TP_STATUS_USER :: u32 where "TP_STATUS_USER = 1"

text \<open>Loads of fields from the ring\<close>

definition get32 :: "byte list \<Rightarrow> nat \<Rightarrow> u32 option" where
  "get32 m p = do { bs \<leftarrow> mem_read m p 4; Some (ld32 bs 0) }"

definition get16 :: "byte list \<Rightarrow> nat \<Rightarrow> u16 option" where
  "get16 m p = do { bs \<leftarrow> mem_read m p 2; Some (ld16 bs 0) }"

text \<open>
  The offsets in \<open>struct tpacket_block_desc\<close> (\<open>block_status\<close> 8, \<open>num_pkts\<close> 12, \<open>offset_to_first_pkt\<close> 16) and
  \<open>struct tpacket3_hdr\<close> (\<open>tp_next_offset\<close> 0, \<open>tp_len\<close> 16, \<open>tp_mac\<close> 24).
\<close>

fun block_loop :: "nat \<Rightarrow> nat \<Rightarrow> byte list \<Rightarrow> dns_insp \<Rightarrow> dns_insp option" where
  "block_loop 0 hdr mem insp = Some insp"
| "block_loop (Suc n) hdr mem insp = do {
     mac \<leftarrow> get16 mem (hdr + 24);
     len \<leftarrow> get32 mem (hdr + 16);
     (rc, insp) \<leftarrow> insp_process_pkt insp (drop (hdr + unat mac) mem) (unat len);
     nxt \<leftarrow> get32 mem hdr;
     block_loop n (hdr + unat nxt) mem insp }"

text \<open>
  A turn of the loop: what the kernel has done to the ring since the last turn, and what \<open>poll\<close> answers if it is called.
\<close>

datatype poll_answer = Poll_None | Poll_Error | Poll_Socket_Error | Poll_Readable

record turn =
  tn_kernel :: "byte list \<Rightarrow> byte list"
  tn_poll :: poll_answer

record mm_state =
  mm_ring :: "byte list"
  mm_ptr :: nat
  mm_insp :: dns_insp

definition next_block :: "nat \<Rightarrow> nat \<Rightarrow> nat" where
  "next_block len ptr = (if ptr + BLOCK_SIZE \<ge> len then 0 else ptr + BLOCK_SIZE)"

fun mmap_loop :: "turn list \<Rightarrow> mm_state \<Rightarrow> (int \<times> mm_state) option" where
  "mmap_loop [] s = Some (0, s)"
| "mmap_loop (t # ts) s0 =
     (let s = s0\<lparr>mm_ring := tn_kernel t (mm_ring s0)\<rparr>; bd = mm_ptr s; mem = mm_ring s
      in do {
        status \<leftarrow> get32 mem (bd + 8);
        if status AND TP_STATUS_USER = 0
        then (if tn_poll t = Poll_Error \<or> tn_poll t = Poll_Socket_Error then Some (0, s) else mmap_loop ts s)
        else do {
          first \<leftarrow> get32 mem (bd + 16);
          num \<leftarrow> get32 mem (bd + 12);
          insp \<leftarrow> block_loop (unat num) (bd + unat first) mem (mm_insp s);
          mem \<leftarrow> mem_write mem (bd + 8) (le32 TP_STATUS_KERNEL);
          mmap_loop ts (s\<lparr>mm_ring := mem, mm_insp := insp, mm_ptr := next_block (length mem) bd\<rparr>) } })"

definition capture_mmap :: "turn list \<Rightarrow> byte list \<Rightarrow> dns_insp \<Rightarrow> (int \<times> mm_state) option" where
  "capture_mmap ts umem insp = mmap_loop ts \<lparr>mm_ring = umem, mm_ptr = 0, mm_insp = insp\<rparr>"

section \<open>Frames one by one\<close>

text \<open>A view is memory with a frame in front, of which only the length is known to the program.\<close>

fun process_all :: "(byte list \<times> nat) list \<Rightarrow> dns_insp \<Rightarrow> dns_insp option" where
  "process_all [] insp = Some insp"
| "process_all ((m, n) # vs) insp = do { (rc, insp) \<leftarrow> insp_process_pkt insp m n; process_all vs insp }"

definition shows_frame :: "byte list \<times> nat \<Rightarrow> byte list \<Rightarrow> bool" where
  "shows_frame v f \<longleftrightarrow> take (snd v) (fst v) = f \<and> length f = snd v"

lemma process_all_append: "process_all (us @ vs) insp = do { insp \<leftarrow> process_all us insp; process_all vs insp }"
  by (induction us insp rule: process_all.induct) (auto simp: case_prod_unfold split: Option.bind_split)

text \<open>Frames whose DNS messages the validator is known to handle within memory.\<close>

definition plain_frame :: "byte list \<Rightarrow> bool" where
  "plain_frame f \<longleftrightarrow> (\<forall>m slack. dns_frame f m \<longrightarrow> plain_records (m @ slack) (length m))"

lemma dns_frame_short: "dns_frame f m \<Longrightarrow> length m \<le> length f"
  by (auto simp: dns_frame_def) (auto dest!: tagged_length)

text \<open>Counters after all frames\<close>

definition counted :: "byte list list \<Rightarrow> dns_insp \<Rightarrow> dns_insp \<Rightarrow> bool" where
  "counted fs insp insp' \<longleftrightarrow> in_rcv_pkts insp' = in_rcv_pkts insp + length fs \<and>
     in_dns_pkts insp' = in_dns_pkts insp + length (filter (\<lambda>f. \<exists>msg. dns_frame f msg) fs) \<and>
     length (in_emsg insp') = length (in_emsg insp) \<and> (insp_wf insp \<longrightarrow> insp_wf insp')"

lemma counted_Nil [simp]: "counted [] insp insp"
  by (simp add: counted_def)

lemma counted_append: "counted fs a b \<Longrightarrow> counted gs b c \<Longrightarrow> counted (fs @ gs) a c"
  by (auto simp: counted_def)

lemma counted_pcap [simp]: "counted fs (insp\<lparr>in_pcap := p\<rparr>) c = counted fs insp c" "counted fs c (insp\<lparr>in_pcap := p\<rparr>) = counted fs c insp"
  by (simp_all add: counted_def insp_wf_def)

lemma process_one:
  assumes "shows_frame (m, n) f" and "n + 16 \<le> length m" and "plain_frame f" and "in_emsg insp \<noteq> []"
  obtains rc insp' where "insp_process_pkt insp m n = Some (rc, insp')" "in_pcap insp' = in_pcap insp" "counted [f] insp insp'" "in_emsg insp' \<noteq> []"
proof -
  have n: "n \<le> length m" and f: "take n m = f" "length f = n" using assms(1,2) by (simp_all add: shows_frame_def)
  note spec = process_pkt_spec [OF n, of insp, unfolded f]
  show ?thesis
  proof (cases "\<exists>msg. dns_frame f msg")
    case False
    then show ?thesis using spec assms(4) by (intro that [of 0 "insp\<lparr>in_rcv_pkts := in_rcv_pkts insp + 1\<rparr>"]) (auto simp: counted_def insp_wf_def)
  next
    case True
    then obtain msg where msg: "dns_frame f msg" by blast
    have l: "length msg + 16 \<le> length (msg @ drop n m)" using assms(2) by simp
    have p: "plain_records (msg @ drop n m) (length msg)" using assms(3) msg by (simp add: plain_frame_def)
    obtain rc sb where v: "dns_validate (msg @ drop n m) (length msg) (in_emsg insp) = Some (rc, sb)" "emsg_ok (length (in_emsg insp)) sb"
      by (rule validate_run [OF l assms(4) p]) blast
    then obtain s where s: "cstr_at (sb_mem sb) 0 = Some s" by (auto simp: emsg_ok_def cstr_at_def)
    have len: "length (sb_mem sb) = length (in_emsg insp)" "sb_mem sb \<noteq> []" using v(2) by (auto simp: emsg_ok_def)
    show ?thesis
    proof (rule that)
      show "insp_process_pkt insp m n = Some (rc, insp\<lparr>in_rcv_pkts := in_rcv_pkts insp + 1, in_dns_pkts := in_dns_pkts insp + 1,
          in_dns_okay := in_dns_okay insp + (if rc < 0 then 0 else 1), in_dns_fail := in_dns_fail insp + (if rc < 0 then 1 else 0),
          in_emsg := sb_mem sb, in_stdout := in_stdout insp @ s\<rparr>)" using spec msg v(1) s by simp
    qed (use len True in \<open>auto simp: counted_def insp_wf_def\<close>)
  qed
qed

section \<open>The packet socket\<close>

definition received :: "recv list \<Rightarrow> (clock \<times> byte list) list" where
  "received rs = concat (map (\<lambda>r. case r of Received ms \<Rightarrow> ms | _ \<Rightarrow> []) rs)"

text \<open>The documented behaviour of \<open>recvmmsg\<close> on the ten buffers, for frames that leave 16 bytes of their buffer free.\<close>

definition recv_ok :: "recv \<Rightarrow> bool" where
  "recv_ok r \<longleftrightarrow> (case r of Interrupted \<Rightarrow> True | Failed \<Rightarrow> False
     | Received ms \<Rightarrow> length ms \<le> PKT_MAXRECV \<and> list_all (\<lambda>(c, p). length p + 16 \<le> PKT_MAXSIZE \<and> plain_frame p) ms)"

definition holds_msgs :: "nat \<Rightarrow> (clock \<times> byte list) list \<Rightarrow> byte list \<Rightarrow> bool" where
  "holds_msgs i ms bufs \<longleftrightarrow> length bufs = PKT_MAXRECV * PKT_MAXSIZE \<and>
     (\<forall>j<length ms. take (length (snd (ms ! j))) (drop ((i + j) * PKT_MAXSIZE) bufs) = snd (ms ! j))"

lemma store_msgs_ok:
  assumes "length bufs = PKT_MAXRECV * PKT_MAXSIZE" and "i + length ms \<le> PKT_MAXRECV" and "list_all (\<lambda>(c, p). length p \<le> PKT_MAXSIZE) ms"
  shows "\<exists>b. store_msgs i ms bufs = Some b \<and> holds_msgs i ms b \<and> take (i * PKT_MAXSIZE) b = take (i * PKT_MAXSIZE) bufs"
  using assms
proof (induction i ms bufs rule: store_msgs.induct)
  case (2 i c p ms bufs)
  let ?S = PKT_MAXSIZE
  have p: "take ?S p = p" "length p \<le> ?S" using "2.prems"(3) by simp_all
  have "(i + 1) * ?S \<le> PKT_MAXRECV * ?S" using "2.prems"(2) by (intro mult_right_mono) simp_all
  then have fit: "i * ?S + ?S \<le> length bufs" using "2.prems"(1) by simp
  then have fit1: "i * ?S + length p \<le> length bufs" using p(2) by linarith
  define b1 where "b1 = take (i * ?S) bufs @ p @ drop (i * ?S + length p) bufs"
  have w: "mem_write bufs (i * ?S) (take ?S p) = Some b1" using fit1 p(1) by (simp add: mem_write_SomeI b1_def)
  have l1: "length b1 = length bufs" using w by (rule mem_write_length)
  obtain b where b: "store_msgs (i + 1) ms b1 = Some b" "holds_msgs (i + 1) ms b" "take ((i + 1) * ?S) b = take ((i + 1) * ?S) b1"
    using "2.IH" [OF w] l1 "2.prems" by auto
  have k: "take (i * ?S) b = take (i * ?S) bufs"
  proof -
    have "take (i * ?S) b = take (i * ?S) (take ((i + 1) * ?S) b)" by (simp add: min_def)
    then show ?thesis unfolding b(3) using fit by (simp add: b1_def min_def)
  qed
  have "take (length p) (drop (i * ?S) b) = take (length p) (drop (i * ?S) (take ((i + 1) * ?S) b))"
    using p(2) by (simp add: drop_take min_def)
  also have "\<dots> = p" unfolding b(3) using p(2) fit by (simp add: drop_take b1_def min_def)
  finally have h: "take (length p) (drop (i * ?S) b) = p" .
  have "take (length (snd (((c, p) # ms) ! j))) (drop ((i + j) * ?S) b) = snd (((c, p) # ms) ! j)" if "j < length ((c, p) # ms)" for j
    using that h b(2) by (cases j) (simp_all add: holds_msgs_def)
  then have "holds_msgs i ((c, p) # ms) b" using b(2) by (simp add: holds_msgs_def)
  then show ?case using w b(1) k by simp
qed (simp add: holds_msgs_def)

lemma process_msgs_ok:
  assumes "holds_msgs i ms bufs" and "i + length ms \<le> PKT_MAXRECV" and "list_all (\<lambda>(c, p). length p + 16 \<le> PKT_MAXSIZE \<and> plain_frame p) ms"
    and "in_pcap insp = Some w" and "pcap_write_all ms w = (0, w')" and "in_emsg insp \<noteq> []"
  shows "\<exists>insp'. process_msgs i ms bufs insp = Some (0, insp') \<and> in_pcap insp' = Some w' \<and> counted (map snd ms) insp insp' \<and> in_emsg insp' \<noteq> []"
  using assms
proof (induction i ms bufs insp arbitrary: w rule: process_msgs.induct)
  case (2 i c p ms bufs insp)
  let ?S = PKT_MAXSIZE and ?m = "drop (i * PKT_MAXSIZE) bufs"
  have p: "length p + 16 \<le> ?S" "plain_frame p" "msg_len p = length p" using "2.prems"(3) by (simp_all add: msg_len_def)
  have "(i + 1) * ?S \<le> PKT_MAXRECV * ?S" using "2.prems"(2) by (intro mult_right_mono) simp_all
  then have fit: "length p + 16 \<le> length ?m" using p(1) "2.prems"(1) by (simp add: holds_msgs_def)
  have h: "take (length p) ?m = p" using "2.prems"(1) by (auto simp: holds_msgs_def dest!: spec [of _ 0])
  obtain w1 where w1: "pcap_write c w p = (0, w1)" "pcap_write_all ms w1 = (0, w')"
    using "2.prems"(5) by (auto simp: wr_then_def split: prod.splits if_splits)
  let ?i = "insp\<lparr>in_pcap := Some w1\<rparr>"
  have "shows_frame (?m, length p) p" using h by (simp add: shows_frame_def)
  moreover have "in_emsg ?i \<noteq> []" using "2.prems"(6) by simp
  ultimately obtain rc i2 where i2: "insp_process_pkt ?i ?m (length p) = Some (rc, i2)" "in_pcap i2 = Some w1" "counted [p] insp i2" "in_emsg i2 \<noteq> []"
    using process_one [OF _ fit p(2), of ?i] by (metis counted_pcap(1) dns_insp.select_convs(1) dns_insp.simps(8) dns_insp.surjective dns_insp.update_convs(1))
  have m: "insp_process_msg c insp ?m (length p) = Some (0, i2)"
    using i2(1) "2.prems"(4) w1(1) fit h by (simp add: insp_process_msg_def mem_read_SomeI)
  have "holds_msgs (i + 1) ms bufs" using "2.prems"(1) by (auto simp: holds_msgs_def dest!: spec [of _ "Suc _"])
  then obtain i3 where "process_msgs (i + 1) ms bufs i2 = Some (0, i3)" "in_pcap i3 = Some w'" "counted (map snd ms) i2 i3" "in_emsg i3 \<noteq> []"
    using "2.IH" [of "(0, i2)" 0 i2 w1] m p(3) "2.prems" w1 i2 by auto
  then show ?case using m p(3) counted_append [OF i2(3)] by fastforce
qed simp

lemma write_all_append: "pcap_write_all (ps @ qs) f = wr_then (pcap_write_all ps f) (pcap_write_all qs)"
  by (induction ps f rule: pcap_write_all.induct) (simp_all add: wr_then_assoc wr_then_def split: prod.splits)

lemma capture_raw_ok:
  assumes "list_all recv_ok rs" and "length bufs = PKT_MAXRECV * PKT_MAXSIZE"
    and "in_pcap insp = Some w" and "pcap_write_all (received rs) w = (0, w')" and "in_emsg insp \<noteq> []"
  shows "\<exists>insp' bufs'. capture_raw rs insp bufs = Some (0, insp', bufs') \<and> in_pcap insp' = Some w' \<and>
    counted (map snd (received rs)) insp insp' \<and> in_emsg insp' \<noteq> []"
  using assms
proof (induction rs insp bufs arbitrary: w rule: capture_raw.induct)
  case (4 ms rs insp bufs)
  have ms: "length ms \<le> PKT_MAXRECV" "list_all (\<lambda>(c, p). length p + 16 \<le> PKT_MAXSIZE \<and> plain_frame p) ms"
    using "4.prems"(1) by (simp_all add: recv_ok_def)
  then have "list_all (\<lambda>(c, p). length p \<le> PKT_MAXSIZE) ms" by (auto simp: list_all_iff)
  then obtain b where b: "store_msgs 0 ms bufs = Some b" "holds_msgs 0 ms b" using store_msgs_ok [OF "4.prems"(2), of 0 ms] ms by auto
  obtain w1 where w1: "pcap_write_all ms w = (0, w1)" "pcap_write_all (received rs) w1 = (0, w')"
    using "4.prems"(4) by (auto simp: received_def write_all_append wr_then_def split: prod.splits if_splits)
  obtain i1 where i1: "process_msgs 0 ms b insp = Some (0, i1)" "in_pcap i1 = Some w1" "counted (map snd ms) insp i1" "in_emsg i1 \<noteq> []"
    using process_msgs_ok [OF b(2) _ ms(2) "4.prems"(3) w1(1) "4.prems"(5)] ms(1) by auto
  have "length b = PKT_MAXRECV * PKT_MAXSIZE" using b(2) by (simp add: holds_msgs_def)
  then obtain i2 b2 where "capture_raw rs i1 b = Some (0, i2, b2)" "in_pcap i2 = Some w'" "counted (map snd (received rs)) i1 i2" "in_emsg i2 \<noteq> []"
    using "4.IH" [OF b(1), of "(0, i1)" 0 i1 w1] i1 w1(2) "4.prems"(1) by auto
  then show ?case using b(1) i1 counted_append [OF i1(3)] by (fastforce simp: received_def)
qed (simp_all add: received_def recv_ok_def)

section \<open>The memory-mapped ring\<close>

text \<open>
  What \<open>packet(7)\<close> and \<open>PACKET_MMAP\<close> document of a block that belongs to the program: its frames are chained by \<open>tp_next_offset\<close>,
  \<open>tp_len\<close> bytes each from \<open>tp_mac\<close> on, here with 16 bytes of the ring behind them.
\<close>

fun block_holds :: "byte list \<Rightarrow> nat \<Rightarrow> byte list list \<Rightarrow> bool" where
  "block_holds mem hdr [] \<longleftrightarrow> True"
| "block_holds mem hdr (f # fs) \<longleftrightarrow> (\<exists>mac nxt. get16 mem (hdr + 24) = Some mac \<and> get32 mem (hdr + 16) = Some (of_nat (length f)) \<and>
     length f < 2 ^ 32 \<and> hdr + unat mac + length f + 16 \<le> length mem \<and> take (length f) (drop (hdr + unat mac) mem) = f \<and>
     get32 mem hdr = Some nxt \<and> block_holds mem (hdr + unat nxt) fs)"

text \<open>The turns in which the kernel hands over these frames: a turn finds the current block still with the kernel, or filled.\<close>

inductive delivers :: "turn list \<Rightarrow> nat \<Rightarrow> byte list \<Rightarrow> byte list list \<Rightarrow> bool" where
  stopped: "delivers [] ptr mem []"
| waits: "get32 (tn_kernel t mem) (ptr + 8) = Some st \<Longrightarrow> st AND TP_STATUS_USER = 0 \<Longrightarrow> tn_poll t \<notin> {Poll_Error, Poll_Socket_Error} \<Longrightarrow>
    delivers ts ptr (tn_kernel t mem) fs \<Longrightarrow> delivers (t # ts) ptr mem fs"
| filled: "get32 (tn_kernel t mem) (ptr + 8) = Some st \<Longrightarrow> st AND TP_STATUS_USER \<noteq> 0 \<Longrightarrow>
    get32 (tn_kernel t mem) (ptr + 16) = Some first \<Longrightarrow> get32 (tn_kernel t mem) (ptr + 12) = Some (of_nat (length fs)) \<Longrightarrow> length fs < 2 ^ 32 \<Longrightarrow>
    block_holds (tn_kernel t mem) (ptr + unat first) fs \<Longrightarrow>
    mem_write (tn_kernel t mem) (ptr + 8) (le32 TP_STATUS_KERNEL) = Some mem' \<Longrightarrow>
    delivers ts (next_block (length mem') ptr) mem' gs \<Longrightarrow> delivers (t # ts) ptr mem (fs @ gs)"

inductive_cases delivers_turnE: "delivers (t # ts) ptr mem fs"

definition delivered :: "byte list list \<Rightarrow> dns_insp \<Rightarrow> dns_insp \<Rightarrow> bool" where
  "delivered fs insp insp' \<longleftrightarrow> (\<exists>vs. list_all2 shows_frame vs fs \<and> process_all vs insp = Some insp') \<and> counted fs insp insp' \<and> in_emsg insp' \<noteq> []"

lemma delivered_append: "delivered fs a b \<Longrightarrow> delivered gs b c \<Longrightarrow> delivered (fs @ gs) a c"
  unfolding delivered_def using counted_append process_all_append list_all2_appendI by (metis bind.bind_lunit)

lemma unat_of_len: "n < 2 ^ 32 \<Longrightarrow> unat (of_nat n :: u32) = n"
  by (simp add: unat_of_nat take_bit_nat_eq_self)

lemma block_loop_ok:
  assumes "block_holds mem hdr fs" and "list_all plain_frame fs" and "in_emsg insp \<noteq> []"
  shows "\<exists>insp'. block_loop (length fs) hdr mem insp = Some insp' \<and> delivered fs insp insp'"
  using assms
proof (induction fs arbitrary: hdr insp)
  case Nil
  then show ?case by (simp add: delivered_def exI [of _ "[]"])
next
  case (Cons f fs)
  obtain mac nxt where h: "get16 mem (hdr + 24) = Some mac" "get32 mem (hdr + 16) = Some (of_nat (length f))" "length f < 2 ^ 32"
      "hdr + unat mac + length f + 16 \<le> length mem" "take (length f) (drop (hdr + unat mac) mem) = f" "get32 mem hdr = Some nxt"
      "block_holds mem (hdr + unat nxt) fs" using Cons.prems(1) by auto
  let ?m = "drop (hdr + unat mac) mem"
  have v: "shows_frame (?m, length f) f" "length f + 16 \<le> length ?m" "plain_frame f"
    using h(4,5) Cons.prems(2) by (simp_all add: shows_frame_def)
  obtain rc i1 where i1: "insp_process_pkt insp ?m (length f) = Some (rc, i1)" "counted [f] insp i1" "in_emsg i1 \<noteq> []"
    by (rule process_one [OF v Cons.prems(3)])
  have d1: "delivered [f] insp i1" unfolding delivered_def using v(1) i1 by (auto intro!: exI [of _ "[(?m, length f)]"])
  obtain i2 where i2: "block_loop (length fs) (hdr + unat nxt) mem i1 = Some i2" "delivered fs i1 i2"
    using Cons.IH [OF h(7) _ i1(3)] Cons.prems(2) by auto
  show ?case using h i1(1) i2 delivered_append [OF d1 i2(2)] by (simp add: unat_of_len)
qed

lemma mmap_loop_ok:
  assumes "delivers ts ptr mem fs" and "list_all plain_frame fs" and "in_emsg insp \<noteq> []"
  shows "\<exists>s. mmap_loop ts \<lparr>mm_ring = mem, mm_ptr = ptr, mm_insp = insp\<rparr> = Some (0, s) \<and> delivered fs insp (mm_insp s)"
  using assms
proof (induction arbitrary: insp rule: delivers.induct)
  case (stopped ptr mem)
  then show ?case by (simp add: delivered_def exI [of _ "[]"])
next
  case (waits t mem ptr st ts fs)
  then show ?case by simp
next
  case (filled t mem ptr st first fs mem' ts gs)
  obtain i1 where i1: "block_loop (length fs) (ptr + unat first) (tn_kernel t mem) insp = Some i1" "delivered fs insp i1"
    using block_loop_ok [OF filled.hyps(6) _ filled.prems(2)] filled.prems(1) by auto
  have "in_emsg i1 \<noteq> []" using i1(2) by (simp add: delivered_def)
  then obtain s where s: "mmap_loop ts \<lparr>mm_ring = mem', mm_ptr = next_block (length mem') ptr, mm_insp = i1\<rparr> = Some (0, s)" "delivered gs i1 (mm_insp s)"
    using filled.IH filled.prems(1) by auto
  have "length mem' = length (tn_kernel t mem)" using filled.hyps(7) by (rule mem_write_length)
  then show ?case using filled.hyps i1(1) s delivered_append [OF i1(2) s(2)] by (auto simp: unat_of_len)
qed



lemma short_plain: "length f < 14 \<Longrightarrow> plain_frame f"
  by (auto simp: plain_frame_def dns_frame_def) (auto dest!: tagged_length)

text \<open>A ring with one block that holds one frame of three bytes.\<close>

definition demo_block :: "byte list" where
  "demo_block = replicate 8 0 @ [1, 0, 0, 0] @ [1, 0, 0, 0] @ [24, 0, 0, 0] @ replicate 4 0 @
     replicate 16 0 @ [3, 0, 0, 0] @ replicate 4 0 @ [28, 0, 0, 0] @ [1, 2, 3] @ replicate 45 0"



end
