(* ===== verification/Insp_Main.thy ===== *)
theory Insp_Main
  imports Capture Ebpf Cmd_Line
begin

text \<open>
  The program \<open>dns-insp\<close> around its loops: the set-up of sockets, rings, mirror and filter, the command line, \<open>insp_init\<close>, \<open>insp_free\<close> and
  \<open>main\<close> of \<open>dns_insp.c\<close>.

  System calls are values of a datatype, and the program keeps a log of its calls with the answers of the operating system, which is a function of the log. A step is a
  function from a state to a result and a state, None for an access outside memory or the use of an unset value. Log messages are left out, and so is what the verifier of the kernel writes to \<open>emsg\<close>.
\<close>

section \<open>System calls\<close>

text \<open>
  The system calls the program makes outside its capture loops, with the arguments that matter, and the log of calls and answers. The operating system is a
  function from the log and the next call to its answer. \<open>Command\<close> is the child that \<open>run_cmd\<close> starts; its answer is the wait status, -1 for an
  error of \<open>waitpid\<close>.
\<close>

datatype syscall =
    Socket string
  | Bind int string int
  | Setsockopt int string
  | Getsockopt int string
  | Mmap nat int nat
  | Munmap int nat
  | Close int
  | Map_Create nat
  | Map_Update int int int
  | Prog_Load "u64 list"
  | Send int "byte list"
  | Nametoindex "byte list"
  | Command nat "byte list list"

type_synonym syslog = "(syscall \<times> int) list"
type_synonym os = "syslog \<Rightarrow> syscall \<Rightarrow> int"

definition syscall :: "os \<Rightarrow> syscall \<Rightarrow> syslog \<Rightarrow> int \<times> syslog" where
  "syscall os c log = (os log c, log @ [(c, os log c)])"

text \<open>Calls in a row, up to the first result that is not zero.\<close>

type_synonym 's act = "'s \<Rightarrow> (int \<times> 's) option"

fun steps :: "'s act list \<Rightarrow> 's act" where
  "steps [] s = Some (0, s)"
| "steps (a # as) s = do { (rc, s) \<leftarrow> a s; if rc \<noteq> 0 then Some (rc, s) else steps as s }"

section \<open>State\<close>

definition MODE_CAPTURE :: nat where "MODE_CAPTURE = 1"
definition MODE_READPCAP :: nat where "MODE_READPCAP = 2"
definition MODE_TRACEPCAP :: nat where "MODE_TRACEPCAP = 3"

definition TYPE_RAW :: int where "TYPE_RAW = 1"
definition TYPE_MMAP :: int where "TYPE_MMAP = 2"
definition TYPE_XDP :: int where "TYPE_XDP = 3"

definition IFNAMSIZ :: nat where "IFNAMSIZ = 16"

text \<open>\<open>mb_mem\<close> is an address, 0 for NULL.\<close>

record membuf =
  mb_mem :: int
  mb_len :: nat

definition membuf_init :: "int \<Rightarrow> nat \<Rightarrow> membuf" where
  "membuf_init mem len = \<lparr>mb_mem = mem, mb_len = len\<rparr>"

text \<open>
  \<open>struct dns_insp\<close>: the part of the inspection (\<open>ap_insp\<close>) and the rest. \<open>ap_filter\<close> is the table \<open>bpf_filter\<close>, which is patched in place,
  \<open>ap_log_level\<close> the level of the logger.
\<close>

record insp_app =
  ap_cmd :: "cmd_mode option"
  ap_type :: int
  ap_filename :: "byte list option"
  ap_dev_name :: "byte list"
  ap_dev_index :: int
  ap_xdp_index :: int
  ap_sock_fd :: int
  ap_bpf_fd :: int
  ap_map_fd :: int
  ap_umem :: membuf
  ap_fill_ring :: membuf
  ap_rx_ring :: membuf
  ap_use_pcapng :: bool
  ap_use_mirror :: bool
  ap_insp :: dns_insp
  ap_filter :: "u64 list"
  ap_log_level :: int

definition insp_create :: insp_app where
  "insp_create = \<lparr>ap_cmd = None, ap_type = TYPE_RAW, ap_filename = None, ap_dev_name = replicate IFNAMSIZ 0, ap_dev_index = 0, ap_xdp_index = 0,
     ap_sock_fd = -1, ap_bpf_fd = -1, ap_map_fd = -1, ap_umem = membuf_init 0 0, ap_fill_ring = membuf_init 0 0, ap_rx_ring = membuf_init 0 0,
     ap_use_pcapng = False, ap_use_mirror = False,
     ap_insp = \<lparr>in_pcap = None, in_rcv_pkts = 0, in_dns_pkts = 0, in_dns_okay = 0, in_dns_fail = 0, in_emsg = replicate 4096 0, in_stdout = []\<rparr>,
     ap_filter = bpf_filter, ap_log_level = 3\<rparr>"

type_synonym app_state = "insp_app \<times> syslog"

text \<open>A call that must not give a bad result, and one whose result is kept.\<close>

definition check :: "os \<Rightarrow> (insp_app \<Rightarrow> syscall) \<Rightarrow> (int \<Rightarrow> bool) \<Rightarrow> app_state act" where
  "check os c bad = (\<lambda>(ia, log). let (r, log) = syscall os (c ia) log in Some (if bad r then -1 else 0, (ia, log)))"

definition keep :: "os \<Rightarrow> (insp_app \<Rightarrow> syscall) \<Rightarrow> (int \<Rightarrow> insp_app \<Rightarrow> insp_app) \<Rightarrow> (int \<Rightarrow> bool) \<Rightarrow> app_state act" where
  "keep os c put bad = (\<lambda>(ia, log). let (r, log) = syscall os (c ia) log in Some (if bad r then -1 else 0, (put r ia, log)))"

text \<open>\<open>mmap\<close>: the address is only kept when it is not \<open>MAP_FAILED\<close>.\<close>

definition map_mem :: "os \<Rightarrow> nat \<Rightarrow> (insp_app \<Rightarrow> int) \<Rightarrow> nat \<Rightarrow> (membuf \<Rightarrow> insp_app \<Rightarrow> insp_app) \<Rightarrow> app_state act" where
  "map_mem os len fd off put = (\<lambda>(ia, log). let (r, log) = syscall os (Mmap len (fd ia) off) log
     in Some (if r = -1 then (-1, (ia, log)) else (0, (put (membuf_init r len) ia, log))))"

section \<open>Setting up the packet socket and the ring\<close>

definition setup_raw :: "os \<Rightarrow> app_state act" where
  "setup_raw os = steps
     [keep os (\<lambda>_. Socket ''AF_PACKET'') (\<lambda>fd ia. ia\<lparr>ap_sock_fd := fd\<rparr>) (\<lambda>fd. fd = -1),
      check os (\<lambda>ia. Bind (ap_sock_fd ia) ''AF_PACKET'' (ap_dev_index ia)) (\<lambda>rc. rc \<noteq> 0),
      check os (\<lambda>ia. Setsockopt (ap_sock_fd ia) ''SO_ATTACH_FILTER'') (\<lambda>rc. rc \<noteq> 0),
      check os (\<lambda>ia. Setsockopt (ap_sock_fd ia) ''SO_RCVBUF'') (\<lambda>rc. False),
      check os (\<lambda>ia. Setsockopt (ap_sock_fd ia) ''PACKET_ADD_MEMBERSHIP'') (\<lambda>rc. rc < 0)]"

definition setup_mmap :: "os \<Rightarrow> app_state act" where
  "setup_mmap os = steps
     [keep os (\<lambda>_. Socket ''AF_PACKET'') (\<lambda>fd ia. ia\<lparr>ap_sock_fd := fd\<rparr>) (\<lambda>fd. fd = -1),
      check os (\<lambda>ia. Bind (ap_sock_fd ia) ''AF_PACKET'' (ap_dev_index ia)) (\<lambda>rc. rc \<noteq> 0),
      check os (\<lambda>ia. Setsockopt (ap_sock_fd ia) ''SO_ATTACH_FILTER'') (\<lambda>rc. rc \<noteq> 0),
      check os (\<lambda>ia. Setsockopt (ap_sock_fd ia) ''PACKET_VERSION'') (\<lambda>rc. rc \<noteq> 0),
      check os (\<lambda>ia. Setsockopt (ap_sock_fd ia) ''PACKET_RX_RING'') (\<lambda>rc. rc \<noteq> 0),
      map_mem os (BLOCK_SIZE * BLOCK_NR) ap_sock_fd 0 (\<lambda>b ia. ia\<lparr>ap_umem := b\<rparr>)]"

section \<open>Setting up the mirror\<close>

definition veth_tap :: string where "veth_tap = ''dns-insp-tap''"
definition veth_sink :: string where "veth_sink = ''dns-insp-sink''"

definition spawn_log :: "os \<Rightarrow> syslog spawn" where
  "spawn_log os = (\<lambda>log flags argv. let (r, log) = syscall os (Command flags argv) log in (Some r, log))"

text \<open>The device name as a C string; the arrays \<open>veth_tap\<close> and \<open>veth_sink\<close> are constant.\<close>

definition dev_str :: "insp_app \<Rightarrow> byte list" where
  "dev_str ia = cstr_of (ap_dev_name ia)"

text \<open>A command of the mirror with the text of its arguments; \<open>ok\<close> are the results that let the set-up go on.\<close>

definition mirror_cmd :: "os \<Rightarrow> (insp_app \<Rightarrow> byte list) \<Rightarrow> (int \<Rightarrow> bool) \<Rightarrow> (sbuf \<times> app_state) act" where
  "mirror_cmd os t ok = (\<lambda>(buf, ia, log). do {
     (rc, log, buf) \<leftarrow> run_cmd (spawn_log os) log buf (RUN_CAPS + RUN_NULL) (Some (t ia));
     Some (if ok rc then 0 else -1, (buf, ia, log)) })"

definition on_app :: "app_state act \<Rightarrow> (sbuf \<times> app_state) act" where
  "on_app a = (\<lambda>(buf, s). do { (rc, s) \<leftarrow> a s; Some (rc, (buf, s)) })"

definition use_mirror :: "app_state act" where
  "use_mirror = (\<lambda>(ia, log). Some (0, (ia\<lparr>ap_use_mirror := True\<rparr>, log)))"

definition mirror_add :: "byte list" where
  "mirror_add = str ''ip link add dns-insp-tap type veth peer name dns-insp-sink''"

definition mirror_del :: "byte list" where
  "mirror_del = str ''ip link del dns-insp-tap''"

definition clsact_del :: "insp_app \<Rightarrow> byte list" where
  "clsact_del ia = str ''tc qdisc del dev '' @ dev_str ia @ str '' clsact''"

definition tc_mirror :: "string \<Rightarrow> insp_app \<Rightarrow> byte list" where
  "tc_mirror dir ia = str ''tc filter add dev '' @ dev_str ia @ str '' '' @ str dir @ str '' matchall action mirred egress mirror dev dns-insp-tap''"

definition xdp_mirror_init :: "os \<Rightarrow> app_state act" where
  "xdp_mirror_init os = (\<lambda>s. do {
     (rc, buf, s) \<leftarrow> steps
       [mirror_cmd os (\<lambda>_. mirror_add) (\<lambda>rc. rc = 0 \<or> rc = 2),
        on_app use_mirror,
        on_app (keep os (\<lambda>_. Nametoindex (str veth_sink)) (\<lambda>i ia. ia\<lparr>ap_xdp_index := i\<rparr>) (\<lambda>i. i = 0)),
        mirror_cmd os (\<lambda>_. str ''ip link set dns-insp-tap up'') (\<lambda>rc. rc = 0),
        mirror_cmd os (\<lambda>_. str ''ip link set dns-insp-sink up'') (\<lambda>rc. rc = 0),
        mirror_cmd os clsact_del (\<lambda>rc. True),
        mirror_cmd os (\<lambda>ia. str ''tc qdisc add dev '' @ dev_str ia @ str '' clsact'') (\<lambda>rc. rc = 0),
        mirror_cmd os (tc_mirror ''ingress'') (\<lambda>rc. rc = 0),
        mirror_cmd os (tc_mirror ''egress'') (\<lambda>rc. rc = 0)] (sbuf_init (replicate 512 0), s);
     Some (rc, s) })"

definition xdp_mirror_deinit :: "os \<Rightarrow> app_state act" where
  "xdp_mirror_deinit os = (\<lambda>s. do {
     (rc, buf, s) \<leftarrow> steps [mirror_cmd os clsact_del (\<lambda>rc. True), mirror_cmd os (\<lambda>_. mirror_del) (\<lambda>rc. True)] (sbuf_init (replicate 256 0), s);
     Some (rc, s) })"

section \<open>Attaching the filter\<close>

text \<open>
  The netlink request: \<open>struct nlmsghdr\<close> (16 bytes), \<open>struct ifinfomsg\<close> (16 bytes) and 64 bytes for attributes, with the values of
  \<open>linux/rtnetlink.h\<close> and \<open>linux/if_link.h\<close>. The attribute \<open>IFLA_XDP\<close> at 32 holds two others, at 36 and 44.
\<close>

definition le_int :: "int \<Rightarrow> byte list" where
  "le_int v = le32 (word_of_int v)"

definition attach_req :: "int \<Rightarrow> int \<Rightarrow> byte list option" where
  "attach_req bpf_fd dev_index = do {
     let req = le32 32 @ le16 19 @ le16 5 @ replicate 8 0 @ [0, 0] @ replicate 2 0 @ le_int dev_index @ replicate 8 0 @ replicate 64 0;
     req \<leftarrow> mem_write req 34 (le16 (43 OR 0x8000));
     req \<leftarrow> mem_write req 38 (le16 1);
     req \<leftarrow> mem_write req 36 (le16 (4 + 4));
     req \<leftarrow> mem_write req 40 (le_int bpf_fd);
     let flg = 36 + 8;
     req \<leftarrow> mem_write req (flg + 2) (le16 3);
     req \<leftarrow> mem_write req flg (le16 (4 + 4));
     req \<leftarrow> mem_write req (flg + 4) (le32 2);
     let rta_len = flg + 8 - 32;
     req \<leftarrow> mem_write req 32 (le16 (of_nat rta_len));
     let nlmsg_len = 32 + rta_len;
     req \<leftarrow> mem_write req 0 (le32 (of_nat nlmsg_len));
     mem_read req 0 nlmsg_len }"

definition bpf_attach_dev :: "os \<Rightarrow> int \<Rightarrow> int \<Rightarrow> syslog \<Rightarrow> (int \<times> syslog) option" where
  "bpf_attach_dev os bpf_fd dev_index log =
     (let (fd, log) = syscall os (Socket ''AF_NETLINK'') log
      in if fd < 0 then Some (-1, log)
         else do {
           req \<leftarrow> attach_req bpf_fd dev_index;
           let (rc, log) = syscall os (Send fd req) log;
           let (_, log) = syscall os (Close fd) log;
           Some (rc, log) })"

definition xsk_map_create :: "nat \<Rightarrow> syscall" where
  "xsk_map_create maxq = Map_Create maxq"

definition xsk_map_update :: "int \<Rightarrow> int \<Rightarrow> int \<Rightarrow> syscall" where
  "xsk_map_update map_fd qid xsk_fd = Map_Update map_fd qid xsk_fd"

text \<open>\<open>fr\<close> and \<open>rx\<close>: the offsets of the descriptors that \<open>XDP_MMAP_OFFSETS\<close> reports. The page offsets are those of \<open>linux/if_xdp.h\<close>.\<close>

definition patch_filter_map :: "app_state act" where
  "patch_filter_map = (\<lambda>(ia, log). case bpf_patch_map (word_of_int (ap_map_fd ia)) (ap_filter ia) of
     (patched, bpf) \<Rightarrow> Some (if patched then 0 else -1, (ia\<lparr>ap_filter := bpf\<rparr>, log)))"

definition attach_filter :: "os \<Rightarrow> app_state act" where
  "attach_filter os = (\<lambda>(ia, log). do {
     (rc, log) \<leftarrow> bpf_attach_dev os (ap_bpf_fd ia) (ap_xdp_index ia) log;
     Some (if rc < 0 then -1 else 0, (ia, log)) })"

definition setup_xdp :: "os \<Rightarrow> nat \<Rightarrow> nat \<Rightarrow> app_state act" where
  "setup_xdp os fr rx = steps
     [xdp_mirror_init os,
      map_mem os (PKT_NUMSLOT * PKT_MAXSIZE) (\<lambda>_. -1) 0 (\<lambda>b ia. ia\<lparr>ap_umem := b\<rparr>),
      keep os (\<lambda>_. Socket ''AF_XDP'') (\<lambda>fd ia. ia\<lparr>ap_sock_fd := fd\<rparr>) (\<lambda>fd. fd = -1),
      check os (\<lambda>ia. Setsockopt (ap_sock_fd ia) ''XDP_UMEM_REG'') (\<lambda>rc. rc \<noteq> 0),
      check os (\<lambda>ia. Setsockopt (ap_sock_fd ia) ''XDP_UMEM_FILL_RING'') (\<lambda>rc. rc \<noteq> 0),
      check os (\<lambda>ia. Setsockopt (ap_sock_fd ia) ''XDP_RX_RING'') (\<lambda>rc. rc \<noteq> 0),
      check os (\<lambda>ia. Setsockopt (ap_sock_fd ia) ''XDP_UMEM_COMPLETION_RING'') (\<lambda>rc. rc \<noteq> 0),
      check os (\<lambda>ia. Getsockopt (ap_sock_fd ia) ''XDP_MMAP_OFFSETS'') (\<lambda>rc. rc \<noteq> 0),
      map_mem os (fr + PKT_NUMSLOT * 8) ap_sock_fd 0x100000000 (\<lambda>b ia. ia\<lparr>ap_fill_ring := b\<rparr>),
      map_mem os (rx + PKT_NUMSLOT * 16) ap_sock_fd 0 (\<lambda>b ia. ia\<lparr>ap_rx_ring := b\<rparr>),
      keep os (\<lambda>_. xsk_map_create 1) (\<lambda>fd ia. ia\<lparr>ap_map_fd := fd\<rparr>) (\<lambda>fd. fd = -1),
      patch_filter_map,
      keep os (\<lambda>ia. Prog_Load (ap_filter ia)) (\<lambda>fd ia. ia\<lparr>ap_bpf_fd := fd\<rparr>) (\<lambda>fd. fd = -1),
      attach_filter os,
      check os (\<lambda>ia. Bind (ap_sock_fd ia) ''AF_XDP'' (ap_xdp_index ia)) (\<lambda>rc. rc \<noteq> 0),
      check os (\<lambda>ia. xsk_map_update (ap_map_fd ia) 0 (ap_sock_fd ia)) (\<lambda>rc. rc \<noteq> 0)]"

section \<open>Command line of dns-insp\<close>

definition capt_opts :: "cmd_opt list" where
  "capt_opts = [
     cmd_opt_of ''--interface'' ''<name> network interface to listen on'' True 0,
     (cmd_opt_of ''--type'' ''<raw|mmap|xdp> capture method'' True 1)\<lparr>opt_def := Some ''raw''\<rparr>,
     cmd_opt_of ''--file'' ''<path> path to save captured packets'' True 2,
     (cmd_opt_of ''--log-level'' ''<level> logging level'' True 3)\<lparr>opt_def := Some ''3''\<rparr>,
     cmd_opt_of ''--pcapng'' ''use pcapng file fmt'' False 4]"

definition pcap_opts :: "cmd_opt list" where
  "pcap_opts = [cmd_opt_of ''--file'' ''<path> path to capture file to read'' True 2]"

definition insp_cmds :: "cmd_mode list" where
  "insp_cmds = [
     \<lparr>cm_mode = MODE_CAPTURE, cm_opts = capt_opts, cm_name = ''capture'', cm_desc = ''Capture DNS messages from a network interface''\<rparr>,
     \<lparr>cm_mode = MODE_READPCAP, cm_opts = pcap_opts, cm_name = ''readpcap'', cm_desc = ''Read DNS messages from a pcap file''\<rparr>,
     \<lparr>cm_mode = MODE_TRACEPCAP, cm_opts = pcap_opts, cm_name = ''tracepcap'', cm_desc = ''Read record/block info from a pcap file''\<rparr>]"

definition str_totype :: "byte list \<Rightarrow> int" where
  "str_totype s =
     (if strcaseeq s (str ''raw'') then TYPE_RAW else if strcaseeq s (str ''mmap'') then TYPE_MMAP
      else if strcaseeq s (str ''xdp'') then TYPE_XDP else 0)"

definition set_interface :: "os \<Rightarrow> byte list \<Rightarrow> app_state act" where
  "set_interface os dev_name = (\<lambda>(ia, log).
     if length dev_name \<ge> IFNAMSIZ then Some (-1, (ia, log))
     else do {
       b \<leftarrow> mem_write (ap_dev_name ia) 0 (dev_name @ [0]);
       keep os (\<lambda>ia. Nametoindex (dev_str ia)) (\<lambda>i ia. ia\<lparr>ap_dev_index := i\<rparr>) (\<lambda>i. i = 0) (ia\<lparr>ap_dev_name := b\<rparr>, log) })"

definition set_type :: "byte list \<Rightarrow> app_state act" where
  "set_type v = (\<lambda>(ia, log). let t = str_totype v in Some (if t = 0 then -1 else 0, (ia\<lparr>ap_type := t\<rparr>, log)))"

definition insp_option :: "strdup \<Rightarrow> os \<Rightarrow> app_state \<Rightarrow> int \<Rightarrow> byte list \<Rightarrow> byte list option \<Rightarrow> (int \<times> app_state) option" where
  "insp_option dup os s code name value =
     (if code = 4 then Some (code, ((fst s)\<lparr>ap_use_pcapng := True\<rparr>, snd s))
      else do {
        v \<leftarrow> value;
        if code = 0 then set_interface os v s
        else if code = 1 then set_type v s
        else if code = 2 then (case str_setval dup v of (rc, f) \<Rightarrow> Some (rc, ((fst s)\<lparr>ap_filename := f\<rparr>, snd s)))
        else if code = 3 then (case int_setval (ap_log_level (fst s)) v of (rc, n) \<Rightarrow> Some (rc, ((fst s)\<lparr>ap_log_level := n\<rparr>, snd s)))
        else Some (code, s) })"

definition insp_final :: "nat \<Rightarrow> insp_app \<Rightarrow> int" where
  "insp_final mode ia =
     (if mode = MODE_CAPTURE then (if ap_dev_name ia ! 0 = 0 then -1 else 0)
      else if mode = MODE_READPCAP \<or> mode = MODE_TRACEPCAP then (if ap_filename ia = None then -1 else 0)
      else 0)"

text \<open>\<open>Inl\<close>: the program has printed its usage and ended with \<open>exit(0)\<close>.\<close>

definition insp_parse_argv :: "strdup \<Rightarrow> os \<Rightarrow> byte list list \<Rightarrow> app_state \<Rightarrow> (unit + int \<times> app_state) option" where
  "insp_parse_argv dup os argv s =
     (if length argv < 2 \<or> argv ! 1 = str ''--help'' then Some (Inl ())
      else case cmd_mode_find (argv ! 1) insp_cmds of
        None \<Rightarrow> Some (Inr (-1, ((fst s)\<lparr>ap_cmd := None\<rparr>, snd s)))
      | Some cmd \<Rightarrow>
          let s = ((fst s)\<lparr>ap_cmd := Some cmd\<rparr>, snd s)
          in if length argv = 2 then Some (Inl ())
             else do {
               (rc, s) \<leftarrow> opts_loop (\<lambda>s code q. insp_option dup os s code (the (ca_name q)) (ca_value q)) s (cmd_argv_start argv (cm_opts cmd) 2);
               if rc \<noteq> OPT_EOF then Some (Inr (rc, s))
               else Some (Inr (insp_final (cm_mode cmd) (fst s), s)) })"

definition insp_examples :: "string list" where
  "insp_examples = [
     ''capture --interface eth0'',
     ''capture --interface eth0 --type mmap'',
     ''capture --interface eth0 --type xdp'',
     ''capture --interface eth0 --file dns.pcap'',
     ''capture --interface eth0 --file dns.pcapng --pcapng'',
     ''readpcap --file dns.pcap'',
     ''tracepcap --file dns.pcap'']"

text \<open>What \<open>insp_parse_argv\<close> prints before \<open>exit(0)\<close>\<close>

definition insp_usage :: "byte list \<Rightarrow> byte list" where
  "insp_usage prog = mode_usage (Some prog) insp_cmds insp_examples"

section \<open>Starting and ending\<close>

definition pcap_mode_flags :: "insp_app \<Rightarrow> nat \<Rightarrow> pcap_flags" where
  "pcap_mode_flags ia mode =
     \<lparr>fl_read = (mode = MODE_READPCAP \<or> mode = MODE_TRACEPCAP), fl_write = (mode = MODE_CAPTURE), fl_lg = False, fl_ng = ap_use_pcapng ia,
      fl_trace = (mode = MODE_TRACEPCAP), fl_spb = False\<rparr>"

definition open_pcap :: "pcap_env \<Rightarrow> nat \<Rightarrow> app_state act" where
  "open_pcap env mode = (\<lambda>(ia, log).
     let p = pcap_open env (pcap_mode_flags ia mode); ia = ia\<lparr>ap_insp := (ap_insp ia)\<lparr>in_pcap := p\<rparr>\<rparr>
     in Some (if p = None then -1 else 0, (ia, log)))"

text \<open>Without a file name \<open>rc\<close> has no value when the mode is not \<open>capture\<close>: None.\<close>

definition insp_init :: "os \<Rightarrow> nat \<Rightarrow> nat \<Rightarrow> pcap_env \<Rightarrow> app_state act" where
  "insp_init os fr rx env s0 = do {
     cmd \<leftarrow> ap_cmd (fst s0);
     (rc, s) \<leftarrow> (if ap_filename (fst s0) \<noteq> None then do { (rc, s) \<leftarrow> open_pcap env (cm_mode cmd) s0; Some (Some rc, s) } else Some (None, s0));
     if rc \<noteq> None \<and> rc \<noteq> Some 0 then Some (the rc, s)
     else if cm_mode cmd \<noteq> MODE_CAPTURE then do { rc \<leftarrow> rc; Some (rc, s) }
     else if ap_type (fst s) = TYPE_RAW then setup_raw os s
     else if ap_type (fst s) = TYPE_MMAP then setup_mmap os s
     else if ap_type (fst s) = TYPE_XDP then setup_xdp os fr rx s
     else Some (-1, s) }"

definition membuf_deinit :: "os \<Rightarrow> membuf \<Rightarrow> syslog \<Rightarrow> syslog" where
  "membuf_deinit os buf log = (if mb_mem buf \<noteq> 0 then snd (syscall os (Munmap (mb_mem buf) (mb_len buf)) log) else log)"

definition ring_deinit :: "os \<Rightarrow> membuf \<Rightarrow> syslog \<Rightarrow> syslog" where
  "ring_deinit os ring log = membuf_deinit os ring log"

definition close_fd :: "os \<Rightarrow> int \<Rightarrow> syslog \<Rightarrow> syslog" where
  "close_fd os fd log = (if fd \<noteq> -1 then snd (syscall os (Close fd) log) else log)"

text \<open>\<open>insp_free\<close>: the log is what is left of the state. Closing the capture file does not show in it.\<close>

definition insp_free :: "os \<Rightarrow> app_state \<Rightarrow> syslog option" where
  "insp_free os s = (case s of (ia, log) \<Rightarrow> do {
     log \<leftarrow> (if ap_bpf_fd ia \<noteq> -1
            then do { (rc, log) \<leftarrow> bpf_attach_dev os (-1) (ap_xdp_index ia) log; Some (close_fd os (ap_bpf_fd ia) log) }
            else Some log);
     let log = close_fd os (ap_map_fd ia) log;
     let log = membuf_deinit os (ap_umem ia) log;
     let log = ring_deinit os (ap_rx_ring ia) log;
     let log = ring_deinit os (ap_fill_ring ia) log;
     let log = close_fd os (ap_sock_fd ia) log;
     if ap_use_mirror ia then do { (rc, ia, log) \<leftarrow> xdp_mirror_deinit os (ia, log); Some log } else Some log })"

text \<open>
  \<open>run_capture\<close>, with the answers of the kernel to the capture that is selected: the rounds of \<open>recvmmsg\<close>, the turns of the ring, or a run of the
  two processes that share the XDP rings up to its end.
\<close>

inductive run_capture :: "int \<Rightarrow> dns_insp \<Rightarrow> int \<Rightarrow> dns_insp \<Rightarrow> bool" where
  raw: "capture_raw rs insp bufs = Some (rc, insp', bufs') \<Longrightarrow> run_capture TYPE_RAW insp rc insp'"
| mmap: "capture_mmap ts umem insp = Some (rc, s) \<Longrightarrow> run_capture TYPE_MMAP insp rc (mm_insp s)"
| xdp: "xdp_start insp umem fr rx = Some s \<Longrightarrow> xdp_run K s t \<Longrightarrow> xk_phase t = Ended \<Longrightarrow> run_capture TYPE_XDP insp 0 (xk_insp t)"
| none: "t \<notin> {TYPE_RAW, TYPE_MMAP, TYPE_XDP} \<Longrightarrow> run_capture t insp (-1) insp"

text \<open>
  \<open>main\<close> with the exit codes 1 for the state, 2 for the arguments, 3 for the signals, 4 for the set-up, 5 for the run. \<open>run\<close> is \<open>insp->cmd->run\<close>, which
  reads packets but opens and closes nothing.
\<close>

definition insp_main :: "strdup \<Rightarrow> os \<Rightarrow> nat \<Rightarrow> nat \<Rightarrow> pcap_env \<Rightarrow> bool \<Rightarrow> bool \<Rightarrow> (insp_app \<Rightarrow> int option) \<Rightarrow> byte list list \<Rightarrow> (int \<times> syslog) option" where
  "insp_main dup os fr rx env malloc_ok signals_ok run argv =
     (if \<not> malloc_ok then Some (1, [])
      else do {
        p \<leftarrow> insp_parse_argv dup os argv (insp_create, []);
        case p of
          Inl _ \<Rightarrow> Some (0, [])
        | Inr (rc, s) \<Rightarrow> do {
            (ec, s) \<leftarrow> (if rc \<noteq> 0 then Some (2, s)
                       else if \<not> signals_ok then Some (3, s)
                       else do {
                         (rc, s) \<leftarrow> insp_init os fr rx env s;
                         if rc \<noteq> 0 then Some (4, s)
                         else do { rc \<leftarrow> run (fst s); Some (if rc \<noteq> 0 then 5 else 0, s) } });
            log \<leftarrow> insp_free os s;
            Some (ec, log) } })"

interpretation capt_table: option_table capt_opts
  by unfold_locales (simp add: capt_opts_def cmd_opt_of_def)

interpretation pcap_table: option_table pcap_opts
  by unfold_locales (simp add: pcap_opts_def cmd_opt_of_def)

end
