(* ===== verification/Insp_Main_Props.thy ===== *)
theory Insp_Main_Props
  imports Insp_Main
begin

text \<open>
  What the set-up of \<open>dns-insp\<close> leaves behind: the books over the log of system calls (\<open>book\<close>), the rule for steps in a row (\<open>run_ok\<close>), and that after
  \<open>insp_free\<close> the books are empty on every path through \<open>main\<close>; and the netlink message that attaches the filter.
\<close>

section \<open>What the log leaves open\<close>

text \<open>
  The books over a log: the descriptors that are open, the memory that is mapped and whether the mirror device exists. Closing what is not open, or
  unmapping what is not mapped, is no entry: None.
\<close>

record books =
  bk_fds :: "int multiset"
  bk_maps :: "(int \<times> nat) multiset"
  bk_tap :: bool

fun book :: "books \<Rightarrow> syscall \<times> int \<Rightarrow> books option" where
  "book b (Socket d, r) = Some (if r = -1 then b else b\<lparr>bk_fds := add_mset r (bk_fds b)\<rparr>)"
| "book b (Map_Create n, r) = Some (if r = -1 then b else b\<lparr>bk_fds := add_mset r (bk_fds b)\<rparr>)"
| "book b (Prog_Load p, r) = Some (if r = -1 then b else b\<lparr>bk_fds := add_mset r (bk_fds b)\<rparr>)"
| "book b (Close fd, r) = (if fd \<in># bk_fds b then Some (b\<lparr>bk_fds := bk_fds b - {#fd#}\<rparr>) else None)"
| "book b (Mmap n fd off, r) = Some (if r = -1 then b else b\<lparr>bk_maps := add_mset (r, n) (bk_maps b)\<rparr>)"
| "book b (Munmap a n, r) = (if (a, n) \<in># bk_maps b then Some (b\<lparr>bk_maps := bk_maps b - {#(a, n)#}\<rparr>) else None)"
| "book b (Command fl argv, r) = Some (if argv = cmd_words mirror_add \<and> exit_code (Some r) = 0 then b\<lparr>bk_tap := True\<rparr>
     else if argv = cmd_words mirror_del then b\<lparr>bk_tap := False\<rparr> else b)"
| "book b (c, r) = Some b"

fun book_all :: "books \<Rightarrow> syslog \<Rightarrow> books option" where
  "book_all b [] = Some b"
| "book_all b (e # es) = do { b \<leftarrow> book b e; book_all b es }"

definition no_books :: books where
  "no_books = \<lparr>bk_fds = {#}, bk_maps = {#}, bk_tap = False\<rparr>"

definition holds :: "syslog \<Rightarrow> int multiset \<Rightarrow> (int \<times> nat) multiset \<Rightarrow> bool \<Rightarrow> bool" where
  "holds log F M t \<longleftrightarrow> book_all no_books log = Some \<lparr>bk_fds = F, bk_maps = M, bk_tap = t\<rparr>"

text \<open>What the manual pages promise: a call that gives a descriptor gives -1 or a number that is not negative, and \<open>mmap\<close> without an address never gives NULL.\<close>

definition os_contract :: "os \<Rightarrow> bool" where
  "os_contract os \<longleftrightarrow> (\<forall>log d. -1 \<le> os log (Socket d)) \<and> (\<forall>log n fd off. os log (Mmap n fd off) \<noteq> 0)"

lemma book_append: "book_all b (xs @ ys) = do { b \<leftarrow> book_all b xs; book_all b ys }"
  by (induction b xs rule: book_all.induct) (auto split: Option.bind_split)

lemma holds_snoc: "holds log F M t \<Longrightarrow> holds (log @ [e]) F' M' t' \<longleftrightarrow> book \<lparr>bk_fds = F, bk_maps = M, bk_tap = t\<rparr> e = Some \<lparr>bk_fds = F', bk_maps = M', bk_tap = t'\<rparr>"
  by (auto simp: holds_def book_append split: Option.bind_split)

definition fdm :: "int \<Rightarrow> int multiset" where
  "fdm fd = (if fd = -1 then {#} else {#fd#})"

definition mbm :: "membuf \<Rightarrow> (int \<times> nat) multiset" where
  "mbm b = (if mb_mem b = 0 then {#} else {#(mb_mem b, mb_len b)#})"

lemma holds_close: "holds log (fdm fd + F) M t \<Longrightarrow> holds (close_fd os fd log) F M t"
  by (auto simp: close_fd_def syscall_def fdm_def holds_snoc split: if_splits)

lemma holds_unmap: "holds log F (mbm b + M) t \<Longrightarrow> holds (membuf_deinit os b log) F M t"
  by (auto simp: membuf_deinit_def syscall_def mbm_def holds_snoc split: if_splits)

section \<open>The netlink request\<close>

lemma attach_req_bytes:
  "attach_req fd dev = Some (le32 52 @ le16 19 @ le16 5 @ replicate 8 0 @ replicate 4 0 @ le_int dev @ replicate 8 0 @
     (le16 20 @ le16 0x802b @ (le16 8 @ le16 1 @ le_int fd) @ (le16 8 @ le16 3 @ le32 2)))"
proof -
  have l: "\<exists>a b. le16 x = [a, b]" "\<exists>a b c d. le32 y = [a, b, c, d]" for x y by (simp_all add: le16_def le32_def be16_def be32_def)
  obtain d1 d2 d3 d4 where d: "le_int dev = [d1, d2, d3, d4]" using l(2) [of "word_of_int dev"] by (auto simp: le_int_def)
  obtain f1 f2 f3 f4 where f: "le_int fd = [f1, f2, f3, f4]" using l(2) [of "word_of_int fd"] by (auto simp: le_int_def)
  have r: "replicate 64 (0 :: byte) = [0, 0, 0, 0, 0, 0, 0, 0, 0, 0, 0, 0, 0, 0, 0, 0, 0, 0, 0, 0, 0, 0, 0, 0, 0, 0, 0, 0, 0, 0, 0, 0, 0, 0, 0, 0, 0, 0, 0, 0, 0, 0, 0, 0, 0, 0, 0, 0, 0, 0, 0, 0, 0, 0, 0, 0, 0, 0, 0, 0, 0, 0, 0, 0]" "replicate 8 (0 :: byte) = [0, 0, 0, 0, 0, 0, 0, 0]" "replicate 4 (0 :: byte) = [0, 0, 0, 0]"
    "replicate 2 (0 :: byte) = [0, 0]" by code_simp+
  have c: "le16 19 = [19, 0]" "le16 5 = [5, 0]" "le16 (43 OR 0x8000) = [0x2b, 0x80]" "le16 0x802b = [0x2b, 0x80]" "le16 1 = [1, 0]" "le16 8 = [8, 0]" "le16 (4 + 4) = [8, 0]" "le16 3 = [3, 0]"
    "le16 20 = [20, 0]" "le32 32 = [32, 0, 0, 0]" "le32 2 = [2, 0, 0, 0]" "le32 52 = [52, 0, 0, 0]" by code_simp+
  show ?thesis by (simp add: attach_req_def d f r c mem_write_def mem_read_def)
qed

lemma attach_holds:
  assumes "os_contract os" and "holds log F M t"
  obtains rc log' where "bpf_attach_dev os fd dev log = Some (rc, log')" "holds log' F M t"
proof -
  let ?fd = "os log (Socket ''AF_NETLINK'')"
  have fd: "-1 \<le> ?fd" using assms(1) by (simp add: os_contract_def)
  obtain req where req: "attach_req fd dev = Some req" using attach_req_bytes by blast
  have s: "holds (log @ [(Socket ''AF_NETLINK'', ?fd)]) (fdm ?fd + F) M t" using assms(2) by (simp add: holds_snoc fdm_def)
  have n: "holds (log @ [(c, r)]) F M t" if "holds log F M t" "\<exists>fd b. c = Send fd b" for log c r F
    using that by (auto simp: holds_snoc)
  show ?thesis
  proof (cases "?fd < 0")
    case True
    then have "?fd = -1" using fd by simp
    then show ?thesis using s by (intro that [of "-1" "log @ [(Socket ''AF_NETLINK'', ?fd)]"]) (simp_all add: bpf_attach_dev_def syscall_def fdm_def)
  next
    case False
    let ?l1 = "log @ [(Socket ''AF_NETLINK'', ?fd)]"
    let ?l2 = "?l1 @ [(Send ?fd req, os ?l1 (Send ?fd req))]"
    have "holds ?l2 (fdm ?fd + F) M t" using n [OF s] by blast
    then have "holds (?l2 @ [(Close ?fd, os ?l2 (Close ?fd))]) F M t" using False by (simp only: holds_snoc) (simp add: fdm_def)
    then show ?thesis using False req
      by (intro that [of "os ?l1 (Send ?fd req)" "?l2 @ [(Close ?fd, os ?l2 (Close ?fd))]"]) (simp_all add: bpf_attach_dev_def syscall_def)
  qed
qed

section \<open>Sequences of steps\<close>

definition run_ok :: "('s \<Rightarrow> bool) \<Rightarrow> 's act \<Rightarrow> ('s \<Rightarrow> bool) \<Rightarrow> ('s \<Rightarrow> bool) \<Rightarrow> bool" where
  "run_ok P a Q E \<longleftrightarrow> (\<forall>s. P s \<longrightarrow> (\<exists>rc s'. a s = Some (rc, s') \<and> (if rc = 0 then Q s' else E s')))"

lemma run_okI: "(\<And>s. P s \<Longrightarrow> \<exists>rc s'. a s = Some (rc, s') \<and> (if rc = 0 then Q s' else E s')) \<Longrightarrow> run_ok P a Q E"
  by (simp add: run_ok_def)

lemma run_okE: "run_ok P a Q E \<Longrightarrow> P s \<Longrightarrow> (\<And>rc s'. a s = Some (rc, s') \<Longrightarrow> (if rc = 0 then Q s' else E s') \<Longrightarrow> thesis) \<Longrightarrow> thesis"
  unfolding run_ok_def by blast

lemma run_nil: "run_ok P (steps []) P E"
  by (simp add: run_ok_def)

lemma run_cons: "run_ok P a Q E \<Longrightarrow> run_ok Q (steps as) R E \<Longrightarrow> run_ok P (steps (a # as)) R E"
proof (rule run_okI)
  fix s assume a: "run_ok P a Q E" and r: "run_ok Q (steps as) R E" and "P s"
  from a this(3) show "\<exists>rc s'. steps (a # as) s = Some (rc, s') \<and> (if rc = 0 then R s' else E s')"
  proof (rule run_okE)
    fix rc s' assume h: "a s = Some (rc, s')" "if rc = 0 then Q s' else E s'"
    show ?thesis
    proof (cases "rc = 0")
      case True
      then have "Q s'" using h(2) by simp
      with r show ?thesis by (rule run_okE) (use h(1) True in simp)
    qed (use h in simp)
  qed
qed

section \<open>The set-up and the books\<close>

definition dev_ok :: "insp_app \<Rightarrow> bool" where
  "dev_ok ia \<longleftrightarrow> length (ap_dev_name ia) = IFNAMSIZ \<and> length (dev_str ia) < IFNAMSIZ"

text \<open>The state owns what the books show as open. \<open>U\<close> are resources of which it owns none yet.\<close>

datatype res = Res_Sock | Res_Map | Res_Bpf | Res_Umem | Res_Rx | Res_Fill

fun unset :: "res \<Rightarrow> insp_app \<Rightarrow> bool" where
  "unset Res_Sock ia \<longleftrightarrow> ap_sock_fd ia = -1"
| "unset Res_Map ia \<longleftrightarrow> ap_map_fd ia = -1"
| "unset Res_Bpf ia \<longleftrightarrow> ap_bpf_fd ia = -1"
| "unset Res_Umem ia \<longleftrightarrow> mb_mem (ap_umem ia) = 0"
| "unset Res_Rx ia \<longleftrightarrow> mb_mem (ap_rx_ring ia) = 0"
| "unset Res_Fill ia \<longleftrightarrow> mb_mem (ap_fill_ring ia) = 0"

definition fds :: "insp_app \<Rightarrow> int multiset" where
  "fds ia = fdm (ap_bpf_fd ia) + (fdm (ap_map_fd ia) + fdm (ap_sock_fd ia))"

definition maps :: "insp_app \<Rightarrow> (int \<times> nat) multiset" where
  "maps ia = mbm (ap_umem ia) + (mbm (ap_rx_ring ia) + mbm (ap_fill_ring ia))"

definition owns :: "res set \<Rightarrow> app_state \<Rightarrow> bool" where
  "owns U s \<longleftrightarrow> dev_ok (fst s) \<and> (\<exists>t. holds (snd s) (fds (fst s)) (maps (fst s)) t \<and> (t \<longrightarrow> ap_use_mirror (fst s))) \<and> (\<forall>r\<in>U. unset r (fst s))"

abbreviation owned :: "app_state \<Rightarrow> bool" where
  "owned \<equiv> owns {}"

lemma owns_weaken: "owns U s \<Longrightarrow> V \<subseteq> U \<Longrightarrow> owns V s"
  by (auto simp: owns_def)

lemma owns_step:
  assumes "owns U (ia, log)" and "dev_ok ia \<Longrightarrow> dev_ok ia'" and "ap_use_mirror ia' = ap_use_mirror ia"
    and "\<And>t. holds log (fds ia) (maps ia) t \<Longrightarrow> holds log' (fds ia') (maps ia') t" and "\<And>r. r \<in> V \<Longrightarrow> unset r ia \<Longrightarrow> unset r ia'" and "V \<subseteq> U"
  shows "owns V (ia', log')"
  using assms unfolding owns_def fst_conv snd_conv by blast

lemma run_ownsI:
  assumes "\<And>ia log. owns U (ia, log) \<Longrightarrow> \<exists>rc s'. a (ia, log) = Some (rc, s') \<and> owns V s'"
  shows "run_ok (owns U) a (owns V) owned"
proof (rule run_okI)
  fix s assume "owns U s"
  then obtain rc s' where "a s = Some (rc, s')" "owns V s'" using assms by (cases s) blast
  then show "\<exists>rc s'. a s = Some (rc, s') \<and> (if rc = 0 then owns V s' else owned s')" using owns_weaken [of V s' "{}"] by auto
qed

text \<open>Calls that are no entry in the books.\<close>

definition neutral :: "syscall \<Rightarrow> bool" where
  "neutral c \<longleftrightarrow> (\<forall>b r. book b (c, r) = Some b)"

lemma neutral_calls [simp]: "neutral (Bind a b d)" "neutral (Setsockopt a f)" "neutral (Getsockopt a f)" "neutral (Map_Update a e g)" "neutral (Nametoindex n)"
  by (simp_all add: neutral_def)

lemma holds_neutral: "holds log F M t \<Longrightarrow> neutral c \<Longrightarrow> holds (log @ [(c, r)]) F M t"
  by (simp add: holds_snoc neutral_def)

lemma run_check:
  assumes "\<And>ia. neutral (c ia)"
  shows "run_ok (owns U) (check os c bad) (owns U) owned"
proof (rule run_ownsI)
  fix ia log assume "owns U (ia, log)"
  then have "owns U (ia, log @ [(c ia, r)])" for r by (rule owns_step) (auto intro: holds_neutral assms)
  then show "\<exists>rc s'. check os c bad (ia, log) = Some (rc, s') \<and> owns U s'" by (simp add: check_def syscall_def)
qed

text \<open>A call that fills the empty place of a resource.\<close>

lemma run_keep:
  assumes "res \<in> U" and "\<And>r ia. unset res ia \<Longrightarrow> maps (put r ia) = maps ia \<and> fds (put r ia) = fdm r + fds ia"
    and "\<And>r ia. dev_ok (put r ia) = dev_ok ia \<and> ap_use_mirror (put r ia) = ap_use_mirror ia"
    and "\<And>r ia q. q \<noteq> res \<Longrightarrow> unset q ia \<Longrightarrow> unset q (put r ia)"
    and "\<And>b r ia. book b (c ia, r) = Some (if r = -1 then b else b\<lparr>bk_fds := add_mset r (bk_fds b)\<rparr>)"
  shows "run_ok (owns U) (keep os c put bad) (owns (U - {res})) owned"
proof (rule run_ownsI)
  fix ia log assume o: "owns U (ia, log)"
  then have u: "unset res ia" using assms(1) by (simp add: owns_def)
  let ?r = "os log (c ia)"
  have h: "holds (log @ [(c ia, ?r)]) (fds (put ?r ia)) (maps (put ?r ia)) t" if "holds log (fds ia) (maps ia) t" for t
    using that assms(2) [OF u, of ?r] assms(5) by (simp add: holds_snoc fdm_def)
  have "owns (U - {res}) (put ?r ia, log @ [(c ia, ?r)])"
    by (rule owns_step [OF o]) (use assms(3,4) h in auto)
  then show "\<exists>rc s'. keep os c put bad (ia, log) = Some (rc, s') \<and> owns (U - {res}) s'" by (simp add: keep_def syscall_def)
qed

lemma run_sock: "Res_Sock \<in> U \<Longrightarrow>
    run_ok (owns U) (keep os (\<lambda>_. Socket d) (\<lambda>fd ia. ia\<lparr>ap_sock_fd := fd\<rparr>) bad) (owns (U - {Res_Sock})) owned"
  by (rule run_keep) (simp_all add: fds_def maps_def fdm_def dev_ok_def dev_str_def, case_tac q, simp_all)

lemma run_map_fd: "Res_Map \<in> U \<Longrightarrow>
    run_ok (owns U) (keep os (\<lambda>_. xsk_map_create n) (\<lambda>fd ia. ia\<lparr>ap_map_fd := fd\<rparr>) bad) (owns (U - {Res_Map})) owned"
  by (rule run_keep) (simp_all add: fds_def maps_def fdm_def dev_ok_def dev_str_def xsk_map_create_def, case_tac q, simp_all)

lemma run_bpf_fd: "Res_Bpf \<in> U \<Longrightarrow>
    run_ok (owns U) (keep os (\<lambda>ia. Prog_Load (p ia)) (\<lambda>fd ia. ia\<lparr>ap_bpf_fd := fd\<rparr>) bad) (owns (U - {Res_Bpf})) owned"
  by (rule run_keep) (simp_all add: fds_def maps_def fdm_def dev_ok_def dev_str_def, case_tac q, simp_all)

lemma run_map_mem:
  assumes "os_contract os" and "res \<in> U" and "\<And>b ia. unset res ia \<Longrightarrow> fds (put b ia) = fds ia \<and> maps (put b ia) = mbm b + maps ia"
    and "\<And>b ia. dev_ok (put b ia) = dev_ok ia \<and> ap_use_mirror (put b ia) = ap_use_mirror ia"
    and "\<And>b ia q. q \<noteq> res \<Longrightarrow> unset q ia \<Longrightarrow> unset q (put b ia)"
  shows "run_ok (owns U) (map_mem os n fd off put) (owns (U - {res})) owned"
proof (rule run_ownsI)
  fix ia log assume o: "owns U (ia, log)"
  then have u: "unset res ia" using assms(2) by (simp add: owns_def)
  let ?c = "Mmap n (fd ia) off" let ?r = "os log ?c" let ?b = "membuf_init ?r n"
  have r: "?r \<noteq> 0" using assms(1) by (simp add: os_contract_def)
  have h: "holds (log @ [(?c, ?r)]) (fds (put ?b ia)) (maps (put ?b ia)) t" if "holds log (fds ia) (maps ia) t" "?r \<noteq> -1" for t
    using that r assms(3) [OF u, of ?b] by (simp add: holds_snoc mbm_def membuf_init_def)
  show "\<exists>rc s'. map_mem os n fd off put (ia, log) = Some (rc, s') \<and> owns (U - {res}) s'"
  proof (cases "?r = -1")
    case True
    have "owns (U - {res}) (ia, log @ [(?c, ?r)])" by (rule owns_step [OF o]) (auto simp: True holds_snoc)
    then show ?thesis using True by (simp add: map_mem_def syscall_def)
  next
    case False
    have "owns (U - {res}) (put ?b ia, log @ [(?c, ?r)])" by (rule owns_step [OF o]) (use assms(4,5) h False in auto)
    then show ?thesis using False by (simp add: map_mem_def syscall_def)
  qed
qed

lemma run_umem: "os_contract os \<Longrightarrow> Res_Umem \<in> U \<Longrightarrow>
    run_ok (owns U) (map_mem os n fd off (\<lambda>b ia. ia\<lparr>ap_umem := b\<rparr>)) (owns (U - {Res_Umem})) owned"
  by (rule run_map_mem) (simp_all add: fds_def maps_def mbm_def dev_ok_def dev_str_def, case_tac q, simp_all)

lemma run_rx_ring: "os_contract os \<Longrightarrow> Res_Rx \<in> U \<Longrightarrow>
    run_ok (owns U) (map_mem os n fd off (\<lambda>b ia. ia\<lparr>ap_rx_ring := b\<rparr>)) (owns (U - {Res_Rx})) owned"
  by (rule run_map_mem) (simp_all add: fds_def maps_def mbm_def dev_ok_def dev_str_def, case_tac q, simp_all)

lemma run_fill_ring: "os_contract os \<Longrightarrow> Res_Fill \<in> U \<Longrightarrow>
    run_ok (owns U) (map_mem os n fd off (\<lambda>b ia. ia\<lparr>ap_fill_ring := b\<rparr>)) (owns (U - {Res_Fill})) owned"
  by (rule run_map_mem) (simp_all add: fds_def maps_def mbm_def dev_ok_def dev_str_def, case_tac q, simp_all)

text \<open>Changes of fields that name no resource.\<close>

lemma owns_plain:
  assumes "owns U (ia, log)" and "fds ia' = fds ia" and "maps ia' = maps ia" and "dev_ok ia \<Longrightarrow> dev_ok ia'" and "ap_use_mirror ia \<Longrightarrow> ap_use_mirror ia'"
    and "\<And>r. unset r ia' = unset r ia"
  shows "owns U (ia', log)"
  using assms by (auto simp: owns_def)

lemma run_patch: "run_ok (owns U) patch_filter_map (owns U) owned"
proof (rule run_ownsI)
  fix ia log assume o: "owns U (ia, log)"
  have "owns U (ia\<lparr>ap_filter := p\<rparr>, log)" for p
    by (rule owns_plain [OF o]) (simp_all add: fds_def maps_def dev_ok_def dev_str_def, case_tac r, simp_all)
  then show "\<exists>rc s'. patch_filter_map (ia, log) = Some (rc, s') \<and> owns U s'" by (simp add: patch_filter_map_def split: prod.splits)
qed

lemma run_attach:
  assumes "os_contract os"
  shows "run_ok (owns U) (attach_filter os) (owns U) owned"
proof (rule run_ownsI)
  fix ia log assume o: "owns U (ia, log)"
  then obtain t where h: "holds log (fds ia) (maps ia) t" "t \<longrightarrow> ap_use_mirror ia" by (auto simp: owns_def)
  obtain rc log' where "bpf_attach_dev os (ap_bpf_fd ia) (ap_xdp_index ia) log = Some (rc, log')" "holds log' (fds ia) (maps ia) t"
    by (rule attach_holds [OF assms h(1)])
  then show "\<exists>rc s'. attach_filter os (ia, log) = Some (rc, s') \<and> owns U s'"
    using o h(2) by (auto simp: owns_def attach_filter_def)
qed

section \<open>The mirror and the books\<close>

definition cmd_buf :: "sbuf \<Rightarrow> bool" where
  "cmd_buf buf \<longleftrightarrow> sb_pos buf = 0 \<and> 256 \<le> length (sb_mem buf)"

definition cmd_fits :: "byte list \<Rightarrow> bool" where
  "cmd_fits t \<longleftrightarrow> 0 \<notin> set t \<and> t \<noteq> [] \<and> length t < 256 \<and> count_list t 32 < 31"

lemma mirror_cmd_runs:
  assumes "cmd_buf buf" and "cmd_fits (t ia)"
  obtains buf' where "mirror_cmd os t ok (buf, ia, log) =
      Some (if ok (exit_code (Some (os log (Command 3 (cmd_words (t ia)))))) then 0 else -1,
        buf', ia, log @ [(Command 3 (cmd_words (t ia)), os log (Command 3 (cmd_words (t ia))))])" "cmd_buf buf'"
proof -
  have b: "length (t ia) < sbuf_rem buf" "sb_pos buf \<le> length (sb_mem buf)" using assms by (simp_all add: cmd_buf_def cmd_fits_def sbuf_rem_def)
  have w: "length (cmd_words (t ia)) < RUN_MAXARG" using cmd_words_length [of "t ia"] assms(2) by (simp add: cmd_fits_def RUN_MAXARG_def)
  have f: "0 \<notin> set (t ia)" "t ia \<noteq> []" using assms(2) by (simp_all add: cmd_fits_def)
  have flags: "RUN_CAPS + RUN_NULL = 3" by (simp add: RUN_CAPS_def RUN_NULL_def)
  obtain m where "run_cmd (spawn_log os) log buf 3 (Some (t ia)) =
      Some (exit_code (fst (spawn_log os log 3 (cmd_words (t ia)))), snd (spawn_log os log 3 (cmd_words (t ia))), buf\<lparr>sb_mem := m\<rparr>)" "length m = length (sb_mem buf)"
    using run_cmd_spec [OF f(1) b f(2) w, of "spawn_log os" log 3] by blast
  then show ?thesis using assms(1)
    by (intro that [of "buf\<lparr>sb_mem := m\<rparr>"]) (simp_all add: mirror_cmd_def spawn_log_def syscall_def cmd_buf_def flags)
qed

lemma dev_cmd_fits:
  assumes "dev_ok ia" and "0 \<notin> set a" and "0 \<notin> set b" and "a \<noteq> []" and "length a + length b < 200" and "count_list a 32 + count_list b 32 < 15"
  shows "cmd_fits (a @ dev_str ia @ b)"
proof -
  have "count_list (dev_str ia) 32 \<le> length (dev_str ia)" by (rule count_le_length)
  moreover have "0 \<notin> set (dev_str ia)" by (auto simp: dev_str_def cstr_of_def dest: set_takeWhileD)
  ultimately show ?thesis using assms by (simp add: cmd_fits_def dev_ok_def IFNAMSIZ_def)
qed

lemma mirror_texts:
  assumes "dev_ok ia"
  shows "cmd_fits (clsact_del ia)" "cmd_fits (str ''tc qdisc add dev '' @ dev_str ia @ str '' clsact'')"
    "cmd_fits (tc_mirror ''ingress'' ia)" "cmd_fits (tc_mirror ''egress'' ia)"
  unfolding clsact_del_def tc_mirror_def
  by (rule dev_cmd_fits [OF assms]; code_simp)+

lemma fixed_texts:
  "cmd_fits mirror_add" "cmd_fits mirror_del" "cmd_fits (str ''ip link set dns-insp-tap up'')" "cmd_fits (str ''ip link set dns-insp-sink up'')"
  by code_simp+

text \<open>A command that starts with another word than the two that create and remove the device.\<close>

definition other_cmd :: "byte list \<Rightarrow> bool" where
  "other_cmd t \<longleftrightarrow> cmd_words t \<noteq> cmd_words mirror_add \<and> cmd_words t \<noteq> cmd_words mirror_del"

lemma other_tc: "other_cmd (str ''tc '' @ u)"
proof -
  have "hd (cmd_words (str ''tc '' @ u)) = str ''tc''" by (subst cmd_words.simps) (simp add: str_def)
  moreover have "hd (cmd_words mirror_add) = str ''ip''" "hd (cmd_words mirror_del) = str ''ip''"
    by (subst cmd_words.simps, simp add: str_def mirror_add_def mirror_del_def)+
  moreover have "str ''tc'' \<noteq> str ''ip''" by code_simp
  ultimately show ?thesis by (metis other_cmd_def)
qed

section \<open>Set-up\<close>

definition mowns :: "res set \<Rightarrow> sbuf \<times> app_state \<Rightarrow> bool" where
  "mowns U s \<longleftrightarrow> cmd_buf (fst s) \<and> owns U (snd s)"

definition pending :: "res set \<Rightarrow> sbuf \<times> app_state \<Rightarrow> bool" where
  "pending U s \<longleftrightarrow> cmd_buf (fst s) \<and> (case snd s of (ia, log) \<Rightarrow> dev_ok ia \<and> (\<exists>t. holds log (fds ia) (maps ia) t) \<and> (\<forall>r\<in>U. unset r ia))"

lemma mowns_weaken: "mowns U s \<Longrightarrow> mowns {} s"
  by (auto simp: mowns_def owns_def)

lemma run_mirror:
  assumes "\<And>ia. dev_ok ia \<Longrightarrow> cmd_fits (t ia)" and "\<And>ia. other_cmd (t ia)"
  shows "run_ok (mowns U) (mirror_cmd os t ok) (mowns U) (mowns {})"
proof (rule run_okI)
  fix s assume s: "mowns U s"
  obtain buf ia log where st: "s = (buf, ia, log)" by (cases s)
  have o: "owns U (ia, log)" "cmd_buf buf" "dev_ok ia" using s by (auto simp: mowns_def st owns_def)
  obtain buf' where r: "mirror_cmd os t ok (buf, ia, log) =
      Some (if ok (exit_code (Some (os log (Command 3 (cmd_words (t ia)))))) then 0 else -1,
        buf', ia, log @ [(Command 3 (cmd_words (t ia)), os log (Command 3 (cmd_words (t ia))))])" "cmd_buf buf'"
    by (rule mirror_cmd_runs [where t = t and ia = ia, OF o(2) assms(1) [OF o(3)]])
  have "owns U (ia, log @ [(Command 3 (cmd_words (t ia)), os log (Command 3 (cmd_words (t ia))))])"
    by (rule owns_step [OF o(1)]) (use assms(2) [of ia] in \<open>auto simp: holds_snoc other_cmd_def\<close>)
  then have "mowns U (buf', ia, log @ [(Command 3 (cmd_words (t ia)), os log (Command 3 (cmd_words (t ia))))])" using r(2) by (simp add: mowns_def)
  then show "\<exists>rc s'. mirror_cmd os t ok s = Some (rc, s') \<and> (if rc = 0 then mowns U s' else mowns {} s')"
    using r(1) st mowns_weaken by auto
qed

lemma run_mirror_add: "run_ok (mowns U) (mirror_cmd os (\<lambda>_. mirror_add) (\<lambda>rc. rc = 0 \<or> rc = 2)) (pending U) (mowns {})"
proof (rule run_okI)
  fix s assume s: "mowns U s"
  obtain buf ia log where st: "s = (buf, ia, log)" by (cases s)
  obtain t where h: "holds log (fds ia) (maps ia) t" "t \<longrightarrow> ap_use_mirror ia" using s by (auto simp: mowns_def st owns_def)
  have o: "cmd_buf buf" "dev_ok ia" "\<forall>r\<in>U. unset r ia" using s by (auto simp: mowns_def st owns_def)
  let ?c = "Command 3 (cmd_words mirror_add)" let ?r = "os log ?c" let ?l = "log @ [(?c, ?r)]"
  obtain buf' where r: "mirror_cmd os (\<lambda>_. mirror_add) (\<lambda>rc. rc = 0 \<or> rc = 2) (buf, ia, log) =
      Some (if exit_code (Some ?r) = 0 \<or> exit_code (Some ?r) = 2 then 0 else -1, buf', ia, ?l)" "cmd_buf buf'"
    by (rule mirror_cmd_runs [where t = "\<lambda>_. mirror_add", OF o(1) fixed_texts(1)])
  have other: "cmd_words mirror_add \<noteq> cmd_words mirror_del" by code_simp
  have l: "holds ?l (fds ia) (maps ia) (t \<or> exit_code (Some ?r) = 0)" using h(1) other by (auto simp: holds_snoc)
  show "\<exists>rc s'. mirror_cmd os (\<lambda>_. mirror_add) (\<lambda>rc. rc = 0 \<or> rc = 2) s = Some (rc, s') \<and> (if rc = 0 then pending U s' else mowns {} s')"
  proof (cases "exit_code (Some ?r) = 0 \<or> exit_code (Some ?r) = 2")
    case True
    then show ?thesis using r st l o by (auto simp: pending_def)
  next
    case False
    then have "owned (ia, ?l)" using l h(2) o by (auto simp: owns_def)
    then show ?thesis using r st False by (auto simp: mowns_def)
  qed
qed

lemma run_use_mirror: "run_ok (pending U) (on_app use_mirror) (mowns U) (mowns {})"
proof (rule run_okI)
  fix s assume s: "pending U s"
  obtain buf ia log where st: "s = (buf, ia, log)" by (cases s)
  have f: "fds (ia\<lparr>ap_use_mirror := True\<rparr>) = fds ia" "maps (ia\<lparr>ap_use_mirror := True\<rparr>) = maps ia" "dev_ok (ia\<lparr>ap_use_mirror := True\<rparr>) = dev_ok ia"
    by (simp_all add: fds_def maps_def dev_ok_def dev_str_def)
  have "unset r (ia\<lparr>ap_use_mirror := True\<rparr>) = unset r ia" for r by (cases r) simp_all
  then have "mowns U (buf, ia\<lparr>ap_use_mirror := True\<rparr>, log)" using s st f by (auto simp: pending_def mowns_def owns_def)
  then show "\<exists>rc s'. on_app use_mirror s = Some (rc, s') \<and> (if rc = 0 then mowns U s' else mowns {} s')" by (simp add: on_app_def use_mirror_def st)
qed

lemma run_on_app:
  assumes "run_ok (owns U) a (owns V) owned"
  shows "run_ok (mowns U) (on_app a) (mowns V) (mowns {})"
proof (rule run_okI)
  fix s assume s: "mowns U s"
  then have "owns U (snd s)" by (simp add: mowns_def)
  with assms show "\<exists>rc s'. on_app a s = Some (rc, s') \<and> (if rc = 0 then mowns V s' else mowns {} s')"
    by (rule run_okE) (use s in \<open>auto simp: on_app_def mowns_def case_prod_unfold\<close>)
qed

lemma run_index:
  assumes "\<And>i ia. fds (put i ia) = fds ia \<and> maps (put i ia) = maps ia \<and> dev_ok (put i ia) = dev_ok ia \<and> ap_use_mirror (put i ia) = ap_use_mirror ia"
    and "\<And>i ia r. unset r (put i ia) = unset r ia"
  shows "run_ok (owns U) (keep os (\<lambda>ia. Nametoindex (n ia)) put bad) (owns U) owned"
proof (rule run_ownsI)
  fix ia log assume o: "owns U (ia, log)"
  have "owns U (put i ia, log @ [(Nametoindex (n ia), r)])" for i r
    by (rule owns_step [OF o]) (use assms in \<open>auto simp: holds_snoc\<close>)
  then show "\<exists>rc s'. keep os (\<lambda>ia. Nametoindex (n ia)) put bad (ia, log) = Some (rc, s') \<and> owns U s'" by (simp add: keep_def syscall_def)
qed

lemma xdp_index_plain:
  "fds (ia\<lparr>ap_xdp_index := i\<rparr>) = fds ia \<and> maps (ia\<lparr>ap_xdp_index := i\<rparr>) = maps ia \<and> dev_ok (ia\<lparr>ap_xdp_index := i\<rparr>) = dev_ok ia \<and>
   ap_use_mirror (ia\<lparr>ap_xdp_index := i\<rparr>) = ap_use_mirror ia" "unset r (ia\<lparr>ap_xdp_index := i\<rparr>) = unset r ia"
  by (simp add: fds_def maps_def dev_ok_def dev_str_def, cases r, simp_all)

lemma other_fixed: "other_cmd (str ''ip link set dns-insp-tap up'')" "other_cmd (str ''ip link set dns-insp-sink up'')"
  by code_simp+

lemma other_dev: "other_cmd (clsact_del ia)" "other_cmd (str ''tc qdisc add dev '' @ dev_str ia @ str '' clsact'')" "other_cmd (tc_mirror dir ia)"
proof -
  have "str ''tc qdisc del dev '' = str ''tc '' @ str ''qdisc del dev ''" "str ''tc qdisc add dev '' = str ''tc '' @ str ''qdisc add dev ''"
    "str ''tc filter add dev '' = str ''tc '' @ str ''filter add dev ''" by code_simp+
  then show "other_cmd (clsact_del ia)" "other_cmd (str ''tc qdisc add dev '' @ dev_str ia @ str '' clsact'')" "other_cmd (tc_mirror dir ia)"
    by (simp_all only: clsact_del_def tc_mirror_def append_assoc other_tc)
qed

lemma cmd_buf_init: "256 \<le> n \<Longrightarrow> cmd_buf (sbuf_init (replicate n 0))"
  by (simp add: cmd_buf_def sbuf_init_def)

lemma run_buf:
  assumes "run_ok (mowns U) a (mowns U) (mowns {})" and "256 \<le> n"
  shows "run_ok (owns U) (\<lambda>s. do { (rc, buf, s) \<leftarrow> a (sbuf_init (replicate n 0), s); Some (rc, s) }) (owns U) owned"
proof (rule run_okI)
  fix s assume "owns U s"
  then have "mowns U (sbuf_init (replicate n 0), s)" using cmd_buf_init [OF assms(2)] by (simp add: mowns_def)
  with assms(1) show "\<exists>rc s'. do { (rc, buf, s) \<leftarrow> a (sbuf_init (replicate n 0), s); Some (rc, s) } = Some (rc, s') \<and> (if rc = 0 then owns U s' else owned s')"
  proof (rule run_okE)
    fix rc r assume "a (sbuf_init (replicate n 0), s) = Some (rc, r)" "if rc = 0 then mowns U r else mowns {} r"
    then show ?thesis by (intro exI [of _ rc] exI [of _ "snd r"]) (auto simp: mowns_def case_prod_unfold split: if_splits)
  qed
qed

lemma run_mirror_init: "run_ok (owns U) (xdp_mirror_init os) (owns U) owned"
  unfolding xdp_mirror_init_def
  by (rule run_buf)
    (rule run_cons run_nil run_mirror_add run_use_mirror run_on_app run_index run_mirror mirror_texts other_dev other_fixed fixed_texts xdp_index_plain | assumption | simp)+

lemma run_post: "run_ok P a (owns U) E \<Longrightarrow> run_ok P a owned E"
  unfolding run_ok_def using owns_weaken by (metis empty_subsetI)

lemma run_setup_raw: "run_ok (owns UNIV) (setup_raw os) owned owned"
  unfolding setup_raw_def by (rule run_post) (rule run_cons run_nil run_sock run_check | simp)+

lemma run_setup_mmap: "os_contract os \<Longrightarrow> run_ok (owns UNIV) (setup_mmap os) owned owned"
  unfolding setup_mmap_def by (rule run_post) (rule run_cons run_nil run_sock run_check run_umem | assumption | simp)+

lemma run_setup_xdp: "os_contract os \<Longrightarrow> run_ok (owns UNIV) (setup_xdp os fr rx) owned owned"
  unfolding setup_xdp_def
  by (rule run_post)
    (rule run_cons run_nil run_mirror_init run_sock run_check run_umem run_fill_ring run_rx_ring run_map_fd run_patch run_bpf_fd run_attach
      | assumption | simp add: xsk_map_update_def)+

section \<open>The end\<close>

lemma free_releases:
  assumes "os_contract os" and "owned (ia, log)"
  shows "\<exists>log'. insp_free os (ia, log) = Some log' \<and> holds log' {#} {#} False"
proof -
  obtain t where h: "holds log (fds ia) (maps ia) t" "t \<longrightarrow> ap_use_mirror ia" "dev_ok ia" using assms(2) by (auto simp: owns_def)
  let ?M = "maps ia" and ?F = "fdm (ap_map_fd ia) + fdm (ap_sock_fd ia)"
  obtain l1 where l1: "(if ap_bpf_fd ia \<noteq> -1 then do { (rc, log) \<leftarrow> bpf_attach_dev os (-1) (ap_xdp_index ia) log; Some (close_fd os (ap_bpf_fd ia) log) } else Some log) = Some l1"
      "holds l1 ?F ?M t"
  proof (cases "ap_bpf_fd ia = -1")
    case True
    then show ?thesis using that h(1) by (simp add: fds_def fdm_def)
  next
    case False
    obtain rc l where "bpf_attach_dev os (-1) (ap_xdp_index ia) log = Some (rc, l)" "holds l (fds ia) ?M t"
      by (rule attach_holds [OF assms(1) h(1)])
    then show ?thesis using that [of "close_fd os (ap_bpf_fd ia) l"] False holds_close by (simp add: fds_def)
  qed
  let ?l2 = "close_fd os (ap_map_fd ia) l1"
  let ?l3 = "membuf_deinit os (ap_umem ia) ?l2"
  let ?l4 = "ring_deinit os (ap_rx_ring ia) ?l3"
  let ?l5 = "ring_deinit os (ap_fill_ring ia) ?l4"
  let ?l6 = "close_fd os (ap_sock_fd ia) ?l5"
  have "holds ?l2 (fdm (ap_sock_fd ia)) ?M t" using l1(2) by (rule holds_close)
  then have "holds ?l3 (fdm (ap_sock_fd ia)) (mbm (ap_rx_ring ia) + mbm (ap_fill_ring ia)) t" unfolding maps_def by (rule holds_unmap)
  then have "holds ?l4 (fdm (ap_sock_fd ia)) (mbm (ap_fill_ring ia)) t" unfolding ring_deinit_def by (rule holds_unmap)
  then have "holds ?l5 (fdm (ap_sock_fd ia)) {#} t" using holds_unmap [of ?l4 _ "ap_fill_ring ia" "{#}" t os] by (simp add: ring_deinit_def)
  then have l6: "holds ?l6 {#} {#} t" using holds_close [of ?l5 "ap_sock_fd ia" "{#}" "{#}" t os] by simp
  show ?thesis
  proof (cases "ap_use_mirror ia")
    case False
    then show ?thesis using l1(1) l6 h(2) by (simp add: insp_free_def)
  next
    case True
    have b: "cmd_buf (sbuf_init (replicate 256 0))" by (simp add: cmd_buf_init)
    obtain b1 where b1: "mirror_cmd os clsact_del (\<lambda>rc. True) (sbuf_init (replicate 256 0), ia, ?l6) =
        Some (if True then 0 else -1, b1, ia, ?l6 @ [(Command 3 (cmd_words (clsact_del ia)), os ?l6 (Command 3 (cmd_words (clsact_del ia))))])" "cmd_buf b1"
      by (rule mirror_cmd_runs [where t = clsact_del and ia = ia and ok = "\<lambda>_. True", OF b mirror_texts(1) [OF h(3)]])
    let ?l7 = "?l6 @ [(Command 3 (cmd_words (clsact_del ia)), os ?l6 (Command 3 (cmd_words (clsact_del ia))))]"
    have l7: "holds ?l7 {#} {#} t" using l6 other_dev(1) [of ia] by (simp add: holds_snoc other_cmd_def)
    obtain b2 where b2: "mirror_cmd os (\<lambda>_. mirror_del) (\<lambda>rc. True) (b1, ia, ?l7) =
        Some (if True then 0 else -1, b2, ia, ?l7 @ [(Command 3 (cmd_words mirror_del), os ?l7 (Command 3 (cmd_words mirror_del)))])"
      by (rule mirror_cmd_runs [where t = "\<lambda>_. mirror_del" and ia = ia and ok = "\<lambda>_. True", OF b1(2) fixed_texts(2)])
    have "cmd_words mirror_add \<noteq> cmd_words mirror_del" by code_simp
    then have "holds (?l7 @ [(Command 3 (cmd_words mirror_del), os ?l7 (Command 3 (cmd_words mirror_del)))]) {#} {#} False" using l7 by (simp only: holds_snoc) simp
    then show ?thesis using l1(1) True b1(1) b2 by (simp add: insp_free_def xdp_mirror_deinit_def)
  qed
qed

section \<open>Options and the books\<close>

definition parsed :: "cmd_mode \<Rightarrow> app_state \<Rightarrow> bool" where
  "parsed cmd s \<longleftrightarrow> owns UNIV s \<and> ap_cmd (fst s) = Some cmd"

lemma parsed_plain:
  assumes "parsed cmd (ia, log)" and "fds ia' = fds ia" and "maps ia' = maps ia" and "dev_ok ia \<Longrightarrow> dev_ok ia'" and "ap_use_mirror ia' = ap_use_mirror ia"
    and "\<And>r. unset r ia' = unset r ia" and "ap_cmd ia' = ap_cmd ia"
  shows "parsed cmd (ia', log)"
  using assms owns_plain [of UNIV ia log ia'] by (simp add: parsed_def)

lemma parsed_call: "parsed cmd (ia, log) \<Longrightarrow> neutral c \<Longrightarrow> parsed cmd (ia, log @ [(c, r)])"
  by (auto simp: parsed_def owns_def intro: holds_neutral)

lemma set_interface_keeps:
  assumes "parsed cmd (ia, log)"
  shows "\<exists>rc s'. set_interface os v (ia, log) = Some (rc, s') \<and> parsed cmd s'"
proof (cases "IFNAMSIZ \<le> length v")
  case True
  then show ?thesis using assms by (simp add: set_interface_def)
next
  case False
  have d: "dev_ok ia" using assms by (simp add: parsed_def owns_def)
  obtain b where b: "mem_write (ap_dev_name ia) 0 (v @ [0]) = Some b" "length b = IFNAMSIZ" "b = (v @ [0]) @ drop (Suc (length v)) (ap_dev_name ia)"
    using d False by (auto simp: dev_ok_def mem_write_SomeI)
  have "length (takeWhile (\<lambda>b. b \<noteq> 0) ((v @ [0]) @ r)) \<le> length v" for r :: "byte list"
    by (induction v) auto
  then have "length (cstr_of b) < IFNAMSIZ" using b(3) False by (metis cstr_of_def not_le le_less_trans)
  then have s: "parsed cmd (ia\<lparr>ap_dev_name := b\<rparr>, log)"
    by (intro parsed_plain [OF assms]) (simp_all add: fds_def maps_def dev_ok_def dev_str_def b(2), case_tac r, simp_all)
  let ?ia = "ia\<lparr>ap_dev_name := b\<rparr>"
  let ?c = "Nametoindex (dev_str ?ia)"
  have "parsed cmd (?ia, log @ [(?c, r)])" for r
    using s by (rule parsed_call) simp
  then have "parsed cmd (?ia\<lparr>ap_dev_index := i\<rparr>, log @ [(?c, x)])" for i x
    by (rule parsed_plain) (simp_all add: fds_def maps_def dev_ok_def dev_str_def, case_tac r, simp_all)
  then show ?thesis using b(1) False by (simp add: set_interface_def keep_def syscall_def del: split_paired_Ex)
qed

lemma insp_option_keeps:
  assumes "parsed cmd s" and "v = None \<Longrightarrow> code = 4"
  shows "\<exists>rc s'. insp_option dup os s code n v = Some (rc, s') \<and> parsed cmd s'"
proof -
  obtain ia log where st: "s = (ia, log)" by (cases s)
  have p: "parsed cmd (ia, log)" using assms(1) st by simp
  have f0: "parsed cmd (ia\<lparr>ap_use_pcapng := x\<rparr>, log)" for x
    by (rule parsed_plain [OF p]) (simp_all add: fds_def maps_def dev_ok_def dev_str_def, case_tac r, simp_all)
  have f1: "parsed cmd (ia\<lparr>ap_type := x\<rparr>, log)" for x
    by (rule parsed_plain [OF p]) (simp_all add: fds_def maps_def dev_ok_def dev_str_def, case_tac r, simp_all)
  have f2: "parsed cmd (ia\<lparr>ap_filename := x\<rparr>, log)" for x
    by (rule parsed_plain [OF p]) (simp_all add: fds_def maps_def dev_ok_def dev_str_def, case_tac r, simp_all)
  have f3: "parsed cmd (ia\<lparr>ap_log_level := x\<rparr>, log)" for x
    by (rule parsed_plain [OF p]) (simp_all add: fds_def maps_def dev_ok_def dev_str_def, case_tac r, simp_all)
  show ?thesis
  proof (cases "code = 4")
    case False
    then obtain w where "v = Some w" using assms(2) by (cases v) auto
    then show ?thesis using False p f1 f2 f3 set_interface_keeps [OF p, of os w]
      by (auto simp: insp_option_def st set_type_def Let_def split: prod.splits)
  qed (use f0 in \<open>simp add: insp_option_def st\<close>)
qed

lemma opts_keep:
  assumes "parsed cmd s" and "cmd \<in> set insp_cmds" and "2 \<le> length argv"
  shows "\<exists>rc s'. opts_loop (\<lambda>s code q. insp_option dup os s code (the (ca_name q)) (ca_value q)) s (cmd_argv_start argv (cm_opts cmd) 2) = Some (rc, s') \<and> parsed cmd s' \<and> rc < 0"
proof -
  have t: "option_table (cm_opts cmd)" using assms(2) capt_table.option_table_axioms pcap_table.option_table_axioms by (auto simp: insp_cmds_def)
  have none: "rc = 4" if "i < length (cm_opts cmd)" "rc = opt_result (cm_opts cmd) i" "\<not> opt_has_arg (cm_opts cmd ! i)" for rc i
    using that assms(2) by (auto simp: insp_cmds_def capt_opts_def pcap_opts_def cmd_opt_of_def opt_result_def less_Suc_eq numeral_eq_Suc)
  obtain xs e where xs: "parse_args (cm_opts cmd) (drop 2 argv) = (xs, e)" by fastforce
  have e: "e < 0" using parse_args_end [of "cm_opts cmd" "drop 2 argv"] xs by simp
  have "\<exists>rc s'. handle_all (insp_option dup os) s xs e = Some (rc, s') \<and> parsed cmd s' \<and> rc < 0"
  proof (rule handle_all_keeps [where P = "parsed cmd", OF _ assms(1) e])
    fix s rc n v assume "parsed cmd s" "(rc, n, v) \<in> set xs"
    then show "\<exists>rc' s'. insp_option dup os s rc n v = Some (rc', s') \<and> parsed cmd s'"
      using parse_args_vals [of rc n v "cm_opts cmd" "drop 2 argv"] none xs by (intro insp_option_keeps) auto
  qed
  then show ?thesis using option_table.loop_args [OF t, where n = 1 and argv = argv and h = "insp_option dup os" and s = s] xs
    by (simp add: numeral_2_eq_2)
qed

lemma create_owns: "owns UNIV (insp_create, [])"
proof -
  have "unset r insp_create" for r by (cases r) (simp_all add: insp_create_def membuf_init_def)
  moreover have "dev_ok insp_create" by (simp add: dev_ok_def insp_create_def dev_str_def cstr_of_def IFNAMSIZ_def)
  moreover have "holds [] (fds insp_create) (maps insp_create) False"
    by (simp add: holds_def no_books_def fds_def maps_def fdm_def mbm_def insp_create_def membuf_init_def)
  ultimately show ?thesis by (auto simp: owns_def)
qed

lemma parse_keeps:
  "\<exists>p. insp_parse_argv dup os argv (insp_create, []) = Some p \<and>
     (\<forall>rc s. p = Inr (rc, s) \<longrightarrow> owns UNIV s \<and> (rc = 0 \<longrightarrow> (\<exists>cmd. ap_cmd (fst s) = Some cmd \<and> (cm_mode cmd = MODE_CAPTURE \<or> ap_filename (fst s) \<noteq> None))))"
proof (cases "length argv < 2 \<or> argv ! 1 = str ''--help''")
  case False
  have set: "owns UNIV (insp_create\<lparr>ap_cmd := c\<rparr>, [])" for c
    by (rule owns_plain [OF create_owns]) (simp_all add: fds_def maps_def dev_ok_def dev_str_def, case_tac r, simp_all)
  show ?thesis
  proof (cases "cmd_mode_find (argv ! 1) insp_cmds")
    case None
    then show ?thesis using False set by (simp add: insp_parse_argv_def)
  next
    case (Some cmd)
    have c: "cmd \<in> set insp_cmds" using Some by (auto simp: insp_cmds_def split: if_splits)
    then have m: "cm_mode cmd = MODE_CAPTURE \<or> cm_mode cmd = MODE_READPCAP \<or> cm_mode cmd = MODE_TRACEPCAP" by (auto simp: insp_cmds_def)
    have "parsed cmd (insp_create\<lparr>ap_cmd := Some cmd\<rparr>, [])" using set by (simp add: parsed_def)
    then have pc: "parsed cmd (insp_create\<lparr>ap_cmd := Some cmd\<rparr>, [])" .
    have two: "2 \<le> length argv" using False by simp
    obtain rc s where l: "opts_loop (\<lambda>s code q. insp_option dup os s code (the (ca_name q)) (ca_value q)) (insp_create\<lparr>ap_cmd := Some cmd\<rparr>, [])
        (cmd_argv_start argv (cm_opts cmd) 2) = Some (rc, s)" "parsed cmd s" "rc < 0"
      using opts_keep [OF pc c two, of dup os] by blast
    have "insp_final (cm_mode cmd) (fst s) = 0 \<Longrightarrow> cm_mode cmd = MODE_CAPTURE \<or> ap_filename (fst s) \<noteq> None"
      using m by (auto simp: insp_final_def MODE_CAPTURE_def MODE_READPCAP_def MODE_TRACEPCAP_def split: if_splits)
    then show ?thesis using False Some l
      by (cases "length argv = 2"; cases "rc = OPT_EOF") (auto simp: insp_parse_argv_def parsed_def Let_def OPT_EOF_def)
  qed
qed (simp add: insp_parse_argv_def)

section \<open>The whole program\<close>

lemma open_pcap_keeps: "owns UNIV (ia, log) \<Longrightarrow> \<exists>rc s'. open_pcap env mode (ia, log) = Some (rc, s') \<and> owns UNIV s'"
proof -
  assume o: "owns UNIV (ia, log)"
  have "owns UNIV (ia\<lparr>ap_insp := x\<rparr>, log)" for x
    by (rule owns_plain [OF o]) (simp_all add: fds_def maps_def dev_ok_def dev_str_def, case_tac r, simp_all)
  then show ?thesis by (simp add: open_pcap_def Let_def)
qed

lemma init_keeps:
  assumes "os_contract os" and "owns UNIV s" and "ap_cmd (fst s) = Some cmd" and "cm_mode cmd = MODE_CAPTURE \<or> ap_filename (fst s) \<noteq> None"
  shows "\<exists>rc s'. insp_init os fr rx env s = Some (rc, s') \<and> owned s'"
proof -
  obtain rc s1 where s1: "(if ap_filename (fst s) \<noteq> None then do { (rc, s) \<leftarrow> open_pcap env (cm_mode cmd) s; Some (Some rc, s) } else Some (None, s)) = Some (rc, s1)"
      "owns UNIV s1" "rc = None \<longrightarrow> cm_mode cmd = MODE_CAPTURE"
  proof (cases "ap_filename (fst s) = None")
    case False
    obtain rc s1 where "open_pcap env (cm_mode cmd) s = Some (rc, s1)" "owns UNIV s1" using open_pcap_keeps assms(2) by (metis surj_pair)
    then show ?thesis using that [of "Some rc" s1] False by simp
  qed (use that assms(2,4) in auto)
  have su: "\<exists>rc s'. a s1 = Some (rc, s') \<and> owned s'" if "run_ok (owns UNIV) a owned owned" for a
    using that s1(2) by (rule run_okE) (auto split: if_splits)
  have o: "owned s1" using s1(2) by (rule owns_weaken) simp
  have "insp_init os fr rx env s = (if rc \<noteq> None \<and> rc \<noteq> Some 0 then Some (the rc, s1)
     else if cm_mode cmd \<noteq> MODE_CAPTURE then do { rc \<leftarrow> rc; Some (rc, s1) }
     else if ap_type (fst s1) = TYPE_RAW then setup_raw os s1
     else if ap_type (fst s1) = TYPE_MMAP then setup_mmap os s1
     else if ap_type (fst s1) = TYPE_XDP then setup_xdp os fr rx s1
     else Some (-1, s1))"
    using s1(1) assms(3) by (simp add: insp_init_def)
  then show ?thesis
    using o s1(3) su [OF run_setup_raw] su [OF run_setup_mmap [OF assms(1)]] su [OF run_setup_xdp [OF assms(1)]] by (cases rc) (simp_all del: split_paired_Ex)
qed


section \<open>The attributes of the request\<close>

text \<open>A reader of netlink attributes: length, type, data, padded to four bytes.\<close>

function nl_attrs :: "byte list \<Rightarrow> (u16 \<times> byte list) list option" where
  "nl_attrs bs =
     (if bs = [] then Some []
      else let n = unat (ld16 bs 0)
           in if length bs < 4 \<or> n < 4 \<or> length bs < n then None
              else do { as \<leftarrow> nl_attrs (drop (4 * ((n + 3) div 4)) bs); Some ((ld16 bs 2, drop 4 (take n bs)) # as) })"
  by pat_completeness auto
termination by (relation "measure length") auto

declare nl_attrs.simps [simp del]

lemma ld16_le16: "ld16 (le16 v @ r) 0 = v"
  by (simp add: ld16_def le16_def be16_def be16_rebuild)

lemma nl_attr_cons:
  assumes "length d + 4 < 2 ^ 16" and "4 dvd length d" and "n = of_nat (length d + 4)"
  shows "nl_attrs (le16 n @ le16 t @ d @ r) = do { as \<leftarrow> nl_attrs r; Some ((t, d) # as) }"
proof -
  obtain k where k: "length d = 4 * k" using assms(2) by (rule dvdE)
  have n: "unat n = length d + 4" unfolding assms(3) unat_of_nat using assms(1) by (simp add: take_bit_nat_eq_self)
  have l: "length (le16 x) = 2" for x by (simp add: le16_def be16_def)
  have "ld16 (le16 n @ le16 t @ d @ r) 2 = ld16 (le16 t @ d @ r) 0" using l [of n] by (simp add: ld16_def nth_append)
  then have t: "ld16 (le16 n @ le16 t @ d @ r) 2 = t" by (simp add: ld16_le16)
  have q: "4 * ((length d + 4 + 3) div 4) = length d + 4" by (simp add: k)
  have ne: "le16 n \<noteq> []" by (simp add: le16_def be16_def)
  have data: "drop 4 (take (length d + 4) (le16 n @ le16 t @ d @ r)) = d" "drop (length d + 4) (le16 n @ le16 t @ d @ r) = r" using l by simp_all
  show ?thesis using ne t q n data l by (subst nl_attrs.simps) (simp add: ld16_le16 Let_def)
qed

text \<open>C27. \<open>bpf_attach_dev\<close> sends a well-formed netlink message: its length field is its length, it is an \<open>RTM_SETLINK\<close> request for the device with an acknowledgement, and its
  attributes, read back, are one nested \<open>IFLA_XDP\<close> with exactly the descriptor of the program (-1 to detach) and the flag for generic XDP.\<close>

theorem attach_req_attrs:
  "\<exists>req nested. attach_req bpf_fd dev_index = Some req \<and> unat (ld32 req 0) = length req \<and> ld16 (drop 4 req) 0 = 19 \<and> ld16 (drop 6 req) 0 = 5 \<and>
     ld32 (drop 20 req) 0 = word_of_int dev_index \<and>
     nl_attrs (drop 32 req) = Some [(0x802b, nested)] \<and> nl_attrs nested = Some [(1, le_int bpf_fd), (3, le32 2)]"
proof -
  let ?nested = "le16 8 @ le16 1 @ le_int bpf_fd @ le16 8 @ le16 3 @ le32 2"
  let ?req = "le32 52 @ le16 19 @ le16 5 @ replicate 8 0 @ replicate 4 0 @ le_int dev_index @ replicate 8 0 @ (le16 20 @ le16 0x802b @ ?nested)"
  have l: "length (le16 x) = 2" "length (le32 y) = 4" "length (le_int z) = 4" for x y z by (simp_all add: le_int_def le16_def le32_def be16_def be32_def)
  have req: "attach_req bpf_fd dev_index = Some ?req" using attach_req_bytes [of bpf_fd dev_index] by simp
  have nil: "nl_attrs [] = Some []" by (simp add: nl_attrs.simps)
  have last: "nl_attrs (le16 8 @ le16 3 @ le32 2) = Some [(3, le32 2)]" using nl_attr_cons [of "le32 2" 8 3 "[]"] l nil by simp
  have inner: "nl_attrs ?nested = Some [(1, le_int bpf_fd), (3, le32 2)]"
    using nl_attr_cons [of "le_int bpf_fd" 8 1 "le16 8 @ le16 3 @ le32 2"] l last by simp
  have len: "length ?nested = 16" by (simp add: l)
  have outer: "nl_attrs (le16 20 @ le16 0x802b @ ?nested) = Some [(0x802b, ?nested)]"
    using nl_attr_cons [of ?nested 20 "0x802b" "[]"] len nil by simp
  have f: "ld32 ?req 0 = 52" "ld16 (drop 4 ?req) 0 = 19" "ld16 (drop 6 ?req) 0 = 5" "ld32 (drop 20 ?req) 0 = word_of_int dev_index"
      "drop 32 ?req = le16 20 @ le16 0x802b @ ?nested"
    by (simp_all add: ld32_le32 ld16_le16 l le_int_def)
  show ?thesis using req f outer inner l by (intro exI [of _ ?req] exI [of _ ?nested]) simp
qed

definition demo_os :: os where
  "demo_os log c = (case c of Socket d \<Rightarrow> int (length log) + 3 | Map_Create n \<Rightarrow> int (length log) + 3 | Prog_Load p \<Rightarrow> int (length log) + 3
     | Mmap n fd off \<Rightarrow> 4096 * int (length log + 1) | Nametoindex n \<Rightarrow> 2 | _ \<Rightarrow> 0)"


end
