(* ===== verification/Xsk_Live.thy ===== *)
theory Xsk_Live
  imports Capture
begin

text \<open>
  Progress of \<open>capture_xdp\<close>. The theorems of \<open>Xsk\<close> say that no step goes wrong; here, that the steps exist: a turn of the loop, once begun, sees every frame the
  kernel has handed over and gives all chunks back to it. No step of the kernel is needed for this, and none is excluded before the turn.
\<close>

section \<open>A turn of the loop\<close>

text \<open>Frames the validator can work on: plain, and with 16 bytes of the UMEM behind them.\<close>

definition workable :: "byte list \<Rightarrow> xdp_desc \<Rightarrow> bool" where
  "workable umem d \<longleftrightarrow> unat (xd_addr d) + unat (xd_len d) + 16 \<le> length umem \<and> plain_frame (rx_frame umem d)"

text \<open>\<open>worked s fs u\<close>: between \<open>s\<close> and \<open>u\<close> the program has processed the frames \<open>fs\<close>, and nothing of the kernel's has changed.\<close>

definition worked :: "xsk \<Rightarrow> byte list list \<Rightarrow> xsk \<Rightarrow> bool" where
  "worked s fs u \<longleftrightarrow> xk_umem u = xk_umem s \<and> xk_rx u = xk_rx s \<and> xk_held u = xk_held s \<and> xk_posted u = xk_posted s \<and> xk_widx u = xk_widx s \<and>
     xk_phase u = xk_phase s \<and> xk_seen u = xk_seen s @ fs \<and> counted fs (xk_insp s) (xk_insp u) \<and> in_emsg (xk_insp u) \<noteq> []"

lemma packet_goes:
  assumes inv: "xsk_inv s" and ph: "xk_phase s = Batch" "xk_ridx s \<noteq> xk_widx s" and em: "in_emsg (xk_insp s) \<noteq> []"
    and wk: "list_all (workable (xk_umem s)) (rx_pending s)"
  obtains u d ds where "capture_step s u" "rx_pending s = d # ds" "rx_pending u = ds" "worked s [rx_frame (xk_umem s) d] u"
proof -
  have g: "geo (xk_fill s)" "geo (xk_rx s)" using inv by (auto simp: xsk_inv_def)
  obtain d where d: "get_desc (xk_ridx s) (xk_rx s) = Some d"
      "rx_pending s = d # ring_window (xk_rx s) (xk_ridx s + 1) (rg_producer (xk_rx s))"
    using xr.window_pop [OF g(2) batch_pending(1) [OF inv ph]] by (auto simp: rx_pending_def)
  let ?m = "drop (unat (xd_addr d)) (xk_umem s)" and ?n = "unat (xd_len d)" and ?f = "rx_frame (xk_umem s) d"
  have w: "?n + 16 \<le> length ?m" "plain_frame ?f" using wk by (auto simp: d(2) workable_def)
  then have "shows_frame (?m, ?n) ?f" by (simp add: shows_frame_def rx_frame_def)
  then obtain rc i where i: "insp_process_pkt (xk_insp s) ?m ?n = Some (rc, i)" "counted [?f] (xk_insp s) i" "in_emsg i \<noteq> []"
    using process_one [OF _ w em] by blast
  obtain fill where f: "put_desc (xk_fidx s) (xd_addr d) (xk_fill s) = Some fill" using xr.put_defined [OF g(1)] by blast
  define u where "u = s\<lparr>xk_insp := i, xk_fill := fill, xk_fidx := xk_fidx s + 1, xk_ridx := xk_ridx s + 1, xk_seen := xk_seen s @ [?f]\<rparr>"
  have "rx_packet s = Some u" using d(1) i(1) f by (simp add: rx_packet_def u_def)
  then have "capture_step s u" by (rule capture_step.packet [OF ph])
  then show ?thesis using d(2) i by (intro that) (auto simp: u_def rx_pending_def worked_def)
qed

lemma batch_drains:
  assumes "xsk_inv s" and "xk_phase s = Batch" and "xk_widx s = rg_producer (xk_rx s)" and "in_emsg (xk_insp s) \<noteq> []"
    and "list_all (workable (xk_umem s)) (rx_pending s)"
  shows "\<exists>u. capture_step\<^sup>*\<^sup>* s u \<and> xk_ridx u = xk_widx u \<and> worked s (map (rx_frame (xk_umem s)) (rx_pending s)) u"
  using assms
proof (induction "rx_pending s" arbitrary: s)
  case Nil
  then have "xk_ridx s = xk_widx s" using dist_zero by (metis length_window list.size(3) rx_pending_def)
  then show ?case using Nil by (auto simp: worked_def)
next
  case (Cons d ds)
  have "0 < length (rx_pending s)" unfolding Cons.hyps(2) [symmetric] by simp
  then have "xk_ridx s \<noteq> xk_widx s" using Cons.prems(3) by (auto simp: rx_pending_def)
  then obtain v where v: "capture_step s v" "rx_pending v = ds" "worked s [rx_frame (xk_umem s) d] v"
    using packet_goes [OF Cons.prems(1,2) _ Cons.prems(4,5)] Cons.hyps(2) by (metis list.inject)
  have "xsk_inv v" using capture_step_inv [OF v(1) Cons.prems(1)] .
  moreover have "list_all (workable (xk_umem v)) (rx_pending v)" using v(2,3) Cons.prems(5) by (simp add: worked_def flip: Cons.hyps(2))
  ultimately obtain u where u: "capture_step\<^sup>*\<^sup>* v u" "xk_ridx u = xk_widx u" "worked v (map (rx_frame (xk_umem v)) (rx_pending v)) u"
    using Cons.hyps(1) [of v] v Cons.prems by (auto simp: worked_def)
  have "worked s (map (rx_frame (xk_umem s)) (rx_pending s)) u"
    using v(2,3) u(3) counted_append [of "[rx_frame (xk_umem s) d]"] by (auto simp: worked_def simp flip: Cons.hyps(2))
  then show ?case using u(1,2) v(1) by (meson converse_rtranclp_into_rtranclp)
qed

lemma capture_steps_inv: "capture_step\<^sup>*\<^sup>* s u \<Longrightarrow> xsk_inv s \<Longrightarrow> xsk_inv u"
  by (induction rule: rtranclp_induct) (auto intro: capture_step_inv)

lemma turn_progress:
  assumes inv: "xsk_inv t" and ph: "xk_phase t = Polling" and em: "in_emsg (xk_insp t) \<noteq> []" and wk: "list_all (workable (xk_umem t)) (rx_pending t)"
  shows "\<exists>u. capture_step\<^sup>*\<^sup>* t u \<and> xk_phase u = Polling \<and> xk_seen u = xk_posted t \<and> rg_consumer (xk_rx u) = rg_producer (xk_rx u) \<and>
    mset (map chunk_of (ring_window (xk_fill u) (rg_consumer (xk_fill u)) (rg_producer (xk_fill u)))) + xk_held u = mset [0..<PKT_NUMSLOT] \<and>
    in_rcv_pkts (xk_insp u) = in_rcv_pkts (xk_insp t) + length (rx_pending t)"
proof -
  define s where "s = t\<lparr>xk_phase := Batch, xk_ridx := rg_consumer (xk_rx t), xk_widx := rg_producer (xk_rx t), xk_fidx := rg_producer (xk_fill t)\<rparr>"
  have s: "capture_step t s" using ph by (simp add: s_def capture_step.ready)
  have si: "xsk_inv s" by (rule capture_step_inv [OF s inv])
  have pend: "rx_pending s = rx_pending t" using inv ph by (simp add: s_def rx_pending_def xsk_inv_def indices_ok_def)
  obtain v where v: "capture_step\<^sup>*\<^sup>* s v" "xk_ridx v = xk_widx v" "worked s (map (rx_frame (xk_umem s)) (rx_pending s)) v"
    using batch_drains [OF si] em wk by (auto simp: s_def pend [unfolded s_def])
  define w where "w = v\<lparr>xk_phase := Publishing, xk_fill := (xk_fill v)\<lparr>rg_producer := xk_fidx v\<rparr>\<rparr>"
  define u where "u = w\<lparr>xk_phase := Polling, xk_rx := (xk_rx w)\<lparr>rg_consumer := xk_ridx w\<rparr>\<rparr>"
  have "xk_phase v = Batch" using v(3) by (simp add: worked_def s_def)
  then have "capture_step v w" unfolding w_def using v(2) by (rule capture_step.publish)
  moreover have "capture_step w u" unfolding u_def by (rule capture_step.release) (simp add: w_def)
  ultimately have run: "capture_step\<^sup>*\<^sup>* t u" using s v(1) by (meson converse_rtranclp_into_rtranclp rtranclp.rtrancl_into_rtrancl)
  have ui: "xsk_inv u" by (rule capture_steps_inv [OF run inv])
  have e: "rg_consumer (xk_rx u) = rg_producer (xk_rx u)" using v(2,3) by (simp add: u_def w_def worked_def s_def)
  have p: "xk_phase u = Polling" by (simp add: u_def)
  have ix: "indices_ok u" and cons: "conserved u" and posted: "xk_posted u = xk_seen u @ map (rx_frame (xk_umem u)) (rx_pending u)"
    using ui unfolding xsk_inv_def by blast+
  have "xk_ridx u = rg_consumer (xk_rx u)" using ix p unfolding indices_ok_def by blast
  then have none: "rx_pending u = []" by (simp add: rx_pending_def e)
  have "xk_fidx u = rg_producer (xk_fill u)" using ix p unfolding indices_ok_def by (metis phase.distinct(1))
  then have "mset (map chunk_of (ring_window (xk_fill u) (rg_consumer (xk_fill u)) (rg_producer (xk_fill u)))) + xk_held u = mset [0..<PKT_NUMSLOT]"
    using cons unfolding conserved_def rx_chunks_def fill_chunks_def none by simp
  moreover have "xk_seen u = xk_posted u" using posted none by simp
  moreover have "xk_posted u = xk_posted t" "in_rcv_pkts (xk_insp u) = in_rcv_pkts (xk_insp t) + length (rx_pending t)"
    using v(3) pend by (simp_all add: u_def w_def worked_def s_def counted_def)
  ultimately show ?thesis using run e p by auto
qed



end
