(* ===== verification/Log.thy ===== *)
theory Log
  imports Str_Codec
begin

text \<open>
  The logger: \<open>src/src/log.c\<close> and the macros of \<open>log.h\<close>. The expansion of a format string is given as bytes, \<open>strerror\<close> is a parameter, and the
  state is the stream, the level and what has been written to each stream. A place is the file, line and function the compiler fills in. The components of the library call the logger only
  for its message, so their models write the value of the macro at the call site; the lemmas here say that this is all the caller can see.
\<close>

section \<open>The logger\<close>

definition LOG_FAIL :: int where "LOG_FAIL = -1"
definition LOG_NONE :: int where "LOG_NONE = 0"
definition LOG_FATAL :: int where "LOG_FATAL = 1"
definition LOG_ERROR :: int where "LOG_ERROR = 2"
definition LOG_INFO :: int where "LOG_INFO = 3"
definition LOG_DEBUG :: int where "LOG_DEBUG = 4"

lemmas log_levels = LOG_NONE_def LOG_FATAL_def LOG_ERROR_def LOG_INFO_def LOG_DEBUG_def

text \<open>
  A stream is a number, \<open>NULL\<close> is \<open>None\<close>. \<open>lg_exit\<close> is set when the process has ended with \<open>exit(1)\<close>, \<open>lg_fault\<close> when a message has been
  written to the \<open>NULL\<close> stream the logger starts with.
\<close>

record logger =
  lg_fd :: "nat option"
  lg_level :: int
  lg_out :: "nat \<Rightarrow> byte list"
  lg_exit :: bool
  lg_fault :: bool

definition log_start :: "(nat \<Rightarrow> byte list) \<Rightarrow> logger" where
  "log_start out = \<lparr>lg_fd = None, lg_level = 0, lg_out = out, lg_exit = False, lg_fault = False\<rparr>"

definition stderr_fd :: nat where "stderr_fd = 2"

definition log_init :: "nat option \<Rightarrow> int \<Rightarrow> logger \<Rightarrow> logger" where
  "log_init dst level lg = lg\<lparr>lg_fd := (if dst = None then Some stderr_fd else dst), lg_level := level\<rparr>"

definition int_text :: "int \<Rightarrow> byte list" where
  "int_text n = (if n < 0 then 45 # dec_digits (nat (- n)) else dec_digits (nat n))"

definition who_of :: "int \<Rightarrow> byte list option" where
  "who_of what =
     (if what = LOG_FATAL then Some (str ''FATAL'') else if what = LOG_ERROR then Some (str ''ERROR'')
      else if what = LOG_INFO then Some (str ''INFO'') else if what = LOG_DEBUG then Some (str ''DEBUG'') else None)"

definition log_line :: "(int \<Rightarrow> byte list) \<Rightarrow> byte list option \<Rightarrow> int \<Rightarrow> byte list option \<Rightarrow> int \<Rightarrow> int \<Rightarrow> byte list option \<Rightarrow> byte list \<Rightarrow> byte list" where
  "log_line strerror file line func ec what who t =
     (case (if who = None then who_of what else who) of None \<Rightarrow> [] | Some w \<Rightarrow> [91] @ w @ [93, 32]) @
     (case (file, func) of
        (Some f, Some g) \<Rightarrow> if what \<noteq> 0 then f @ [58] @ int_text line @ [32, 40] @ g @ [41, 58, 32] else f @ [58, 32] @ g @ [58, 32]
      | _ \<Rightarrow> []) @
     t @
     (if ec \<noteq> 0 then [58, 32] @ strerror ec @ str '' (errno: '' @ int_text ec @ [41] else []) @ [10]"

definition log_message :: "(int \<Rightarrow> byte list) \<Rightarrow> byte list option \<Rightarrow> int \<Rightarrow> byte list option \<Rightarrow> int \<Rightarrow> int \<Rightarrow> byte list option \<Rightarrow> byte list \<Rightarrow> logger \<Rightarrow> logger" where
  "log_message strerror file line func ec what who t lg =
     (case lg_fd lg of
        None \<Rightarrow> lg\<lparr>lg_fault := True\<rparr>
      | Some fd \<Rightarrow> lg\<lparr>lg_out := (lg_out lg)(fd := lg_out lg fd @ log_line strerror file line func ec what who t), lg_exit := lg_exit lg \<or> what = LOG_FATAL\<rparr>)"

section \<open>Macros\<close>

record place =
  pl_file :: "byte list"
  pl_line :: int
  pl_func :: "byte list"

definition log_here :: "(int \<Rightarrow> byte list) \<Rightarrow> place \<Rightarrow> int \<Rightarrow> int \<Rightarrow> byte list \<Rightarrow> logger \<Rightarrow> logger" where
  "log_here strerror pl ec what t = log_message strerror (Some (pl_file pl)) (pl_line pl) (Some (pl_func pl)) ec what None t"

definition log_msg :: "(int \<Rightarrow> byte list) \<Rightarrow> byte list \<Rightarrow> logger \<Rightarrow> logger" where
  "log_msg strerror t lg = log_message strerror None 0 None 0 LOG_NONE None t lg"

definition log_info :: "(int \<Rightarrow> byte list) \<Rightarrow> byte list option \<Rightarrow> byte list \<Rightarrow> logger \<Rightarrow> logger" where
  "log_info strerror who t lg = (if lg_level lg \<ge> LOG_INFO then log_message strerror None 0 None 0 LOG_INFO who t lg else lg)"

definition log_info_rc :: "(int \<Rightarrow> byte list) \<Rightarrow> byte list option \<Rightarrow> int \<Rightarrow> byte list \<Rightarrow> logger \<Rightarrow> int \<times> logger" where
  "log_info_rc strerror who rc t lg = (rc, log_info strerror who t lg)"

definition log_cmd_err :: "(int \<Rightarrow> byte list) \<Rightarrow> byte list \<Rightarrow> byte list \<Rightarrow> byte list \<Rightarrow> logger \<Rightarrow> int \<times> logger" where
  "log_cmd_err strerror cmd opt t lg = (LOG_FAIL, log_message strerror (Some cmd) 0 (Some opt) 0 LOG_NONE (Some (str ''ERROR'')) t lg)"

definition log_debug :: "(int \<Rightarrow> byte list) \<Rightarrow> place \<Rightarrow> byte list \<Rightarrow> logger \<Rightarrow> logger" where
  "log_debug strerror pl t lg = (if lg_level lg \<ge> LOG_DEBUG then log_here strerror pl 0 LOG_DEBUG t lg else lg)"

definition log_debug_rc :: "(int \<Rightarrow> byte list) \<Rightarrow> place \<Rightarrow> int \<Rightarrow> byte list \<Rightarrow> logger \<Rightarrow> int \<times> logger" where
  "log_debug_rc strerror pl rc t lg = (rc, log_debug strerror pl t lg)"

definition log_ec :: "(int \<Rightarrow> byte list) \<Rightarrow> place \<Rightarrow> int \<Rightarrow> byte list \<Rightarrow> logger \<Rightarrow> logger" where
  "log_ec strerror pl ec t lg = (if lg_level lg \<ge> LOG_ERROR then log_here strerror pl ec LOG_ERROR t lg else lg)"

definition log_ec_rf :: "(int \<Rightarrow> byte list) \<Rightarrow> place \<Rightarrow> int \<Rightarrow> byte list \<Rightarrow> logger \<Rightarrow> int \<times> logger" where
  "log_ec_rf strerror pl ec t lg = (LOG_FAIL, log_ec strerror pl ec t lg)"

text \<open>The variants of \<open>log_error\<close> have no error number, those of \<open>log_errno\<close> the value of \<open>errno\<close>.\<close>

definition log_error :: "(int \<Rightarrow> byte list) \<Rightarrow> place \<Rightarrow> byte list \<Rightarrow> logger \<Rightarrow> logger" where
  "log_error strerror pl t lg = (if lg_level lg \<ge> LOG_ERROR then log_here strerror pl 0 LOG_ERROR t lg else lg)"

definition log_error_rf :: "(int \<Rightarrow> byte list) \<Rightarrow> place \<Rightarrow> byte list \<Rightarrow> logger \<Rightarrow> int \<times> logger" where
  "log_error_rf strerror pl t lg = (LOG_FAIL, log_error strerror pl t lg)"

definition log_error_rc :: "(int \<Rightarrow> byte list) \<Rightarrow> place \<Rightarrow> int \<Rightarrow> byte list \<Rightarrow> logger \<Rightarrow> int \<times> logger" where
  "log_error_rc strerror pl rc t lg = (rc, log_error strerror pl t lg)"

definition log_error_rz :: "(int \<Rightarrow> byte list) \<Rightarrow> place \<Rightarrow> byte list \<Rightarrow> logger \<Rightarrow> int \<times> logger" where
  "log_error_rz strerror pl t lg = (0, log_error strerror pl t lg)"

definition log_error_rn :: "(int \<Rightarrow> byte list) \<Rightarrow> place \<Rightarrow> byte list \<Rightarrow> logger \<Rightarrow> 'a option \<times> logger" where
  "log_error_rn strerror pl t lg = (None, log_error strerror pl t lg)"

definition log_error_rv :: "(int \<Rightarrow> byte list) \<Rightarrow> place \<Rightarrow> byte list \<Rightarrow> logger \<Rightarrow> logger" where
  "log_error_rv strerror pl t lg = (if lg_level lg \<ge> LOG_ERROR then log_here strerror pl 0 LOG_ERROR t lg else lg)"

definition log_errno :: "(int \<Rightarrow> byte list) \<Rightarrow> place \<Rightarrow> int \<Rightarrow> byte list \<Rightarrow> logger \<Rightarrow> logger" where
  "log_errno strerror pl errno t lg = (if lg_level lg \<ge> LOG_ERROR then log_here strerror pl errno LOG_ERROR t lg else lg)"

definition log_errno_rf :: "(int \<Rightarrow> byte list) \<Rightarrow> place \<Rightarrow> int \<Rightarrow> byte list \<Rightarrow> logger \<Rightarrow> int \<times> logger" where
  "log_errno_rf strerror pl errno t lg = (LOG_FAIL, log_errno strerror pl errno t lg)"

definition log_errno_rc :: "(int \<Rightarrow> byte list) \<Rightarrow> place \<Rightarrow> int \<Rightarrow> int \<Rightarrow> byte list \<Rightarrow> logger \<Rightarrow> int \<times> logger" where
  "log_errno_rc strerror pl errno rc t lg = (rc, log_errno strerror pl errno t lg)"

definition log_errno_rn :: "(int \<Rightarrow> byte list) \<Rightarrow> place \<Rightarrow> int \<Rightarrow> byte list \<Rightarrow> logger \<Rightarrow> 'a option \<times> logger" where
  "log_errno_rn strerror pl errno t lg = (None, log_errno strerror pl errno t lg)"

definition log_errno_rv :: "(int \<Rightarrow> byte list) \<Rightarrow> place \<Rightarrow> int \<Rightarrow> byte list \<Rightarrow> logger \<Rightarrow> logger" where
  "log_errno_rv strerror pl errno t lg = (if lg_level lg \<ge> LOG_ERROR then log_here strerror pl errno LOG_ERROR t lg else lg)"

definition fatal_error :: "(int \<Rightarrow> byte list) \<Rightarrow> place \<Rightarrow> byte list \<Rightarrow> logger \<Rightarrow> logger" where
  "fatal_error strerror pl t lg = log_here strerror pl 0 LOG_FATAL t lg"

definition fatal_errno :: "(int \<Rightarrow> byte list) \<Rightarrow> place \<Rightarrow> int \<Rightarrow> byte list \<Rightarrow> logger \<Rightarrow> logger" where
  "fatal_errno strerror pl errno t lg = log_here strerror pl errno LOG_FATAL t lg"

fun log_argv_loop :: "(int \<Rightarrow> byte list) \<Rightarrow> byte list \<Rightarrow> nat \<Rightarrow> byte list list \<Rightarrow> logger \<Rightarrow> logger" where
  "log_argv_loop strerror what i [] lg = lg"
| "log_argv_loop strerror what i (a # argv) lg =
     log_argv_loop strerror what (i + 1) argv (log_info strerror (Some what) (str ''argv['' @ dec_digits i @ str '']='' @ a) lg)"

definition log_argv :: "(int \<Rightarrow> byte list) \<Rightarrow> byte list \<Rightarrow> byte list list \<Rightarrow> logger \<Rightarrow> logger" where
  "log_argv strerror what argv lg = log_argv_loop strerror what 0 argv lg"

section \<open>What a caller can see\<close>

lemmas log_macros = log_msg_def log_info_def log_info_rc_def log_cmd_err_def log_debug_def log_debug_rc_def log_ec_def log_ec_rf_def log_error_def
  log_error_rf_def log_error_rc_def log_error_rz_def log_error_rn_def log_errno_def log_errno_rf_def log_errno_rc_def log_errno_rn_def log_here_def

text \<open>
  After \<open>log_init\<close> a message is appended as a whole to the stream of the logger and to no other, its last byte is a line end, and no message but a fatal one ends the
  process. Before it, every message is written to \<open>NULL\<close>.
\<close>

lemma log_appends:
  "lg_fd lg = Some fd \<Longrightarrow> lg_out (log_message strerror file line func ec what who t lg) = (lg_out lg)(fd := lg_out lg fd @ log_line strerror file line func ec what who t)"
  by (simp add: log_message_def)

lemma log_line_ends: "last (log_line strerror file line func ec what who t) = 10"
  by (simp add: log_line_def)

lemma log_keeps_set:
  "lg_fd (log_message strerror file line func ec what who t lg) = lg_fd lg" "lg_level (log_message strerror file line func ec what who t lg) = lg_level lg"
  by (simp_all add: log_message_def split: option.split)

lemma log_before_init: "lg_fault (log_message strerror file line func ec what who t (log_start out))"
  by (simp add: log_message_def log_start_def)

lemma log_no_fault: "lg_fd lg \<noteq> None \<Longrightarrow> lg_fault (log_message strerror file line func ec what who t lg) = lg_fault lg"
  by (auto simp: log_message_def)

lemma log_init_fd: "lg_fd (log_init dst level lg) \<noteq> None"
  by (simp add: log_init_def)

lemma log_keeps_running:
  "lg_exit (log_error strerror pl t lg) = lg_exit lg" "lg_exit (log_errno strerror pl ec t lg) = lg_exit lg" "lg_exit (log_info strerror who t lg) = lg_exit lg"
  "lg_exit (log_debug strerror pl t lg) = lg_exit lg" "lg_exit (snd (log_cmd_err strerror c opt t lg)) = lg_exit lg"
  by (simp_all add: log_macros log_message_def log_levels split: option.split)

lemma fatal_exits:
  assumes "lg_fd lg \<noteq> None"
  shows "lg_exit (fatal_error strerror pl t lg)" "lg_exit (fatal_errno strerror pl ec t lg)"
  using assms by (auto simp: fatal_error_def fatal_errno_def log_here_def log_message_def)

text \<open>At a level below \<open>LOG_ERROR\<close> the macros write nothing, except for \<open>log_msg\<close> and \<open>log_cmd_err\<close>, which do not look at the level.\<close>

lemma log_silent: "lg_level lg < LOG_ERROR \<Longrightarrow> log_error strerror pl t lg = lg \<and> log_errno strerror pl ec t lg = lg \<and> log_info strerror who t lg = lg \<and> log_debug strerror pl t lg = lg"
  by (simp add: log_macros log_levels)

lemma log_argv_lines:
  assumes "lg_level lg \<ge> LOG_INFO" "lg_fd lg = Some fd"
  shows "lg_out (log_argv_loop strerror what i argv lg) fd =
     lg_out lg fd @ concat (map (\<lambda>(k, a). [91] @ what @ [93, 32] @ str ''argv['' @ dec_digits k @ str '']='' @ a @ [10]) (zip [i..<i + length argv] argv))"
  using assms
proof (induction argv arbitrary: i lg)
  case (Cons a argv)
  let ?lg = "log_info strerror (Some what) (str ''argv['' @ dec_digits i @ str '']='' @ a) lg"
  have "lg_level ?lg = lg_level lg" "lg_fd ?lg = lg_fd lg"
      "lg_out ?lg fd = lg_out lg fd @ [91] @ what @ [93, 32] @ str ''argv['' @ dec_digits i @ str '']='' @ a @ [10]"
    using Cons.prems by (simp_all add: log_info_def log_message_def log_line_def)
  moreover have "[i..<i + length (a # argv)] = i # [i + 1..<i + 1 + length argv]" by (subst upt_rec) simp
  ultimately show ?case using Cons.IH [of ?lg "i + 1"] Cons.prems by (simp del: upt_Suc)
qed simp

end
