(* ===== verification/Spec2Isabelle.thy ===== *)
theory Spec2Isabelle
  imports Str_Codec Sbuf Str_Util Inet Dns_Proto Dns_Name Dns_Store Dns_Decode Dns_Load Dns_Validate Dns_Overflow Dns_Encode Dns_Enc_Name Dns_Roundtrip Pcap_File
    Insp Cbpf Ebpf Insp_Props Xsk Cmd_Line Dns_Print Dns_Gen Gen_Props Capture Insp_Main Insp_Main_Props Xsk_Live Log
begin

text \<open>
  \<^bold>\<open>A DNS packet sniffer, inspector and generator.\<close>

  The program is C without third-party libraries: a DNS message codec (\<open>src/src/dns_proto.h\<close>, \<open>dns_proto.c\<close>), a packet capture file
  API (\<open>pcap.h\<close>, \<open>pcap.c\<close>), string and number helpers (\<open>str_util.h\<close>, \<open>str_util.c\<close>), options, child processes and signals (\<open>util.h\<close>,
  \<open>util.c\<close>), logging (\<open>log.h\<close>, \<open>log.c\<close>), and two programs over them. \<open>dns-insp\<close> (\<open>dns_insp.c\<close>, with the kernel filter
  \<open>src/ebpf/filter.c\<close>) takes Ethernet frames from a capture file or an interface, finds the DNS message in them and validates it;
  \<open>dns-gen\<close> (\<open>dns_gen.c\<close>) builds DNS messages and sends them or writes them to capture files.

  \<^bold>\<open>Conventions.\<close> Memory is explicit: a C array is a list of bytes, a pointer into it an offset, and
  reading or writing outside makes the result \<open>None\<close> (\<open>mem_read\<close>, \<open>mem_write\<close> in \<open>Prelude\<close>). A theorem
  that a function returns \<open>Some\<close> is therefore a theorem of memory safety. Integers have the width of the
  source (\<open>u8\<close>, \<open>u16\<close>, \<open>u32\<close>, \<open>u64\<close>) wherever it can wrap; error codes are the \<open>int\<close>s of the source.
  Loops are functions with a termination proof; where the C loop is bounded by a counter of the source
  (17 compression jumps, 16-bit record counts) the recursion follows that counter. Fuel is used twice: by the driver
  \<open>pcap_loop\<close>, whose theorems say that one call more than there are packets is enough, and by the eBPF interpreter \<open>ebpf_run\<close>, for which
  48 steps are shown to be enough on every packet.

  \<^bold>\<open>The library: theories and sources.\<close>

  \<^item> \<open>Prelude\<close>: machine words, memory, C strings, \<open>snprintf\<close> into a bounded buffer.
  \<^item> \<open>Str_Codec\<close>: \<open>enc_u16\<close>, \<open>dec_u16\<close>, \<open>uint8_toa\<close>, \<open>itoa\<close>, ... of \<open>str_util.h\<close> and \<open>util.c\<close>; the locale
    \<open>byte_codec\<close> is the contract of a fixed-width codec, interpreted for 16 and 32 bits.
  \<^item> \<open>Sbuf\<close>: \<open>struct sbuf\<close>; the locale \<open>reserve\<close> is the contract of reserving space in a bounded buffer,
    interpreted here for \<open>sbuf_mksp\<close> and in \<open>Dns_Encode\<close> for \<open>dns_enc_mkspace\<close>.
  \<^item> \<open>Str_Util\<close>: strings and slices; the locale \<open>string_compare\<close> covers \<open>str_cmp\<close> and \<open>str_casecmp\<close>.
  \<^item> \<open>Inet\<close>: IPv4 and IPv6 addresses as text.
  \<^item> \<open>Cmd_Line\<close>: option tables, \<open>cmd_argv_next\<close>, setters, usage texts, \<open>run_cmd\<close>, signals and capabilities of \<open>util.c\<close>; the locale
    \<open>option_table\<close> is what the programs rely on when they parse their arguments.
  \<^item> \<open>Log\<close>: the logger and its macros. The other theories write the value of a macro at the call site, which is all a caller sees of it.

  \<^bold>\<open>The DNS codec.\<close>

  \<^item> \<open>Dns_Proto\<close>: constants, tables and the message state of \<open>dns_proto.h\<close>.
  \<^item> \<open>Dns_Name\<close>: \<open>decode_name\<close> against a declarative definition of the RFC 1035 wire format.
  \<^item> \<open>Dns_Store\<close>: the string heap of a message and \<open>dns_add_qd\<close>, \<open>dns_add_rr\<close>; the locale \<open>name_store\<close> is
    what the users of the heap rely on.
  \<^item> \<open>Dns_Decode\<close>, \<open>Dns_Load\<close>, \<open>Dns_Validate\<close>: the decoder in its two modes, \<open>dns_msg_decode\<close> and \<open>dns_validate\<close>, and the memory
    safety of each. \<open>Dns_Overflow\<close>: a packet with which the validator leaves its scratch buffer.
  \<^item> \<open>Dns_Encode\<close>, \<open>Dns_Enc_Name\<close>: the encoder, its memory safety, names with suffix compression.
  \<^item> \<open>Dns_Roundtrip\<close>: encoder and decoder together.
  \<^item> \<open>Dns_Print\<close>: text for the terminal.

  \<^bold>\<open>Capture files.\<close> \<open>Pcap\<close>, \<open>Pcap_Format\<close>, \<open>Pcap_File\<close>: legacy pcap and pcapng; \<open>capture_format\<close> and \<open>capture_writer\<close> are the contracts
  the formats meet for the read loop and for writing.

  \<^bold>\<open>The inspector.\<close>

  \<^item> \<open>Insp\<close>, \<open>Insp_Props\<close>: \<open>insp_process_pkt\<close> against the grammar \<open>dns_frame\<close> of Ethernet, VLAN, IP and UDP headers; reading capture files.
  \<^item> \<open>Cbpf\<close>, \<open>Ebpf\<close>: the classic filter, the C source of the XDP filter and its bytecode table, with interpreters for the instructions used.
  \<^item> \<open>Xsk\<close>, \<open>Xsk_Live\<close>: the AF_XDP rings and the loop \<open>capture_xdp\<close> as a step relation interleaved with the kernel; the locale \<open>pow2_ring\<close> is
    the index arithmetic of a ring whose size is a power of two.
  \<^item> \<open>Capture\<close>: \<open>capture_raw\<close> and \<open>capture_mmap\<close>.
  \<^item> \<open>Insp_Main\<close>, \<open>Insp_Main_Props\<close>: arguments, set-up of sockets, rings, maps, filters and the traffic mirror, clean-up and \<open>main\<close>, over a log of system calls.

  \<^bold>\<open>The generator.\<close> \<open>Dns_Gen\<close>, \<open>Gen_Props\<close>: arguments, queries, responses, fuzz messages, capture files, and what the inspector makes of them.

  \<^bold>\<open>What is shown.\<close> The decoder of names accepts exactly the wire format within its limits; the decoder, the validator
  and the encoder touch no memory outside their objects (with the slack their faults need, which is part
  of the statements); adding records refines appending to a list; encoding and decoding are inverse on
  names and on queries; addresses, numbers and buffers meet their specifications; capture files are read
  safely whatever they contain, and what is written is read back. The inspector recognises exactly the DNS frames; the eBPF table
  implements its source; both filters let all untagged DNS frames pass. In the XDP loop every chunk has one owner, frames arrive in order and
  unchanged, and every turn can be finished. A raw capture is complete, the mapped ring is delivered in order, and \<open>dns-insp\<close> releases
  every descriptor, mapping and device on every path. What \<open>dns-gen\<close> sends decodes to the question it was asked for, and its fuzz files are rejected by
  \<open>dns-insp\<close>. Faults of the code that a theorem pins down are properties too (kind \<open>error\<close>).

  \<^bold>\<open>Parameters and assumptions.\<close> The host is little-endian. What lies outside the program is a parameter:

  \<^item> the C library stream, the clocks and memory allocation are the environment \<open>pcap_env\<close> of \<open>Pcap\<close>; \<open>strdup\<close> is an argument of the setters;
  \<^item> the kernel of \<open>Xsk\<close> is any relation with \<open>kernel_contract\<close>, the documented ownership of chunks and rings;
  \<^item> the answers of \<open>recvmmsg\<close> and \<open>poll\<close> in \<open>Capture\<close> are lists of rounds and turns, which end when a signal clears \<open>sig.run\<close>;
  \<^item> the system of \<open>Insp_Main\<close> is a function from the log of calls to the answer, with \<open>os_contract\<close> (\<open>socket\<close> answers a
    descriptor or -1, and no mapping lies at address 0);
  \<^item> sockets, time and random numbers of \<open>Dns_Gen\<close> are the record \<open>net\<close>; a child process of \<open>run_cmd\<close> is the function \<open>spawn\<close>.

  \<^bold>\<open>Not modelled.\<close> What a child process does after \<open>fork\<close>; the double arithmetic of \<open>time_diff_ms\<close>, which only a printed line uses; the
  trace lines of \<open>pcap.c\<close>; the macro \<open>log_msg_rf\<close>, which does not compile; the macros of \<open>macros.h\<close>, which are expanded at their uses.
\<close>

end
